(* ===== verification/Prelude.thy ===== *)
theory Prelude
  imports Main "HOL-Library.Word" "HOL-Library.AList"
begin

text \<open>
  Shared vocabulary of the development: the Go values, errors and slices the bridge
  works with, and the generic lemmas on lists, results and little-endian words that
  the component theories use.

  \<^item> \<open>go_error\<close> has one constructor per error the sources construct, return or
    raise; \<open>Panic\<close> is a Go run-time panic and \<open>Fatal e\<close> is \<open>log.Fatal(e)\<close>
    (the process exits).
  \<^item> \<open>gval\<close> is the \<open>interface{}\<close> values that occur in \<open>Packet.Data\<close>.
  \<^item> \<open>slice\<close> is a Go byte slice with the bytes of its backing array beyond its
    length, because reslicing is bounded by the capacity and not by the length.
  \<^item> \<open>runtime\<close> collects what the Go specification leaves to the implementation or to
    the Unicode tables: the model takes it as a parameter.
\<close>

unbundle bit_operations_syntax

named_theorems res_simps \<open>computation rules of the result type\<close>
named_theorems wire_simps \<open>lengths and round trips of the byte encodings\<close>

type_synonym byte = "8 word"
type_synonym bytes = "byte list"

section \<open>Errors and results\<close>

datatype go_error =
    NotFoundID "32 word"
  | NotFoundName string
  | NotFoundFieldType string
  | NotFoundFieldName string
  | MetaOfMeta
  | EnumOptionNotFound string
  | BadTypeInfo
  | ShouldBeMap string
  | WrongCrc8
  | WrongRuneCount nat
  | CharsetNotFound string
  | NoSuitableDevice
  | IOError string
  | EOF
  | UnexpectedEOF
  | Panic
  | Fatal go_error

type_synonym 'a res = "go_error + 'a"

definition res_bind :: "'a res \<Rightarrow> ('a \<Rightarrow> 'b res) \<Rightarrow> 'b res" where
  "res_bind m f = (case m of Inl e \<Rightarrow> Inl e | Inr x \<Rightarrow> f x)"

lemma res_bind_Inl [simp, res_simps]: "res_bind (Inl e) f = Inl e"
  by (simp add: res_bind_def)

lemma res_bind_Inr [simp, res_simps]: "res_bind (Inr x) f = f x"
  by (simp add: res_bind_def)

lemma res_bind_eq_Inr [simp]: "res_bind m f = Inr y \<longleftrightarrow> (\<exists>x. m = Inr x \<and> f x = Inr y)"
  by (cases m) auto

lemma res_bind_eq_Inl:
  "res_bind m f = Inl e \<longleftrightarrow> m = Inl e \<or> (\<exists>x. m = Inr x \<and> f x = Inl e)"
  by (cases m) auto

lemma res_bind_assoc [simp]: "res_bind (res_bind m f) g = res_bind m (\<lambda>x. res_bind (f x) g)"
  by (cases m) auto

lemma res_bind_cong [fundef_cong]:
  "m = m' \<Longrightarrow> (\<And>x. m' = Inr x \<Longrightarrow> f x = g x) \<Longrightarrow> res_bind m f = res_bind m' g"
  by (cases m') auto

text \<open>A pointer that may be nil is an option; dereferencing nil panics.\<close>

definition deref :: "'a option \<Rightarrow> 'a res" where
  "deref p = (case p of None \<Rightarrow> Inl Panic | Some x \<Rightarrow> Inr x)"

lemma deref_simps [simp, res_simps]: "deref None = Inl Panic" "deref (Some x) = Inr x"
  by (simp_all add: deref_def)

lemma deref_eq_Inr [simp]: "deref p = Inr x \<longleftrightarrow> p = Some x"
  by (cases p) auto

text \<open>\<open>log.Fatal\<close> on every error a call returns; a panic, or an exit below, stays what it is.\<close>

definition or_fatal :: "'a res \<Rightarrow> 'a res" where
  "or_fatal m =
     (case m of Inl Panic \<Rightarrow> Inl Panic | Inl (Fatal e) \<Rightarrow> Inl (Fatal e)
      | Inl e \<Rightarrow> Inl (Fatal e) | Inr x \<Rightarrow> Inr x)"

lemma or_fatal_Inr [simp]: "or_fatal (Inr x) = Inr x"
  by (simp add: or_fatal_def)

lemma or_fatal_eq_Inr [simp]: "or_fatal m = Inr x \<longleftrightarrow> m = Inr x"
  by (cases m) (auto simp: or_fatal_def split: go_error.splits)

text \<open>A loop over a slice whose body may return an error: stop at the first error.\<close>

fun map_res :: "('a \<Rightarrow> 'b res) \<Rightarrow> 'a list \<Rightarrow> 'b list res" where
  "map_res f [] = Inr []"
| "map_res f (x # xs) = res_bind (f x) (\<lambda>y. res_bind (map_res f xs) (\<lambda>ys. Inr (y # ys)))"

lemma map_res_Inr_iff: "map_res f xs = Inr ys \<longleftrightarrow> list_all2 (\<lambda>x y. f x = Inr y) xs ys"
  by (induction xs arbitrary: ys) (auto simp: list_all2_Cons1)

lemma map_res_length: "map_res f xs = Inr ys \<Longrightarrow> length ys = length xs"
  by (simp add: map_res_Inr_iff list_all2_lengthD)

lemma map_res_map: "map_res f (map g xs) = map_res (\<lambda>x. f (g x)) xs"
  by (induction xs) auto

lemma map_res_pure: "(\<And>x. x \<in> set xs \<Longrightarrow> f x = Inr (g x)) \<Longrightarrow> map_res f xs = Inr (map g xs)"
  by (induction xs) auto

section \<open>Searching a slice for its first match\<close>

text \<open>
  The sources repeat one loop: \<open>for i, x := range xs { if P(x) { return ... } }\<close>.
\<close>

fun find_first :: "('a \<Rightarrow> bool) \<Rightarrow> 'a list \<Rightarrow> nat option" where
  "find_first P [] = None"
| "find_first P (x # xs) = (if P x then Some 0 else map_option Suc (find_first P xs))"

lemma find_first_None_iff: "find_first P xs = None \<longleftrightarrow> (\<forall>x\<in>set xs. \<not> P x)"
  by (induction xs) auto

lemma find_first_SomeD:
  "find_first P xs = Some i \<Longrightarrow> i < length xs \<and> P (xs ! i) \<and> (\<forall>j<i. \<not> P (xs ! j))"
proof (induction xs arbitrary: i)
  case (Cons x xs)
  show ?case
  proof (cases "P x")
    case True
    with Cons.prems show ?thesis by simp
  next
    case False
    with Cons.prems obtain k where "find_first P xs = Some k" and "i = Suc k" by auto
    with Cons.IH [of k] False show ?thesis by (auto simp: nth_Cons split: nat.splits)
  qed
qed simp

lemma find_first_SomeI:
  "i < length xs \<Longrightarrow> P (xs ! i) \<Longrightarrow> (\<And>j. j < i \<Longrightarrow> \<not> P (xs ! j)) \<Longrightarrow> find_first P xs = Some i"
proof (induction xs arbitrary: i)
  case (Cons x xs)
  show ?case
  proof (cases i)
    case 0
    with Cons.prems show ?thesis by simp
  next
    case (Suc k)
    have "\<not> P x" using Cons.prems(3) [of 0] Suc by simp
    moreover have "find_first P xs = Some k"
      using Cons.prems(1,2) Suc Cons.prems(3) [of "Suc _"] by (intro Cons.IH) auto
    ultimately show ?thesis using Suc by simp
  qed
qed simp

lemma find_first_Some_iff:
  "find_first P xs = Some i \<longleftrightarrow> i < length xs \<and> P (xs ! i) \<and> (\<forall>j<i. \<not> P (xs ! j))"
  using find_first_SomeD find_first_SomeI by metis

lemma find_first_append_left:
  "find_first P xs = Some i \<Longrightarrow> find_first P (xs @ ys) = Some i"
  by (induction xs arbitrary: i) (auto split: if_splits)

lemma find_first_ex: "x \<in> set xs \<Longrightarrow> P x \<Longrightarrow> \<exists>i. find_first P xs = Some i"
  using find_first_None_iff [of P xs] by auto

lemma find_first_map: "find_first (\<lambda>x. P (f x)) xs = find_first P (map f xs)"
  by (induction xs) auto

lemma find_first_distinct:
  assumes "distinct (map f xs)" and "i < length xs"
  shows "find_first (\<lambda>x. f x = f (xs ! i)) xs = Some i"
  using assms by (intro find_first_SomeI) (auto simp: distinct_conv_nth)

section \<open>Go values\<close>

text \<open>
  A Go map is an association list, read by \<open>map_of\<close> and written by \<open>AList.update\<close>:
  the sources never iterate over one. \<open>GF64\<close> and \<open>GF32\<close> carry the IEEE-754 bits.
\<close>

datatype gval =
    GNil
  | GU8 "8 word"
  | GU16 "16 word"
  | GU32 "32 word"
  | GI32 "32 word"
  | GF32 "32 word"
  | GF64 "64 word"
  | GStr string
  | GArr "gval list"
  | GMap "(string \<times> gval) list"

type_synonym gmap = "(string \<times> gval) list"

text \<open>Reading a missing key of a \<open>map[string]interface{}\<close> yields the nil interface.\<close>

definition gmap_get :: "gmap \<Rightarrow> string \<Rightarrow> gval" where
  "gmap_get m k = (case map_of m k of None \<Rightarrow> GNil | Some v \<Rightarrow> v)"

lemma gmap_get_update [simp]:
  "gmap_get (AList.update k v m) k' = (if k' = k then v else gmap_get m k')"
  by (simp add: gmap_get_def update_conv')

section \<open>What the Go implementation decides\<close>

text \<open>
  \<open>rt_conv lo hi f\<close> is the result of converting the double \<open>f\<close> to an integer type
  with range \<open>lo..hi\<close> when its truncation is outside that range (the conversion
  "succeeds but the result is implementation-dependent"); \<open>rt_nan32\<close> is the
  single-precision NaN a double NaN narrows to; \<open>rt_lower\<close> and \<open>rt_upper\<close> are
  \<open>strings.ToLower\<close> and \<open>strings.ToUpper\<close> on strings with a byte outside ASCII;
  \<open>rt_fmt\<close> is what \<open>fmt.Fprintf\<close> prints for a format that contains a \<open>%\<close> directive
  and no operands.
\<close>

record runtime =
  rt_conv :: "int \<Rightarrow> int \<Rightarrow> 64 word \<Rightarrow> int"
  rt_nan32 :: "64 word \<Rightarrow> 32 word"
  rt_lower :: "string \<Rightarrow> string"
  rt_upper :: "string \<Rightarrow> string"
  rt_fmt :: "string \<Rightarrow> string"

section \<open>Strings\<close>

definition ascii :: "string \<Rightarrow> bool" where
  "ascii s = list_all (\<lambda>c. of_char c < (128::nat)) s"

definition lower_char :: "char \<Rightarrow> char" where
  "lower_char c = (let n = of_char c :: nat in if 65 \<le> n \<and> n \<le> 90 then char_of (n + 32) else c)"

definition upper_char :: "char \<Rightarrow> char" where
  "upper_char c = (let n = of_char c :: nat in if 97 \<le> n \<and> n \<le> 122 then char_of (n - 32) else c)"

definition ToLower :: "runtime \<Rightarrow> string \<Rightarrow> string" where
  "ToLower rt s = (if ascii s then map lower_char s else rt_lower rt s)"

definition ToUpper :: "runtime \<Rightarrow> string \<Rightarrow> string" where
  "ToUpper rt s = (if ascii s then map upper_char s else rt_upper rt s)"

definition HasPrefix :: "string \<Rightarrow> string \<Rightarrow> bool" where
  "HasPrefix s p \<longleftrightarrow> take (length p) s = p"

definition str_bytes :: "string \<Rightarrow> bytes" where
  "str_bytes s = map (\<lambda>c. word_of_nat (of_char c)) s"

definition bytes_str :: "bytes \<Rightarrow> string" where
  "bytes_str bs = map (\<lambda>b. char_of (unat b)) bs"

lemma str_bytes_bytes_str [simp]: "str_bytes (bytes_str bs) = bs"
proof -
  have "word_of_nat (of_char (char_of (unat b) :: char)) = b" for b :: byte
    by (simp add: take_bit_eq_mod unsigned_less [where 'b = 8 and 'a = nat, simplified])
  then show ?thesis by (simp add: str_bytes_def bytes_str_def comp_def)
qed

lemma bytes_str_str_bytes [simp]: "bytes_str (str_bytes s) = s"
proof -
  have "char_of (unat (word_of_nat (of_char c) :: byte)) = c" for c :: char
    by (simp add: unsigned_of_nat take_bit_nat_eq_self)
  then show ?thesis by (simp add: str_bytes_def bytes_str_def comp_def)
qed

text \<open>The digits of \<open>strconv.Itoa\<close>.\<close>

fun decimal :: "nat \<Rightarrow> string" where
  "decimal n = (if n < 10 then [char_of (48 + n)] else decimal (n div 10) @ [char_of (48 + n mod 10)])"

declare decimal.simps [simp del]

definition FormatInt :: "int \<Rightarrow> string" where
  "FormatInt i = (if i < 0 then CHR ''-'' # decimal (nat (- i)) else decimal (nat i))"

text \<open>\<open>fmt.Fprintf(w, s)\<close> with \<open>s\<close> as the format and no operands.\<close>

definition Fprintf :: "runtime \<Rightarrow> string \<Rightarrow> string" where
  "Fprintf rt s = (if CHR ''%'' \<in> set s then rt_fmt rt s else s)"

lemma lower_upper_char: "lower_char (upper_char c) = lower_char c"
  by (auto simp: lower_char_def upper_char_def Let_def)

lemma upper_char_ascii: "of_char c < (128::nat) \<Longrightarrow> of_char (upper_char c) < (128::nat)"
  by (auto simp: upper_char_def Let_def)

lemma ToLower_ToUpper: "ascii s \<Longrightarrow> ToLower rt (ToUpper rt s) = ToLower rt s"
  by (auto simp: ToLower_def ToUpper_def ascii_def list_all_iff lower_upper_char upper_char_ascii)

text \<open>\<open>strings.Split\<close> with a one-character separator; the result is never empty.\<close>

fun Split :: "char \<Rightarrow> string \<Rightarrow> string list" where
  "Split c [] = [[]]"
| "Split c (x # xs) =
     (if x = c then [] # Split c xs
      else (case Split c xs of [] \<Rightarrow> [[x]] | w # ws \<Rightarrow> (x # w) # ws))"

text \<open>\<open>strings.Replace(s, c # old, new, -1)\<close>: every non-overlapping occurrence from the left.\<close>

function Replace :: "char \<Rightarrow> string \<Rightarrow> string \<Rightarrow> string \<Rightarrow> string" where
  "Replace c old new [] = []"
| "Replace c old new (x # xs) =
     (if HasPrefix (x # xs) (c # old) then new @ Replace c old new (drop (length old) xs)
      else x # Replace c old new xs)"
  by pat_completeness auto
termination
  by (relation "measure (\<lambda>(c, old, new, s). length s)") auto

lemma Split_nonempty [simp]: "Split c s \<noteq> []"
  by (cases s) (auto split: list.splits)

lemma Split_no_sep: "w \<in> set (Split c s) \<Longrightarrow> c \<notin> set w"
proof (induction s arbitrary: w)
  case (Cons x xs)
  then show ?case by (cases "Split c xs") (auto split: if_splits)
qed simp

lemma length_Split: "length (Split c s) = Suc (count_list s c)"
proof (induction s)
  case (Cons x xs)
  then show ?case by (cases "Split c xs") auto
qed simp

lemma Replace_delete [simp]: "Replace c [] [] s = filter (\<lambda>x. x \<noteq> c) s"
  by (induction s) (auto simp: HasPrefix_def)

section \<open>Slices\<close>

record slice =
  vis :: bytes
  spare :: bytes

definition slice_index :: "slice \<Rightarrow> nat \<Rightarrow> byte res" where
  "slice_index s i = (if i < length (vis s) then Inr (vis s ! i) else Inl Panic)"

definition slice_range :: "slice \<Rightarrow> nat \<Rightarrow> nat \<Rightarrow> slice res" where
  "slice_range s lo hi =
     (if lo \<le> hi \<and> hi \<le> length (vis s @ spare s)
      then Inr \<lparr>vis = take (hi - lo) (drop lo (vis s @ spare s)), spare = drop hi (vis s @ spare s)\<rparr>
      else Inl Panic)"

section \<open>Little-endian words\<close>

text \<open>\<open>binary.Write\<close> and \<open>binary.Read\<close> with \<open>binary.LittleEndian\<close> on fixed-size values.\<close>

fun put_le :: "nat \<Rightarrow> 'a::len word \<Rightarrow> bytes" where
  "put_le 0 w = []"
| "put_le (Suc n) w = ucast w # put_le n (drop_bit 8 w)"

fun get_le :: "bytes \<Rightarrow> 'a::len word" where
  "get_le [] = 0"
| "get_le (b # bs) = ucast b OR push_bit 8 (get_le bs)"

lemma length_put_le [simp, wire_simps]: "length (put_le n w) = n"
  by (induction n arbitrary: w) auto

lemma get_put_le_take: "get_le (put_le n w) = take_bit (8 * n) (w :: 'a::len word)"
proof (induction n arbitrary: w)
  case (Suc n)
  show ?case
    by (rule bit_word_eqI) (auto simp: Suc bit_simps not_less)
qed simp

lemma get_put_le [simp, wire_simps]:
  "LENGTH('a) \<le> 8 * n \<Longrightarrow> get_le (put_le n w) = (w :: 'a::len word)"
  by (simp add: get_put_le_take take_bit_word_eq_self)

lemma bit_get_le: "bit (get_le bs :: 'a::len word) n \<Longrightarrow> n < 8 * length bs"
proof (induction bs arbitrary: n)
  case (Cons b bs)
  then consider "bit b n" | "8 \<le> n" "bit (get_le bs :: 'a word) (n - 8)"
    by (auto simp: bit_simps)
  then show ?case
  proof cases
    case 1
    then show ?thesis by (auto dest: bit_imp_le_length)
  next
    case 2
    with Cons.IH [of "n - 8"] show ?thesis by simp
  qed
qed simp

lemma put_get_le: "8 * length bs \<le> LENGTH('a) \<Longrightarrow> put_le (length bs) (get_le bs :: 'a::len word) = bs"
proof (induction bs)
  case (Cons b bs)
  let ?w = "ucast b OR push_bit 8 (get_le bs) :: 'a word"
  have "drop_bit 8 ?w = get_le bs"
  proof (rule bit_word_eqI)
    fix n
    assume "n < LENGTH('a)"
    show "bit (drop_bit 8 ?w) n = bit (get_le bs :: 'a word) n"
    proof (cases "bit (get_le bs :: 'a word) n")
      case True
      with bit_get_le [OF True] Cons.prems show ?thesis by (simp add: bit_simps)
    next
      case False
      then show ?thesis by (auto simp: bit_simps dest: bit_imp_le_length)
    qed
  qed
  moreover have "ucast ?w = b"
    using Cons.prems by (intro bit_word_eqI) (auto simp: bit_simps)
  ultimately show ?case using Cons by simp
qed simp

lemma put_get_le_n:
  "length bs = n \<Longrightarrow> 8 * n \<le> LENGTH('a) \<Longrightarrow> put_le n (get_le bs :: 'a::len word) = bs"
  using put_get_le [of bs, where 'a = 'a] by auto

text \<open>
  \<open>io.ReadFull\<close> under \<open>binary.Read\<close>: EOF when no byte is left, ErrUnexpectedEOF when
  there are too few.
\<close>

definition binary_Read :: "nat \<Rightarrow> bytes \<Rightarrow> (bytes \<times> bytes) res" where
  "binary_Read n bs =
     (if n \<le> length bs then Inr (take n bs, drop n bs)
      else if bs = [] then Inl EOF else Inl UnexpectedEOF)"

lemma binary_Read_append [simp, wire_simps]:
  "length xs = n \<Longrightarrow> binary_Read n (xs @ rest) = Inr (xs, rest)"
  by (simp add: binary_Read_def)

lemma binary_Read_eq_Inr:
  "binary_Read n bs = Inr (xs, rest) \<longleftrightarrow> length xs = n \<and> bs = xs @ rest"
  by (auto simp: binary_Read_def append_eq_conv_conj)

section \<open>The contract of a fixed-width codec\<close>

text \<open>
  A value type that occupies \<open>width\<close> bytes on the wire. Every scalar of the protocol
  is an instance; the sequence lemmas are proved once from the laws.
\<close>

locale fixed_codec =
  fixes width :: nat and enc :: "'v \<Rightarrow> bytes" and dec :: "bytes \<Rightarrow> 'v"
  assumes enc_width: "length (enc v) = width"
    and dec_enc: "dec (enc v) = v"
    and enc_dec: "length bs = width \<Longrightarrow> enc (dec bs) = bs"
begin

lemma read_back: "binary_Read width (enc v @ rest) = Inr (enc v, rest)"
  by (simp add: enc_width)

lemma enc_inj: "enc v = enc w \<longleftrightarrow> v = w"
  by (metis dec_enc)

lemma enc_concat_length: "length (concat (map enc vs)) = width * length vs"
  by (induction vs) (simp_all add: enc_width)

lemma enc_concat_inj: "length vs = length ws \<Longrightarrow> concat (map enc vs) = concat (map enc ws) \<longleftrightarrow> vs = ws"
  by (induction vs ws rule: list_induct2) (auto simp: enc_width enc_inj)

end

interpretation le8: fixed_codec 1 "put_le 1" "get_le :: bytes \<Rightarrow> 8 word"
  by unfold_locales (simp_all add: put_get_le_n del: put_le.simps One_nat_def)

interpretation le16: fixed_codec 2 "put_le 2" "get_le :: bytes \<Rightarrow> 16 word"
  by unfold_locales (simp_all add: put_get_le_n del: put_le.simps One_nat_def)

interpretation le32: fixed_codec 4 "put_le 4" "get_le :: bytes \<Rightarrow> 32 word"
  by unfold_locales (simp_all add: put_get_le_n del: put_le.simps One_nat_def)

end
