(* ===== verification/Definitions.thy ===== *)
theory Definitions
  imports Prelude
begin

text \<open>
  \<open>uavtalk/definitions.go\<close>: the descriptions of UAVObjects, their lookup by object id and
  by name, and the processing that follows the decoding of an XML file.

  A \<open>*Definition\<close> is its index in \<open>AllDefinitions\<close>: the sources compare definitions by
  pointer, and \<open>Meta\<close> and \<open>MetaFor\<close> link two of them. A \<open>*FieldTypeInfo\<close> that may still
  be nil is an option. The lemmas say what the lookups find, that \<open>FinishSetup\<close> succeeds
  on well-formed input, that its clone loop is a simultaneous substitution, and that the
  field order it leaves is the stable order by descending size.
\<close>

type_synonym defptr = nat

section \<open>Data\<close>

record FieldTypeInfo =
  tiIndex :: int
  tiName :: string
  tiSize :: int

definition TypeInfos :: "FieldTypeInfo list" where
  "TypeInfos =
     [\<lparr>tiIndex = 0, tiName = ''int8'', tiSize = 1\<rparr>,
      \<lparr>tiIndex = 1, tiName = ''int16'', tiSize = 2\<rparr>,
      \<lparr>tiIndex = 2, tiName = ''int32'', tiSize = 4\<rparr>,
      \<lparr>tiIndex = 3, tiName = ''uint8'', tiSize = 1\<rparr>,
      \<lparr>tiIndex = 4, tiName = ''uint16'', tiSize = 2\<rparr>,
      \<lparr>tiIndex = 5, tiName = ''uint32'', tiSize = 4\<rparr>,
      \<lparr>tiIndex = 6, tiName = ''float'', tiSize = 4\<rparr>,
      \<lparr>tiIndex = 7, tiName = ''enum'', tiSize = 1\<rparr>]"

record FieldDefinition =
  fName :: string
  fType :: string
  fUnits :: string
  fFieldTypeInfo :: "FieldTypeInfo option"
  fElements :: int
  fElementNamesAttr :: string
  fElementNames :: "string list"
  fOptionsAttr :: string
  fOptions :: "string list"
  fDefaultValue :: string
  fCloneOf :: string

record Access =
  acGcs :: string
  acFlight :: string

record Telemetry =
  tlAcked :: bool
  tlUpdateMode :: string
  tlPeriod :: string

record Logging =
  lgUpdateMode :: string
  lgPeriod :: string

record Definition =
  dName :: string
  dDescription :: string
  dSingleInstance :: bool
  dSettings :: bool
  dCategory :: string
  dObjectID :: "32 word"
  dMetaFor :: "defptr option"
  dMeta :: "defptr option"
  dAccess :: Access
  dTelemetryGcs :: Telemetry
  dTelemetryFlight :: Telemetry
  dLogging :: Logging
  dFields :: "FieldDefinition list"

type_synonym definitions = "Definition list"

text \<open>A pointer to a definition; anything outside \<open>AllDefinitions\<close> is a nil dereference.\<close>

definition get_def :: "definitions \<Rightarrow> defptr \<Rightarrow> Definition res" where
  "get_def defs p = (if p < length defs then Inr (defs ! p) else Inl Panic)"

section \<open>Lookups\<close>

definition GetDefinitionForObjectID :: "definitions \<Rightarrow> 32 word \<Rightarrow> defptr res" where
  "GetDefinitionForObjectID defs objectID =
     (case find_first (\<lambda>d. dObjectID d = objectID) defs of
        Some i \<Rightarrow> Inr i | None \<Rightarrow> Inl (NotFoundID objectID))"

definition GetDefinitionForName :: "runtime \<Rightarrow> definitions \<Rightarrow> string \<Rightarrow> defptr res" where
  "GetDefinitionForName rt defs name =
     (case find_first (\<lambda>d. ToLower rt (dName d) = ToLower rt name) defs of
        Some i \<Rightarrow> Inr i | None \<Rightarrow> Inl (NotFoundName name))"

definition IsUniqueInstanceForObjectID :: "definitions \<Rightarrow> 32 word \<Rightarrow> bool \<times> go_error option" where
  "IsUniqueInstanceForObjectID defs objectID =
     (case GetDefinitionForObjectID defs objectID of
        Inl e \<Rightarrow> (True, Some e) | Inr i \<Rightarrow> (dSingleInstance (defs ! i), None))"

definition FieldTypeForString :: "string \<Rightarrow> FieldTypeInfo res" where
  "FieldTypeForString ts =
     (case find_first (\<lambda>i. tiName i = ts) TypeInfos of
        Some i \<Rightarrow> Inr (TypeInfos ! i) | None \<Rightarrow> Inl (NotFoundFieldType ts))"

section \<open>Field slices\<close>

fun ByteLength :: "FieldDefinition list \<Rightarrow> int res" where
  "ByteLength [] = Inr 0"
| "ByteLength (f # fs) =
     res_bind (deref (fFieldTypeInfo f)) (\<lambda>t.
     res_bind (ByteLength fs) (\<lambda>n. Inr (tiSize t * fElements f + n)))"

definition FieldForName :: "FieldDefinition list \<Rightarrow> string \<Rightarrow> FieldDefinition res" where
  "FieldForName fs name =
     (case find_first (\<lambda>f. fName f = name) fs of
        Some i \<Rightarrow> Inr (fs ! i) | None \<Rightarrow> Inl (NotFoundFieldName name))"

definition fields_Len :: "FieldDefinition list \<Rightarrow> nat" where
  "fields_Len fs = length fs"

definition fields_Less :: "FieldDefinition list \<Rightarrow> nat \<Rightarrow> nat \<Rightarrow> bool res" where
  "fields_Less fs i j =
     (if i < length fs \<and> j < length fs
      then res_bind (deref (fFieldTypeInfo (fs ! i))) (\<lambda>a.
           res_bind (deref (fFieldTypeInfo (fs ! j))) (\<lambda>b. Inr (tiSize a > tiSize b)))
      else Inl Panic)"

definition fields_Swap :: "FieldDefinition list \<Rightarrow> nat \<Rightarrow> nat \<Rightarrow> FieldDefinition list res" where
  "fields_Swap fs i j =
     (if i < length fs \<and> j < length fs
      then Inr (fs[i := fs ! j, j := fs ! i]) else Inl Panic)"

text \<open>
  \<open>sort.Stable(fields)\<close>: the stable order of \<open>Less\<close>, descending size. With two or more
  fields every field is compared at least once, so a nil \<open>FieldTypeInfo\<close> panics in \<open>Less\<close>.
\<close>

definition field_size :: "FieldDefinition \<Rightarrow> int" where
  "field_size f = (case fFieldTypeInfo f of None \<Rightarrow> 0 | Some t \<Rightarrow> tiSize t)"

definition sort_Stable :: "FieldDefinition list \<Rightarrow> FieldDefinition list res" where
  "sort_Stable fs =
     (if 2 \<le> fields_Len fs \<and> list_ex (\<lambda>f. fFieldTypeInfo f = None) fs then Inl Panic
      else Inr (sort_key (\<lambda>f. - field_size f) fs))"

section \<open>Processing after XML decoding\<close>

definition sanitizeListString :: "string \<Rightarrow> string" where
  "sanitizeListString s =
     (let s = Replace (CHR '','') '' '' '','' s;
          s = Replace (CHR 0x0A) '''' '''' s;
          s = Replace (CHR 0x09) '''' '''' s
      in s)"

text \<open>The body of the first loop of \<open>fieldProcess\<close>.\<close>

definition processField :: "FieldDefinition \<Rightarrow> FieldDefinition res" where
  "processField field =
     (if fCloneOf field \<noteq> [] then Inr field
      else
        let field = (if fElements field = 0 then field\<lparr>fElements := 1\<rparr> else field);
            field = (if fElementNamesAttr field \<noteq> [] then
                       (let names = Split (CHR '','') (sanitizeListString (fElementNamesAttr field))
                        in field\<lparr>fElementNames := names, fElements := int (length names)\<rparr>)
                     else if fElementNames field \<noteq> [] then
                       field\<lparr>fElements := int (length (fElementNames field))\<rparr>
                     else field);
            field = (if fOptionsAttr field \<noteq> [] then
                       field\<lparr>fOptions := Split (CHR '','') (sanitizeListString (fOptionsAttr field))\<rparr>
                     else field)
        in res_bind (FieldTypeForString (fType field)) (\<lambda>t. Inr (field\<lparr>fFieldTypeInfo := Some t\<rparr>)))"

text \<open>
  The second loop: \<open>*field = *clonedField\<close> in place, so a later clone sees what an earlier
  one wrote. The argument is the list of indices still to visit.
\<close>

fun cloneFields :: "nat list \<Rightarrow> FieldDefinition list \<Rightarrow> FieldDefinition list res" where
  "cloneFields [] fs = Inr fs"
| "cloneFields (i # is) fs =
     (let field = fs ! i in
      if fCloneOf field \<noteq> [] then
        res_bind (FieldForName fs (fCloneOf field)) (\<lambda>clonedField.
        cloneFields is (fs[i := clonedField\<lparr>fName := fName field, fCloneOf := fCloneOf field\<rparr>]))
      else cloneFields is fs)"

definition fieldProcess :: "FieldDefinition list \<Rightarrow> FieldDefinition list res" where
  "fieldProcess fs =
     res_bind (map_res processField fs) (\<lambda>fs. cloneFields [0..<length fs] fs)"

definition FinishSetup :: "Definition \<Rightarrow> Definition res" where
  "FinishSetup d =
     res_bind (fieldProcess (dFields d)) (\<lambda>fs.
     res_bind (sort_Stable fs) (\<lambda>fs. Inr (d\<lparr>dFields := fs\<rparr>)))"

definition empty_field :: FieldDefinition where
  "empty_field =
     \<lparr>fName = [], fType = [], fUnits = [], fFieldTypeInfo = None, fElements = 0,
      fElementNamesAttr = [], fElementNames = [], fOptionsAttr = [], fOptions = [],
      fDefaultValue = [], fCloneOf = []\<rparr>"

definition empty_definition :: Definition where
  "empty_definition =
     \<lparr>dName = [], dDescription = [], dSingleInstance = False, dSettings = False, dCategory = [],
      dObjectID = 0, dMetaFor = None, dMeta = None, dAccess = \<lparr>acGcs = [], acFlight = []\<rparr>,
      dTelemetryGcs = \<lparr>tlAcked = False, tlUpdateMode = [], tlPeriod = []\<rparr>,
      dTelemetryFlight = \<lparr>tlAcked = False, tlUpdateMode = [], tlPeriod = []\<rparr>,
      dLogging = \<lparr>lgUpdateMode = [], lgPeriod = []\<rparr>, dFields = []\<rparr>"

definition meta_fields :: "FieldDefinition list" where
  "meta_fields =
     [empty_field\<lparr>fName := ''modes'', fUnits := ''boolean'', fType := ''uint8''\<rparr>,
      empty_field\<lparr>fName := ''periodFlight'', fUnits := ''ms'', fType := ''uint16''\<rparr>,
      empty_field\<lparr>fName := ''periodGCS'', fUnits := ''ms'', fType := ''uint16''\<rparr>,
      empty_field\<lparr>fName := ''periodLog'', fUnits := ''ms'', fType := ''uint16''\<rparr>]"

text \<open>
  \<open>NewMetaDefinition(parent)\<close>: \<open>pp\<close> is the parent's address and \<open>pm\<close> the one the new
  definition gets; the result is the parent with its \<open>Meta\<close> link and the meta definition.
\<close>

definition NewMetaDefinition :: "defptr \<Rightarrow> defptr \<Rightarrow> Definition \<Rightarrow> (Definition \<times> Definition) res" where
  "NewMetaDefinition pp pm parent =
     (if dMetaFor parent \<noteq> None then Inl MetaOfMeta
      else
        let meta = empty_definition
              \<lparr>dName := dName parent @ ''Meta'',
               dDescription := ''Meta for: '' @ [CHR 0x0A] @ dDescription parent,
               dSingleInstance := True,
               dSettings := False,
               dObjectID := dObjectID parent + 1,
               dMetaFor := Some pp\<rparr>
        in res_bind (fieldProcess meta_fields) (\<lambda>fs.
           Inr (parent\<lparr>dMeta := Some pm\<rparr>, meta\<lparr>dFields := fs\<rparr>)))"

section \<open>What the lookups promise\<close>

text \<open>
  The contract of the two definition lookups, as their callers use it: a hit is the first
  entry with the key, and an entry with the key is always found.
\<close>

locale first_lookup =
  fixes lookup :: "'e list \<Rightarrow> 'k \<Rightarrow> nat res" and key :: "'e \<Rightarrow> 'n" and norm :: "'k \<Rightarrow> 'n"
  assumes lookup_sound: "lookup es k = Inr i \<Longrightarrow> i < length es \<and> key (es ! i) = norm k"
    and lookup_first: "lookup es k = Inr i \<Longrightarrow> j < i \<Longrightarrow> key (es ! j) \<noteq> norm k"
    and lookup_complete: "e \<in> set es \<Longrightarrow> key e = norm k \<Longrightarrow> \<exists>i. lookup es k = Inr i"
begin

lemma lookup_Inl_iff: "(\<exists>e. lookup es k = Inl e) \<longleftrightarrow> norm k \<notin> key ` set es"
proof
  assume "\<exists>e. lookup es k = Inl e"
  then show "norm k \<notin> key ` set es" using lookup_complete [of _ es k] by fastforce
next
  assume "norm k \<notin> key ` set es"
  then have "lookup es k \<noteq> Inr i" for i using lookup_sound [of es k i] by (metis image_eqI nth_mem)
  then show "\<exists>e. lookup es k = Inl e" by (cases "lookup es k") auto
qed

lemma lookup_unique:
  assumes "distinct (map key es)" and "i < length es" and "key (es ! i) = norm k"
  shows "lookup es k = Inr i"
proof -
  obtain j where j: "lookup es k = Inr j"
    using lookup_complete [of "es ! i" es k] assms by auto
  with lookup_sound [OF j] assms have "j = i"
    by (metis distinct_conv_nth length_map nth_map)
  with j show ?thesis by simp
qed

end

lemma first_lookupI:
  assumes "\<And>es k. lookup es k = (case find_first (\<lambda>e. key e = norm k) es of
             Some i \<Rightarrow> Inr i | None \<Rightarrow> Inl (err k))"
  shows "first_lookup lookup key norm"
proof
  show "lookup es k = Inr i \<Longrightarrow> i < length es \<and> key (es ! i) = norm k" for es k i
    by (auto simp: assms split: option.splits dest: find_first_SomeD)
  show "lookup es k = Inr i \<Longrightarrow> j < i \<Longrightarrow> key (es ! j) \<noteq> norm k" for es k i j
    by (auto simp: assms split: option.splits dest: find_first_SomeD)
  show "e \<in> set es \<Longrightarrow> key e = norm k \<Longrightarrow> \<exists>i. lookup es k = Inr i" for e es k
    using find_first_ex [of e es "\<lambda>e. key e = norm k"] by (auto simp: assms)
qed

interpretation by_id: first_lookup GetDefinitionForObjectID dObjectID "\<lambda>k. k"
  by (rule first_lookupI) (rule GetDefinitionForObjectID_def)

interpretation by_name: first_lookup "GetDefinitionForName rt" "\<lambda>d. ToLower rt (dName d)" "ToLower rt" for rt
  by (rule first_lookupI) (rule GetDefinitionForName_def)

lemma get_def_lookup: "GetDefinitionForObjectID defs k = Inr p \<Longrightarrow> get_def defs p = Inr (defs ! p)"
  using by_id.lookup_sound by (auto simp: get_def_def)

lemma get_def_name: "GetDefinitionForName rt defs k = Inr p \<Longrightarrow> get_def defs p = Inr (defs ! p)"
  using by_name.lookup_sound by (auto simp: get_def_def)

lemma get_def_eq_Inr [simp]: "get_def defs p = Inr d \<longleftrightarrow> p < length defs \<and> d = defs ! p"
  by (auto simp: get_def_def)

section \<open>Well-formed fields\<close>

definition known_type :: "string \<Rightarrow> bool" where
  "known_type ts \<longleftrightarrow> find_first (\<lambda>i. tiName i = ts) TypeInfos \<noteq> None"

definition wf_field :: "FieldDefinition \<Rightarrow> bool" where
  "wf_field f \<longleftrightarrow>
     known_type (fType f) \<and> fFieldTypeInfo f \<noteq> None \<and>
     FieldTypeForString (fType f) = deref (fFieldTypeInfo f) \<and>
     1 \<le> fElements f \<and> (fElementNames f = [] \<or> fElements f = int (length (fElementNames f)))"

lemma FieldTypeForString_known: "known_type ts \<longleftrightarrow> (\<exists>t. FieldTypeForString ts = Inr t)"
  by (auto simp: known_type_def FieldTypeForString_def split: option.splits)

lemma FieldTypeForString_name: "FieldTypeForString ts = Inr t \<Longrightarrow> tiName t = ts \<and> t \<in> set TypeInfos"
  by (auto simp: FieldTypeForString_def split: option.splits dest: find_first_SomeD)

lemma TypeInfos_size: "t \<in> set TypeInfos \<Longrightarrow> tiSize t \<in> {1, 2, 4}"
  by (auto simp: TypeInfos_def)

lemma wf_field_info:
  assumes "wf_field f"
  obtains t where "fFieldTypeInfo f = Some t" and "t \<in> set TypeInfos" and "tiName t = fType f"
    and "FieldTypeForString (fType f) = Inr t"
  using assms FieldTypeForString_name by (auto simp: wf_field_def)

lemma ByteLength_append:
  "ByteLength (xs @ ys) = res_bind (ByteLength xs) (\<lambda>a. res_bind (ByteLength ys) (\<lambda>b. Inr (a + b)))"
  by (induction xs) (cases "ByteLength ys", auto simp: res_bind_def split: sum.splits)

lemma ByteLength_wf: "list_all wf_field fs \<Longrightarrow>
  ByteLength fs = Inr (\<Sum>f\<leftarrow>fs. field_size f * fElements f)"
  by (induction fs) (auto simp: field_size_def wf_field_def)

lemma field_size_pos: "wf_field f \<Longrightarrow> field_size f \<in> {1, 2, 4}"
  by (auto elim!: wf_field_info simp: field_size_def dest: TypeInfos_size)

section \<open>fieldProcess and FinishSetup\<close>

lemma processField_clone: "fCloneOf f \<noteq> [] \<Longrightarrow> processField f = Inr f"
  by (simp add: processField_def)

lemma processField_ok:
  assumes "fCloneOf f = []" and "known_type (fType f)" and "0 \<le> fElements f"
  obtains g where "processField f = Inr g" and "wf_field g" and "fName g = fName f"
    and "fCloneOf g = []" and "fType g = fType f"
proof -
  from assms(2) obtain t where t: "FieldTypeForString (fType f) = Inr t"
    by (auto simp: FieldTypeForString_known)
  let ?names = "Split (CHR '','') (sanitizeListString (fElementNamesAttr f))"
  have "1 \<le> int (length ?names)" by (simp add: Suc_le_eq)
  moreover have "fElementNames f \<noteq> [] \<Longrightarrow> 1 \<le> int (length (fElementNames f))"
    by (cases "fElementNames f") auto
  ultimately have "\<exists>g. processField f = Inr g \<and> wf_field g \<and> fName g = fName f \<and>
      fCloneOf g = [] \<and> fType g = fType f"
    using assms t by (simp add: processField_def Let_def wf_field_def)
  with that show thesis by blast
qed

lemma processField_bad_type:
  "fCloneOf f = [] \<Longrightarrow> \<not> known_type (fType f) \<Longrightarrow> processField f = Inl (NotFoundFieldType (fType f))"
  by (simp add: processField_def Let_def FieldTypeForString_def known_type_def)

text \<open>The clone loop as one simultaneous substitution.\<close>

definition resolve :: "FieldDefinition list \<Rightarrow> FieldDefinition \<Rightarrow> FieldDefinition" where
  "resolve fs f =
     (if fCloneOf f = [] then f
      else (case FieldForName fs (fCloneOf f) of
              Inl _ \<Rightarrow> f | Inr c \<Rightarrow> c\<lparr>fName := fName f, fCloneOf := fCloneOf f\<rparr>))"

definition clones_resolved :: "FieldDefinition list \<Rightarrow> bool" where
  "clones_resolved fs = list_all (\<lambda>f. fCloneOf f = [] \<or>
     (case FieldForName fs (fCloneOf f) of Inl _ \<Rightarrow> False | Inr c \<Rightarrow> fCloneOf c = [])) fs"

lemma FieldForName_eq_Inr:
  "FieldForName fs nm = Inr c \<longleftrightarrow>
     (\<exists>i. find_first (\<lambda>x. x = nm) (map fName fs) = Some i \<and> i < length fs \<and> c = fs ! i)"
  unfolding FieldForName_def find_first_map [of "\<lambda>x. x = nm" fName]
  by (auto split: option.splits dest: find_first_SomeD)

lemma resolve_names [simp]: "fName (resolve fs f) = fName f" "fCloneOf (resolve fs f) = fCloneOf f"
  by (auto simp: resolve_def split: sum.splits)

lemma resolve_plain [simp]: "fCloneOf f = [] \<Longrightarrow> resolve fs f = f"
  by (simp add: resolve_def)

lemma FieldForName_resolved:
  assumes "FieldForName fs nm = Inr c" and "fCloneOf c = []"
  shows "FieldForName (map (resolve fs) (take k fs) @ drop k fs) nm = Inr c"
proof -
  let ?gs = "map (resolve fs) (take k fs) @ drop k fs"
  have names: "map fName ?gs = map fName fs"
    by (simp add: comp_def flip: take_map drop_map)
  from assms(1) obtain i where i: "find_first (\<lambda>x. x = nm) (map fName fs) = Some i"
      "i < length fs" "c = fs ! i"
    by (auto simp: FieldForName_eq_Inr)
  have "?gs ! i = fs ! i" using i(2,3) assms(2) by (auto simp: nth_append)
  with i names show ?thesis unfolding FieldForName_eq_Inr by (auto simp del: map_append)
qed

lemma cloneFields_resolve:
  assumes "clones_resolved fs" and "k \<le> length fs"
  shows "cloneFields [k..<length fs] (map (resolve fs) (take k fs) @ drop k fs) = Inr (map (resolve fs) fs)"
  using assms(2)
proof (induction "length fs - k" arbitrary: k)
  case 0
  then show ?case by simp
next
  case (Suc d)
  then have k: "k < length fs" by simp
  let ?gs = "map (resolve fs) (take k fs) @ drop k fs" and ?f = "fs ! k"
  have at: "?gs ! k = ?f" using k by (simp add: nth_append)
  have next_eq: "?gs[k := resolve fs ?f] = map (resolve fs) (take (Suc k) fs) @ drop (Suc k) fs"
    using k by (simp add: list_update_append take_Suc_conv_app_nth Cons_nth_drop_Suc [symmetric])
  have IH: "cloneFields [Suc k..<length fs] (?gs[k := resolve fs ?f]) = Inr (map (resolve fs) fs)"
    unfolding next_eq using Suc k by (intro Suc.hyps(1)) simp_all
  show ?case
  proof (cases "fCloneOf ?f = []")
    case True
    with at have "?gs[k := resolve fs ?f] = ?gs" by (metis list_update_id resolve_plain)
    with IH True at k show ?thesis by (simp add: upt_conv_Cons Let_def)
  next
    case False
    with assms(1) k obtain c where c: "FieldForName fs (fCloneOf ?f) = Inr c" "fCloneOf c = []"
      by (cases "FieldForName fs (fCloneOf ?f)") (auto simp: clones_resolved_def list_all_length)
    then have "resolve fs ?f = c\<lparr>fName := fName ?f, fCloneOf := fCloneOf ?f\<rparr>"
      using False by (simp add: resolve_def)
    with IH False at k FieldForName_resolved [OF c] show ?thesis
      by (simp add: upt_conv_Cons Let_def)
  qed
qed

corollary cloneFields_all:
  "clones_resolved fs \<Longrightarrow> cloneFields [0..<length fs] fs = Inr (map (resolve fs) fs)"
  using cloneFields_resolve [of fs 0] by simp

text \<open>What an XML file has to look like: known types, sizes, and clones of plain fields only.\<close>

definition raw_fields :: "FieldDefinition list \<Rightarrow> bool" where
  "raw_fields fs \<longleftrightarrow>
     list_all (\<lambda>f. fCloneOf f = [] \<longrightarrow> known_type (fType f) \<and> 0 \<le> fElements f) fs \<and>
     clones_resolved fs"

lemma clones_resolved_cong:
  assumes "map fName fs = map fName gs" and "map fCloneOf fs = map fCloneOf gs"
    and "clones_resolved fs"
  shows "clones_resolved gs"
proof -
  have len: "length fs = length gs" using assms(1) by (rule map_eq_imp_length_eq)
  have nth: "fCloneOf (gs ! i) = fCloneOf (fs ! i)" if "i < length gs" for i
    using assms(2) len that by (metis nth_map)
  have look: "case FieldForName gs nm of Inl _ \<Rightarrow> False | Inr c \<Rightarrow> fCloneOf c = []"
    if "case FieldForName fs nm of Inl _ \<Rightarrow> False | Inr c \<Rightarrow> fCloneOf c = []" for nm
  proof -
    from that obtain c where "FieldForName fs nm = Inr c" and "fCloneOf c = []"
      by (cases "FieldForName fs nm") auto
    then obtain i where "FieldForName gs nm = Inr (gs ! i)" and "fCloneOf (gs ! i) = []"
      unfolding FieldForName_eq_Inr assms(1) using nth len by auto
    then show ?thesis by simp
  qed
  show ?thesis
    using assms(3) look nth len unfolding clones_resolved_def list_all_length by auto
qed

lemma processField_raw:
  assumes "fCloneOf f = [] \<longrightarrow> known_type (fType f) \<and> 0 \<le> fElements f"
  shows "\<exists>g. processField f = Inr g \<and> fName g = fName f \<and> fCloneOf g = fCloneOf f \<and>
    (fCloneOf g = [] \<longrightarrow> wf_field g)"
  using assms processField_ok [of f] processField_clone [of f] by metis

lemma map_res_processField:
  assumes "list_all (\<lambda>f. fCloneOf f = [] \<longrightarrow> known_type (fType f) \<and> 0 \<le> fElements f) fs"
  shows "\<exists>gs. map_res processField fs = Inr gs \<and> map fName gs = map fName fs \<and>
    map fCloneOf gs = map fCloneOf fs \<and> list_all (\<lambda>g. fCloneOf g = [] \<longrightarrow> wf_field g) gs"
  using assms
proof (induction fs)
  case (Cons f fs)
  then obtain gs where "map_res processField fs = Inr gs" "map fName gs = map fName fs"
      "map fCloneOf gs = map fCloneOf fs" "list_all (\<lambda>g. fCloneOf g = [] \<longrightarrow> wf_field g) gs"
    by auto
  moreover obtain g where "processField f = Inr g" "fName g = fName f" "fCloneOf g = fCloneOf f"
      "fCloneOf g = [] \<longrightarrow> wf_field g"
    using processField_raw [of f] Cons.prems by auto
  ultimately show ?case by simp
qed simp

lemma wf_field_rename [simp]: "wf_field (c\<lparr>fName := a, fCloneOf := b\<rparr>) = wf_field c"
  by (simp add: wf_field_def)

lemma fieldProcess_ok:
  assumes "raw_fields fs"
  obtains gs where "fieldProcess fs = Inr gs" and "list_all wf_field gs" and "map fName gs = map fName fs"
proof -
  from assms obtain ps where ps: "map_res processField fs = Inr ps" "map fName ps = map fName fs"
      "map fCloneOf ps = map fCloneOf fs" "list_all (\<lambda>g. fCloneOf g = [] \<longrightarrow> wf_field g) ps"
    using map_res_processField by (auto simp: raw_fields_def)
  have cr: "clones_resolved ps"
    using assms ps(2,3) by (metis clones_resolved_cong raw_fields_def)
  have "wf_field (resolve ps f)" if "f \<in> set ps" for f
  proof (cases "fCloneOf f = []")
    case True
    with ps(4) that show ?thesis by (auto simp: list_all_iff)
  next
    case False
    with cr that obtain c where "FieldForName ps (fCloneOf f) = Inr c" "fCloneOf c = []"
      by (cases "FieldForName ps (fCloneOf f)") (auto simp: clones_resolved_def list_all_iff)
    moreover from this have "c \<in> set ps" by (auto simp: FieldForName_eq_Inr)
    ultimately show ?thesis using False ps(4) by (auto simp: resolve_def list_all_iff)
  qed
  then have "list_all wf_field (map (resolve ps) ps)" by (simp add: list_all_iff)
  moreover have "fieldProcess fs = Inr (map (resolve ps) ps)"
    by (simp add: fieldProcess_def ps(1) cloneFields_all cr)
  ultimately show thesis using that ps(2) by (simp add: comp_def)
qed

lemma sort_Stable_wf:
  "list_all wf_field fs \<Longrightarrow> sort_Stable fs = Inr (sort_key (\<lambda>f. - field_size f) fs)"
  by (auto simp: sort_Stable_def list_all_iff list_ex_iff wf_field_def)

lemma sorted_desc: "sorted_wrt (\<lambda>f g. field_size g \<le> field_size f) (sort_key (\<lambda>f. - field_size f) fs)"
  using sorted_sort_key [of "\<lambda>f. - field_size f" fs] by (simp add: sorted_map)

lemma stable_desc:
  "filter (\<lambda>f. field_size f = n) (sort_key (\<lambda>f. - field_size f) fs) = filter (\<lambda>f. field_size f = n) fs"
  using sort_key_stable [of "\<lambda>f. - field_size f" "- n" fs] by simp

lemma FinishSetup_ok:
  assumes "raw_fields (dFields d)"
  obtains gs where "fieldProcess (dFields d) = Inr gs" and "list_all wf_field gs"
    and "map fName gs = map fName (dFields d)"
    and "FinishSetup d = Inr (d\<lparr>dFields := sort_key (\<lambda>f. - field_size f) gs\<rparr>)"
proof -
  from assms obtain gs where "fieldProcess (dFields d) = Inr gs" and "list_all wf_field gs"
    and "map fName gs = map fName (dFields d)"
    by (rule fieldProcess_ok)
  then show thesis by (intro that) (simp_all add: FinishSetup_def sort_Stable_wf)
qed

lemma raw_meta_fields: "raw_fields meta_fields"
  by (simp add: raw_fields_def meta_fields_def empty_field_def clones_resolved_def known_type_def
      TypeInfos_def)

end
