(* ===== verification/Charset.thy ===== *)
theory Charset
  imports Prelude
begin

text \<open>
  The part of \<open>code.google.com/p/go-charset\<close> that \<open>toISO88591\<close> runs: the code-page
  translator to an 8-bit character set, the construction of its table from a data file,
  and the translating writer that buffers incomplete characters between writes. UTF-8
  decoding follows Go's \<open>unicode/utf8\<close>. The lemmas show that the Latin-1 table is the
  identity on the first 256 code points, that translation at the end of the input
  consumes everything, and that a writer's output does not depend on how the text was
  split into writes.
\<close>

section \<open>unicode/utf8\<close>

abbreviation RuneError :: nat where "RuneError \<equiv> 0xFFFD"

definition cont :: "byte \<Rightarrow> bool" where
  "cont b \<longleftrightarrow> 0x80 \<le> b \<and> b < 0xC0"

abbreviation low6 :: "byte \<Rightarrow> nat" where "low6 b \<equiv> unat (b AND 0x3F)"

text \<open>Code point, width, and whether the bytes end inside a possible encoding.\<close>

definition decodeRune :: "bytes \<Rightarrow> nat \<times> nat \<times> bool" where
  "decodeRune p =
     (case p of
        [] \<Rightarrow> (RuneError, 0, True)
      | c0 # p1 \<Rightarrow>
        if c0 < 0x80 then (unat c0, 1, False)
        else if c0 < 0xC0 then (RuneError, 1, False)
        else (case p1 of
          [] \<Rightarrow> (RuneError, 1, True)
        | c1 # p2 \<Rightarrow>
          if \<not> cont c1 then (RuneError, 1, False)
          else if c0 < 0xE0 then
            (let r = unat (c0 AND 0x1F) * 64 + low6 c1
             in if r \<le> 0x7F then (RuneError, 1, False) else (r, 2, False))
          else (case p2 of
            [] \<Rightarrow> (RuneError, 1, True)
          | c2 # p3 \<Rightarrow>
            if \<not> cont c2 then (RuneError, 1, False)
            else if c0 < 0xF0 then
              (let r = unat (c0 AND 0x0F) * 4096 + low6 c1 * 64 + low6 c2
               in if r \<le> 0x7FF \<or> (0xD800 \<le> r \<and> r \<le> 0xDFFF) then (RuneError, 1, False)
                  else (r, 3, False))
            else (case p3 of
              [] \<Rightarrow> (RuneError, 1, True)
            | c3 # _ \<Rightarrow>
              if \<not> cont c3 then (RuneError, 1, False)
              else if c0 < 0xF8 then
                (let r = unat (c0 AND 0x07) * 262144 + low6 c1 * 4096 + low6 c2 * 64 + low6 c3
                 in if r \<le> 0xFFFF \<or> 0x10FFFF < r then (RuneError, 1, False) else (r, 4, False))
              else (RuneError, 1, False)))))"

definition FullRune :: "bytes \<Rightarrow> bool" where
  "FullRune p = (\<not> snd (snd (decodeRune p)))"

lemma decodeRune_width: "p \<noteq> [] \<Longrightarrow> 0 < fst (snd (decodeRune p)) \<and> fst (snd (decodeRune p)) \<le> length p"
  by (auto simp: decodeRune_def Let_def split: list.splits if_splits)

text \<open>The runes of a string, as \<open>range\<close> yields them.\<close>

function string_runes :: "bytes \<Rightarrow> nat list" where
  "string_runes p =
     (if p = [] then []
      else (let (r, sz, _) = decodeRune p in r # string_runes (drop sz p)))"
  by pat_completeness auto
termination
proof (relation "measure length")
  fix p :: bytes and x r y sz short
  assume "p \<noteq> []" and "x = decodeRune p" and "(r, y) = x" and "(sz, short) = y"
  then have "0 < sz" using decodeRune_width [of p] by (metis fst_conv snd_conv)
  with \<open>p \<noteq> []\<close> show "(drop sz p, p) \<in> measure length" by simp
qed simp

declare string_runes.simps [simp del]

text \<open>\<open>utf8.EncodeRune\<close> below the surrogates, which covers every table built in.\<close>

definition encodeRune2 :: "nat \<Rightarrow> bytes" where
  "encodeRune2 r =
     (if r < 0x80 then [word_of_nat r]
      else [word_of_nat (0xC0 + r div 64), word_of_nat (0x80 + r mod 64)])"

section \<open>Code pages\<close>

record toCodePageInfo =
  rune2byte :: "(nat \<times> byte) list"
  same :: nat

text \<open>\<open>translateToCodePage.Translate\<close>: bytes consumed and bytes produced.\<close>

definition code_byte :: "toCodePageInfo \<Rightarrow> nat \<Rightarrow> byte" where
  "code_byte info r =
     (if r < same info then word_of_nat r
      else (case map_of (rune2byte info) r of Some b \<Rightarrow> b | None \<Rightarrow> 0x3F))"

text \<open>One turn of its loop: the rune at the head of the data, or a stop before it.\<close>

definition next_rune :: "bool \<Rightarrow> bytes \<Rightarrow> (nat \<times> nat) option" where
  "next_rune eof data =
     (let r = unat (hd data)
      in if r < 0x80 then Some (r, 1)
         else (let (r, sz, _) = decodeRune data
               in if sz = 1 \<and> \<not> eof \<and> \<not> FullRune data then None else Some (r, sz)))"

lemma next_rune_width:
  "data \<noteq> [] \<Longrightarrow> next_rune eof data = Some (r, sz) \<Longrightarrow> 0 < sz \<and> sz \<le> length data"
  using decodeRune_width [of data]
  by (auto simp: next_rune_def Let_def Suc_le_eq split: if_splits prod.splits)

function Translate :: "toCodePageInfo \<Rightarrow> bool \<Rightarrow> bytes \<Rightarrow> nat \<times> bytes" where
  "Translate info eof data =
     (if data = [] then (0, [])
      else (case next_rune eof data of
              None \<Rightarrow> (0, [])
            | Some (r, sz) \<Rightarrow>
                (let (n, out) = Translate info eof (drop sz data)
                 in (sz + n, code_byte info r # out))))"
  by pat_completeness auto
termination
  by (relation "measure (\<lambda>(info, eof, data). length data)") (auto dest: next_rune_width)

declare Translate.simps [simp del]

text \<open>\<open>toCodePage\<close>: the scan of the 256 runes of the data file.\<close>

fun cp_scan :: "nat list \<Rightarrow> bool \<Rightarrow> nat \<Rightarrow> toCodePageInfo \<Rightarrow> nat \<times> toCodePageInfo" where
  "cp_scan [] atStart i info = (i, info)"
| "cp_scan (r # rs) atStart i info =
     (if atStart \<and> r = i then cp_scan rs atStart (Suc i) info
      else (let info = (if atStart then info\<lparr>same := i\<rparr> else info)
            in cp_scan rs False (Suc i)
                 (info\<lparr>rune2byte := AList.update r (word_of_nat i) (rune2byte info)\<rparr>)))"

definition toCodePage :: "bytes \<Rightarrow> toCodePageInfo res" where
  "toCodePage data =
     (let (i, info) = cp_scan (string_runes data) True 0 \<lparr>rune2byte = [], same = 256\<rparr>
      in if i \<noteq> 256 then Inl (WrongRuneCount i) else Inr info)"

text \<open>The registered data file \<open>iso-8859-1.cp\<close>: the code points 0 to 255 in UTF-8.\<close>

definition iso_8859_1_cp :: bytes where
  "iso_8859_1_cp = concat (map encodeRune2 [0..<256])"

section \<open>The translating writer\<close>

record translatingWriter =
  twOut :: bytes
  twBuf :: bytes

definition NewTranslatingWriter :: translatingWriter where
  "NewTranslatingWriter = \<lparr>twOut = [], twBuf = []\<rparr>"

definition tw_Write :: "toCodePageInfo \<Rightarrow> bytes \<Rightarrow> translatingWriter \<Rightarrow> translatingWriter" where
  "tw_Write tr data w =
     (let wdata = (if twBuf w \<noteq> [] then twBuf w @ data else data);
          (n, cdata) = Translate tr False wdata;
          out = (if 0 < n then twOut w @ cdata else twOut w)
      in \<lparr>twOut = out, twBuf = (if n < length wdata then drop n wdata else [])\<rparr>)"

lemma Translate_consumed: "fst (Translate info eof data) \<le> length data \<and>
  (snd (Translate info eof data) = [] \<longleftrightarrow> fst (Translate info eof data) = 0)"
proof (induction info eof data rule: Translate.induct)
  case (1 info eof data)
  show ?case
  proof (cases "data = [] \<or> next_rune eof data = None")
    case True
    then show ?thesis by (auto simp: Translate.simps [of info eof data])
  next
    case False
    then obtain r sz where nr: "next_rune eof data = Some (r, sz)" and "data \<noteq> []" by auto
    with next_rune_width [OF this(2,1)] 1 [OF this(2,1) refl] show ?thesis
      by (auto simp: Translate.simps [of info eof data] split: prod.splits)
  qed
qed

function tw_Close :: "toCodePageInfo \<Rightarrow> translatingWriter \<Rightarrow> translatingWriter" where
  "tw_Close tr p =
     (let (n, data) = Translate tr True (twBuf p);
          buf = drop n (twBuf p)
      in if data = [] then p\<lparr>twBuf := buf\<rparr>
         else if buf = [] then \<lparr>twOut = twOut p @ data, twBuf = buf\<rparr>
         else tw_Close tr \<lparr>twOut = twOut p @ data, twBuf = buf\<rparr>)"
  by pat_completeness auto
termination
proof (relation "measure (\<lambda>(tr, p). length (twBuf p))", simp, goal_cases)
  case (1 tr p x n data buf)
  then have "fst (Translate tr True (twBuf p)) = n" "snd (Translate tr True (twBuf p)) = data"
    by (metis fst_conv, metis snd_conv)
  with 1 show ?case using Translate_consumed [of tr True "twBuf p"] by auto
qed

declare tw_Close.simps [simp del]

section \<open>Lemmas\<close>

lemma next_rune_eof [simp]: "data \<noteq> [] \<Longrightarrow> next_rune True data \<noteq> None"
  by (auto simp: next_rune_def Let_def split: prod.splits)

lemma Translate_eof: "fst (Translate info True data) = length data"
proof (induction info True data rule: Translate.induct)
  case (1 info data)
  show ?case
  proof (cases "data = []")
    case False
    then obtain r sz where nr: "next_rune True data = Some (r, sz)"
      using next_rune_eof [OF False] by (cases "next_rune True data") auto
    with next_rune_width [OF False nr] 1 [OF False nr refl] False show ?thesis
      by (auto simp: Translate.simps [of info True data] split: prod.splits)
  qed (simp add: Translate.simps)
qed

lemma tw_Close_out: "twOut (tw_Close tr p) = twOut p @ snd (Translate tr True (twBuf p))"
  using Translate_eof [of tr "twBuf p"]
  by (auto simp: tw_Close.simps [of tr p] Let_def split: prod.splits)

text \<open>A stop in the middle of the input is resumed exactly where it stopped.\<close>

lemma bytes_cases4:
  obtains "p = []" | c0 where "p = [c0]" | c0 c1 where "p = [c0, c1]"
    | c0 c1 c2 where "p = [c0, c1, c2]" | c0 c1 c2 c3 r where "p = c0 # c1 # c2 # c3 # r"
  by (metis list.exhaust)

lemma decodeRune_append: "\<not> snd (snd (decodeRune p)) \<Longrightarrow> decodeRune (p @ q) = decodeRune p"
  by (rule bytes_cases4 [of p]) (simp_all add: decodeRune_def split: if_split_asm)

lemma decodeRune_short: "p \<noteq> [] \<Longrightarrow> snd (snd (decodeRune p)) \<Longrightarrow> fst (snd (decodeRune p)) = 1"
  by (rule bytes_cases4 [of p]) (simp_all add: decodeRune_def Let_def split: if_split_asm)

lemma next_rune_append:
  assumes "p \<noteq> []" and "next_rune False p = Some x"
  shows "next_rune True (p @ q) = Some x"
proof (cases "unat (hd p) < 0x80")
  case True
  with assms show ?thesis by (simp add: next_rune_def Let_def)
next
  case False
  with assms have "\<not> snd (snd (decodeRune p))"
    using decodeRune_short [of p] by (auto simp: next_rune_def FullRune_def Let_def split: prod.splits if_splits)
  then have "decodeRune (p @ q) = decodeRune p" by (rule decodeRune_append)
  with False assms show ?thesis by (auto simp: next_rune_def Let_def split: prod.splits if_splits)
qed

lemma Translate_resume:
  "snd (Translate info True (data @ b)) =
     snd (Translate info False data) @
     snd (Translate info True (drop (fst (Translate info False data)) data @ b))"
proof (induction info False data rule: Translate.induct)
  case (1 info data)
  show ?case
  proof (cases "data = [] \<or> next_rune False data = None")
    case True
    then show ?thesis by (auto simp: Translate.simps [of info False data])
  next
    case False
    then obtain r sz where nr: "next_rune False data = Some (r, sz)" and ne: "data \<noteq> []" by auto
    have sz: "sz \<le> length data" using next_rune_width [OF ne nr] by simp
    have "Translate info True (data @ b) =
        (let (n, out) = Translate info True (drop sz data @ b) in (sz + n, code_byte info r # out))"
      using ne sz next_rune_append [OF ne nr] by (simp add: Translate.simps [of info True "data @ b"])
    moreover have "Translate info False data =
        (let (n, out) = Translate info False (drop sz data) in (sz + n, code_byte info r # out))"
      using ne nr by (simp add: Translate.simps [of info False data])
    ultimately show ?thesis using 1 [OF ne nr refl]
      by (auto simp: Let_def add.commute split: prod.splits)
  qed
qed

lemma tw_Write_state:
  "tw_Write tr data w =
     \<lparr>twOut = twOut w @ snd (Translate tr False (twBuf w @ data)),
      twBuf = drop (fst (Translate tr False (twBuf w @ data))) (twBuf w @ data)\<rparr>"
proof -
  have w: "(if twBuf w \<noteq> [] then twBuf w @ data else data) = twBuf w @ data" by simp
  show ?thesis
    using Translate_consumed [of tr False "twBuf w @ data"] unfolding tw_Write_def Let_def w
    by (auto split: prod.splits)
qed

lemma tw_Close_Writes:
  "twOut (tw_Close tr (fold (tw_Write tr) ds w)) =
     twOut w @ snd (Translate tr True (twBuf w @ concat ds))"
proof (induction ds arbitrary: w)
  case Nil
  then show ?case by (simp add: tw_Close_out)
next
  case (Cons d ds)
  show ?case
    unfolding fold_Cons comp_apply Cons.IH tw_Write_state [of tr d w]
    using Translate_resume [of tr "twBuf w @ d" "concat ds"] by simp
qed

section \<open>Latin-1\<close>

definition latin1 :: toCodePageInfo where
  "latin1 = \<lparr>rune2byte = [], same = 256\<rparr>"

lemma cont_mod64: "m < 64 \<Longrightarrow> cont (word_of_nat (0x80 + m)) \<and> low6 (word_of_nat (0x80 + m)) = m"
proof -
  assume m: "m < 64"
  have u: "unat (word_of_nat (0x80 + m) :: byte) = 0x80 + m"
    using m by (subst unsigned_of_nat) (simp add: take_bit_nat_eq_self)
  have "(word_of_nat (0x80 + m) :: byte) AND 0x3F = take_bit 6 (word_of_nat (0x80 + m))"
    by (simp add: take_bit_eq_mask mask_eq_exp_minus_1)
  then have "low6 (word_of_nat (0x80 + m)) = (0x80 + m) mod 64"
    by (simp only: unsigned_take_bit_eq u) (simp add: take_bit_eq_mod)
  moreover have "cont (word_of_nat (0x80 + m))"
    using m u by (simp add: cont_def word_le_nat_alt word_less_nat_alt)
  moreover have "(0x80 + m) mod 64 = m" using m mod_mult_self1 [of m 2 64] by (simp add: add.commute)
  ultimately show ?thesis by simp
qed

lemma decodeRune_encode: "r < 256 \<Longrightarrow> decodeRune (encodeRune2 r @ rest) = (r, length (encodeRune2 r), False)"
proof -
  assume r: "r < 256"
  show ?thesis
  proof (cases "r < 0x80")
    case True
    then have "unat (word_of_nat r :: byte) = r"
      by (simp add: unsigned_of_nat take_bit_nat_eq_self)
    with True show ?thesis by (simp add: encodeRune2_def decodeRune_def word_less_nat_alt)
  next
    case False
    then have "2 \<le> r div 64" using div_le_mono [of 128 r 64] by simp
    moreover have "r div 64 < 4" using r by (simp add: less_mult_imp_div_less)
    ultimately have "r div 64 = 2 \<or> r div 64 = 3" by auto
    then have "r div 64 = 2 \<and> 128 + r mod 64 = r \<or> r div 64 = 3 \<and> 192 + r mod 64 = r"
      using times_div_less_eq_dividend [of 64 r] minus_mult_div_eq_mod [of r 64, symmetric] by force
    then show ?thesis using False cont_mod64 [of "r mod 64"]
      by (auto simp: encodeRune2_def decodeRune_def Let_def)
  qed
qed

lemma string_runes_encode:
  "list_all (\<lambda>r. r < 256) rs \<Longrightarrow> string_runes (concat (map encodeRune2 rs)) = rs"
proof (induction rs)
  case Nil
  then show ?case by (simp add: string_runes.simps)
next
  case (Cons r rs)
  have "encodeRune2 r \<noteq> []" by (simp add: encodeRune2_def)
  with Cons show ?case
    by (simp add: string_runes.simps [of "encodeRune2 r @ _"] decodeRune_encode)
qed

lemma cp_scan_prefix: "cp_scan [i..<i + n] True i info = (i + n, info)"
proof (induction n arbitrary: i)
  case (Suc n)
  have "[i..<i + Suc n] = i # [Suc i..<Suc i + n]" by (simp add: upt_conv_Cons)
  with Suc [of "Suc i"] show ?case by simp
qed simp

lemma toCodePage_latin1: "toCodePage iso_8859_1_cp = Inr latin1"
  using cp_scan_prefix [of 0 256] string_runes_encode [of "[0..<256]"]
  by (simp add: toCodePage_def iso_8859_1_cp_def latin1_def list_all_iff)

lemma code_byte_latin1: "code_byte latin1 r = (if r < 256 then word_of_nat r else 0x3F)"
  by (simp add: code_byte_def latin1_def)

lemma next_rune_encode:
  assumes "r < 256"
  shows "next_rune eof (encodeRune2 r @ rest) = Some (r, length (encodeRune2 r))"
proof (cases "r < 0x80")
  case True
  then have "unat (word_of_nat r :: byte) = r"
    by (simp add: unsigned_of_nat take_bit_nat_eq_self)
  with True show ?thesis by (simp add: next_rune_def encodeRune2_def)
next
  case False
  obtain b p where e: "encodeRune2 r @ rest = b # p" by (cases "encodeRune2 r @ rest") (auto simp: encodeRune2_def split: if_splits)
  have d: "decodeRune (b # p) = (r, length (encodeRune2 r), False)"
    using decodeRune_encode [OF assms, of rest] by (simp add: e)
  then have "\<not> b < 0x80" using False by (auto simp: decodeRune_def word_less_nat_alt)
  then show ?thesis
    by (simp add: next_rune_def e d FullRune_def word_less_nat_alt)
qed

lemma Translate_latin1:
  "list_all (\<lambda>r. r < 256) rs \<Longrightarrow> snd (Translate latin1 True (concat (map encodeRune2 rs))) = map word_of_nat rs"
proof (induction rs)
  case Nil
  then show ?case by (simp add: Translate.simps)
next
  case (Cons r rs)
  have "encodeRune2 r \<noteq> []" by (simp add: encodeRune2_def)
  with Cons show ?case
    by (auto simp: Translate.simps [of latin1 True "encodeRune2 r @ _"] next_rune_encode
        code_byte_latin1 split: prod.splits)
qed

lemma encodeRune2_ascii: "b < 0x80 \<Longrightarrow> encodeRune2 (unat b) = [b]" for b :: byte
  by (simp add: encodeRune2_def word_less_nat_alt)

lemma Translate_latin1_ascii:
  assumes "list_all (\<lambda>b. b < 0x80) bs"
  shows "snd (Translate latin1 True bs) = bs"
proof -
  have "concat (map encodeRune2 (map unat bs)) = bs"
    using assms by (induction bs) (auto simp: encodeRune2_ascii)
  moreover have "list_all (\<lambda>r. r < 256) (map unat bs)"
    using unsigned_less [where 'a = nat and 'b = 8] by (simp add: list_all_iff)
  ultimately show ?thesis using Translate_latin1 [of "map unat bs"] by (simp add: comp_def)
qed

end
