(* ===== verification/UavObjectID.thy ===== *)
theory UavObjectID
  imports Definitions Charset
begin

text \<open>
  \<open>uavtalk/uavobjectid.go\<close>: the 32-bit object id, a rolling hash over the name, the two
  flags and the fields of a definition. The lemmas give the hash as one pass over a
  stream of integers, show that an id is even and a meta id odd, so that the two never
  collide, and evaluate the id of a published definition.
\<close>

type_synonym Hash = "32 word"

definition updateHashWithInt :: "32 word \<Rightarrow> Hash \<Rightarrow> Hash" where
  "updateHashWithInt value hash = hash XOR (push_bit 5 hash + drop_bit 2 hash + value)"

definition updateHashWithBool :: "bool \<Rightarrow> Hash \<Rightarrow> Hash" where
  "updateHashWithBool value hash =
     (if value then updateHashWithInt 1 hash else updateHashWithInt 0 hash)"

text \<open>
  \<open>charset.NewWriter("latin1", buf)\<close> resolves to the code page built from
  \<open>iso-8859-1.cp\<close>; the text goes through \<open>Fprintf\<close> as a format.
\<close>

definition toISO88591 :: "runtime \<Rightarrow> string \<Rightarrow> bytes res" where
  "toISO88591 rt utf8 =
     res_bind (toCodePage iso_8859_1_cp) (\<lambda>tr.
     let w = tw_Write tr (str_bytes (Fprintf rt utf8)) NewTranslatingWriter
     in Inr (twOut (tw_Close tr w)))"

definition updateHashWithString :: "runtime \<Rightarrow> string \<Rightarrow> Hash \<Rightarrow> Hash res" where
  "updateHashWithString rt value hash =
     res_bind (or_fatal (toISO88591 rt value)) (\<lambda>latin1.
     Inr (fold (\<lambda>b. updateHashWithInt (ucast b)) latin1 hash))"

fun hashOptions :: "runtime \<Rightarrow> string list \<Rightarrow> Hash \<Rightarrow> Hash res" where
  "hashOptions rt [] hash = Inr hash"
| "hashOptions rt (option # options) hash =
     res_bind (updateHashWithString rt option hash) (hashOptions rt options)"

fun hashFields :: "runtime \<Rightarrow> FieldDefinition list \<Rightarrow> Hash \<Rightarrow> Hash res" where
  "hashFields rt [] hash = Inr hash"
| "hashFields rt (field # fs) hash =
     res_bind (updateHashWithString rt (fName field) hash) (\<lambda>hash.
     let hash = updateHashWithInt (word_of_int (fElements field)) hash in
     res_bind (deref (fFieldTypeInfo field)) (\<lambda>info.
     let hash = updateHashWithInt (word_of_int (tiIndex info)) hash in
     res_bind (if fType field = ''enum'' then hashOptions rt (fOptions field) hash else Inr hash)
       (hashFields rt fs)))"

definition calculateID :: "runtime \<Rightarrow> Definition \<Rightarrow> Definition res" where
  "calculateID rt uavdef =
     res_bind (updateHashWithString rt (dName uavdef) 0) (\<lambda>hash.
     let hash = updateHashWithBool (dSettings uavdef) hash;
         hash = updateHashWithBool (dSingleInstance uavdef) hash in
     res_bind (hashFields rt (dFields uavdef) hash) (\<lambda>hash.
     Inr (uavdef\<lparr>dObjectID := hash AND 0xFFFFFFFE\<rparr>)))"

section \<open>The Latin-1 text of a string\<close>

definition latin1_text :: "runtime \<Rightarrow> string \<Rightarrow> bytes" where
  "latin1_text rt s = snd (Translate latin1 True (str_bytes (Fprintf rt s)))"

lemma toISO88591_eq: "toISO88591 rt s = Inr (latin1_text rt s)"
  using tw_Close_Writes [of latin1 "[str_bytes (Fprintf rt s)]" NewTranslatingWriter]
  by (simp add: toISO88591_def latin1_text_def toCodePage_latin1 NewTranslatingWriter_def)

lemma latin1_text_ascii: "ascii s \<Longrightarrow> CHR ''%'' \<notin> set s \<Longrightarrow> latin1_text rt s = str_bytes s"
  unfolding latin1_text_def Fprintf_def
  by (simp add: Translate_latin1_ascii str_bytes_def ascii_def list_all_iff word_less_nat_alt
      unsigned_of_nat take_bit_nat_eq_self)

lemma updateHashWithString_eq:
  "updateHashWithString rt s h = Inr (fold updateHashWithInt (map ucast (latin1_text rt s)) h)"
  by (simp add: updateHashWithString_def toISO88591_eq fold_map comp_def)

section \<open>The id as one pass over a stream\<close>

definition field_stream :: "runtime \<Rightarrow> FieldDefinition \<Rightarrow> 32 word list" where
  "field_stream rt f =
     map ucast (latin1_text rt (fName f)) @
     [word_of_int (fElements f),
      word_of_int (case fFieldTypeInfo f of None \<Rightarrow> 0 | Some t \<Rightarrow> tiIndex t)] @
     (if fType f = ''enum'' then concat (map (\<lambda>s. map ucast (latin1_text rt s)) (fOptions f)) else [])"

definition id_stream :: "runtime \<Rightarrow> Definition \<Rightarrow> 32 word list" where
  "id_stream rt d =
     map ucast (latin1_text rt (dName d)) @
     [if dSettings d then 1 else 0, if dSingleInstance d then 1 else 0] @
     concat (map (field_stream rt) (dFields d))"

lemma hashOptions_eq:
  "hashOptions rt opts h = Inr (fold updateHashWithInt (concat (map (\<lambda>s. map ucast (latin1_text rt s)) opts)) h)"
  by (induction opts arbitrary: h) (simp_all add: updateHashWithString_eq)

lemma hashFields_eq:
  "list_all (\<lambda>f. fFieldTypeInfo f \<noteq> None) fs \<Longrightarrow>
   hashFields rt fs h = Inr (fold updateHashWithInt (concat (map (field_stream rt) fs)) h)"
  by (induction fs arbitrary: h)
     (auto simp: updateHashWithString_eq hashOptions_eq field_stream_def Let_def)

lemma hashFields_nil_type:
  "list_ex (\<lambda>f. fFieldTypeInfo f = None) fs \<Longrightarrow> hashFields rt fs h = Inl Panic"
proof (induction fs arbitrary: h)
  case (Cons f fs)
  then show ?case
    by (cases "fFieldTypeInfo f") (auto simp: updateHashWithString_eq hashOptions_eq Let_def)
qed simp

lemma calculateID_stream:
  assumes "list_all (\<lambda>f. fFieldTypeInfo f \<noteq> None) (dFields d)"
  shows "calculateID rt d =
    Inr (d\<lparr>dObjectID := fold updateHashWithInt (id_stream rt d) 0 AND 0xFFFFFFFE\<rparr>)"
  using hashFields_eq [OF assms]
  by (simp add: calculateID_def updateHashWithString_eq updateHashWithBool_def id_stream_def Let_def)

lemma even_mask: "even (w AND 0xFFFFFFFE)" for w :: "32 word"
  by (simp add: even_and_iff)

lemma calculateID_even: "calculateID rt d = Inr d' \<Longrightarrow> even (dObjectID d')"
  by (auto simp: calculateID_def Let_def even_mask)

lemma odd_meta: "NewMetaDefinition pp pm d = Inr (p, m) \<Longrightarrow> even (dObjectID d) \<Longrightarrow> odd (dObjectID m)"
  by (auto simp: NewMetaDefinition_def Let_def split: if_splits)

section \<open>Plain ASCII names\<close>

text \<open>For names without a byte above 127 and without a percent sign the stream is the bytes themselves.\<close>

definition plain :: "string \<Rightarrow> bool" where
  "plain s \<longleftrightarrow> ascii s \<and> CHR ''%'' \<notin> set s"

definition plain_names :: "Definition \<Rightarrow> bool" where
  "plain_names d \<longleftrightarrow> plain (dName d) \<and> list_all (\<lambda>f. plain (fName f) \<and> list_all plain (fOptions f)) (dFields d)"

definition str_words :: "string \<Rightarrow> 32 word list" where
  "str_words s = map (\<lambda>c. word_of_nat (of_char c)) s"

definition plain_stream :: "Definition \<Rightarrow> 32 word list" where
  "plain_stream d =
     str_words (dName d) @ [if dSettings d then 1 else 0, if dSingleInstance d then 1 else 0] @
     concat (map (\<lambda>f. str_words (fName f) @
       [word_of_int (fElements f), word_of_int (case fFieldTypeInfo f of None \<Rightarrow> 0 | Some t \<Rightarrow> tiIndex t)] @
       (if fType f = ''enum'' then concat (map str_words (fOptions f)) else [])) (dFields d))"

lemma latin1_words: "plain s \<Longrightarrow> map ucast (latin1_text rt s) = str_words s"
  by (simp add: plain_def latin1_text_ascii str_bytes_def str_words_def comp_def unsigned_of_nat take_bit_nat_eq_self)

lemma id_stream_plain: "plain_names d \<Longrightarrow> id_stream rt d = plain_stream d"
  by (auto simp: id_stream_def plain_stream_def plain_names_def field_stream_def list_all_iff latin1_words
      intro!: arg_cong [where f = concat] map_cong)

lemma calculateID_plain:
  assumes "list_all (\<lambda>f. fFieldTypeInfo f \<noteq> None) (dFields d)" and "plain_names d"
  shows "calculateID rt d = Inr (d\<lparr>dObjectID := fold updateHashWithInt (plain_stream d) 0 AND 0xFFFFFFFE\<rparr>)"
  using calculateID_stream [OF assms(1), of rt] id_stream_plain [OF assms(2), of rt] by simp

end
