(* ===== verification/GoFloat.thy ===== *)
theory GoFloat
  imports Prelude
begin

text \<open>
  The floating-point conversions the sources use, on IEEE-754 bit patterns:
  \<open>uint8(f)\<close>, \<open>int16(f)\<close>, \<open>int32(f)\<close>, \<open>uint16(f)\<close> and \<open>uint32(f)\<close> of a
  \<open>float64\<close>, \<open>float32(f)\<close>, and \<open>float64(n)\<close> of an unsigned integer of at most 32 bits.
  A JSON number reaches the encoder as a \<open>float64\<close>, so every value written to the wire
  goes through one of them.
\<close>

section \<open>The fields of a double\<close>

definition f64_neg :: "64 word \<Rightarrow> bool" where
  "f64_neg f \<longleftrightarrow> 2 ^ 63 \<le> unat f"

definition f64_exp :: "64 word \<Rightarrow> nat" where
  "f64_exp f = (unat f div 2 ^ 52) mod 2048"

definition f64_man :: "64 word \<Rightarrow> nat" where
  "f64_man f = unat f mod 2 ^ 52"

text \<open>
  Truncation towards zero; \<open>None\<close> for the infinities and NaNs. A normal double is
  \<open>(2^52 + man) * 2^(exp - 1075)\<close>.
\<close>

definition f64_trunc :: "64 word \<Rightarrow> int option" where
  "f64_trunc f =
     (let e = f64_exp f; m = f64_man f;
          a = (if e = 0 then 0
               else if 1075 \<le> e then (2 ^ 52 + m) * 2 ^ (e - 1075)
               else (2 ^ 52 + m) div 2 ^ (1075 - e))
      in if e = 2047 then None else Some (if f64_neg f then - int a else int a))"

text \<open>
  Conversion to an integer type with range \<open>lo..hi\<close>: the truncation when it fits, and
  what the implementation chooses otherwise.
\<close>

definition f64_to_int :: "runtime \<Rightarrow> int \<Rightarrow> int \<Rightarrow> 64 word \<Rightarrow> int" where
  "f64_to_int rt lo hi f =
     (case f64_trunc f of
        Some i \<Rightarrow> if lo \<le> i \<and> i \<le> hi then i else rt_conv rt lo hi f
      | None \<Rightarrow> rt_conv rt lo hi f)"

definition f64_to_u8 :: "runtime \<Rightarrow> 64 word \<Rightarrow> 8 word" where
  "f64_to_u8 rt f = word_of_int (f64_to_int rt 0 255 f)"

definition f64_to_u16 :: "runtime \<Rightarrow> 64 word \<Rightarrow> 16 word" where
  "f64_to_u16 rt f = word_of_int (f64_to_int rt 0 65535 f)"

definition f64_to_u32 :: "runtime \<Rightarrow> 64 word \<Rightarrow> 32 word" where
  "f64_to_u32 rt f = word_of_int (f64_to_int rt 0 4294967295 f)"

definition f64_to_i16 :: "runtime \<Rightarrow> 64 word \<Rightarrow> 16 word" where
  "f64_to_i16 rt f = word_of_int (f64_to_int rt (- 32768) 32767 f)"

definition f64_to_i32 :: "runtime \<Rightarrow> 64 word \<Rightarrow> 32 word" where
  "f64_to_i32 rt f = word_of_int (f64_to_int rt (- 2147483648) 2147483647 f)"

lemma f64_to_int_fits:
  "f64_trunc f = Some i \<Longrightarrow> lo \<le> i \<Longrightarrow> i \<le> hi \<Longrightarrow> f64_to_int rt lo hi f = i"
  by (simp add: f64_to_int_def)

section \<open>Narrowing to single precision\<close>

definition round_even :: "nat \<Rightarrow> nat \<Rightarrow> nat" where
  "round_even n k =
     (let q = n div 2 ^ k; r = n mod 2 ^ k
      in if 2 * r > 2 ^ k \<or> (2 * r = 2 ^ k \<and> odd q) then Suc q else q)"

text \<open>
  \<open>float32(f)\<close>: round to nearest, ties to even; the exponent of a double is re-biased
  by \<open>1023 - 127 = 896\<close>, a value below the smallest normal single is rounded to the
  subnormal grid, and a carry out of the mantissa moves to the next exponent.
\<close>

definition f32_of_f64 :: "runtime \<Rightarrow> 64 word \<Rightarrow> 32 word" where
  "f32_of_f64 rt f =
     (let e = f64_exp f; m = f64_man f; s = (if f64_neg f then 2 ^ 31 else 0);
          mag = (if e = 0 then 0
                 else if 897 \<le> e then (e - 897) * 2 ^ 23 + round_even (2 ^ 52 + m) 29
                 else round_even (2 ^ 52 + m) (29 + (897 - e)))
      in if e = 2047 \<and> m \<noteq> 0 then rt_nan32 rt f
         else word_of_nat (s + min mag 0x7F800000))"

section \<open>Widening an unsigned integer\<close>

fun msb_index :: "nat \<Rightarrow> nat" where
  "msb_index n = (if n < 2 then 0 else Suc (msb_index (n div 2)))"

declare msb_index.simps [simp del]

definition f64_of_u32 :: "32 word \<Rightarrow> 64 word" where
  "f64_of_u32 w =
     (let n = unat w; k = msb_index n
      in if n = 0 then 0
         else word_of_nat ((1023 + k) * 2 ^ 52 + (n - 2 ^ k) * 2 ^ (52 - k)))"

lemma msb_index_bounds: "0 < n \<Longrightarrow> 2 ^ msb_index n \<le> n \<and> n < 2 ^ Suc (msb_index n)"
proof (induction n rule: msb_index.induct)
  case (1 n)
  show ?case
  proof (cases "n < 2")
    case True
    with 1 show ?thesis by (simp add: msb_index.simps [of n])
  next
    case False
    with 1 have "2 ^ msb_index (n div 2) \<le> n div 2 \<and> n div 2 < 2 ^ Suc (msb_index (n div 2))"
      by simp
    with False show ?thesis by (auto simp: msb_index.simps [of n])
  qed
qed

lemma msb_index_less: "0 < n \<Longrightarrow> n < 2 ^ p \<Longrightarrow> msb_index n < p"
proof -
  assume "0 < n" and "n < 2 ^ p"
  with msb_index_bounds [of n] have "(2::nat) ^ msb_index n < 2 ^ p" by linarith
  then show ?thesis by (rule power_less_imp_less_exp [rotated]) simp
qed

lemma unat_word_of_nat64: "x < 2 ^ 64 \<Longrightarrow> unat (word_of_nat x :: 64 word) = x"
  by (simp add: unsigned_of_nat take_bit_nat_eq_self)

lemma f64_fields:
  assumes "m < 2 ^ 52" and "e < 2048"
  defines "f \<equiv> word_of_nat (e * 2 ^ 52 + m) :: 64 word"
  shows "f64_exp f = e" "f64_man f = m" "\<not> f64_neg f"
proof -
  have le: "e * 2 ^ 52 + m < 2 ^ 63" using assms(1,2) by simp
  then have u: "unat f = e * 2 ^ 52 + m"
    unfolding f_def by (intro unat_word_of_nat64) simp
  show "f64_exp f = e" using assms(1,2) by (simp add: f64_exp_def u)
  show "f64_man f = m" using assms(1,2) by (simp add: f64_man_def u)
  show "\<not> f64_neg f" using le by (simp add: f64_neg_def u)
qed

lemma f64_trunc_of_u32 [simp]: "f64_trunc (f64_of_u32 w) = Some (uint w)"
proof (cases "unat w = 0")
  case True
  then show ?thesis
    by (simp add: f64_of_u32_def f64_trunc_def f64_exp_def f64_neg_def unsigned_eq_0_iff)
next
  case False
  define n k where "n = unat w" and "k = msb_index n"
  have n: "0 < n" "n < 2 ^ 32" using False unsigned_less [of w, where 'a = nat] by (simp_all add: n_def)
  have k: "2 ^ k \<le> n" "n < 2 * 2 ^ k" "k < 32"
    using msb_index_bounds [OF n(1)] msb_index_less [OF n] by (simp_all add: k_def)
  have two: "(2::nat) ^ 52 = 2 ^ k * 2 ^ (52 - k)" using k(3) by (simp flip: power_add)
  have m: "(n - 2 ^ k) * 2 ^ (52 - k) < 2 ^ 52" using k(1,2) unfolding two by simp
  have sig: "2 ^ 52 + (n - 2 ^ k) * 2 ^ (52 - k) = n * 2 ^ (52 - k)"
    using k(1) unfolding two by (simp flip: add_mult_distrib)
  have e: "1075 - (1023 + k) = 52 - k" "1023 + k < 2048" "\<not> 1075 \<le> 1023 + k" using k(3) by simp_all
  have "f64_of_u32 w = word_of_nat ((1023 + k) * 2 ^ 52 + (n - 2 ^ k) * 2 ^ (52 - k))"
    using n by (simp add: f64_of_u32_def Let_def n_def k_def)
  with f64_fields [OF m e(2)] e sig
  have "f64_trunc (f64_of_u32 w) = Some (int (n * 2 ^ (52 - k) div 2 ^ (52 - k)))"
    unfolding f64_trunc_def Let_def by (simp del: power_numeral)
  then show ?thesis by (simp add: n_def)
qed

lemma uint_ucast_16_32 [simp]: "uint (ucast (w :: 16 word) :: 32 word) = uint w"
  using uint_bounded [of w] by (simp add: unsigned_ucast_eq take_bit_int_eq_self_iff)

lemma uint_ucast_8_32 [simp]: "uint (ucast (w :: 8 word) :: 32 word) = uint w"
  using uint_bounded [of w] by (simp add: unsigned_ucast_eq take_bit_int_eq_self_iff)

lemma f64_to_of_u32 [simp]: "f64_to_u32 rt (f64_of_u32 w) = w"
  using uint_bounded [of w] by (simp add: f64_to_u32_def f64_to_int_def)

lemma f64_to_of_u16 [simp]: "f64_to_u16 rt (f64_of_u32 (ucast w)) = w"
  using uint_bounded [of w] by (simp add: f64_to_u16_def f64_to_int_def)

lemma f64_to_of_u8 [simp]: "f64_to_u8 rt (f64_of_u32 (ucast w)) = w"
  using uint_bounded [of w] by (simp add: f64_to_u8_def f64_to_int_def)

end
