(* ===== verification/MapToUavtalk.thy ===== *)
theory MapToUavtalk
  imports Definitions GoFloat
begin

text \<open>
  \<open>uavtalk/maptouavtalk.go\<close>: from a data map to the bytes of an object. A writer only
  grows, so each function returns the bytes it appends. \<open>writeToUAVTalk\<close> recovers from
  every panic and then returns a nil error: a value of the wrong dynamic type, a missing
  key and a nil type info all append nothing and go unreported.
\<close>

definition valueForEnumString :: "FieldDefinition \<Rightarrow> string \<Rightarrow> 8 word res" where
  "valueForEnumString field option =
     (case find_first (\<lambda>opt. opt = option) (fOptions field) of
        Some val \<Rightarrow> Inr (word_of_nat val)
      | None \<Rightarrow> Inl (EnumOptionNotFound option))"

text \<open>The type assertions \<open>value.(float64)\<close> and \<open>value.(string)\<close>.\<close>

definition as_float64 :: "gval \<Rightarrow> 64 word res" where
  "as_float64 v = (case v of GF64 f \<Rightarrow> Inr f | _ \<Rightarrow> Inl Panic)"

definition as_string :: "gval \<Rightarrow> string res" where
  "as_string v = (case v of GStr s \<Rightarrow> Inr s | _ \<Rightarrow> Inl Panic)"

text \<open>The body of \<open>writeToUAVTalk\<close> under its deferred \<open>recover\<close>.\<close>

definition write_body :: "runtime \<Rightarrow> FieldDefinition \<Rightarrow> gval \<Rightarrow> bytes res" where
  "write_body rt field value =
     res_bind (deref (fFieldTypeInfo field)) (\<lambda>typeInfo.
     let name = tiName typeInfo in
     if name = ''int8'' then res_bind (as_float64 value) (\<lambda>f. Inr (put_le 1 (f64_to_u8 rt f)))
     else if name = ''int16'' then res_bind (as_float64 value) (\<lambda>f. Inr (put_le 2 (f64_to_i16 rt f)))
     else if name = ''int32'' then res_bind (as_float64 value) (\<lambda>f. Inr (put_le 4 (f64_to_i32 rt f)))
     else if name = ''uint8'' then res_bind (as_float64 value) (\<lambda>f. Inr (put_le 1 (f64_to_u8 rt f)))
     else if name = ''uint16'' then res_bind (as_float64 value) (\<lambda>f. Inr (put_le 2 (f64_to_u16 rt f)))
     else if name = ''uint32'' then res_bind (as_float64 value) (\<lambda>f. Inr (put_le 4 (f64_to_u32 rt f)))
     else if name = ''float'' then res_bind (as_float64 value) (\<lambda>f. Inr (put_le 4 (f32_of_f64 rt f)))
     else if name = ''enum'' then
       res_bind (as_string value) (\<lambda>s. res_bind (valueForEnumString field s) (\<lambda>b. Inr (put_le 1 b)))
     else Inl BadTypeInfo)"

definition writeToUAVTalk :: "runtime \<Rightarrow> FieldDefinition \<Rightarrow> gval \<Rightarrow> bytes res" where
  "writeToUAVTalk rt field value =
     (case write_body rt field value of Inl Panic \<Rightarrow> Inr [] | r \<Rightarrow> r)"

definition interfaceToUAVTalk :: "runtime \<Rightarrow> FieldDefinition \<Rightarrow> gval \<Rightarrow> bytes res" where
  "interfaceToUAVTalk rt field value =
     (if fElements field > 1 \<and> fElementNames field = [] then
        (case value of
           GArr valueArray \<Rightarrow>
             res_bind (map_res (writeToUAVTalk rt field) valueArray) (\<lambda>bss. Inr (concat bss))
         | _ \<Rightarrow> Inl (ShouldBeMap (fName field)))
      else if fElements field > 1 \<and> fElementNames field \<noteq> [] then
        (case value of
           GMap valueMap \<Rightarrow>
             res_bind (map_res (\<lambda>name. writeToUAVTalk rt field (gmap_get valueMap name)) (fElementNames field))
               (\<lambda>bss. Inr (concat bss))
         | _ \<Rightarrow> Inl (ShouldBeMap (fName field)))
      else writeToUAVTalk rt field value)"

definition mapToUAVTalk :: "runtime \<Rightarrow> Definition \<Rightarrow> gmap \<Rightarrow> bytes res" where
  "mapToUAVTalk rt uavdef data =
     res_bind (map_res (\<lambda>field. interfaceToUAVTalk rt field (gmap_get data (fName field))) (dFields uavdef))
       (\<lambda>bss. Inr (concat bss))"

section \<open>Which errors can be seen\<close>

lemma valueForEnumString_cases:
  "valueForEnumString f s = Inl e \<Longrightarrow> e = EnumOptionNotFound s \<and> s \<notin> set (fOptions f)"
  by (auto simp: valueForEnumString_def find_first_None_iff split: option.splits)

lemma writeToUAVTalk_no_panic: "writeToUAVTalk rt f v \<noteq> Inl Panic"
  by (auto simp: writeToUAVTalk_def split: sum.splits go_error.splits)

lemma write_body_errors:
  "write_body rt f v = Inl e \<Longrightarrow> e = Panic \<or> e = BadTypeInfo \<or> (\<exists>s. v = GStr s \<and> e = EnumOptionNotFound s)"
  by (auto simp: write_body_def Let_def res_bind_eq_Inl as_float64_def as_string_def deref_def
      split: if_splits gval.splits option.splits dest: valueForEnumString_cases)

lemma writeToUAVTalk_errors:
  "writeToUAVTalk rt f v = Inl e \<Longrightarrow> e = BadTypeInfo \<or> (\<exists>s. v = GStr s \<and> e = EnumOptionNotFound s)"
  using write_body_errors [of rt f v]
  by (auto simp: writeToUAVTalk_def split: sum.splits go_error.splits)

text \<open>A numeric field given anything but a number appends nothing and reports no error.\<close>

lemma writeToUAVTalk_silent:
  assumes "wf_field f" and "fType f \<noteq> ''enum''" and "\<And>x. v \<noteq> GF64 x"
  shows "writeToUAVTalk rt f v = Inr []"
proof -
  from assms(1) obtain t where t: "fFieldTypeInfo f = Some t" "t \<in> set TypeInfos" "tiName t = fType f"
    by (rule wf_field_info)
  have "as_float64 v = Inl Panic" using assms(3) by (cases v) (auto simp: as_float64_def)
  then have "write_body rt f v = Inl Panic"
    using t assms(2) by (auto simp: write_body_def Let_def TypeInfos_def)
  then show ?thesis by (simp add: writeToUAVTalk_def)
qed

end
