(* ===== verification/UavtalkToMap.thy ===== *)
theory UavtalkToMap
  imports Definitions
begin

text \<open>
  \<open>uavtalk/uavtalktomap.go\<close>: from the bytes of an object to a data map. A
  \<open>bytes.Reader\<close> is the bytes not read yet. Nothing recovers here: an enum value past
  the option list is an index panic.
\<close>

definition readFromUAVTalk :: "FieldDefinition \<Rightarrow> bytes \<Rightarrow> (gval \<times> bytes) res" where
  "readFromUAVTalk field reader =
     res_bind (deref (fFieldTypeInfo field)) (\<lambda>typeInfo.
     let name = tiName typeInfo in
     if name = ''int8'' then
       res_bind (binary_Read 1 reader) (\<lambda>(b, r). Inr (GU8 (get_le b), r))
     else if name = ''int16'' then
       res_bind (binary_Read 2 reader) (\<lambda>(b, r). Inr (GU16 (get_le b), r))
     else if name = ''int32'' then
       res_bind (binary_Read 4 reader) (\<lambda>(b, r). Inr (GI32 (get_le b), r))
     else if name = ''uint8'' then
       res_bind (binary_Read 1 reader) (\<lambda>(b, r). Inr (GU8 (get_le b), r))
     else if name = ''uint16'' then
       res_bind (binary_Read 2 reader) (\<lambda>(b, r). Inr (GU16 (get_le b), r))
     else if name = ''uint32'' then
       res_bind (binary_Read 4 reader) (\<lambda>(b, r). Inr (GU32 (get_le b), r))
     else if name = ''float'' then
       res_bind (binary_Read 4 reader) (\<lambda>(b, r). Inr (GF32 (get_le b), r))
     else if name = ''enum'' then
       res_bind (binary_Read 1 reader) (\<lambda>(b, r).
         let i = unat (get_le b :: 8 word) in
         if i < length (fOptions field) then Inr (GStr (fOptions field ! i), r) else Inl Panic)
     else Inl BadTypeInfo)"

fun read_array :: "FieldDefinition \<Rightarrow> nat \<Rightarrow> bytes \<Rightarrow> (gval list \<times> bytes) res" where
  "read_array field 0 reader = Inr ([], reader)"
| "read_array field (Suc n) reader =
     res_bind (readFromUAVTalk field reader) (\<lambda>(value, reader).
     res_bind (read_array field n reader) (\<lambda>(values, reader). Inr (value # values, reader)))"

text \<open>\<open>resultMap[field.ElementNames[i]] = value\<close>: the names not used yet, the turns left.\<close>

fun read_named :: "FieldDefinition \<Rightarrow> string list \<Rightarrow> nat \<Rightarrow> gmap \<Rightarrow> bytes \<Rightarrow> (gmap \<times> bytes) res" where
  "read_named field names 0 resultMap reader = Inr (resultMap, reader)"
| "read_named field names (Suc n) resultMap reader =
     res_bind (readFromUAVTalk field reader) (\<lambda>(value, reader).
     case names of
       [] \<Rightarrow> Inl Panic
     | name # names \<Rightarrow> read_named field names n (AList.update name value resultMap) reader)"

definition uAVTalkToInterface :: "FieldDefinition \<Rightarrow> bytes \<Rightarrow> (gval \<times> bytes) res" where
  "uAVTalkToInterface field reader =
     (if fElements field > 1 \<and> fElementNames field = [] then
        res_bind (read_array field (nat (fElements field)) reader) (\<lambda>(vs, r). Inr (GArr vs, r))
      else if fElements field > 1 \<and> fElementNames field \<noteq> [] then
        res_bind (read_named field (fElementNames field) (nat (fElements field)) [] reader)
          (\<lambda>(m, r). Inr (GMap m, r))
      else readFromUAVTalk field reader)"

fun read_fields :: "FieldDefinition list \<Rightarrow> gmap \<Rightarrow> bytes \<Rightarrow> gmap res" where
  "read_fields [] result reader = Inr result"
| "read_fields (field # fs) result reader =
     res_bind (uAVTalkToInterface field reader) (\<lambda>(value, reader).
     read_fields fs (AList.update (fName field) value result) reader)"

definition uAVTalkToMap :: "Definition \<Rightarrow> bytes \<Rightarrow> gmap res" where
  "uAVTalkToMap uavdef data = read_fields (dFields uavdef) [] data"

section \<open>Too few bytes\<close>

lemma readFromUAVTalk_consumes:
  assumes "wf_field f" and "readFromUAVTalk f bs = Inr (v, r)"
  shows "\<exists>xs. bs = xs @ r \<and> int (length xs) = field_size f"
proof -
  from assms(1) obtain t where "fFieldTypeInfo f = Some t" "t \<in> set TypeInfos"
    by (rule wf_field_info)
  with assms(2) show ?thesis
    by (auto simp: readFromUAVTalk_def field_size_def TypeInfos_def Let_def binary_Read_eq_Inr
        split: if_splits)
qed

lemma readFromUAVTalk_short:
  assumes "wf_field f" and "int (length bs) < field_size f"
  shows "readFromUAVTalk f bs = Inl (if bs = [] then EOF else UnexpectedEOF)"
proof -
  from assms(1) obtain t where "fFieldTypeInfo f = Some t" "t \<in> set TypeInfos"
    by (rule wf_field_info)
  with assms(2) show ?thesis
    by (auto simp: readFromUAVTalk_def field_size_def TypeInfos_def Let_def binary_Read_def)
qed

end
