(* ===== verification/UavtalkCodec.thy ===== *)
theory UavtalkCodec
  imports MapToUavtalk UavtalkToMap
begin

text \<open>
  The two directions of the object codec together: what \<open>mapToUAVTalk\<close> writes for a data
  map that fits its definition has exactly the length of the definition, and
  \<open>uAVTalkToMap\<close> reads it back. \<open>data_ok\<close> says that a map fits (the right dynamic types,
  the right number of elements, known enum options) and \<open>data_dec\<close> is the map that comes
  back, with every number in the type of its field.
\<close>

section \<open>The contract between a writer and a reader\<close>

locale wire_codec =
  fixes wr :: "'f \<Rightarrow> gval \<Rightarrow> bytes res" and rd :: "'f \<Rightarrow> bytes \<Rightarrow> (gval \<times> bytes) res"
    and width :: "'f \<Rightarrow> nat" and ok :: "'f \<Rightarrow> gval \<Rightarrow> bool" and dec :: "'f \<Rightarrow> gval \<Rightarrow> gval"
  assumes write_read: "ok f v \<Longrightarrow>
    \<exists>bs. wr f v = Inr bs \<and> length bs = width f \<and> (\<forall>rest. rd f (bs @ rest) = Inr (dec f v, rest))"
begin

lemma write_seq:
  "list_all (\<lambda>(f, v). ok f v) fvs \<Longrightarrow>
   \<exists>bss. map_res (\<lambda>(f, v). wr f v) fvs = Inr bss \<and>
     length (concat bss) = (\<Sum>(f, v)\<leftarrow>fvs. width f) \<and>
     list_all2 (\<lambda>(f, v) bs. \<forall>rest. rd f (bs @ rest) = Inr (dec f v, rest)) fvs bss"
proof (induction fvs)
  case (Cons fv fvs)
  obtain f v where fv: "fv = (f, v)" by fastforce
  with Cons obtain bss where bss: "map_res (\<lambda>(f, v). wr f v) fvs = Inr bss"
      "length (concat bss) = (\<Sum>(f, v)\<leftarrow>fvs. width f)"
      "list_all2 (\<lambda>(f, v) bs. \<forall>rest. rd f (bs @ rest) = Inr (dec f v, rest)) fvs bss"
    by auto
  moreover obtain bs where "wr f v = Inr bs" "length bs = width f"
      "\<forall>rest. rd f (bs @ rest) = Inr (dec f v, rest)"
    using write_read [of f v] Cons.prems fv by auto
  ultimately show ?case by (intro exI [of _ "bs # bss"]) (simp add: fv)
qed simp

lemma write_seq_same:
  assumes "list_all (ok f) vs"
  obtains bss where "map_res (wr f) vs = Inr bss" and "length (concat bss) = width f * length vs"
    and "list_all2 (\<lambda>v bs. \<forall>rest. rd f (bs @ rest) = Inr (dec f v, rest)) vs bss"
proof -
  have "list_all (\<lambda>(f, v). ok f v) (map (Pair f) vs)" using assms by (simp add: list_all_iff)
  from write_seq [OF this] obtain bss where "map_res (\<lambda>(f, v). wr f v) (map (Pair f) vs) = Inr bss"
      "length (concat bss) = (\<Sum>(f, v)\<leftarrow>map (Pair f) vs. width f)"
      "list_all2 (\<lambda>(f, v) bs. \<forall>rest. rd f (bs @ rest) = Inr (dec f v, rest)) (map (Pair f) vs) bss"
    by blast
  then show thesis
    by (intro that [of bss]) (simp_all add: map_res_map sum_list_triv comp_def list_all2_map1)
qed

end

section \<open>Scalars\<close>

definition scalar_ok :: "FieldDefinition \<Rightarrow> gval \<Rightarrow> bool" where
  "scalar_ok f v \<longleftrightarrow>
     wf_field f \<and>
     (if fType f = ''enum'' then
        (case v of GStr s \<Rightarrow> (case find_first (\<lambda>opt. opt = s) (fOptions f) of Some i \<Rightarrow> i < 256 | None \<Rightarrow> False)
         | _ \<Rightarrow> False)
      else (case v of GF64 _ \<Rightarrow> True | _ \<Rightarrow> False))"

definition scalar_dec :: "runtime \<Rightarrow> FieldDefinition \<Rightarrow> gval \<Rightarrow> gval" where
  "scalar_dec rt f v =
     (case v of
        GF64 x \<Rightarrow>
          if fType f = ''int8'' \<or> fType f = ''uint8'' then GU8 (f64_to_u8 rt x)
          else if fType f = ''int16'' then GU16 (f64_to_i16 rt x)
          else if fType f = ''uint16'' then GU16 (f64_to_u16 rt x)
          else if fType f = ''int32'' then GI32 (f64_to_i32 rt x)
          else if fType f = ''uint32'' then GU32 (f64_to_u32 rt x)
          else GF32 (f32_of_f64 rt x)
      | _ \<Rightarrow> v)"

lemma TypeInfos_cases:
  assumes "t \<in> set TypeInfos"
  obtains "tiName t = ''int8'' \<and> tiSize t = 1" | "tiName t = ''int16'' \<and> tiSize t = 2"
    | "tiName t = ''int32'' \<and> tiSize t = 4" | "tiName t = ''uint8'' \<and> tiSize t = 1"
    | "tiName t = ''uint16'' \<and> tiSize t = 2" | "tiName t = ''uint32'' \<and> tiSize t = 4"
    | "tiName t = ''float'' \<and> tiSize t = 4" | "tiName t = ''enum'' \<and> tiSize t = 1"
  using assms by (auto simp: TypeInfos_def)

lemma scalar_number:
  assumes "wf_field f" and "fType f \<noteq> ''enum''"
  shows "\<exists>bs. writeToUAVTalk rt f (GF64 x) = Inr bs \<and> length bs = nat (field_size f) \<and>
    (\<forall>rest. readFromUAVTalk f (bs @ rest) = Inr (scalar_dec rt f (GF64 x), rest))"
proof -
  from assms(1) obtain t where t: "fFieldTypeInfo f = Some t" "t \<in> set TypeInfos" "tiName t = fType f"
    by (rule wf_field_info)
  from t(2) show ?thesis
    by (cases rule: TypeInfos_cases)
       (use t(1,3) assms(2) in \<open>simp_all add: writeToUAVTalk_def write_body_def as_float64_def
          readFromUAVTalk_def scalar_dec_def field_size_def del: put_le.simps\<close>)
qed

lemma scalar_enum:
  assumes "wf_field f" and "fType f = ''enum''" and "find_first (\<lambda>opt. opt = s) (fOptions f) = Some i"
    and "i < 256"
  shows "\<exists>bs. writeToUAVTalk rt f (GStr s) = Inr bs \<and> length bs = nat (field_size f) \<and>
    (\<forall>rest. readFromUAVTalk f (bs @ rest) = Inr (GStr s, rest))"
proof -
  from assms(1) obtain t where t: "fFieldTypeInfo f = Some t" "t \<in> set TypeInfos" "tiName t = fType f"
    by (rule wf_field_info)
  have "unat (word_of_nat i :: byte) = i"
    using assms(4) by (simp add: unsigned_of_nat take_bit_nat_eq_self)
  moreover have "i < length (fOptions f)" "fOptions f ! i = s"
    using find_first_SomeD [OF assms(3)] by auto
  moreover have "field_size f = 1"
    using t assms(2) TypeInfos_cases [OF t(2)] by (auto simp: field_size_def)
  ultimately show ?thesis
    using t(1,3) assms(2,3)
    by (simp add: writeToUAVTalk_def write_body_def as_string_def valueForEnumString_def
        readFromUAVTalk_def del: put_le.simps)
qed

interpretation sc: wire_codec "writeToUAVTalk rt" readFromUAVTalk "\<lambda>f. nat (field_size f)" scalar_ok
    "scalar_dec rt" for rt
proof unfold_locales
  fix f v
  assume "scalar_ok f v"
  then consider x where "v = GF64 x" "wf_field f" "fType f \<noteq> ''enum''"
    | s i where "v = GStr s" "wf_field f" "fType f = ''enum''"
        "find_first (\<lambda>opt. opt = s) (fOptions f) = Some i" "i < 256"
    by (auto simp: scalar_ok_def split: if_splits gval.splits option.splits)
  then show "\<exists>bs. writeToUAVTalk rt f v = Inr bs \<and> length bs = nat (field_size f) \<and>
      (\<forall>rest. readFromUAVTalk f (bs @ rest) = Inr (scalar_dec rt f v, rest))"
    by cases (simp_all add: scalar_number scalar_enum scalar_dec_def [of rt f "GStr _"])
qed

section \<open>Fields: scalars, arrays and named elements\<close>

definition value_ok :: "FieldDefinition \<Rightarrow> gval \<Rightarrow> bool" where
  "value_ok f v \<longleftrightarrow> wf_field f \<and>
     (if fElements f > 1 \<and> fElementNames f = [] then
        (case v of GArr vs \<Rightarrow> int (length vs) = fElements f \<and> list_all (scalar_ok f) vs | _ \<Rightarrow> False)
      else if fElements f > 1 \<and> fElementNames f \<noteq> [] then
        (case v of GMap m \<Rightarrow> list_all (\<lambda>n. scalar_ok f (gmap_get m n)) (fElementNames f)
         | _ \<Rightarrow> False)
      else scalar_ok f v)"

definition value_dec :: "runtime \<Rightarrow> FieldDefinition \<Rightarrow> gval \<Rightarrow> gval" where
  "value_dec rt f v =
     (case v of
        GArr vs \<Rightarrow> GArr (map (scalar_dec rt f) vs)
      | GMap m \<Rightarrow> GMap (fold (\<lambda>n. AList.update n (scalar_dec rt f (gmap_get m n))) (fElementNames f) [])
      | _ \<Rightarrow> scalar_dec rt f v)"

definition value_width :: "FieldDefinition \<Rightarrow> nat" where
  "value_width f = nat (field_size f * fElements f)"

lemma read_array_ok:
  "list_all2 (\<lambda>v bs. \<forall>rest. readFromUAVTalk f (bs @ rest) = Inr (g v, rest)) vs bss \<Longrightarrow>
   read_array f (length vs) (concat bss @ rest) = Inr (map g vs, rest)"
  by (induction vs bss arbitrary: rest rule: list_all2_induct) auto

lemma read_named_ok:
  "list_all2 (\<lambda>n bs. \<forall>rest. readFromUAVTalk f (bs @ rest) = Inr (g n, rest)) ns bss \<Longrightarrow>
   read_named f ns (length ns) acc (concat bss @ rest) =
     Inr (fold (\<lambda>n. AList.update n (g n)) ns acc, rest)"
  by (induction ns bss arbitrary: acc rest rule: list_all2_induct) auto

lemma value_array:
  assumes "fElements f > 1" and "fElementNames f = []" and "int (length vs) = fElements f"
    and "list_all (scalar_ok f) vs"
  shows "\<exists>bs. interfaceToUAVTalk rt f (GArr vs) = Inr bs \<and> length bs = value_width f \<and>
    (\<forall>rest. uAVTalkToInterface f (bs @ rest) = Inr (value_dec rt f (GArr vs), rest))"
proof -
  from assms(1,3,4) have "wf_field f" by (cases vs) (auto simp: scalar_ok_def)
  then have pos: "0 \<le> field_size f" using field_size_pos [of f] by auto
  obtain bss where w: "map_res (writeToUAVTalk rt f) vs = Inr bss"
      "length (concat bss) = nat (field_size f) * length vs"
      and r: "list_all2 (\<lambda>v bs. \<forall>rest. readFromUAVTalk f (bs @ rest) = Inr (scalar_dec rt f v, rest)) vs bss"
    using sc.write_seq_same [OF assms(4)] by blast
  have n: "nat (fElements f) = length vs" using assms(3) by linarith
  have "length (concat bss) = value_width f"
    using w(2) pos n by (simp add: value_width_def nat_mult_distrib)
  with w(1) r assms(1,2) n show ?thesis
    by (intro exI [of _ "concat bss"])
       (simp add: interfaceToUAVTalk_def uAVTalkToInterface_def value_dec_def read_array_ok)
qed

lemma value_named:
  assumes "fElements f > 1" and "fElementNames f \<noteq> []" and "wf_field f"
    and "list_all (\<lambda>n. scalar_ok f (gmap_get m n)) (fElementNames f)"
  shows "\<exists>bs. interfaceToUAVTalk rt f (GMap m) = Inr bs \<and> length bs = value_width f \<and>
    (\<forall>rest. uAVTalkToInterface f (bs @ rest) = Inr (value_dec rt f (GMap m), rest))"
proof -
  let ?ns = "fElementNames f"
  have pos: "0 \<le> field_size f" using field_size_pos [OF assms(3)] by auto
  have "list_all (scalar_ok f) (map (gmap_get m) ?ns)" using assms(4) by (simp add: list_all_iff)
  then obtain bss where w: "map_res (writeToUAVTalk rt f) (map (gmap_get m) ?ns) = Inr bss"
      "length (concat bss) = nat (field_size f) * length (map (gmap_get m) ?ns)"
      and r: "list_all2 (\<lambda>v bs. \<forall>rest. readFromUAVTalk f (bs @ rest) = Inr (scalar_dec rt f v, rest))
          (map (gmap_get m) ?ns) bss"
    using sc.write_seq_same by blast
  have n: "nat (fElements f) = length ?ns" using assms(2,3) by (simp add: wf_field_def)
  have "length (concat bss) = value_width f"
    using w(2) pos n by (simp add: value_width_def nat_mult_distrib)
  with w(1) r assms(1,2) n show ?thesis
    by (intro exI [of _ "concat bss"])
       (simp add: interfaceToUAVTalk_def uAVTalkToInterface_def value_dec_def map_res_map
          list_all2_map1 read_named_ok [where g = "\<lambda>n. scalar_dec rt f (gmap_get m n)"])
qed

lemma scalar_ok_dec: "scalar_ok f v \<Longrightarrow> value_dec rt f v = scalar_dec rt f v"
  by (auto simp: scalar_ok_def value_dec_def split: gval.splits if_splits)

lemma value_single:
  assumes "\<not> fElements f > 1" and "scalar_ok f v"
  shows "\<exists>bs. interfaceToUAVTalk rt f v = Inr bs \<and> length bs = value_width f \<and>
    (\<forall>rest. uAVTalkToInterface f (bs @ rest) = Inr (value_dec rt f v, rest))"
proof -
  have "fElements f = 1" using assms by (simp add: scalar_ok_def wf_field_def)
  with sc.write_read [OF assms(2), of rt] show ?thesis
    using scalar_ok_dec [OF assms(2), of rt]
    by (simp add: interfaceToUAVTalk_def uAVTalkToInterface_def value_width_def)
qed

interpretation vc: wire_codec "interfaceToUAVTalk rt" uAVTalkToInterface value_width value_ok
    "value_dec rt" for rt
proof unfold_locales
  fix f v
  assume "value_ok f v"
  then consider vs where "v = GArr vs" "fElements f > 1" "fElementNames f = []"
        "int (length vs) = fElements f" "list_all (scalar_ok f) vs"
    | m where "v = GMap m" "fElements f > 1" "fElementNames f \<noteq> []" "wf_field f"
        "list_all (\<lambda>n. scalar_ok f (gmap_get m n)) (fElementNames f)"
    | "\<not> fElements f > 1" "scalar_ok f v"
    by (auto simp: value_ok_def split: if_splits gval.splits)
  then show "\<exists>bs. interfaceToUAVTalk rt f v = Inr bs \<and> length bs = value_width f \<and>
      (\<forall>rest. uAVTalkToInterface f (bs @ rest) = Inr (value_dec rt f v, rest))"
    by cases (simp_all add: value_array value_named value_single)
qed

section \<open>Objects\<close>

definition data_ok :: "Definition \<Rightarrow> gmap \<Rightarrow> bool" where
  "data_ok d data = list_all (\<lambda>f. value_ok f (gmap_get data (fName f))) (dFields d)"

definition data_dec :: "runtime \<Rightarrow> Definition \<Rightarrow> gmap \<Rightarrow> gmap" where
  "data_dec rt d data =
     fold (\<lambda>f. AList.update (fName f) (value_dec rt f (gmap_get data (fName f)))) (dFields d) []"

lemma read_fields_ok:
  "list_all2 (\<lambda>f bs. \<forall>rest. uAVTalkToInterface f (bs @ rest) = Inr (g f, rest)) fs bss \<Longrightarrow>
   read_fields fs acc (concat bss @ rest) = Inr (fold (\<lambda>f. AList.update (fName f) (g f)) fs acc)"
  by (induction fs bss arbitrary: acc rule: list_all2_induct) auto

lemma value_ok_wf: "value_ok f v \<Longrightarrow> wf_field f"
  by (simp add: value_ok_def)

lemma int_sum_list_cong:
  "(\<And>x. x \<in> set xs \<Longrightarrow> int (a x) = b x) \<Longrightarrow> int (\<Sum>x\<leftarrow>xs. a x) = (\<Sum>x\<leftarrow>xs. b x)"
  by (induction xs) auto

lemma object_codec:
  assumes "data_ok d data"
  obtains bs where "mapToUAVTalk rt d data = Inr bs" and "ByteLength (dFields d) = Inr (int (length bs))"
    and "\<And>rest. uAVTalkToMap d (bs @ rest) = Inr (data_dec rt d data)"
proof -
  let ?get = "\<lambda>f. gmap_get data (fName f)"
  have ok: "list_all (\<lambda>(f, v). value_ok f v) (map (\<lambda>f. (f, ?get f)) (dFields d))"
    using assms by (simp add: data_ok_def list_all_iff)
  have wf: "list_all wf_field (dFields d)"
    using assms value_ok_wf by (auto simp: data_ok_def list_all_iff)
  from vc.write_seq [OF ok, of rt] obtain bss
    where w: "map_res (\<lambda>f. interfaceToUAVTalk rt f (?get f)) (dFields d) = Inr bss"
      "length (concat bss) = (\<Sum>f\<leftarrow>dFields d. value_width f)"
      and r: "list_all2 (\<lambda>f bs. \<forall>rest. uAVTalkToInterface f (bs @ rest) = Inr (value_dec rt f (?get f), rest))
          (dFields d) bss"
    by (auto simp: map_res_map list_all2_map1 comp_def)
  have "int (value_width f) = field_size f * fElements f" if "f \<in> set (dFields d)" for f
    using wf that field_size_pos [of f] by (auto simp: list_all_iff value_width_def wf_field_def)
  then have "int (\<Sum>f\<leftarrow>dFields d. value_width f) = (\<Sum>f\<leftarrow>dFields d. field_size f * fElements f)"
    by (rule int_sum_list_cong)
  then have "ByteLength (dFields d) = Inr (int (length (concat bss)))"
    using ByteLength_wf [OF wf] w(2) by simp
  moreover have "uAVTalkToMap d (concat bss @ rest) = Inr (data_dec rt d data)" for rest
    using read_fields_ok [where g = "\<lambda>f. value_dec rt f (?get f)", OF r]
    by (simp add: uAVTalkToMap_def data_dec_def)
  ultimately show thesis using that [of "concat bss"] w(1) by (simp add: mapToUAVTalk_def)
qed

end
