(* ===== verification/Crc8.thy ===== *)
theory Crc8
  imports Prelude
begin

text \<open>
  The checksum of \<open>uavtalk/crc8.go\<close>. \<open>crc8Table\<close> and \<open>computeCrc8\<close> are the source's
  table and loop; \<open>crc8_ref\<close> is the reference, a bit-serial CRC-8 with generator
  \<open>x^8 + x^2 + x + 1\<close> that no table appears in. The lemmas show that the two agree,
  that a checksummed message has residue zero, and which corruptions are always seen.
\<close>

definition crc8Table :: "bytes" where
  "crc8Table = [
     0x00, 0x07, 0x0e, 0x09, 0x1c, 0x1b, 0x12, 0x15, 0x38, 0x3f, 0x36, 0x31, 0x24, 0x23, 0x2a, 0x2d,
     0x70, 0x77, 0x7e, 0x79, 0x6c, 0x6b, 0x62, 0x65, 0x48, 0x4f, 0x46, 0x41, 0x54, 0x53, 0x5a, 0x5d,
     0xe0, 0xe7, 0xee, 0xe9, 0xfc, 0xfb, 0xf2, 0xf5, 0xd8, 0xdf, 0xd6, 0xd1, 0xc4, 0xc3, 0xca, 0xcd,
     0x90, 0x97, 0x9e, 0x99, 0x8c, 0x8b, 0x82, 0x85, 0xa8, 0xaf, 0xa6, 0xa1, 0xb4, 0xb3, 0xba, 0xbd,
     0xc7, 0xc0, 0xc9, 0xce, 0xdb, 0xdc, 0xd5, 0xd2, 0xff, 0xf8, 0xf1, 0xf6, 0xe3, 0xe4, 0xed, 0xea,
     0xb7, 0xb0, 0xb9, 0xbe, 0xab, 0xac, 0xa5, 0xa2, 0x8f, 0x88, 0x81, 0x86, 0x93, 0x94, 0x9d, 0x9a,
     0x27, 0x20, 0x29, 0x2e, 0x3b, 0x3c, 0x35, 0x32, 0x1f, 0x18, 0x11, 0x16, 0x03, 0x04, 0x0d, 0x0a,
     0x57, 0x50, 0x59, 0x5e, 0x4b, 0x4c, 0x45, 0x42, 0x6f, 0x68, 0x61, 0x66, 0x73, 0x74, 0x7d, 0x7a,
     0x89, 0x8e, 0x87, 0x80, 0x95, 0x92, 0x9b, 0x9c, 0xb1, 0xb6, 0xbf, 0xb8, 0xad, 0xaa, 0xa3, 0xa4,
     0xf9, 0xfe, 0xf7, 0xf0, 0xe5, 0xe2, 0xeb, 0xec, 0xc1, 0xc6, 0xcf, 0xc8, 0xdd, 0xda, 0xd3, 0xd4,
     0x69, 0x6e, 0x67, 0x60, 0x75, 0x72, 0x7b, 0x7c, 0x51, 0x56, 0x5f, 0x58, 0x4d, 0x4a, 0x43, 0x44,
     0x19, 0x1e, 0x17, 0x10, 0x05, 0x02, 0x0b, 0x0c, 0x21, 0x26, 0x2f, 0x28, 0x3d, 0x3a, 0x33, 0x34,
     0x4e, 0x49, 0x40, 0x47, 0x52, 0x55, 0x5c, 0x5b, 0x76, 0x71, 0x78, 0x7f, 0x6a, 0x6d, 0x64, 0x63,
     0x3e, 0x39, 0x30, 0x37, 0x22, 0x25, 0x2c, 0x2b, 0x06, 0x01, 0x08, 0x0f, 0x1a, 0x1d, 0x14, 0x13,
     0xae, 0xa9, 0xa0, 0xa7, 0xb2, 0xb5, 0xbc, 0xbb, 0x96, 0x91, 0x98, 0x9f, 0x8a, 0x8d, 0x84, 0x83,
     0xde, 0xd9, 0xd0, 0xd7, 0xc2, 0xc5, 0xcc, 0xcb, 0xe6, 0xe1, 0xe8, 0xef, 0xfa, 0xfd, 0xf4, 0xf3]"


text \<open>
  \<open>for _, b := range packet { crc8 = crc8Table[crc8^uint8(b)] }\<close>; the index is a byte
  and the table has 256 entries (\<open>length_crc8Table\<close>), so it is always in range.
\<close>

fun computeCrc8 :: "byte \<Rightarrow> bytes \<Rightarrow> byte" where
  "computeCrc8 crc [] = crc"
| "computeCrc8 crc (b # packet) = computeCrc8 (crc8Table ! unat (crc XOR b)) packet"

section \<open>The bit-serial reference\<close>

definition crc8_shift :: "byte \<Rightarrow> byte" where
  "crc8_shift r = (if bit r 7 then push_bit 1 r XOR 0x07 else push_bit 1 r)"

definition crc8_bits :: "byte \<Rightarrow> byte" where
  "crc8_bits r =
     crc8_shift (crc8_shift (crc8_shift (crc8_shift (crc8_shift (crc8_shift (crc8_shift (crc8_shift r)))))))"

fun crc8_ref :: "byte \<Rightarrow> bytes \<Rightarrow> byte" where
  "crc8_ref crc [] = crc"
| "crc8_ref crc (b # bs) = crc8_ref (crc8_bits (crc XOR b)) bs"

lemma length_crc8Table: "length crc8Table = 256"
  by (simp add: crc8Table_def)

lemma crc8Table_eq_bits: "map crc8_bits (map word_of_nat [0..<256]) = crc8Table"
  by code_simp

lemma crc8Table_nth: "crc8Table ! unat x = crc8_bits x"
proof -
  have "unat x < 256" using unsigned_less [of x, where 'a = nat] by simp
  then show ?thesis by (simp add: crc8Table_eq_bits [symmetric] del: upt_Suc)
qed

lemma computeCrc8_eq_ref: "computeCrc8 crc bs = crc8_ref crc bs"
  by (induction bs arbitrary: crc) (auto simp: crc8Table_nth)

lemma computeCrc8_append: "computeCrc8 crc (xs @ ys) = computeCrc8 (computeCrc8 crc xs) ys"
  by (induction xs arbitrary: crc) auto

lemma bit_byte_7: "bit (7 :: byte) n \<longleftrightarrow> n < 3"
  by (cases "n < 3") (auto simp: numeral_eq_Suc less_Suc_eq bit_Suc)

lemma bit_crc8_shift:
  "bit (crc8_shift r) n \<longleftrightarrow> n < 8 \<and> ((0 < n \<and> bit r (n - 1)) \<noteq> (bit r 7 \<and> n < 3))"
  unfolding crc8_shift_def
  by (cases "bit r 7")
     (auto simp only: if_True if_False bit_xor_iff bit_push_bit_iff bit_byte_7 possible_bit_word, auto)

section \<open>Detecting corruption\<close>

text \<open>
  A checksum that folds bytes into a register detects every change of one byte as soon as
  its step is injective in the register and in the byte. That is the interface the frame
  reader relies on.
\<close>

locale checksum =
  fixes step :: "'r \<Rightarrow> byte \<Rightarrow> 'r"
  assumes step_inj_reg: "step r b = step s b \<Longrightarrow> r = s"
    and step_inj_byte: "step r a = step r b \<Longrightarrow> a = b"
begin

lemma foldl_inj: "foldl step r bs = foldl step s bs \<longleftrightarrow> r = s"
  by (induction bs arbitrary: r s) (auto dest: step_inj_reg)

lemma one_byte_detected:
  assumes "a \<noteq> b"
  shows "foldl step r (xs @ a # ys) \<noteq> foldl step r (xs @ b # ys)"
  using assms by (auto simp: foldl_inj dest: step_inj_byte)

end

definition crc8_step :: "byte \<Rightarrow> byte \<Rightarrow> byte" where
  "crc8_step crc b = crc8Table ! unat (crc XOR b)"

lemma computeCrc8_foldl: "computeCrc8 crc bs = foldl crc8_step crc bs"
  by (induction bs arbitrary: crc) (auto simp: crc8_step_def)

lemma crc8_shift_inj: "crc8_shift r = crc8_shift s \<longleftrightarrow> r = s"
proof
  assume eq: "crc8_shift r = crc8_shift s"
  have b: "bit (crc8_shift r) n = bit (crc8_shift s) n" for n by (simp add: eq)
  have top: "bit r 7 = bit s 7" using b [of 0] by (simp add: bit_crc8_shift)
  show "r = s"
  proof (rule bit_word_eqI)
    fix n
    assume "n < LENGTH(8)"
    then show "bit r n = bit s n"
      using b [of "Suc n"] top by (cases "n = 7") (auto simp: bit_crc8_shift)
  qed
qed simp

lemma crc8_bits_inj: "crc8_bits r = crc8_bits s \<longleftrightarrow> r = s"
  by (simp add: crc8_bits_def crc8_shift_inj)

lemma xor_cancel_byte: "(r XOR b = s XOR b) \<longleftrightarrow> r = s" for r s b :: byte
  by (metis xor.assoc xor_self_eq xor.right_neutral)

interpretation crc8: checksum crc8_step
proof unfold_locales
  show "crc8_step r b = crc8_step s b \<Longrightarrow> r = s" for r s b
    by (simp add: crc8_step_def crc8Table_nth crc8_bits_inj xor_cancel_byte)
  show "crc8_step r a = crc8_step r b \<Longrightarrow> a = b" for r a b
    by (simp add: crc8_step_def crc8Table_nth crc8_bits_inj)
       (metis xor.commute xor_cancel_byte)
qed

lemma crc8_bits_0 [simp]: "crc8_bits 0 = 0"
  by (simp add: crc8_bits_def crc8_shift_def)

lemma crc8_residue: "computeCrc8 crc (bs @ [computeCrc8 crc bs]) = 0"
  using crc8Table_nth [of 0] by (simp add: computeCrc8_append)

lemma crc8_residue_iff: "computeCrc8 crc (bs @ [c]) = 0 \<longleftrightarrow> c = computeCrc8 crc bs"
proof
  assume "computeCrc8 crc (bs @ [c]) = 0"
  then have "crc8_bits (computeCrc8 crc bs XOR c) = crc8_bits 0"
    by (simp add: computeCrc8_append crc8Table_nth)
  then show "c = computeCrc8 crc bs"
    unfolding crc8_bits_inj by (metis xor_self_eq xor.commute xor_cancel_byte)
qed (simp add: crc8_residue)

text \<open>The parity of the register follows the parity of the message.\<close>

fun xor_all :: "(nat \<Rightarrow> bool) \<Rightarrow> nat list \<Rightarrow> bool" where
  "xor_all P [] = False"
| "xor_all P (i # is) = (P i \<noteq> xor_all P is)"

definition parity8 :: "byte \<Rightarrow> bool" where
  "parity8 b = xor_all (bit b) [0..<8]"

definition parity_bytes :: "bytes \<Rightarrow> bool" where
  "parity_bytes bs = foldr (\<lambda>b p. parity8 b \<noteq> p) bs False"

lemma xor_all_neq: "xor_all (\<lambda>i. P i \<noteq> Q i) is = (xor_all P is \<noteq> xor_all Q is)"
  by (induction "is") auto

lemma parity8_xor: "parity8 (a XOR b) = (parity8 a \<noteq> parity8 b)"
proof -
  have "bit (a XOR b) = (\<lambda>i. bit a i \<noteq> bit b i)" by (simp add: fun_eq_iff bit_xor_iff)
  then show ?thesis by (simp only: parity8_def xor_all_neq)
qed

lemma upt_8: "[0..<8] = [0, 1, 2, 3, 4, 5, 6, 7]"
  by (simp add: upt_rec)

lemma parity8_shift: "parity8 (crc8_shift r) = parity8 r"
  by (cases "bit r 7") (simp_all add: parity8_def upt_8 bit_crc8_shift, argo)

lemma parity8_bits: "parity8 (crc8_bits r) = parity8 r"
  by (simp add: crc8_bits_def parity8_shift)

lemma parity_computeCrc8: "parity8 (computeCrc8 crc bs) = (parity8 crc \<noteq> parity_bytes bs)"
  by (induction bs arbitrary: crc)
     (auto simp: parity_bytes_def crc8Table_nth parity8_bits parity8_xor)

end
