(* ===== verification/Packet.thy ===== *)
theory Packet
  imports UavtalkCodec Crc8
begin

text \<open>
  The packets of \<open>uavtalk/uavtalk.go\<close>: their construction, their binary form, the search
  for a complete frame in the receive buffer and the parsing of a frame.

  A frame is the sync byte \<open>0x3c\<close>, the command with the version bit, the length, the
  object id, the instance id when the object has several instances, the data of a command
  that carries data, and the CRC-8 of everything before it; the length does not count the
  CRC. The lemmas characterise \<open>packetComplete\<close> on any buffer, show that bytes arriving
  later never change its verdict, and prove the round trip of \<open>toBinary\<close> and
  \<open>newPacketFromBinary\<close>.
\<close>

abbreviation (input) versionMask :: "8 word" where "versionMask \<equiv> 0x20"
abbreviation (input) shortHeaderLength :: int where "shortHeaderLength \<equiv> 8"
abbreviation (input) MaxHIDFrameSize :: nat where "MaxHIDFrameSize \<equiv> 64"

abbreviation (input) ObjectCmd :: "8 word" where "ObjectCmd \<equiv> 0"
abbreviation (input) ObjectRequest :: "8 word" where "ObjectRequest \<equiv> 1"
abbreviation (input) ObjectCmdWithAck :: "8 word" where "ObjectCmdWithAck \<equiv> 2"
abbreviation (input) ObjectAck :: "8 word" where "ObjectAck \<equiv> 3"
abbreviation (input) ObjectNack :: "8 word" where "ObjectNack \<equiv> 4"

record Packet =
  pDefinition :: defptr
  pCmd :: "8 word"
  pLength :: "16 word"
  pInstanceID :: "16 word"
  pData :: gmap

definition has_data :: "8 word \<Rightarrow> bool" where
  "has_data cmd \<longleftrightarrow> cmd = ObjectCmd \<or> cmd = ObjectCmdWithAck"

section \<open>Operations\<close>

text \<open>\<open>binary.Write\<close> of a fixed-size value into a \<open>bytes.Buffer\<close> never fails.\<close>

definition packet_header :: "Definition \<Rightarrow> Packet \<Rightarrow> bytes" where
  "packet_header d packet =
     put_le 1 (0x3c :: 8 word) @ put_le 1 (pCmd packet OR versionMask) @ put_le 2 (pLength packet) @
     put_le 4 (dObjectID d) @ (if dSingleInstance d then [] else put_le 2 (pInstanceID packet))"

definition toBinary :: "runtime \<Rightarrow> definitions \<Rightarrow> Packet \<Rightarrow> bytes res" where
  "toBinary rt defs packet =
     res_bind (get_def defs (pDefinition packet)) (\<lambda>d.
     res_bind (if has_data (pCmd packet) then mapToUAVTalk rt d (pData packet) else Inr []) (\<lambda>data.
     let writer = packet_header d packet @ data
     in Inr (writer @ put_le 1 (computeCrc8 0 writer))))"

definition byteArrayToInt32 :: "bytes \<Rightarrow> 32 word res" where
  "byteArrayToInt32 b =
     (if length b \<noteq> 4 then Inl Panic
      else Inr (push_bit 24 (ucast (b ! 3)) OR push_bit 16 (ucast (b ! 2)) OR
                push_bit 8 (ucast (b ! 1)) OR ucast (b ! 0)))"

definition byteArrayToInt16 :: "bytes \<Rightarrow> 16 word res" where
  "byteArrayToInt16 b =
     (if length b \<noteq> 2 then Inl Panic else Inr (push_bit 8 (ucast (b ! 1)) OR ucast (b ! 0)))"

text \<open>The inner loop: the first sync byte at \<open>start\<close> or later with eight bytes from it on.\<close>

definition find_sync :: "bytes \<Rightarrow> nat \<Rightarrow> nat option" where
  "find_sync buffer start =
     map_option (\<lambda>i. start + i) (find_first (\<lambda>b. b = 0x3c) (take (length buffer - 7 - start) (drop start buffer)))"

lemma find_sync_bounds: "find_sync buffer start = Some i \<Longrightarrow> start \<le> i \<and> i + 8 \<le> length buffer \<and> buffer ! i = 0x3c"
  by (auto simp: find_sync_def dest!: find_first_SomeD)

type_synonym verdict = "bool \<times> nat \<times> nat \<times> go_error option"

function packetComplete_from :: "int \<Rightarrow> bytes \<Rightarrow> nat \<Rightarrow> verdict" where
  "packetComplete_from maxLen buffer start =
     (case find_sync buffer start of
        None \<Rightarrow> (False, 0, 0, None)
      | Some offset \<Rightarrow>
          (case byteArrayToInt16 (take 2 (drop (offset + 2) buffer)) of
             Inl e \<Rightarrow> (False, 0, 0, Some e)
           | Inr len16 \<Rightarrow>
               let len = unat len16 in
               if int len > maxLen + shortHeaderLength + 2 then
                 packetComplete_from maxLen buffer (offset + 1)
               else if len + 1 > length buffer - offset then (False, 0, 0, None)
               else if buffer ! (offset + len) \<noteq> computeCrc8 0 (take len (drop offset buffer)) then
                 (False, offset, offset + len + 1, Some WrongCrc8)
               else (True, offset, offset + len + 1, None)))"
  by pat_completeness auto
termination
  by (relation "measure (\<lambda>(maxLen, buffer, start). length buffer - start)")
     (auto dest: find_sync_bounds)

declare packetComplete_from.simps [simp del]

definition packetComplete :: "int \<Rightarrow> bytes \<Rightarrow> verdict" where
  "packetComplete maxUAVObjectLength buffer = packetComplete_from maxUAVObjectLength buffer 0"

text \<open>
  The argument is a slice of the receive buffer: the three reads of the header are bounded
  by its capacity, the last one by its length.
\<close>

definition newPacketFromBinary :: "definitions \<Rightarrow> slice \<Rightarrow> Packet res" where
  "newPacketFromBinary defs binaryPacket =
     res_bind (slice_index binaryPacket 1) (\<lambda>b1.
     res_bind (slice_range binaryPacket 2 4) (\<lambda>s. res_bind (byteArrayToInt16 (vis s)) (\<lambda>len.
     res_bind (slice_range binaryPacket 4 8) (\<lambda>s. res_bind (byteArrayToInt32 (vis s)) (\<lambda>objectID.
     res_bind (GetDefinitionForObjectID defs objectID) (\<lambda>p.
     res_bind (get_def defs p) (\<lambda>d.
     res_bind (if dSingleInstance d then Inr (0, 8)
               else res_bind (slice_range binaryPacket 8 10) (\<lambda>s.
                    res_bind (byteArrayToInt16 (vis s)) (\<lambda>i. Inr (i, 10))))
       (\<lambda>(instanceID, headerSize).
     res_bind (slice_range binaryPacket headerSize (length (vis binaryPacket) - 1)) (\<lambda>binaryData.
     let cmd = b1 XOR versionMask in
     res_bind (if has_data cmd then uAVTalkToMap d (vis binaryData) else Inr []) (\<lambda>data.
     Inr \<lparr>pDefinition = p, pCmd = cmd, pLength = len, pInstanceID = instanceID, pData = data\<rparr>))))))))))"

definition NewPacket :: "definitions \<Rightarrow> defptr \<Rightarrow> 8 word \<Rightarrow> 16 word \<Rightarrow> gmap \<Rightarrow> Packet res" where
  "NewPacket defs p cmd instanceID data =
     res_bind (get_def defs p) (\<lambda>d.
     res_bind (if has_data cmd then ByteLength (dFields d) else Inr 0) (\<lambda>fieldsLength.
     Inr \<lparr>pDefinition = p, pCmd = cmd,
          pLength = word_of_int (if dSingleInstance d then shortHeaderLength + fieldsLength
                                 else shortHeaderLength + fieldsLength + 2),
          pInstanceID = instanceID, pData = data\<rparr>))"

text \<open>The loop of \<open>Start\<close> that computes \<open>maxUAVObjectLength\<close>, from its current value.\<close>

fun maxUAVObjectLength_loop :: "definitions \<Rightarrow> int \<Rightarrow> int res" where
  "maxUAVObjectLength_loop [] m = Inr m"
| "maxUAVObjectLength_loop (d # ds) m =
     res_bind (ByteLength (dFields d)) (\<lambda>n.
     let tmp = n + shortHeaderLength; tmp = (if dSingleInstance d then tmp else tmp + 2)
     in maxUAVObjectLength_loop ds (if tmp > m then tmp else m))"

section \<open>Words from bytes\<close>

lemma length_2_conv: "length b = 2 \<longleftrightarrow> (\<exists>x y. b = [x, y])"
  by (auto simp: numeral_eq_Suc length_Suc_conv)

lemma length_4_conv: "length b = 4 \<longleftrightarrow> (\<exists>x y z w. b = [x, y, z, w])"
  by (auto simp: numeral_eq_Suc length_Suc_conv)

lemma byteArrayToInt16_eq: "length b = 2 \<Longrightarrow> byteArrayToInt16 b = Inr (get_le b)"
  by (auto simp: length_2_conv byteArrayToInt16_def or.commute)

lemma byteArrayToInt32_eq: "length b = 4 \<Longrightarrow> byteArrayToInt32 b = Inr (get_le b)"
  by (auto simp: length_4_conv byteArrayToInt32_def push_bit_or or.assoc or.commute or.left_commute)

lemma byteArrayToInt16_put [simp]: "byteArrayToInt16 (put_le 2 w) = Inr w"
  by (simp add: byteArrayToInt16_eq del: put_le.simps)

lemma byteArrayToInt32_put [simp]: "byteArrayToInt32 (put_le 4 w) = Inr w"
  by (simp add: byteArrayToInt32_eq del: put_le.simps)

definition len_at :: "bytes \<Rightarrow> nat \<Rightarrow> nat" where
  "len_at buffer offset = unat (get_le (take 2 (drop (offset + 2) buffer)) :: 16 word)"

lemma packetComplete_from_unfold:
  "packetComplete_from maxLen buffer start =
     (case find_sync buffer start of
        None \<Rightarrow> (False, 0, 0, None)
      | Some offset \<Rightarrow>
          let len = len_at buffer offset in
          if int len > maxLen + 10 then packetComplete_from maxLen buffer (offset + 1)
          else if len + 1 > length buffer - offset then (False, 0, 0, None)
          else if buffer ! (offset + len) \<noteq> computeCrc8 0 (take len (drop offset buffer)) then
            (False, offset, offset + len + 1, Some WrongCrc8)
          else (True, offset, offset + len + 1, None))"
  by (subst packetComplete_from.simps)
     (auto simp: byteArrayToInt16_eq len_at_def Let_def dest: find_sync_bounds split: option.splits)

section \<open>What packetComplete decides\<close>

text \<open>A frame at an offset of the buffer, apart from its checksum.\<close>

definition candidate :: "int \<Rightarrow> bytes \<Rightarrow> nat \<Rightarrow> nat \<Rightarrow> bool" where
  "candidate maxLen buffer lo hi \<longleftrightarrow>
     lo + 8 \<le> length buffer \<and> buffer ! lo = 0x3c \<and> int (len_at buffer lo) \<le> maxLen + 10 \<and>
     hi = lo + len_at buffer lo + 1 \<and> hi \<le> length buffer"

definition crc_ok :: "bytes \<Rightarrow> nat \<Rightarrow> bool" where
  "crc_ok buffer lo \<longleftrightarrow>
     buffer ! (lo + len_at buffer lo) = computeCrc8 0 (take (len_at buffer lo) (drop lo buffer))"

abbreviation wait :: verdict where "wait \<equiv> (False, 0, 0, None)"

lemma packetComplete_from_cases:
  obtains "packetComplete_from m buffer start = wait"
  | lo hi where "packetComplete_from m buffer start = (True, lo, hi, None)"
      "start \<le> lo" "candidate m buffer lo hi" "crc_ok buffer lo"
  | lo hi where "packetComplete_from m buffer start = (False, lo, hi, Some WrongCrc8)"
      "start \<le> lo" "candidate m buffer lo hi" "\<not> crc_ok buffer lo"
proof (induction m buffer start arbitrary: thesis rule: packetComplete_from.induct)
  case (1 m buffer start)
  show ?case
  proof (cases "find_sync buffer start")
    case None
    then have "packetComplete_from m buffer start = wait" by (simp add: packetComplete_from_unfold)
    then show ?thesis by (rule "1.prems"(1))
  next
    case (Some i)
    note b = find_sync_bounds [OF Some]
    let ?l = "len_at buffer i"
    have conv: "byteArrayToInt16 (take 2 (drop (i + 2) buffer)) = Inr (get_le (take 2 (drop (i + 2) buffer)))"
      using b by (intro byteArrayToInt16_eq) (auto simp: min_def)
    show ?thesis
    proof (cases "int ?l > m + 10")
      case True
      then have step: "packetComplete_from m buffer start = packetComplete_from m buffer (i + 1)"
        using Some by (subst packetComplete_from_unfold) (simp add: Let_def)
      have "int (unat (get_le (take 2 (drop (i + 2) buffer)) :: 16 word)) > m + shortHeaderLength + 2"
        using True by (simp add: len_at_def)
      note IH = "1.IH" [OF Some conv refl this]
      show ?thesis
        by (rule IH) (use "1.prems" b step in \<open>auto intro: order_trans\<close>)
    next
      case False
      show ?thesis
      proof (cases "?l + 1 > length buffer - i")
        case True
        with False Some have "packetComplete_from m buffer start = wait"
          by (subst packetComplete_from_unfold) (simp add: Let_def)
        then show ?thesis by (rule "1.prems"(1))
      next
        case fits: False
        have c: "candidate m buffer i (i + ?l + 1)" using b False fits by (auto simp: candidate_def)
        show ?thesis
        proof (cases "crc_ok buffer i")
          case True
          with False fits Some have "packetComplete_from m buffer start = (True, i, i + ?l + 1, None)"
            by (subst packetComplete_from_unfold) (simp add: Let_def crc_ok_def)
          with c True b show ?thesis by (intro "1.prems"(2)) auto
        next
          case bad: False
          with False fits Some
          have "packetComplete_from m buffer start = (False, i, i + ?l + 1, Some WrongCrc8)"
            by (subst packetComplete_from_unfold) (simp add: Let_def crc_ok_def)
          with c bad b show ?thesis by (intro "1.prems"(3)) auto
        qed
      qed
    qed
  qed
qed

section \<open>Bytes that arrive later\<close>

lemma find_sync_append: "find_sync xs start = Some i \<Longrightarrow> find_sync (xs @ ys) start = Some i"
proof -
  assume a: "find_sync xs start = Some i"
  note b = find_sync_bounds [OF a]
  let ?n = "length xs - 7 - start"
  have n: "length (xs @ ys) - 7 - start = ?n + length ys" using b by simp
  have "take ?n (drop start (xs @ ys)) = take ?n (drop start xs)" using b by simp
  then have "take (length (xs @ ys) - 7 - start) (drop start (xs @ ys)) =
      take ?n (drop start xs) @ take (length ys) (drop ?n (drop start (xs @ ys)))"
    unfolding n by (simp only: take_add)
  with a show ?thesis by (auto simp: find_sync_def find_first_append_left)
qed

lemma len_at_append: "i + 4 \<le> length xs \<Longrightarrow> len_at (xs @ ys) i = len_at xs i"
  by (simp add: len_at_def)

lemma packetComplete_from_append:
  "packetComplete_from m xs start \<noteq> wait \<Longrightarrow>
   packetComplete_from m (xs @ ys) start = packetComplete_from m xs start"
proof (induction m xs start rule: packetComplete_from.induct)
  case (1 m xs start)
  then obtain i where i: "find_sync xs start = Some i"
    by (cases "find_sync xs start") (auto simp: packetComplete_from_unfold)
  note b = find_sync_bounds [OF i]
  have l: "len_at (xs @ ys) i = len_at xs i" using b by (intro len_at_append) simp
  have conv: "byteArrayToInt16 (take 2 (drop (i + 2) xs)) = Inr (get_le (take 2 (drop (i + 2) xs)))"
    using b by (intro byteArrayToInt16_eq) (auto simp: min_def)
  show ?case
  proof (cases "int (len_at xs i) > m + 10")
    case True
    then have "int (unat (get_le (take 2 (drop (i + 2) xs)) :: 16 word)) > m + shortHeaderLength + 2"
      by (simp add: len_at_def)
    moreover have skip: "packetComplete_from m xs start = packetComplete_from m xs (i + 1)"
      using True i by (subst packetComplete_from_unfold) (simp add: Let_def)
    ultimately have "packetComplete_from m (xs @ ys) (i + 1) = packetComplete_from m xs (i + 1)"
      using "1.IH" [OF i conv refl] "1.prems" by simp
    with skip True find_sync_append [OF i] l show ?thesis
      by (subst packetComplete_from_unfold) (simp add: Let_def)
  next
    case False
    with "1.prems" i have fits: "\<not> len_at xs i + 1 > length xs - i"
      by (subst (asm) packetComplete_from_unfold) (auto simp: Let_def)
    then have "(xs @ ys) ! (i + len_at xs i) = xs ! (i + len_at xs i)"
        "take (len_at xs i) (drop i (xs @ ys)) = take (len_at xs i) (drop i xs)"
      using b by (auto simp: nth_append)
    moreover have "\<not> len_at xs i + 1 > length (xs @ ys) - i" using fits b by simp
    ultimately show ?thesis
      using False fits i find_sync_append [OF i] l
      by (subst (1 2) packetComplete_from_unfold) (simp add: Let_def)
  qed
qed

lemma packetComplete_append:
  "packetComplete m xs \<noteq> wait \<Longrightarrow> packetComplete m (xs @ ys) = packetComplete m xs"
  by (simp add: packetComplete_def packetComplete_from_append)

lemma packetComplete_cases:
  obtains "packetComplete m buffer = wait"
  | lo hi where "packetComplete m buffer = (True, lo, hi, None)"
      "candidate m buffer lo hi" "crc_ok buffer lo"
  | lo hi where "packetComplete m buffer = (False, lo, hi, Some WrongCrc8)"
      "candidate m buffer lo hi" "\<not> crc_ok buffer lo"
  unfolding packetComplete_def by (rule packetComplete_from_cases [of m buffer 0]) blast+

text \<open>The bytes of a whole frame with a correct checksum.\<close>

definition is_frame :: "int \<Rightarrow> bytes \<Rightarrow> bool" where
  "is_frame m f \<longleftrightarrow>
     8 < length f \<and> f ! 0 = 0x3c \<and> Suc (len_at f 0) = length f \<and> int (len_at f 0) \<le> m + 10 \<and>
     last f = computeCrc8 0 (butlast f)"

lemma find_sync_skip:
  assumes "0x3c \<notin> set junk" and "8 < length f" and "f ! 0 = 0x3c"
  shows "find_sync (junk @ f @ rest) 0 = Some (length junk)"
proof -
  let ?b = "junk @ f @ rest"
  have "find_first (\<lambda>b. b = 0x3c) (take (length ?b - 7) ?b) = Some (length junk)"
    using assms by (intro find_first_SomeI) (auto simp: nth_append in_set_conv_nth)
  then show ?thesis by (simp add: find_sync_def)
qed

lemma packetComplete_frame:
  assumes "0x3c \<notin> set junk" and "is_frame m f"
  shows "packetComplete m (junk @ f @ rest) = (True, length junk, length junk + length f, None)"
proof -
  from assms(2) have f: "8 < length f" "f ! 0 = 0x3c" "Suc (len_at f 0) = length f"
      "int (len_at f 0) \<le> m + 10" "last f = computeCrc8 0 (butlast f)"
    by (auto simp: is_frame_def)
  have l: "len_at (junk @ f @ rest) (length junk) = len_at f 0"
    using f(1) by (simp add: len_at_def numeral_2_eq_2)
  have "f \<noteq> []" using f(1) by auto
  then have "(f @ rest) ! len_at f 0 = last f" "take (len_at f 0) (f @ rest) = butlast f"
    using f(3) by (auto simp: nth_append last_conv_nth butlast_conv_take simp flip: f(3))
  with f l find_sync_skip [OF assms(1) f(1,2), of rest] show ?thesis
    unfolding packetComplete_def
    by (subst packetComplete_from_unfold) (auto simp: Let_def nth_append)
qed

section \<open>Well-formed packets and their frames\<close>

definition wire_length :: "Definition \<Rightarrow> 8 word \<Rightarrow> int" where
  "wire_length d cmd =
     8 + (if dSingleInstance d then 0 else 2) +
     (if has_data cmd then (\<Sum>f\<leftarrow>dFields d. field_size f * fElements f) else 0)"

definition packet_ok :: "definitions \<Rightarrow> Packet \<Rightarrow> bool" where
  "packet_ok defs p \<longleftrightarrow>
     pDefinition p < length defs \<and>
     (let d = defs ! pDefinition p in
      pLength p = word_of_int (wire_length d (pCmd p)) \<and> wire_length d (pCmd p) < 65536 \<and>
      (has_data (pCmd p) \<longrightarrow> data_ok d (pData p)))"

lemma data_ok_wf: "data_ok d data \<Longrightarrow> list_all wf_field (dFields d)"
  by (auto simp: data_ok_def list_all_iff dest: value_ok_wf)

lemma NewPacket_ok:
  assumes "p < length defs" and "wire_length (defs ! p) cmd < 65536"
    and "has_data cmd \<Longrightarrow> data_ok (defs ! p) data"
  obtains pkt where "NewPacket defs p cmd i data = Inr pkt" and "packet_ok defs pkt"
    and "pDefinition pkt = p" and "pCmd pkt = cmd" and "pInstanceID pkt = i" and "pData pkt = data"
proof -
  let ?d = "defs ! p"
  have "(if has_data cmd then ByteLength (dFields ?d) else Inr 0) =
      Inr (if has_data cmd then \<Sum>f\<leftarrow>dFields ?d. field_size f * fElements f else 0)"
    using ByteLength_wf [OF data_ok_wf [OF assms(3)]] by simp
  then show thesis using assms
    by (intro that)
       (auto simp: NewPacket_def get_def_def packet_ok_def wire_length_def Let_def add.commute add.left_commute)
qed

lemma unat_word_of_int16: "0 \<le> x \<Longrightarrow> x < 65536 \<Longrightarrow> unat (word_of_int x :: 16 word) = nat x"
  by (simp add: unsigned_of_int take_bit_int_eq_self)

lemma length_packet_header: "length (packet_header d p) = (if dSingleInstance d then 8 else 10)"
  by (simp add: packet_header_def del: put_le.simps)

lemma toBinary_ok:
  assumes "packet_ok defs p"
  obtains data where "toBinary rt defs p =
      Inr (packet_header (defs ! pDefinition p) p @ data @
           [computeCrc8 0 (packet_header (defs ! pDefinition p) p @ data)])"
    and "length (packet_header (defs ! pDefinition p) p @ data) = unat (pLength p)"
    and "wire_length (defs ! pDefinition p) (pCmd p) = int (unat (pLength p))"
    and "\<And>rest. has_data (pCmd p) \<Longrightarrow>
          uAVTalkToMap (defs ! pDefinition p) (data @ rest) =
            Inr (data_dec rt (defs ! pDefinition p) (pData p))"
proof -
  let ?d = "defs ! pDefinition p"
  from assms have len: "pLength p = word_of_int (wire_length ?d (pCmd p))" "wire_length ?d (pCmd p) < 65536"
    by (auto simp: packet_ok_def Let_def)
  have "\<exists>data. (if has_data (pCmd p) then mapToUAVTalk rt ?d (pData p) else Inr []) = Inr data \<and>
      wire_length ?d (pCmd p) = int (length (packet_header ?d p @ data)) \<and>
      (has_data (pCmd p) \<longrightarrow> (\<forall>rest. uAVTalkToMap ?d (data @ rest) = Inr (data_dec rt ?d (pData p))))"
  proof (cases "has_data (pCmd p)")
    case True
    with assms have ok: "data_ok ?d (pData p)" by (auto simp: packet_ok_def Let_def)
    then obtain bs where "mapToUAVTalk rt ?d (pData p) = Inr bs"
        "ByteLength (dFields ?d) = Inr (int (length bs))"
        "\<And>rest. uAVTalkToMap ?d (bs @ rest) = Inr (data_dec rt ?d (pData p))"
      using object_codec [where rt = rt] by blast
    with True ByteLength_wf [OF data_ok_wf [OF ok]] show ?thesis
      by (simp add: wire_length_def length_packet_header)
  qed (simp add: wire_length_def length_packet_header)
  then obtain data where d: "(if has_data (pCmd p) then mapToUAVTalk rt ?d (pData p) else Inr []) = Inr data"
      "wire_length ?d (pCmd p) = int (length (packet_header ?d p @ data))"
      "has_data (pCmd p) \<Longrightarrow> \<forall>rest. uAVTalkToMap ?d (data @ rest) = Inr (data_dec rt ?d (pData p))"
    by blast
  have "unat (pLength p) = length (packet_header ?d p @ data)"
    using unat_word_of_int16 [of "wire_length ?d (pCmd p)"] len d(2) by simp
  moreover have "toBinary rt defs p = Inr (packet_header ?d p @ data @ [computeCrc8 0 (packet_header ?d p @ data)])"
    using assms d(1) by (simp add: toBinary_def packet_ok_def get_def_def Let_def)
  ultimately show thesis using that d(2,3) by auto
qed

lemma header_cons: "packet_header d p =
  0x3c # (pCmd p OR versionMask) # put_le 2 (pLength p) @ put_le 4 (dObjectID d) @
  (if dSingleInstance d then [] else put_le 2 (pInstanceID p))"
  by (simp add: packet_header_def del: put_le.simps(2) add: put_le.simps(2) [where n = 0])

lemma len_at_header: "len_at (packet_header d p @ rest) 0 = unat (pLength p)"
  by (simp add: len_at_def header_cons numeral_2_eq_2 del: put_le.simps)

lemma toBinary_frame:
  assumes "packet_ok defs p" and "wire_length (defs ! pDefinition p) (pCmd p) \<le> m + 10"
  obtains bs where "toBinary rt defs p = Inr bs" and "is_frame m bs"
proof -
  let ?d = "defs ! pDefinition p" and ?h = "packet_header (defs ! pDefinition p) p"
  from assms(1) obtain data where t: "toBinary rt defs p = Inr (?h @ data @ [computeCrc8 0 (?h @ data)])"
      "length (?h @ data) = unat (pLength p)"
      "wire_length ?d (pCmd p) = int (unat (pLength p))"
    by (rule toBinary_ok)
  let ?f = "?h @ data @ [computeCrc8 0 (?h @ data)]"
  have "8 \<le> length ?h" by (simp add: length_packet_header)
  moreover have "len_at ?f 0 = unat (pLength p)" using len_at_header [of ?d p "data @ _"] by simp
  moreover have "?f ! 0 = 0x3c" by (simp add: header_cons)
  ultimately have "is_frame m ?f" using t(2,3) assms(2) by (auto simp: is_frame_def butlast_append)
  with t(1) show thesis by (rule that)
qed

section \<open>Parsing a frame\<close>

text \<open>
  What \<open>newPacketFromBinary\<close> computes from the first eight bytes \<open>T\<close> of the backing array
  and the visible bytes \<open>v\<close>: nothing else of the array is looked at, and a frame that ends
  before its header does is a slice panic.
\<close>

definition parse_frame :: "definitions \<Rightarrow> bytes \<Rightarrow> bytes \<Rightarrow> Packet res" where
  "parse_frame defs T v =
     res_bind (GetDefinitionForObjectID defs (get_le (drop 4 T))) (\<lambda>p.
     let d = defs ! p; h = (if dSingleInstance d then 8 else 10); cmd = v ! 1 XOR versionMask in
     if length v \<le> h then Inl Panic
     else res_bind (if has_data cmd then uAVTalkToMap d (butlast (drop h v)) else Inr []) (\<lambda>data.
       Inr \<lparr>pDefinition = p, pCmd = cmd, pLength = get_le (take 2 (drop 2 T)),
            pInstanceID = (if dSingleInstance d then 0 else get_le (take 2 (drop 8 v))), pData = data\<rparr>))"

lemma slice_range_vis:
  "hi \<le> length (vis s) \<Longrightarrow> lo \<le> hi \<Longrightarrow>
   slice_range s lo hi = Inr \<lparr>vis = take (hi - lo) (drop lo (vis s)), spare = drop hi (vis s @ spare s)\<rparr>"
  by (simp add: slice_range_def)

lemma slice_range_head:
  assumes "hi \<le> 8" and "lo \<le> hi" and "8 \<le> length (vis s @ spare s)"
  shows "slice_range s lo hi =
    Inr \<lparr>vis = take (hi - lo) (drop lo (take 8 (vis s @ spare s))), spare = drop hi (vis s @ spare s)\<rparr>"
  using assms by (simp add: slice_range_def drop_take min_def del: take_append drop_append)

lemma slice_range_Panic: "hi < lo \<Longrightarrow> slice_range s lo hi = Inl Panic"
  by (simp add: slice_range_def)

lemma newPacketFromBinary_parse:
  assumes "2 \<le> length (vis s)" and "8 \<le> length (vis s @ spare s)"
  shows "newPacketFromBinary defs s = parse_frame defs (take 8 (vis s @ spare s)) (vis s)"
proof -
  define T where "T = take 8 (vis s @ spare s)"
  let ?v = "vis s"
  have T: "length T = 8" using assms(2) by (simp add: T_def)
  obtain x1 x2 where r1: "slice_range s 2 4 = Inr \<lparr>vis = take 2 (drop 2 T), spare = x1\<rparr>"
      "slice_range s 4 8 = Inr \<lparr>vis = drop 4 T, spare = x2\<rparr>"
    using T slice_range_head [of 4 2 s, OF _ _ assms(2), folded T_def]
      slice_range_head [of 8 4 s, OF _ _ assms(2), folded T_def]
    by simp
  have w: "byteArrayToInt16 (take 2 (drop 2 T)) = Inr (get_le (take 2 (drop 2 T)))"
      "byteArrayToInt32 (drop 4 T) = Inr (get_le (drop 4 T))"
    using T by (simp_all add: byteArrayToInt16_eq byteArrayToInt32_eq)
  have i: "slice_index s (Suc 0) = Inr (?v ! 1)" using assms(1) by (simp add: slice_index_def)
  show ?thesis
  proof (cases "GetDefinitionForObjectID defs (get_le (drop 4 T))")
    case (Inl e)
    then show ?thesis by (simp add: newPacketFromBinary_def parse_frame_def r1 w i T_def [symmetric] del: take_append)
  next
    case (Inr p)
    note gd = get_def_lookup [OF Inr]
    let ?d = "defs ! p" and ?h = "if dSingleInstance (defs ! p) then 8 else 10 :: nat"
    note unf = newPacketFromBinary_def parse_frame_def r1 w i Inr gd Let_def
    show ?thesis
    proof (cases "length ?v \<le> ?h")
      case True
      then have short: "dSingleInstance ?d \<Longrightarrow> slice_range s 8 (length ?v - Suc 0) = Inl Panic"
          "\<not> dSingleInstance ?d \<Longrightarrow> slice_range s 10 (length ?v - Suc 0) = Inl Panic"
        using assms(1) by (auto intro!: slice_range_Panic)
      consider "slice_range s 8 10 = Inl Panic"
        | x where "slice_range s 8 10 = Inr x" "byteArrayToInt16 (vis x) = Inr (get_le (vis x))"
        by (cases "10 \<le> length (vis s @ spare s)") (fastforce simp: slice_range_def byteArrayToInt16_eq)+
      then show ?thesis using True short
        by cases (cases "dSingleInstance ?d"; simp add: unf T_def [symmetric] del: take_append)+
    next
      case False
      obtain x3 where "slice_range s ?h (length ?v - 1) = Inr \<lparr>vis = butlast (drop ?h ?v), spare = x3\<rparr>"
        using False slice_range_vis [of "length ?v - 1" s ?h] by (auto simp: butlast_conv_take)
      moreover obtain x4 where "\<not> dSingleInstance ?d \<Longrightarrow>
          slice_range s 8 10 = Inr \<lparr>vis = take 2 (drop 8 ?v), spare = x4\<rparr>"
        using False slice_range_vis [of 10 s 8] by (cases "dSingleInstance ?d") auto
      moreover have "\<not> dSingleInstance ?d \<Longrightarrow> byteArrayToInt16 (take 2 (drop 8 ?v)) = Inr (get_le (take 2 (drop 8 ?v)))"
        using False by (intro byteArrayToInt16_eq) auto
      ultimately show ?thesis using False
        by (cases "dSingleInstance ?d") (simp_all add: unf T_def [symmetric] del: take_append)
    qed
  qed
qed

text \<open>A frame that \<open>packetComplete\<close> accepts has at least two bytes: an empty one has checksum 0.\<close>

lemma candidate_nonempty:
  assumes "candidate m buffer lo hi" and "crc_ok buffer lo"
  shows "lo + 2 \<le> hi"
proof (cases "len_at buffer lo")
  case 0
  with assms have "computeCrc8 0 (take 0 (drop lo buffer)) = 0x3c"
    by (simp add: candidate_def crc_ok_def)
  then show ?thesis by simp
next
  case (Suc n)
  with assms(1) show ?thesis by (simp add: candidate_def)
qed

definition subslice :: "bytes \<Rightarrow> bytes \<Rightarrow> nat \<Rightarrow> nat \<Rightarrow> slice" where
  "subslice buffer stale lo hi = \<lparr>vis = take (hi - lo) (drop lo buffer), spare = drop hi buffer @ stale\<rparr>"

lemma subslice_backing:
  "lo \<le> hi \<Longrightarrow> hi \<le> length buffer \<Longrightarrow>
   vis (subslice buffer stale lo hi) @ spare (subslice buffer stale lo hi) = drop lo buffer @ stale"
  by (simp add: subslice_def)
     (metis add.commute append_take_drop_id drop_drop le_add_diff_inverse2)

lemma newPacketFromBinary_frame:
  assumes "candidate m buffer lo hi" and "crc_ok buffer lo"
  shows "newPacketFromBinary defs (subslice buffer stale lo hi) =
    parse_frame defs (take 8 (drop lo buffer)) (take (hi - lo) (drop lo buffer))"
proof -
  let ?s = "subslice buffer stale lo hi"
  note two = candidate_nonempty [OF assms]
  have c: "hi \<le> length buffer" "lo + 8 \<le> length buffer" using assms(1) by (auto simp: candidate_def)
  have b: "vis ?s @ spare ?s = drop lo buffer @ stale" using two c by (intro subslice_backing) auto
  have "newPacketFromBinary defs ?s = parse_frame defs (take 8 (drop lo buffer @ stale)) (vis ?s)"
    using newPacketFromBinary_parse [of ?s defs] two c unfolding b by (simp add: subslice_def)
  then show ?thesis using c by (simp add: subslice_def)
qed

section \<open>The round trip\<close>

text \<open>What the receiver of a packet's frame gets.\<close>

definition packet_dec :: "runtime \<Rightarrow> definitions \<Rightarrow> Packet \<Rightarrow> Packet" where
  "packet_dec rt defs p =
     p\<lparr>pInstanceID := (if dSingleInstance (defs ! pDefinition p) then 0 else pInstanceID p),
       pData := (if has_data (pCmd p) then data_dec rt (defs ! pDefinition p) (pData p) else [])\<rparr>"

lemma version_bit: "\<not> bit (cmd :: byte) 5 \<Longrightarrow> (cmd OR 0x20) XOR 0x20 = cmd"
proof (rule bit_word_eqI)
  fix n
  assume "\<not> bit cmd 5" "n < LENGTH(8)"
  moreover have "bit (0x20 :: byte) n \<longleftrightarrow> n = 5"
    using bit_exp_iff [of 5 n, where 'a = byte] \<open>n < LENGTH(8)\<close> by (auto simp: bit_iff_odd)
  ultimately show "bit ((cmd OR 0x20) XOR 0x20) n = bit cmd n" by (auto simp: bit_simps)
qed

lemma take_drop_header:
  "take 2 (drop 2 (packet_header d p @ rest)) = put_le 2 (pLength p)"
  "take 4 (drop 4 (packet_header d p @ rest)) = put_le 4 (dObjectID d)"
  "\<not> dSingleInstance d \<Longrightarrow> take 2 (drop 8 (packet_header d p @ rest)) = put_le 2 (pInstanceID p)"
  "(packet_header d p @ rest) ! 1 = pCmd p OR versionMask"
  by (simp_all add: header_cons drop_Cons' del: put_le.simps)

lemma parse_frame_toBinary:
  assumes "packet_ok defs p" and "toBinary rt defs p = Inr bs"
    and "GetDefinitionForObjectID defs (dObjectID (defs ! pDefinition p)) = Inr (pDefinition p)"
    and "\<not> bit (pCmd p) 5"
  shows "parse_frame defs (take 8 bs) bs = Inr (packet_dec rt defs p)"
proof -
  let ?d = "defs ! pDefinition p" and ?h = "packet_header (defs ! pDefinition p) p"
  obtain data where t: "toBinary rt defs p = Inr (?h @ data @ [computeCrc8 0 (?h @ data)])"
      and r: "\<And>rest. has_data (pCmd p) \<Longrightarrow> uAVTalkToMap ?d (data @ rest) = Inr (data_dec rt ?d (pData p))"
    using toBinary_ok [OF assms(1), of rt] by blast
  let ?c = "data @ [computeCrc8 0 (?h @ data)]"
  have bs: "bs = ?h @ ?c" using t assms(2) by simp
  have "drop 4 (take 8 bs) = take 4 (drop 4 bs)" "take 2 (drop 2 (take 8 bs)) = take 2 (drop 2 bs)"
    by (simp_all add: drop_take)
  then have ids: "get_le (drop 4 (take 8 bs)) = dObjectID ?d" "get_le (take 2 (drop 2 (take 8 bs))) = pLength p"
    unfolding bs take_drop_header by (simp_all del: put_le.simps)
  have n: "\<not> length bs \<le> (if dSingleInstance ?d then 8 else 10)" by (simp add: bs length_packet_header)
  have body: "butlast (drop (if dSingleInstance ?d then 8 else 10) bs) = data"
    by (simp add: bs length_packet_header)
  have cmd: "bs ! 1 XOR versionMask = pCmd p"
    unfolding bs take_drop_header using assms(4) by (rule version_bit)
  have inst: "\<not> dSingleInstance ?d \<Longrightarrow> get_le (take 2 (drop 8 bs)) = pInstanceID p"
    unfolding bs using take_drop_header(3) [of ?d p ?c] by (simp del: put_le.simps take_append drop_append)
  show ?thesis
    using n r [of "[]"] inst unfolding parse_frame_def ids assms(3) res_bind_Inr Let_def body cmd
    by (simp add: packet_dec_def)
qed

section \<open>The length limit computed by Start\<close>

lemma wf_field_weight: "wf_field f \<Longrightarrow> 0 \<le> field_size f * fElements f"
  using field_size_pos [of f] by (auto simp: wf_field_def)

lemma maxUAVObjectLength_loop_bound:
  assumes "maxUAVObjectLength_loop defs m0 = Inr m"
  shows "m0 \<le> m \<and> (\<forall>d\<in>set defs. list_all wf_field (dFields d) \<longrightarrow> wire_length d cmd \<le> m)"
  using assms
proof (induction defs arbitrary: m0)
  case (Cons d ds)
  from Cons.prems obtain n where n: "ByteLength (dFields d) = Inr n" by auto
  let ?t = "n + 8 + (if dSingleInstance d then 0 else 2)"
  have "maxUAVObjectLength_loop ds (if ?t > m0 then ?t else m0) = Inr m"
    using Cons.prems n by (simp add: Let_def split: if_splits)
  note IH = Cons.IH [OF this]
  have "wire_length d cmd \<le> ?t" if wf: "list_all wf_field (dFields d)"
  proof -
    have "0 \<le> (\<Sum>f\<leftarrow>dFields d. field_size f * fElements f)"
      using wf by (intro sum_list_nonneg) (auto simp: list_all_iff wf_field_weight)
    with ByteLength_wf [OF wf] n show ?thesis by (simp add: wire_length_def)
  qed
  with IH show ?case by (auto split: if_splits)
qed simp

lemma maxUAVObjectLength_loop_total:
  "\<forall>d\<in>set defs. list_all wf_field (dFields d) \<Longrightarrow> \<exists>m. maxUAVObjectLength_loop defs m0 = Inr m"
  by (induction defs arbitrary: m0) (auto simp: ByteLength_wf Let_def)

section \<open>Frames with a changed byte\<close>

lemma len_at_update:
  assumes "i \<notin> {2, 3}"
  shows "len_at (f[i := b]) 0 = len_at f 0"
proof -
  have "take 2 (drop 2 (f[i := b])) = take 2 (drop 2 f)"
  proof (rule nth_equalityI)
    fix j
    assume "j < length (take 2 (drop 2 (f[i := b])))"
    then have "j < 2" "2 + j < length f" by auto
    moreover from this assms have "2 + j \<noteq> i" by auto
    ultimately show "take 2 (drop 2 (f[i := b])) ! j = take 2 (drop 2 f) ! j" by simp
  qed simp
  then show ?thesis by (simp add: len_at_def numeral_2_eq_2)
qed

lemma crc_update:
  assumes "i < length xs" and "b \<noteq> xs ! i"
  shows "computeCrc8 0 (xs[i := b]) \<noteq> computeCrc8 0 xs"
proof -
  have "xs = take i xs @ xs ! i # drop (Suc i) xs" using assms(1) by (rule id_take_nth_drop)
  moreover have "xs[i := b] = take i xs @ b # drop (Suc i) xs" using assms(1) by (rule upd_conv_take_nth_drop)
  ultimately show ?thesis unfolding computeCrc8_foldl using crc8.one_byte_detected [OF assms(2)] by metis
qed

lemma crc_update_last:
  assumes "f \<noteq> []" and "i < length f" and "b \<noteq> f ! i" and "last f = computeCrc8 0 (butlast f)"
  shows "last (f[i := b]) \<noteq> computeCrc8 0 (butlast (f[i := b]))"
proof (cases "i = length f - 1")
  case True
  then have "last (f[i := b]) = b" "butlast (f[i := b]) = butlast f" "last f = f ! i"
    using assms(1) by (simp_all add: last_list_update butlast_list_update last_conv_nth)
  with assms(3,4) show ?thesis by simp
next
  case False
  then have "last (f[i := b]) = last f" "butlast (f[i := b]) = (butlast f)[i := b]"
    using assms(1) by (simp_all add: last_list_update butlast_list_update)
  moreover have "computeCrc8 0 ((butlast f)[i := b]) \<noteq> computeCrc8 0 (butlast f)"
    using assms(2,3) False by (intro crc_update) (auto simp: nth_butlast)
  ultimately show ?thesis using assms(4) by simp
qed

lemma packetComplete_reject:
  assumes "8 < length f" and "f ! 0 = 0x3c" and "Suc (len_at f 0) = length f" and "int (len_at f 0) \<le> m + 10"
    and "last f \<noteq> computeCrc8 0 (butlast f)"
  shows "packetComplete m (f @ rest) = (False, 0, length f, Some WrongCrc8)"
proof -
  have l: "len_at (f @ rest) 0 = len_at f 0" using assms(1) by (intro len_at_append) simp
  have "f \<noteq> []" using assms(1) by auto
  then have "(f @ rest) ! len_at f 0 = last f" "take (len_at f 0) (f @ rest) = butlast f"
    using assms(3) by (auto simp: nth_append last_conv_nth butlast_conv_take simp flip: assms(3))
  with assms l find_sync_skip [of "[]" f rest] show ?thesis
    unfolding packetComplete_def by (subst packetComplete_from_unfold) (auto simp: Let_def)
qed

end
