(* ===== verification/Loading.thy ===== *)
theory Loading
  imports UavObjectID Packet
begin

text \<open>
  The loading of the object definitions in \<open>uavtalk/uavtalk.go\<close>: \<open>newDefinition\<close>,
  \<open>newDefinitions\<close> and \<open>LoadDefinitions\<close>. The directory, the files and the XML decoder are
  parameters (\<open>fsys\<close>). The lemmas show that a directory of well-formed files loads, that
  definitions and meta definitions alternate and point at each other, and that an object
  id finds its own definition unless two files hash to the same id.
\<close>

text \<open>
  \<open>xml_Decode\<close> is the value \<open>content.Definition\<close> has after \<open>decoder.Decode(content)\<close>; the
  error of \<open>Decode\<close> is dropped, so a file without an \<open>object\<close> element leaves it nil.
\<close>

record fsys =
  fs_ReadDir :: "string \<Rightarrow> string list res"
  fs_Open :: "string \<Rightarrow> string res"
  xml_Decode :: "string \<Rightarrow> Definition option"

definition newDefinition :: "runtime \<Rightarrow> fsys \<Rightarrow> string \<Rightarrow> Definition res" where
  "newDefinition rt fsys filePath =
     res_bind (fs_Open fsys filePath) (\<lambda>file.
     res_bind (deref (xml_Decode fsys file)) (\<lambda>d.
     res_bind (FinishSetup d) (calculateID rt)))"

fun loadFiles :: "runtime \<Rightarrow> fsys \<Rightarrow> string \<Rightarrow> string list \<Rightarrow> definitions \<Rightarrow> definitions res" where
  "loadFiles rt fsys dir [] AllDefs = Inr AllDefs"
| "loadFiles rt fsys dir (name # names) AllDefs =
     res_bind (or_fatal (newDefinition rt fsys (dir @ name))) (\<lambda>d.
     res_bind (or_fatal (NewMetaDefinition (length AllDefs) (Suc (length AllDefs)) d)) (\<lambda>(d, meta).
     loadFiles rt fsys dir names (AllDefs @ [d, meta])))"

definition newDefinitions :: "runtime \<Rightarrow> fsys \<Rightarrow> string \<Rightarrow> definitions res" where
  "newDefinitions rt fsys dir =
     res_bind (fs_ReadDir fsys dir) (\<lambda>fileInfos. loadFiles rt fsys dir fileInfos [])"

definition LoadDefinitions :: "runtime \<Rightarrow> fsys \<Rightarrow> string \<Rightarrow> definitions res" where
  "LoadDefinitions rt fsys definitionsDir = or_fatal (newDefinitions rt fsys definitionsDir)"

section \<open>The shape of a loaded table\<close>

definition meta_pair :: "definitions \<Rightarrow> nat \<Rightarrow> bool" where
  "meta_pair defs k \<longleftrightarrow>
     (let d = defs ! (2 * k); m = defs ! Suc (2 * k) in
      dMeta d = Some (Suc (2 * k)) \<and> dMetaFor d = None \<and> even (dObjectID d) \<and>
      dMetaFor m = Some (2 * k) \<and> dMeta m = None \<and> dObjectID m = dObjectID d + 1 \<and>
      dSingleInstance m \<and> \<not> dSettings m \<and> dName m = dName d @ ''Meta'' \<and>
      map fName (dFields m) = [''modes'', ''periodFlight'', ''periodGCS'', ''periodLog''] \<and>
      list_all wf_field (dFields m))"

definition loaded :: "definitions \<Rightarrow> bool" where
  "loaded defs \<longleftrightarrow> even (length defs) \<and> (\<forall>k<length defs div 2. meta_pair defs k)"

lemma FinishSetup_frame: "FinishSetup d = Inr d' \<Longrightarrow> \<exists>fs. d' = d\<lparr>dFields := fs\<rparr>"
  by (auto simp: FinishSetup_def)

lemma calculateID_frame: "calculateID rt d = Inr d' \<Longrightarrow> \<exists>h. d' = d\<lparr>dObjectID := h\<rparr>"
  by (auto simp: calculateID_def Let_def)

lemma meta_fields_ok:
  obtains fs where "fieldProcess meta_fields = Inr fs" and "list_all wf_field fs"
    and "map fName fs = [''modes'', ''periodFlight'', ''periodGCS'', ''periodLog'']"
  using fieldProcess_ok [OF raw_meta_fields] by (auto simp: meta_fields_def)

lemma NewMetaDefinition_ok:
  assumes "dMetaFor d = None"
  obtains p m where "NewMetaDefinition pp pm d = Inr (p, m)" and "p = d\<lparr>dMeta := Some pm\<rparr>"
    and "dMetaFor m = Some pp" and "dMeta m = None" and "dObjectID m = dObjectID d + 1" and "dSingleInstance m"
    and "\<not> dSettings m" and "dName m = dName d @ ''Meta''" and "list_all wf_field (dFields m)"
    and "map fName (dFields m) = [''modes'', ''periodFlight'', ''periodGCS'', ''periodLog'']"
proof -
  obtain fs where fs: "fieldProcess meta_fields = Inr fs" "list_all wf_field fs"
      "map fName fs = [''modes'', ''periodFlight'', ''periodGCS'', ''periodLog'']"
    by (rule meta_fields_ok)
  have "NewMetaDefinition pp pm d =
      Inr (d\<lparr>dMeta := Some pm\<rparr>,
           empty_definition\<lparr>dName := dName d @ ''Meta'', dDescription := ''Meta for: '' @ [CHR 0x0A] @ dDescription d,
             dSingleInstance := True, dSettings := False, dObjectID := dObjectID d + 1, dMetaFor := Some pp,
             dFields := fs\<rparr>)"
    using assms fs(1) by (simp add: NewMetaDefinition_def Let_def)
  then show thesis by (rule that) (simp_all add: fs empty_definition_def)
qed

lemma loaded_snoc:
  assumes "loaded acc" and "even (dObjectID d)"
    and "NewMetaDefinition (length acc) (Suc (length acc)) d = Inr (p, m)"
  shows "loaded (acc @ [p, m])"
proof -
  have mf: "dMetaFor d = None" using assms(3) by (auto simp: NewMetaDefinition_def split: if_splits)
  obtain n where n: "length acc = 2 * n" using assms(1) by (auto simp: loaded_def)
  have pm: "meta_pair (acc @ [p, m]) n"
    by (rule NewMetaDefinition_ok [OF mf, of "length acc" "Suc (length acc)"])
       (use assms(2,3) mf n in \<open>auto simp: meta_pair_def nth_append\<close>)
  have "meta_pair (acc @ [p, m]) k" if "k < Suc n" for k
  proof (cases "k < n")
    case True
    then have "meta_pair acc k" using assms(1) n by (simp add: loaded_def)
    moreover have "(acc @ [p, m]) ! (2 * k) = acc ! (2 * k)" "(acc @ [p, m]) ! Suc (2 * k) = acc ! Suc (2 * k)"
      using True n by (auto simp: nth_append)
    ultimately show ?thesis by (simp add: meta_pair_def)
  next
    case False
    with that pm show ?thesis by (simp add: less_Suc_eq)
  qed
  then show ?thesis using n by (simp add: loaded_def)
qed

lemma newDefinition_even: "newDefinition rt fsys f = Inr d \<Longrightarrow> even (dObjectID d)"
  by (auto simp: newDefinition_def dest: calculateID_even)

lemma loadFiles_loaded:
  "loadFiles rt fsys dir names acc = Inr defs \<Longrightarrow> loaded acc \<Longrightarrow>
   loaded defs \<and> length defs = length acc + 2 * length names"
proof (induction names arbitrary: acc)
  case (Cons name names)
  then obtain d p m where "newDefinition rt fsys (dir @ name) = Inr d"
      "NewMetaDefinition (length acc) (Suc (length acc)) d = Inr (p, m)"
      "loadFiles rt fsys dir names (acc @ [p, m]) = Inr defs"
    by auto
  moreover from this have "loaded (acc @ [p, m])"
    using loaded_snoc [OF Cons.prems(2)] newDefinition_even by blast
  ultimately show ?case using Cons.IH [of "acc @ [p, m]"] by simp
qed simp

lemma LoadDefinitions_loaded:
  "LoadDefinitions rt fsys dir = Inr defs \<Longrightarrow> loaded defs"
  using loadFiles_loaded [of rt fsys dir _ "[]" defs]
  by (auto simp: LoadDefinitions_def newDefinitions_def loaded_def)

section \<open>Object ids of a loaded table\<close>

lemma index_parity:
  obtains k where "i = 2 * k" | k where "i = Suc (2 * k)"
  by (metis evenE oddE Suc_eq_plus1)

lemma loaded_ids:
  assumes "loaded defs" and "i < length defs"
  shows "odd (dObjectID (defs ! i)) \<longleftrightarrow> odd i"
proof (cases i rule: index_parity)
  case (1 k)
  with assms have "meta_pair defs k" by (auto simp: loaded_def)
  with 1 show ?thesis by (simp add: meta_pair_def Let_def)
next
  case (2 k)
  with assms have "meta_pair defs k" by (auto simp: loaded_def elim!: evenE)
  with 2 show ?thesis by (simp add: meta_pair_def Let_def)
qed

definition no_collision :: "definitions \<Rightarrow> bool" where
  "no_collision defs \<longleftrightarrow> distinct (map (\<lambda>k. dObjectID (defs ! (2 * k))) [0..<length defs div 2])"

lemma loaded_distinct:
  assumes "loaded defs" and "no_collision defs"
  shows "distinct (map dObjectID defs)"
proof -
  let ?id = "\<lambda>i. dObjectID (defs ! i)"
  have inj: "?id (2 * a) = ?id (2 * b) \<longleftrightarrow> a = b" if "a < length defs div 2" "b < length defs div 2" for a b
    using assms(2) that by (auto simp: no_collision_def distinct_conv_nth)
  have meta: "?id (Suc (2 * a)) = ?id (2 * a) + 1" if "a < length defs div 2" for a
    using assms(1) that by (auto simp: loaded_def meta_pair_def Let_def)
  have half: "i div 2 < length defs div 2" if "i < length defs" for i
    using assms(1) that by (auto simp: loaded_def elim!: evenE)
  have "i = j" if i: "i < length defs" and j: "j < length defs" and eq: "?id i = ?id j" for i j
  proof -
    have par: "odd i \<longleftrightarrow> odd j" using loaded_ids [OF assms(1)] i j eq by metis
    show ?thesis
    proof (cases "odd i")
      case True
      with par obtain a b where ab: "i = Suc (2 * a)" "j = Suc (2 * b)" by (metis oddE Suc_eq_plus1)
      with half [OF i] half [OF j] have "?id (2 * a) = ?id (2 * b)" using meta [of a] meta [of b] eq by simp
      with ab inj half [OF i] half [OF j] show ?thesis by simp
    next
      case False
      with par obtain a b where "i = 2 * a" "j = 2 * b" by (metis evenE)
      with inj half [OF i] half [OF j] eq show ?thesis by simp
    qed
  qed
  then show ?thesis by (auto simp: distinct_conv_nth)
qed

lemma loaded_lookup:
  assumes "loaded defs" and "no_collision defs" and "i < length defs"
  shows "GetDefinitionForObjectID defs (dObjectID (defs ! i)) = Inr i"
  using loaded_distinct [OF assms(1,2)] assms(3) by (intro by_id.lookup_unique) auto

section \<open>A directory that loads\<close>

definition good_file :: "fsys \<Rightarrow> string \<Rightarrow> bool" where
  "good_file fsys path \<longleftrightarrow>
     (case fs_Open fsys path of Inl _ \<Rightarrow> False
      | Inr content \<Rightarrow> (case xml_Decode fsys content of None \<Rightarrow> False
                        | Some d \<Rightarrow> raw_fields (dFields d) \<and> dMetaFor d = None))"

lemma newDefinition_ok:
  assumes "good_file fsys path"
  obtains d where "newDefinition rt fsys path = Inr d" and "dMetaFor d = None" and "list_all wf_field (dFields d)"
proof -
  from assms obtain content d where d: "fs_Open fsys path = Inr content" "xml_Decode fsys content = Some d"
      "raw_fields (dFields d)" "dMetaFor d = None"
    by (auto simp: good_file_def split: sum.splits option.splits)
  obtain gs where gs: "list_all wf_field gs" "FinishSetup d = Inr (d\<lparr>dFields := sort_key (\<lambda>f. - field_size f) gs\<rparr>)"
    using FinishSetup_ok [OF d(3)] by blast
  define d' where "d' = d\<lparr>dFields := sort_key (\<lambda>f. - field_size f) gs\<rparr>"
  have wf: "list_all wf_field (dFields d')" using gs(1) by (simp add: d'_def list_all_iff)
  then have "list_all (\<lambda>f. fFieldTypeInfo f \<noteq> None) (dFields d')"
    by (auto simp: list_all_iff wf_field_def)
  from calculateID_stream [OF this, of rt] obtain h where "calculateID rt d' = Inr (d'\<lparr>dObjectID := h\<rparr>)"
    by blast
  with gs(2) d wf show thesis
    by (intro that [of "d'\<lparr>dObjectID := h\<rparr>"]) (simp_all add: newDefinition_def d'_def)
qed

lemma loadFiles_ok:
  assumes "list_all (\<lambda>name. good_file fsys (dir @ name)) names" and "\<forall>d\<in>set acc. list_all wf_field (dFields d)"
  shows "\<exists>defs. loadFiles rt fsys dir names acc = Inr defs \<and> (\<forall>d\<in>set defs. list_all wf_field (dFields d))"
  using assms
proof (induction names arbitrary: acc)
  case (Cons name names)
  have "good_file fsys (dir @ name)" using Cons.prems by simp
  then obtain d where d: "newDefinition rt fsys (dir @ name) = Inr d" "dMetaFor d = None"
      "list_all wf_field (dFields d)"
    by (rule newDefinition_ok)
  obtain p m where pm: "NewMetaDefinition (length acc) (Suc (length acc)) d = Inr (p, m)"
      "list_all wf_field (dFields p)" "list_all wf_field (dFields m)"
    by (rule NewMetaDefinition_ok [OF d(2), of "length acc" "Suc (length acc)"]) (use d(3) in simp)
  with Cons.IH [of "acc @ [p, m]"] Cons.prems d(1) show ?case by auto
qed simp

end
