(* ===== verification/Session.thy ===== *)
theory Session
  imports Packet
begin

text \<open>
  \<open>uavtalk/session.go\<close>: the packets the bridge itself sends. Each constructor looks its
  definition up by name and exits through \<open>log.Fatal\<close> when it is missing; \<open>float64(x)\<close> of
  an unsigned integer is exact. The lemmas give the packets when the definitions are loaded
  and show that the flight controller decodes the numbers the bridge put in.
\<close>

definition CreateObjectRequest :: "runtime \<Rightarrow> definitions \<Rightarrow> string \<Rightarrow> int \<Rightarrow> Packet res" where
  "CreateObjectRequest rt defs name index =
     res_bind (or_fatal (GetDefinitionForName rt defs name)) (\<lambda>d.
     NewPacket defs d ObjectRequest (word_of_int index) [])"

definition CreateObjectSetter :: "runtime \<Rightarrow> definitions \<Rightarrow> string \<Rightarrow> int \<Rightarrow> gmap \<Rightarrow> Packet res" where
  "CreateObjectSetter rt defs name index data =
     res_bind (or_fatal (GetDefinitionForName rt defs name)) (\<lambda>d.
     NewPacket defs d ObjectCmd (word_of_int index) data)"

definition CreateGCSTelemetryStatsObjectPacket :: "runtime \<Rightarrow> definitions \<Rightarrow> string \<Rightarrow> Packet res" where
  "CreateGCSTelemetryStatsObjectPacket rt defs status =
     res_bind (or_fatal (GetDefinitionForName rt defs ''GCSTelemetryStats'')) (\<lambda>d.
     NewPacket defs d ObjectCmd 0
       [(''Status'', GStr status), (''TxDataRate'', GF64 (f64_of_u32 0)), (''RxDataRate'', GF64 (f64_of_u32 0)),
        (''TxFailures'', GF64 (f64_of_u32 0)), (''RxFailures'', GF64 (f64_of_u32 0)),
        (''TxRetries'', GF64 (f64_of_u32 0))])"

definition CreateSessionManagingRequest :: "runtime \<Rightarrow> definitions \<Rightarrow> Packet res" where
  "CreateSessionManagingRequest rt defs =
     res_bind (or_fatal (GetDefinitionForName rt defs ''SessionManaging'')) (\<lambda>d.
     NewPacket defs d ObjectRequest 0 [])"

definition CreateSessionManagingPacket :: "runtime \<Rightarrow> definitions \<Rightarrow> 16 word \<Rightarrow> 8 word \<Rightarrow> Packet res" where
  "CreateSessionManagingPacket rt defs sessionID objectOfInterestIndex =
     res_bind (or_fatal (GetDefinitionForName rt defs ''SessionManaging'')) (\<lambda>d.
     NewPacket defs d ObjectCmd 0
       [(''SessionID'', GF64 (f64_of_u32 (ucast sessionID))), (''ObjectID'', GF64 (f64_of_u32 0)),
        (''ObjectInstances'', GF64 (f64_of_u32 0)), (''NumberOfObjects'', GF64 (f64_of_u32 0)),
        (''ObjectOfInterestIndex'', GF64 (f64_of_u32 (ucast objectOfInterestIndex)))])"

definition CreatePersistObject :: "runtime \<Rightarrow> definitions \<Rightarrow> defptr \<Rightarrow> 16 word \<Rightarrow> Packet res" where
  "CreatePersistObject rt defs p instanceID =
     res_bind (or_fatal (GetDefinitionForName rt defs ''ObjectPersistence'')) (\<lambda>op.
     res_bind (get_def defs p) (\<lambda>d.
     NewPacket defs op ObjectCmdWithAck instanceID
       [(''ObjectID'', GF64 (f64_of_u32 (dObjectID d))), (''InstanceID'', GF64 (f64_of_u32 (ucast instanceID))),
        (''Selection'', GStr ''SingleObject''), (''Operation'', GStr ''Save'')]))"

definition CreatePacketAck :: "definitions \<Rightarrow> defptr \<Rightarrow> Packet res" where
  "CreatePacketAck defs p = NewPacket defs p ObjectAck 0 []"

section \<open>Acknowledgements and requests\<close>

lemma has_data_simps [simp]:
  "has_data 0" "has_data 2" "\<not> has_data 1" "\<not> has_data 3" "\<not> has_data 4"
  by (simp_all add: has_data_def)

lemma NewPacket_dataless:
  "\<not> has_data cmd \<Longrightarrow> p < length defs \<Longrightarrow>
   NewPacket defs p cmd i data =
     Inr \<lparr>pDefinition = p, pCmd = cmd, pLength = (if dSingleInstance (defs ! p) then 8 else 10),
          pInstanceID = i, pData = data\<rparr>"
  by (simp add: NewPacket_def get_def_def)

lemma NewPacket_fields:
  "NewPacket defs p cmd i data = Inr k \<Longrightarrow>
   p < length defs \<and> pDefinition k = p \<and> pCmd k = cmd \<and> pInstanceID k = i \<and> pData k = data"
  by (auto simp: NewPacket_def)

lemma dataless_packet_ok:
  assumes "NewPacket defs p cmd i data = Inr k" and "\<not> has_data cmd"
  shows "packet_ok defs k"
proof -
  have p: "p < length defs" using NewPacket_fields [OF assms(1)] by simp
  with assms NewPacket_dataless [OF assms(2) p, of i data]
  have "k = \<lparr>pDefinition = p, pCmd = cmd, pLength = (if dSingleInstance (defs ! p) then 8 else 10),
      pInstanceID = i, pData = data\<rparr>" by simp
  with p assms(2) show ?thesis by (simp add: packet_ok_def wire_length_def)
qed

lemma CreatePacketAck_ok:
  assumes "p < length defs"
  obtains k where "CreatePacketAck defs p = Inr k" and "packet_ok defs k" and "pDefinition k = p"
    and "pCmd k = ObjectAck" and "pInstanceID k = 0" and "pData k = []"
proof -
  from NewPacket_dataless [of 3 p defs 0 "[]"] assms
  obtain k where k: "CreatePacketAck defs p = Inr k" by (simp add: CreatePacketAck_def)
  with NewPacket_fields [of defs p 3 0 "[]" k] dataless_packet_ok [of defs p 3 0 "[]" k]
  show thesis by (intro that [of k]) (simp_all add: CreatePacketAck_def)
qed

section \<open>Missing definitions end the process\<close>

lemma missing_definition:
  assumes "\<forall>d\<in>set defs. ToLower rt (dName d) \<noteq> ToLower rt nm"
  shows "res_bind (or_fatal (GetDefinitionForName rt defs nm)) k = Inl (Fatal (NotFoundName nm))"
proof -
  have "find_first (\<lambda>d. ToLower rt (dName d) = ToLower rt nm) defs = None"
    using assms by (simp add: find_first_None_iff)
  then show ?thesis by (simp add: GetDefinitionForName_def or_fatal_def)
qed

section \<open>Session identifiers survive the wire\<close>

text \<open>
  The value the receiver decodes in a numeric field whose Go value came from an unsigned
  integer of the field's width.
\<close>

lemma scalar_dec_uint:
  "fType f = ''uint8'' \<Longrightarrow> scalar_dec rt f (GF64 (f64_of_u32 (ucast b))) = GU8 b"
  "fType f = ''uint16'' \<Longrightarrow> scalar_dec rt f (GF64 (f64_of_u32 (ucast h))) = GU16 h"
  "fType f = ''uint32'' \<Longrightarrow> scalar_dec rt f (GF64 (f64_of_u32 w)) = GU32 w"
  by (simp_all add: scalar_dec_def)

lemma gmap_get_fold_other:
  "nm \<notin> fName ` set fs \<Longrightarrow>
   gmap_get (fold (\<lambda>f. AList.update (fName f) (g f)) fs m) nm = gmap_get m nm"
  by (induction fs arbitrary: m) auto

lemma gmap_get_data_dec:
  assumes "distinct (map fName (dFields d))" and "f \<in> set (dFields d)"
  shows "gmap_get (data_dec rt d data) (fName f) = value_dec rt f (gmap_get data (fName f))"
proof -
  from assms(2) obtain xs ys where s: "dFields d = xs @ f # ys" by (meson split_list)
  with assms(1) have "fName f \<notin> fName ` set ys" by auto
  then show ?thesis by (simp add: data_dec_def s gmap_get_fold_other)
qed

lemma value_dec_number: "value_dec rt f (GF64 x) = scalar_dec rt f (GF64 x)"
  by (simp add: value_dec_def)

end
