(* ===== verification/Bridge.thy ===== *)
theory Bridge
  imports Session
begin

text \<open>
  \<open>main.go\<close>: the session with the flight controller, the forwarding of its stream, and the
  translation between UAVTalk packets and rotonde messages.

  The variables that \<open>initAuthHandlers\<close> shares between its two closures are the record
  \<open>auth\<close>; a handler maps a packet and that state to the new state and the effects it has,
  in order. \<open>handlers.go\<close> and the rotonde client are not part of the sources: which handler
  runs when is left open, and the messages given to the client are effects. The lemmas bound
  the object counter, describe the complete fetch of the object list, and relate the rotonde
  actions to the packets they become.
\<close>

section \<open>State and effects\<close>

record auth =
  connected :: bool
  sessionID :: "16 word"
  currentObjectID :: "8 word"
  numberOfObjects :: "8 word"
  start_time :: int
  activeDefinitions :: "defptr list"

definition init_auth :: auth where
  "init_auth = \<lparr>connected = False, sessionID = 0, currentObjectID = 0, numberOfObjects = 0,
     start_time = 0, activeDefinitions = []\<rparr>"

text \<open>
  \<open>FetchDone spent\<close> is the start of the goroutine that configures and publishes the active
  definitions, \<open>spent\<close> nanoseconds after \<open>start\<close>; \<open>ToClient\<close> is \<open>client.SendMessage\<close>.
\<close>

datatype effect = ToFC Packet | FetchDone int | Warn go_error | ToClient string gmap

definition authPackets :: "string list" where
  "authPackets = [''SessionManaging'', ''FlightTelemetryStats'', ''GCSTelemetryStats'']"

definition authPackets_contains :: "string \<Rightarrow> bool" where
  "authPackets_contains name \<longleftrightarrow> find_first (\<lambda>s. s = name) authPackets \<noteq> None"

definition authFilter :: "definitions \<Rightarrow> Packet \<Rightarrow> bool res" where
  "authFilter defs p = res_bind (get_def defs (pDefinition p)) (\<lambda>d. Inr (authPackets_contains (dName d)))"

definition streamFilter :: "definitions \<Rightarrow> Packet \<Rightarrow> bool res" where
  "streamFilter defs p = res_bind (get_def defs (pDefinition p)) (\<lambda>d. Inr (\<not> authPackets_contains (dName d)))"

text \<open>The type assertions on the values of \<open>p.Data\<close>.\<close>

definition as_u8 :: "gval \<Rightarrow> 8 word res" where
  "as_u8 v = (case v of GU8 b \<Rightarrow> Inr b | _ \<Rightarrow> Inl Panic)"

definition as_u16 :: "gval \<Rightarrow> 16 word res" where
  "as_u16 v = (case v of GU16 b \<Rightarrow> Inr b | _ \<Rightarrow> Inl Panic)"

definition as_u32 :: "gval \<Rightarrow> 32 word res" where
  "as_u32 v = (case v of GU32 b \<Rightarrow> Inr b | _ \<Rightarrow> Inl Panic)"

section \<open>The handlers of initAuthHandlers\<close>

text \<open>What runs before the handlers are attached: the two lookups and the first handshake.\<close>

definition initAuthHandlers :: "runtime \<Rightarrow> definitions \<Rightarrow> (defptr \<times> defptr \<times> effect list) res" where
  "initAuthHandlers rt defs =
     res_bind (or_fatal (GetDefinitionForName rt defs ''SessionManaging'')) (\<lambda>sessionManaging.
     res_bind (or_fatal (GetDefinitionForName rt defs ''FlightTelemetryStats'')) (\<lambda>flightTelemetryStats.
     res_bind (CreateGCSTelemetryStatsObjectPacket rt defs ''HandshakeReq'') (\<lambda>handshakeReq.
     Inr (sessionManaging, flightTelemetryStats, [ToFC handshakeReq]))))"

definition disconnectedHandler ::
    "runtime \<Rightarrow> definitions \<Rightarrow> defptr \<Rightarrow> Packet \<Rightarrow> auth \<Rightarrow> (auth \<times> effect list) res" where
  "disconnectedHandler rt defs flightTelemetryStats p s =
     (if pDefinition p = flightTelemetryStats then
        if gmap_get (pData p) ''Status'' = GStr ''Disconnected'' then
          res_bind (CreateGCSTelemetryStatsObjectPacket rt defs ''HandshakeReq'') (\<lambda>handshakeReq.
          Inr (s\<lparr>connected := False\<rparr>, [ToFC handshakeReq]))
        else if gmap_get (pData p) ''Status'' = GStr ''HandshakeAck'' then
          res_bind (CreateGCSTelemetryStatsObjectPacket rt defs ''Connected'') (\<lambda>handshakeConnected.
          Inr (s, [ToFC handshakeConnected]))
        else Inr (s, [])
      else Inr (s, []))"

text \<open>The branch of an acknowledged \<open>SessionManaging\<close> object, after the acknowledgement.\<close>

definition trackObject :: "definitions \<Rightarrow> 32 word \<Rightarrow> auth \<Rightarrow> auth \<times> effect list" where
  "trackObject defs objectID s =
     (if objectID \<noteq> 0 then
        (case GetDefinitionForObjectID defs objectID of
           Inl err \<Rightarrow> (s, [Warn err])
         | Inr d \<Rightarrow> (s\<lparr>activeDefinitions := activeDefinitions s @ [d]\<rparr>, []))
      else (s, []))"

definition nextObject :: "runtime \<Rightarrow> definitions \<Rightarrow> int \<Rightarrow> auth \<Rightarrow> (auth \<times> effect list) res" where
  "nextObject rt defs now s =
     (if currentObjectID s \<ge> numberOfObjects s then Inr (s, [FetchDone (now - start_time s)])
      else
        let s = (if currentObjectID s = 0 then s\<lparr>sessionID := word_of_int (now div 1000000000)\<rparr> else s) in
        res_bind (CreateSessionManagingPacket rt defs (sessionID s) (currentObjectID s)) (\<lambda>sessionManagingPacket.
        Inr (s\<lparr>currentObjectID := currentObjectID s + 1\<rparr>, [ToFC sessionManagingPacket])))"

definition sessionObject :: "runtime \<Rightarrow> definitions \<Rightarrow> int \<Rightarrow> Packet \<Rightarrow> auth \<Rightarrow> (auth \<times> effect list) res" where
  "sessionObject rt defs now p s =
     res_bind (CreatePacketAck defs (pDefinition p)) (\<lambda>sessionManagingPacketAck.
     res_bind (as_u32 (gmap_get (pData p) ''ObjectID'')) (\<lambda>objectID.
     let t = trackObject defs objectID s in
     res_bind (nextObject rt defs now (fst t)) (\<lambda>(s, es).
     Inr (s, ToFC sessionManagingPacketAck # snd t @ es))))"

text \<open>The branch of an unacknowledged \<open>SessionManaging\<close> object: the answer to the request.\<close>

definition sessionAnswer :: "runtime \<Rightarrow> definitions \<Rightarrow> int \<Rightarrow> Packet \<Rightarrow> auth \<Rightarrow> (auth \<times> effect list) res" where
  "sessionAnswer rt defs now p s =
     res_bind (as_u16 (gmap_get (pData p) ''SessionID'')) (\<lambda>sid.
     if sessionID s \<noteq> 0 \<and> sessionID s = sid then Inr (s, [])
     else
       res_bind (CreateSessionManagingPacket rt defs 0 0) (\<lambda>sessionManagingPacket.
       Inr (s\<lparr>start_time := now, activeDefinitions := []\<rparr>, [ToFC sessionManagingPacket])))"

definition noteNumber :: "8 word \<Rightarrow> auth \<Rightarrow> auth" where
  "noteNumber n s = (if n \<noteq> 0 then s\<lparr>numberOfObjects := n\<rparr> else s)"

text \<open>\<open>now\<close> is the clock in nanoseconds; no branch reads it twice.\<close>

definition sessionHandler ::
    "runtime \<Rightarrow> definitions \<Rightarrow> defptr \<Rightarrow> defptr \<Rightarrow> int \<Rightarrow> Packet \<Rightarrow> auth \<Rightarrow> (auth \<times> effect list) res" where
  "sessionHandler rt defs flightTelemetryStats sessionManaging now p s =
     (if pDefinition p = flightTelemetryStats then
        if \<not> connected s \<and> gmap_get (pData p) ''Status'' = GStr ''Connected'' then
          res_bind (CreateSessionManagingRequest rt defs) (\<lambda>sessionManagingReq.
          Inr (s\<lparr>connected := True\<rparr>, [ToFC sessionManagingReq]))
        else Inr (s, [])
      else if pDefinition p = sessionManaging then
        if pCmd p = ObjectCmd \<or> pCmd p = ObjectCmdWithAck then
          res_bind (as_u8 (gmap_get (pData p) ''NumberOfObjects'')) (\<lambda>n.
          if pCmd p = ObjectCmdWithAck then sessionObject rt defs now p (noteNumber n s)
          else sessionAnswer rt defs now p (noteNumber n s))
        else Inr (s, [])
      else Inr (s, []))"

section \<open>The goroutine of a finished fetch\<close>

definition initial_meta :: gmap where
  "initial_meta = [(''modes'', GF64 (f64_of_u32 0)), (''periodFlight'', GF64 (f64_of_u32 0)),
     (''periodGCS'', GF64 (f64_of_u32 0)), (''periodLog'', GF64 (f64_of_u32 0))]"

definition modes_of :: "Definition \<Rightarrow> 32 word" where
  "modes_of d = (if tlAcked (dTelemetryFlight d) then push_bit 2 1 else 0) OR
                (if tlAcked (dTelemetryGcs d) then push_bit 3 1 else 0)"

text \<open>
  One turn of the first loop: \<open>meta\<close> is updated in place and the same map goes into every
  packet, so the packet is returned with the map it points at.
\<close>

definition fetchSetter :: "runtime \<Rightarrow> definitions \<Rightarrow> defptr \<Rightarrow> gmap \<Rightarrow> (Packet \<times> gmap) res" where
  "fetchSetter rt defs p meta =
     res_bind (get_def defs p) (\<lambda>d.
     let meta = AList.update ''modes'' (GF64 (f64_of_u32 (modes_of d))) meta in
     res_bind (deref (dMeta d)) (\<lambda>mp.
     res_bind (get_def defs mp) (\<lambda>m.
     res_bind (CreateObjectSetter rt defs (dName m) 0 meta) (\<lambda>setter.
     Inr (setter, meta)))))"

section \<open>The stream handler\<close>

definition toRotondePacket :: "runtime \<Rightarrow> definitions \<Rightarrow> Packet \<Rightarrow> (string \<times> gmap) option res" where
  "toRotondePacket rt defs p =
     (if pCmd p \<noteq> ObjectCmd \<and> pCmd p \<noteq> ObjectCmdWithAck then Inr None
      else res_bind (get_def defs (pDefinition p)) (\<lambda>d. Inr (Some (ToUpper rt (dName d), pData p))))"

definition streamHandler :: "runtime \<Rightarrow> definitions \<Rightarrow> defptr \<Rightarrow> Packet \<Rightarrow> effect list res" where
  "streamHandler rt defs objectPersistenceDefinition p =
     res_bind
       (if pCmd p = ObjectCmdWithAck then
          res_bind (CreatePacketAck defs (pDefinition p)) (\<lambda>ack. Inr [ToFC ack])
        else if pCmd p = ObjectAck then
          res_bind (get_def defs (pDefinition p)) (\<lambda>d.
          if pDefinition p \<noteq> objectPersistenceDefinition \<and> dSettings d then
            res_bind (CreatePersistObject rt defs (pDefinition p) (pInstanceID p)) (\<lambda>persist. Inr [ToFC persist])
          else Inr [])
        else Inr []) (\<lambda>es.
     res_bind (toRotondePacket rt defs p) (\<lambda>event.
     Inr (es @ (case event of None \<Rightarrow> [] | Some (name, data) \<Rightarrow> [ToClient name data]))))"

definition initStreamHandlers :: "runtime \<Rightarrow> definitions \<Rightarrow> defptr res" where
  "initStreamHandlers rt defs = or_fatal (GetDefinitionForName rt defs ''ObjectPersistence'')"

section \<open>From rotonde\<close>

text \<open>The value handed to \<open>OnAction\<close>: a \<open>rotonde.Action\<close> or anything else.\<close>

datatype rotonde_msg = Action string gmap | OtherMessage

definition toUAVTalkPacket :: "runtime \<Rightarrow> definitions \<Rightarrow> rotonde_msg \<Rightarrow> Packet option res" where
  "toUAVTalkPacket rt defs i =
     (case i of
        OtherMessage \<Rightarrow> Inr None
      | Action identifier action_data \<Rightarrow>
          if length identifier < 4 then Inl Panic
          else
            let name = drop 4 identifier in
            res_bind (or_fatal (GetDefinitionForName rt defs name)) (\<lambda>dp.
            res_bind (get_def defs dp) (\<lambda>d.
            let (cmd, data) =
                  (if HasPrefix identifier ''GET_'' then (ObjectRequest, [])
                   else if HasPrefix identifier ''SET_'' then
                     (if dSettings d then ObjectCmdWithAck else ObjectCmd, action_data)
                   else (0, []));
                (instanceId, data) =
                  (if \<not> dSingleInstance d then
                     (case map_of data ''index'' of
                        None \<Rightarrow> (0, data)
                      | Some index \<Rightarrow>
                          (case index of GF64 value \<Rightarrow> f64_to_u16 rt value | _ \<Rightarrow> 0, AList.delete ''index'' data))
                   else (0, data))
            in res_bind (NewPacket defs dp cmd instanceId data) (\<lambda>packet. Inr (Some packet)))))"

section \<open>Definitions for rotonde\<close>

text \<open>
  \<open>rotonde.Definition\<close> and its \<open>PushField\<close> are not part of the sources: \<open>mk\<close> builds one
  without fields and \<open>push\<close> adds a field. The result is the list given to
  \<open>client.AddLocalDefinition\<close>, in order.
\<close>

definition sendAsRotondeDefinitions ::
    "(string \<Rightarrow> string \<Rightarrow> bool \<Rightarrow> 'r) \<Rightarrow> ('r \<Rightarrow> string \<Rightarrow> string \<Rightarrow> string \<Rightarrow> 'r) \<Rightarrow> runtime \<Rightarrow> Definition \<Rightarrow> 'r list" where
  "sendAsRotondeDefinitions mk push rt d =
     (let name = ToUpper rt (dName d);
          withIndex = (\<lambda>r. if \<not> dSingleInstance d then push r ''index'' ''number'' [] else r);
          withFields = (\<lambda>r. foldl (\<lambda>r f. push r (fName f) (fType f) (fUnits f)) r (dFields d));
          getter = withIndex (mk (''GET_'' @ name) ''action'' False);
          setter = withFields (withIndex (mk (''SET_'' @ name) ''action'' False));
          update = withFields (withIndex (mk name ''event'' False))
      in [getter, setter, update])"

section \<open>Invariants of the session state\<close>

text \<open>
  The pointers kept are valid, and neither handler can move the object counter back or past
  255: it is only incremented while it is below \<open>numberOfObjects\<close>.
\<close>

definition auth_ok :: "definitions \<Rightarrow> auth \<Rightarrow> bool" where
  "auth_ok defs s \<longleftrightarrow> list_all (\<lambda>p. p < length defs) (activeDefinitions s)"

lemma trackObject_ok:
  "currentObjectID (fst (trackObject defs oid s)) = currentObjectID s"
  "numberOfObjects (fst (trackObject defs oid s)) = numberOfObjects s"
  "sessionID (fst (trackObject defs oid s)) = sessionID s"
  "start_time (fst (trackObject defs oid s)) = start_time s"
  "auth_ok defs s \<Longrightarrow> auth_ok defs (fst (trackObject defs oid s))"
  by (auto simp: trackObject_def auth_ok_def split: sum.splits dest: by_id.lookup_sound)

lemma word_less_Suc: "(a :: 'a::len word) < b \<Longrightarrow> unat (a + 1) = Suc (unat a)"
proof -
  assume "a < b"
  then have "unat a + unat (1 :: 'a word) \<le> unat b" by (simp add: word_less_nat_alt)
  also have "unat b < 2 ^ LENGTH('a)" by (rule unsigned_less)
  finally show ?thesis using unat_add_lem [of a 1] by simp
qed

lemma nextObject_ok:
  assumes "nextObject rt defs now s = Inr (s', es)"
  shows "unat (currentObjectID s') =
      (if currentObjectID s < numberOfObjects s then Suc (unat (currentObjectID s)) else unat (currentObjectID s))"
    "activeDefinitions s' = activeDefinitions s" "numberOfObjects s' = numberOfObjects s"
  using assms by (auto simp: nextObject_def Let_def not_le word_less_Suc split: if_splits)

text \<open>
  What one call of the session handler leaves behind: the counter moves by at most one, and
  only below the announced number of objects.
\<close>

definition advances :: "definitions \<Rightarrow> auth \<Rightarrow> auth \<Rightarrow> bool" where
  "advances defs s s' \<longleftrightarrow>
     unat (currentObjectID s') \<in> {unat (currentObjectID s), Suc (unat (currentObjectID s))} \<and>
     (currentObjectID s' \<noteq> currentObjectID s \<longrightarrow> currentObjectID s' \<le> numberOfObjects s') \<and>
     (auth_ok defs s \<longrightarrow> auth_ok defs s')"

lemma advances_refl [simp]: "advances defs s s"
  by (simp add: advances_def)

lemma sessionObject_ok:
  assumes "sessionObject rt defs now p s = Inr (s', es)"
  shows "advances defs s s'"
proof -
  from assms obtain oid es' where n: "nextObject rt defs now (fst (trackObject defs oid s)) = Inr (s', es')"
    by (auto simp: sessionObject_def Let_def)
  let ?t = "fst (trackObject defs oid s)"
  note ok = nextObject_ok [OF n] and t = trackObject_ok [where defs = defs and oid = oid and s = s]
  have "auth_ok defs s \<longrightarrow> auth_ok defs s'" using ok(2) t(5) by (simp add: auth_ok_def)
  moreover have "currentObjectID s' \<noteq> currentObjectID s \<longrightarrow> currentObjectID s' \<le> numberOfObjects s'"
    using ok(1,3) t(1,2) by (auto simp: word_le_nat_alt word_less_nat_alt word_unat_eq_iff split: if_splits)
  ultimately show ?thesis using ok(1) t(1) by (auto simp: advances_def)
qed

lemma sessionAnswer_ok: "sessionAnswer rt defs now p s = Inr (s', es) \<Longrightarrow> advances defs s s'"
  by (auto simp: sessionAnswer_def advances_def auth_ok_def split: if_splits)

lemma advances_number: "advances defs (noteNumber n s) s' \<Longrightarrow> advances defs s s'"
  by (simp add: advances_def auth_ok_def noteNumber_def split: if_splits)

lemma sessionHandler_ok:
  assumes "sessionHandler rt defs fts sm now p s = Inr (s', es)"
  shows "advances defs s s'"
proof -
  have "advances defs s (s\<lparr>connected := True\<rparr>)" by (simp add: advances_def auth_ok_def)
  then show ?thesis using assms
    by (auto simp: sessionHandler_def split: if_split_asm
        dest!: sessionObject_ok sessionAnswer_ok intro: advances_number)
qed

lemma disconnectedHandler_ok: "disconnectedHandler rt defs fts p s = Inr (s', es) \<Longrightarrow> advances defs s s'"
  by (auto simp: disconnectedHandler_def advances_def auth_ok_def split: if_splits)

text \<open>The calls of the two closures, in whatever order packets and handlers come.\<close>

inductive auth_step :: "runtime \<Rightarrow> definitions \<Rightarrow> defptr \<Rightarrow> defptr \<Rightarrow> auth \<Rightarrow> effect list \<Rightarrow> auth \<Rightarrow> bool"
  for rt defs fts sm where
  disconnected: "disconnectedHandler rt defs fts p s = Inr (s', es) \<Longrightarrow> auth_step rt defs fts sm s es s'"
| session: "sessionHandler rt defs fts sm now p s = Inr (s', es) \<Longrightarrow> auth_step rt defs fts sm s es s'"

inductive auth_run :: "runtime \<Rightarrow> definitions \<Rightarrow> defptr \<Rightarrow> defptr \<Rightarrow> auth \<Rightarrow> effect list \<Rightarrow> auth \<Rightarrow> bool"
  for rt defs fts sm where
  run_none: "auth_run rt defs fts sm s [] s"
| run_step: "auth_run rt defs fts sm s es s' \<Longrightarrow> auth_step rt defs fts sm s' es' s'' \<Longrightarrow>
    auth_run rt defs fts sm s (es @ es') s''"

inductive_cases auth_stepE: "auth_step rt defs fts sm s es s'"
inductive_cases auth_runE: "auth_run rt defs fts sm s es s'"

lemma auth_step_advances: "auth_step rt defs fts sm s es s' \<Longrightarrow> advances defs s s'"
  by (auto elim!: auth_stepE intro: disconnectedHandler_ok sessionHandler_ok)

lemma auth_run_ok:
  "auth_run rt defs fts sm s es s' \<Longrightarrow>
   currentObjectID s \<le> currentObjectID s' \<and> (auth_ok defs s \<longrightarrow> auth_ok defs s')"
proof (induction rule: auth_run.induct)
  case (run_step s es s' es' s'')
  from auth_step_advances [OF run_step.hyps(2)] run_step.IH show ?case
    by (auto simp: advances_def word_le_nat_alt)
qed simp

section \<open>The fetch of the object list\<close>

text \<open>The session handler over a sequence of packets with their arrival times; one effect list per packet.\<close>

fun session_run :: "runtime \<Rightarrow> definitions \<Rightarrow> defptr \<Rightarrow> defptr \<Rightarrow> (int \<times> Packet) list \<Rightarrow> auth \<Rightarrow>
    (auth \<times> effect list list) res" where
  "session_run rt defs fts sm [] s = Inr (s, [])"
| "session_run rt defs fts sm ((now, p) # tps) s =
     res_bind (sessionHandler rt defs fts sm now p s) (\<lambda>(s, es).
     res_bind (session_run rt defs fts sm tps s) (\<lambda>(s, ess). Inr (s, es # ess)))"

text \<open>A \<open>SessionManaging\<close> object to be acknowledged, in a session with \<open>n\<close> objects.\<close>

definition announces :: "defptr \<Rightarrow> 8 word \<Rightarrow> Packet \<Rightarrow> bool" where
  "announces sm n p \<longleftrightarrow>
     pDefinition p = sm \<and> pCmd p = ObjectCmdWithAck \<and>
     (case gmap_get (pData p) ''NumberOfObjects'' of GU8 k \<Rightarrow> k = 0 \<or> k = n | _ \<Rightarrow> False) \<and>
     (case gmap_get (pData p) ''ObjectID'' of GU32 _ \<Rightarrow> True | _ \<Rightarrow> False)"

definition unix_id :: "int \<Rightarrow> 16 word" where
  "unix_id now = word_of_int (now div 1000000000)"

lemma announces_vals:
  assumes "announces sm n p"
  obtains k oid where "as_u8 (gmap_get (pData p) ''NumberOfObjects'') = Inr k" and "k = 0 \<or> k = n"
    and "as_u32 (gmap_get (pData p) ''ObjectID'') = Inr oid" and "pDefinition p = sm" and "pCmd p = ObjectCmdWithAck"
  using assms by (auto simp: announces_def as_u8_def as_u32_def split: gval.splits)

lemma CreateSessionManagingPacket_ok:
  assumes "GetDefinitionForName rt defs ''SessionManaging'' = Inr sm" and "list_all wf_field (dFields (defs ! sm))"
  shows "\<exists>pk. CreateSessionManagingPacket rt defs sid k = Inr pk"
  using get_def_name [OF assms(1)] ByteLength_wf [OF assms(2)] assms(1)
  by (simp add: CreateSessionManagingPacket_def NewPacket_def)

lemma sessionHandler_announce:
  assumes "announces sm n p" and "sm \<noteq> fts" and "numberOfObjects s = n" and "sm < length defs"
  obtains oid ack where "CreatePacketAck defs sm = Inr ack" and
    "sessionHandler rt defs fts sm now p s =
       res_bind (nextObject rt defs now (fst (trackObject defs oid s)))
         (\<lambda>(s', es). Inr (s', ToFC ack # snd (trackObject defs oid s) @ es))"
proof -
  obtain k oid where v: "as_u8 (gmap_get (pData p) ''NumberOfObjects'') = Inr k" "k = 0 \<or> k = n"
      "as_u32 (gmap_get (pData p) ''ObjectID'') = Inr oid" "pDefinition p = sm" "pCmd p = ObjectCmdWithAck"
    using assms(1) by (rule announces_vals)
  have "noteNumber k s = s" using v(2) assms(3) by (auto simp: noteNumber_def)
  moreover obtain ack where "CreatePacketAck defs sm = Inr ack"
    using CreatePacketAck_ok [OF assms(4)] by blast
  ultimately show thesis using v assms(2)
    by (intro that [of ack oid]) (simp_all add: sessionHandler_def sessionObject_def Let_def)
qed

lemma session_request:
  assumes "announces sm n p" and "sm \<noteq> fts" and "numberOfObjects s = n" and "currentObjectID s < n"
    and "GetDefinitionForName rt defs ''SessionManaging'' = Inr sm" and "list_all wf_field (dFields (defs ! sm))"
  obtains s' es pk ack where "sessionHandler rt defs fts sm now p s = Inr (s', es)"
    and "unat (currentObjectID s') = Suc (unat (currentObjectID s))" and "numberOfObjects s' = n"
    and "sessionID s' = (if currentObjectID s = 0 then unix_id now else sessionID s)"
    and "CreateSessionManagingPacket rt defs (sessionID s') (currentObjectID s) = Inr pk"
    and "CreatePacketAck defs sm = Inr ack" and "hd es = ToFC ack" and "last es = ToFC pk"
proof -
  have "sm < length defs" using by_name.lookup_sound [OF assms(5)] by simp
  from sessionHandler_announce [OF assms(1-3) this, of rt now]
  obtain oid ack where h: "CreatePacketAck defs sm = Inr ack" "sessionHandler rt defs fts sm now p s =
       res_bind (nextObject rt defs now (fst (trackObject defs oid s)))
         (\<lambda>(s', es). Inr (s', ToFC ack # snd (trackObject defs oid s) @ es))" .
  define t where "t = fst (trackObject defs oid s)"
  have t: "currentObjectID t = currentObjectID s" "numberOfObjects t = n" "sessionID t = sessionID s"
    using trackObject_ok [where defs = defs and oid = oid and s = s] assms(3) by (simp_all add: t_def)
  define t' where "t' = (if currentObjectID t = 0 then t\<lparr>sessionID := unix_id now\<rparr> else t)"
  have t': "sessionID t' = (if currentObjectID s = 0 then unix_id now else sessionID s)"
      "currentObjectID t' = currentObjectID s" "numberOfObjects t' = n"
    using t by (simp_all add: t'_def)
  obtain pk where pk: "CreateSessionManagingPacket rt defs (sessionID t') (currentObjectID s) = Inr pk"
    using CreateSessionManagingPacket_ok [OF assms(5,6)] by blast
  have "nextObject rt defs now t = Inr (t'\<lparr>currentObjectID := currentObjectID s + 1\<rparr>, [ToFC pk])"
    unfolding nextObject_def Let_def unix_id_def [symmetric] t'_def [symmetric]
    using t t' pk assms(4) by (simp add: not_le)
  then have "sessionHandler rt defs fts sm now p s =
      Inr (t'\<lparr>currentObjectID := currentObjectID s + 1\<rparr>, ToFC ack # snd (trackObject defs oid s) @ [ToFC pk])"
    using h(2) by (simp add: t_def)
  then show thesis
    by (rule that) (use h(1) t' pk word_less_Suc [OF assms(4)] in simp_all)
qed


lemma session_requests:
  assumes "GetDefinitionForName rt defs ''SessionManaging'' = Inr sm" and "list_all wf_field (dFields (defs ! sm))"
    and "sm \<noteq> fts" and "list_all (\<lambda>(now, p). announces sm n p) tps"
    and "numberOfObjects s = n" and "unat (currentObjectID s) + length tps \<le> unat n"
    and "if currentObjectID s = 0 then tps \<noteq> [] \<longrightarrow> sid = unix_id (fst (hd tps)) else sessionID s = sid"
  shows "\<exists>s' ess ack. session_run rt defs fts sm tps s = Inr (s', ess) \<and> length ess = length tps \<and>
    unat (currentObjectID s') = unat (currentObjectID s) + length tps \<and> numberOfObjects s' = n \<and>
    (tps \<noteq> [] \<longrightarrow> sessionID s' = sid) \<and> CreatePacketAck defs sm = Inr ack \<and>
    (\<forall>i<length tps. hd (ess ! i) = ToFC ack \<and>
      (\<exists>pk. CreateSessionManagingPacket rt defs sid (currentObjectID s + word_of_nat i) = Inr pk \<and>
            last (ess ! i) = ToFC pk))"
  using assms(4-7)
proof (induction tps arbitrary: s)
  case Nil
  have "sm < length defs" using by_name.lookup_sound [OF assms(1)] by simp
  then obtain ack where "CreatePacketAck defs sm = Inr ack" using CreatePacketAck_ok by blast
  with Nil show ?case by simp
next
  case (Cons tp tps)
  obtain now p where tp: "tp = (now, p)" by fastforce
  have a: "announces sm n p" and lt: "currentObjectID s < n"
    using Cons.prems tp by (auto simp: word_less_nat_alt)
  obtain s1 es pk ack where 1: "sessionHandler rt defs fts sm now p s = Inr (s1, es)"
      "unat (currentObjectID s1) = Suc (unat (currentObjectID s))" "numberOfObjects s1 = n"
      "sessionID s1 = (if currentObjectID s = 0 then unix_id now else sessionID s)"
      "CreateSessionManagingPacket rt defs (sessionID s1) (currentObjectID s) = Inr pk"
      "CreatePacketAck defs sm = Inr ack" "hd es = ToFC ack" "last es = ToFC pk"
    by (rule session_request [OF a assms(3) Cons.prems(2) lt assms(1,2), of now])
  have sid: "sessionID s1 = sid" using 1(4) Cons.prems(4) tp by (auto split: if_splits)
  have c1: "currentObjectID s1 = currentObjectID s + 1" "currentObjectID s1 \<noteq> 0"
    using 1(2) word_less_Suc [OF lt] by (auto simp: word_unat_eq_iff)
  obtain s' ess where IH: "session_run rt defs fts sm tps s1 = Inr (s', ess)" "length ess = length tps"
      "unat (currentObjectID s') = unat (currentObjectID s1) + length tps" "numberOfObjects s' = n"
      "tps \<noteq> [] \<longrightarrow> sessionID s' = sid"
      "\<forall>i<length tps. hd (ess ! i) = ToFC ack \<and>
        (\<exists>pk. CreateSessionManagingPacket rt defs sid (currentObjectID s1 + word_of_nat i) = Inr pk \<and>
              last (ess ! i) = ToFC pk)"
    using Cons.IH [of s1] Cons.prems 1(2,3,6) sid c1(2) by auto
  have "sessionID s' = sid" using IH(1,5) sid by (cases tps) auto
  then show ?case
    using IH 1 sid c1 tp
    by (intro exI [of _ s'] exI [of _ "es # ess"] exI [of _ ack])
       (auto simp: less_Suc_eq_0_disj nth_Cons add.assoc)
qed

lemma trackObject_warns: "\<exists>errs. snd (trackObject defs oid s) = map Warn errs"
proof (cases "GetDefinitionForObjectID defs oid")
  case (Inl e)
  then show ?thesis
    by (cases "oid = 0") (auto simp: trackObject_def intro: exI [of _ "[e]"] exI [of _ "[]"])
qed (auto simp: trackObject_def)

lemma session_finish:
  assumes "announces sm n p" and "sm \<noteq> fts" and "numberOfObjects s = n" and "n \<le> currentObjectID s" and "sm < length defs"
  shows "\<exists>s' ack errs. CreatePacketAck defs sm = Inr ack \<and>
    sessionHandler rt defs fts sm now p s = Inr (s', ToFC ack # map Warn errs @ [FetchDone (now - start_time s)]) \<and>
    currentObjectID s' = currentObjectID s"
proof -
  from sessionHandler_announce [OF assms(1-3,5), of rt now]
  obtain oid ack where h: "CreatePacketAck defs sm = Inr ack" "sessionHandler rt defs fts sm now p s =
       res_bind (nextObject rt defs now (fst (trackObject defs oid s)))
         (\<lambda>(s', es). Inr (s', ToFC ack # snd (trackObject defs oid s) @ es))" .
  have "nextObject rt defs now (fst (trackObject defs oid s)) =
      Inr (fst (trackObject defs oid s), [FetchDone (now - start_time s)])"
    using trackObject_ok [where defs = defs and oid = oid and s = s] assms(3,4) by (simp add: nextObject_def)
  moreover obtain errs where "snd (trackObject defs oid s) = map Warn errs" using trackObject_warns by blast
  ultimately show ?thesis using h trackObject_ok(1) [of defs oid s] by auto
qed

section \<open>Rotonde actions\<close>

text \<open>
  \<open>sendAsRotondeDefinitions\<close> publishes upper-case names and \<open>GetDefinitionForName\<close> compares
  lower-case ones, so a published name finds its definition when the names differ in more
  than case.
\<close>

definition names_distinct :: "runtime \<Rightarrow> definitions \<Rightarrow> bool" where
  "names_distinct rt defs \<longleftrightarrow> distinct (map (\<lambda>d. ToLower rt (dName d)) defs)"

lemma lookup_upper:
  assumes "names_distinct rt defs" and "i < length defs" and "ascii (dName (defs ! i))"
  shows "GetDefinitionForName rt defs (ToUpper rt (dName (defs ! i))) = Inr i"
  using assms by (intro by_name.lookup_unique) (auto simp: names_distinct_def ToLower_ToUpper)

lemma HasPrefix_append [simp]: "HasPrefix (p @ s) p"
  by (simp add: HasPrefix_def)

lemma HasPrefix_set_get [simp]: "\<not> HasPrefix (''SET_'' @ s) ''GET_''"
  by (simp add: HasPrefix_def)

lemma toUAVTalkPacket_get:
  assumes "GetDefinitionForName rt defs name = Inr i"
  shows "toUAVTalkPacket rt defs (Action (''GET_'' @ name) data) =
    Inr (Some \<lparr>pDefinition = i, pCmd = ObjectRequest, pLength = (if dSingleInstance (defs ! i) then 8 else 10),
               pInstanceID = 0, pData = []\<rparr>)"
proof -
  have "i < length defs" using by_name.lookup_sound [OF assms] by simp
  then have "NewPacket defs i ObjectRequest 0 [] = Inr \<lparr>pDefinition = i, pCmd = ObjectRequest,
      pLength = (if dSingleInstance (defs ! i) then 8 else 10), pInstanceID = 0, pData = []\<rparr>"
    by (simp add: NewPacket_dataless)
  then show ?thesis
    using HasPrefix_append [of "''GET_''" name] by (simp add: toUAVTalkPacket_def assms get_def_name [OF assms])
qed

definition set_cmd :: "Definition \<Rightarrow> 8 word" where
  "set_cmd d = (if dSettings d then ObjectCmdWithAck else ObjectCmd)"

definition set_index :: "runtime \<Rightarrow> Definition \<Rightarrow> gmap \<Rightarrow> 16 word" where
  "set_index rt d data =
     (if dSingleInstance d then 0
      else case gmap_get data ''index'' of GF64 value \<Rightarrow> f64_to_u16 rt value | _ \<Rightarrow> 0)"

definition set_data :: "Definition \<Rightarrow> gmap \<Rightarrow> gmap" where
  "set_data d data = (if dSingleInstance d then data else AList.delete ''index'' data)"

lemma delete_absent: "map_of m k = None \<Longrightarrow> AList.delete k m = m"
  by (simp add: delete_id map_of_eq_None_iff)

lemma toUAVTalkPacket_set:
  assumes "GetDefinitionForName rt defs name = Inr i"
  shows "toUAVTalkPacket rt defs (Action (''SET_'' @ name) data) =
    res_bind (NewPacket defs i (set_cmd (defs ! i)) (set_index rt (defs ! i) data) (set_data (defs ! i) data))
      (\<lambda>packet. Inr (Some packet))"
  using HasPrefix_set_get [of name] HasPrefix_append [of "''SET_''" name]
  by (simp add: toUAVTalkPacket_def assms get_def_name [OF assms] set_cmd_def set_index_def set_data_def
      gmap_get_def delete_absent split: option.splits)

lemma gmap_get_delete: "k' \<noteq> k \<Longrightarrow> gmap_get (AList.delete k m) k' = gmap_get m k'"
  by (simp add: gmap_get_def delete_conv')

lemma data_ok_set_data:
  assumes "data_ok d data" and "''index'' \<notin> fName ` set (dFields d)"
  shows "data_ok d (set_data d data)"
proof -
  have "gmap_get (set_data d data) (fName f) = gmap_get data (fName f)" if "f \<in> set (dFields d)" for f
  proof -
    have "fName f \<noteq> ''index''" using that assms(2) by (metis image_eqI)
    then show ?thesis by (simp add: set_data_def gmap_get_delete)
  qed
  with assms(1) show ?thesis by (simp add: data_ok_def list_all_iff)
qed

lemma set_index_roundtrip:
  "\<not> dSingleInstance d \<Longrightarrow> gmap_get data ''index'' = GF64 (f64_of_u32 (ucast i)) \<Longrightarrow> set_index rt d data = i"
  by (simp add: set_index_def)

section \<open>The map shared by the setters of a finished fetch\<close>

text \<open>
  The goroutine of a finished fetch and the writer that takes its packets from \<open>fcInChan\<close>:
  every queued setter points at the one map \<open>meta\<close>, which the writer reads when it encodes
  the packet.
\<close>

record setters =
  todo :: "defptr list"
  shared_meta :: gmap
  queued :: "Packet list"
  encoded :: "Packet list"

inductive setter_step :: "runtime \<Rightarrow> definitions \<Rightarrow> setters \<Rightarrow> setters \<Rightarrow> bool" for rt defs where
  push: "todo s = p # ps \<Longrightarrow> fetchSetter rt defs p (shared_meta s) = Inr (pk, meta) \<Longrightarrow>
    setter_step rt defs s (s\<lparr>todo := ps, shared_meta := meta, queued := queued s @ [pk]\<rparr>)"
| take: "queued s = pk # pks \<Longrightarrow>
    setter_step rt defs s (s\<lparr>queued := pks, encoded := encoded s @ [pk\<lparr>pData := shared_meta s\<rparr>]\<rparr>)"

inductive_cases setter_stepE: "setter_step rt defs s s'"

lemma fetchSetter_modes:
  assumes "fetchSetter rt defs p meta = Inr (pk, meta')"
  shows "gmap_get meta' ''modes'' = GF64 (f64_of_u32 (modes_of (defs ! p)))"
    and "pData pk = meta'" and "pCmd pk = ObjectCmd"
  using assms by (auto simp: fetchSetter_def CreateObjectSetter_def Let_def dest!: NewPacket_fields)

lemma fetchSetter_meta_meta:
  "mp < length defs \<Longrightarrow> dMeta (defs ! mp) = None \<Longrightarrow>
   fetchSetter rt defs mp meta = Inl Panic"
  by (simp add: fetchSetter_def get_def_def Let_def)

end
