(* ===== verification/Connection.thy ===== *)
theory Connection
  imports Packet
begin

text \<open>
  The receiving side of \<open>start\<close> in \<open>uavtalk/uavtalk.go\<close> and \<open>PrintHex\<close> of
  \<open>uavtalk/utils.go\<close>: the buffer the reader goroutine keeps, the loop that cuts frames out
  of it, and what it hands on.

  The buffer is a slice with its stale bytes: \<open>append\<close> overwrites them, the stripping
  \<open>copy\<close> leaves new ones behind, and \<open>buffer[from:to]\<close> gives \<open>newPacketFromBinary\<close> access
  to them. The lemmas show that this never matters: the loop refines a specification on the
  bytes alone, and that specification does not depend on how the byte stream was cut into
  reads.
\<close>

section \<open>Operations\<close>

definition hex_digit :: "nat \<Rightarrow> char" where
  "hex_digit n = ''0123456789abcdef'' ! n"

definition hex_byte :: "byte \<Rightarrow> string" where
  "hex_byte b = [hex_digit (unat b div 16), hex_digit (unat b mod 16)]"

fun print_hex_loop :: "bytes \<Rightarrow> nat list \<Rightarrow> string \<Rightarrow> string res" where
  "print_hex_loop buffer [] l = Inr l"
| "print_hex_loop buffer (i # is) l =
     (if i < length buffer
      then print_hex_loop buffer is ((if i > 0 then l @ '':'' else l) @ hex_byte (buffer ! i))
      else Inl Panic)"

definition PrintHex :: "bytes \<Rightarrow> nat \<Rightarrow> string res" where
  "PrintHex buffer n = print_hex_loop buffer [0..<n] []"

text \<open>What the reader produces: a packet on \<open>outChan\<close>, or a warning with a hex dump.\<close>

datatype rx_event = RxPacket Packet | RxWarn go_error string

text \<open>
  \<open>append(buffer, bs...)\<close>: in place while the capacity lasts, else a fresh array; how much
  larger that array is, is the run-time system's choice \<open>grow\<close>.
\<close>

definition slice_append :: "(nat \<Rightarrow> nat \<Rightarrow> nat) \<Rightarrow> slice \<Rightarrow> bytes \<Rightarrow> slice" where
  "slice_append grow s bs =
     (if length bs \<le> length (spare s) then \<lparr>vis = vis s @ bs, spare = drop (length bs) (spare s)\<rparr>
      else \<lparr>vis = vis s @ bs, spare = replicate (grow (length (vis s @ spare s)) (length bs)) 0\<rparr>)"

text \<open>\<open>copy(buffer, buffer[to:]); buffer = buffer[0 : len(buffer)-to]\<close>\<close>

definition strip :: "slice \<Rightarrow> nat \<Rightarrow> slice res" where
  "strip s hi =
     (if hi \<le> length (vis s)
      then Inr \<lparr>vis = drop hi (vis s), spare = drop (length (vis s) - hi) (vis s) @ spare s\<rparr>
      else Inl Panic)"

text \<open>The body of the inner loop up to the stripping, on a complete frame.\<close>

definition rx_frame :: "definitions \<Rightarrow> slice \<Rightarrow> nat \<Rightarrow> nat \<Rightarrow> go_error option \<Rightarrow> rx_event res" where
  "rx_frame defs buffer lo hi err =
     res_bind (slice_range buffer lo hi) (\<lambda>s.
     case err of
       None \<Rightarrow>
         (case newPacketFromBinary defs s of
            Inr uavTalkObject \<Rightarrow> Inr (RxPacket uavTalkObject)
          | Inl Panic \<Rightarrow> Inl Panic
          | Inl e \<Rightarrow> res_bind (PrintHex (vis s) (hi - lo)) (\<lambda>l. Inr (RxWarn e l)))
     | Some e \<Rightarrow> res_bind (PrintHex (vis s) (hi - lo)) (\<lambda>l. Inr (RxWarn e l)))"

lemma packetComplete_found:
  "packetComplete m xs = (ok, lo, hi, err) \<Longrightarrow> err \<noteq> None \<or> ok \<Longrightarrow> candidate m xs lo hi"
  by (rule packetComplete_cases [of m xs]) auto

lemma packetComplete_accepted: "packetComplete m xs = (True, lo, hi, err) \<Longrightarrow> crc_ok xs lo"
  by (rule packetComplete_cases [of m xs]) auto

lemma packetComplete_idle: "packetComplete m xs = (False, lo, hi, None) \<Longrightarrow> packetComplete m xs = wait"
  by (rule packetComplete_cases [of m xs]) auto

lemma packetComplete_progress:
  "packetComplete m xs = (ok, lo, hi, err) \<Longrightarrow> err \<noteq> None \<or> ok \<Longrightarrow> 0 < hi \<and> hi \<le> length xs \<and> lo \<le> hi"
  by (drule (1) packetComplete_found) (auto simp: candidate_def)

function drain :: "int \<Rightarrow> definitions \<Rightarrow> slice \<Rightarrow> rx_event list \<times> slice res" where
  "drain m defs buffer =
     (case packetComplete m (vis buffer) of (ok, lo, hi, err) \<Rightarrow>
        if err = None \<and> \<not> ok then ([], Inr buffer)
        else
          (case rx_frame defs buffer lo hi err of
             Inl e \<Rightarrow> ([], Inl e)
           | Inr ev \<Rightarrow>
               (case strip buffer hi of
                  Inl e \<Rightarrow> ([ev], Inl e)
                | Inr buffer \<Rightarrow> (case drain m defs buffer of (evs, r) \<Rightarrow> (ev # evs, r)))))"
  by pat_completeness auto
termination
  by (relation "measure (\<lambda>(m, defs, buffer). length (vis buffer))")
     (auto simp: strip_def dest!: packetComplete_progress [OF sym] split: if_splits)

declare drain.simps [simp del]

text \<open>One turn of the reader after a successful \<open>link.Read\<close> of the bytes \<open>chunk\<close>.\<close>

definition rx_read :: "(nat \<Rightarrow> nat \<Rightarrow> nat) \<Rightarrow> int \<Rightarrow> definitions \<Rightarrow> bytes \<Rightarrow> slice \<Rightarrow> rx_event list \<times> slice res" where
  "rx_read grow m defs chunk buffer =
     (if chunk = [] then ([], Inr buffer) else drain m defs (slice_append grow buffer chunk))"

text \<open>The reader over a sequence of reads, from the buffer it has.\<close>

fun rx_run :: "(nat \<Rightarrow> nat \<Rightarrow> nat) \<Rightarrow> int \<Rightarrow> definitions \<Rightarrow> bytes list \<Rightarrow> slice \<Rightarrow> rx_event list \<times> slice res" where
  "rx_run grow m defs [] buffer = ([], Inr buffer)"
| "rx_run grow m defs (chunk # chunks) buffer =
     (case rx_read grow m defs chunk buffer of
        (evs, Inl e) \<Rightarrow> (evs, Inl e)
      | (evs, Inr buffer) \<Rightarrow>
          (case rx_run grow m defs chunks buffer of (evs', r) \<Rightarrow> (evs @ evs', r)))"

definition rx_buffer :: slice where
  "rx_buffer = \<lparr>vis = [], spare = replicate 4096 0\<rparr>"

section \<open>PrintHex\<close>

lemma print_hex_loop_ok:
  "\<forall>i\<in>set is. i < length b \<Longrightarrow>
   print_hex_loop b is l = Inr (l @ concat (map (\<lambda>i. (if i > 0 then '':'' else []) @ hex_byte (b ! i)) is))"
  by (induction "is" arbitrary: l) auto

lemma PrintHex_ok: "n \<le> length b \<Longrightarrow> \<exists>l. PrintHex b n = Inr l \<and> length l = 3 * n - 1"
proof -
  assume n: "n \<le> length b"
  have "length (concat (map (\<lambda>i. (if i > 0 then '':'' else []) @ hex_byte (b ! i)) [0..<n])) = 3 * n - 1"
    by (induction n) (auto simp: hex_byte_def)
  with n show ?thesis by (simp add: PrintHex_def print_hex_loop_ok)
qed

section \<open>The specification on bytes\<close>

definition hex_dump :: "bytes \<Rightarrow> string" where
  "hex_dump f = (case PrintHex f (length f) of Inr l \<Rightarrow> l | Inl _ \<Rightarrow> [])"

definition frame_event :: "definitions \<Rightarrow> bytes \<Rightarrow> nat \<Rightarrow> nat \<Rightarrow> go_error option \<Rightarrow> rx_event res" where
  "frame_event defs bs lo hi err =
     (let f = take (hi - lo) (drop lo bs) in
      case err of
        None \<Rightarrow>
          (case parse_frame defs (take 8 (drop lo bs)) f of
             Inr p \<Rightarrow> Inr (RxPacket p)
           | Inl Panic \<Rightarrow> Inl Panic
           | Inl e \<Rightarrow> Inr (RxWarn e (hex_dump f)))
      | Some e \<Rightarrow> Inr (RxWarn e (hex_dump f)))"

function rx_spec :: "int \<Rightarrow> definitions \<Rightarrow> bytes \<Rightarrow> rx_event list \<times> bytes res" where
  "rx_spec m defs bs =
     (case packetComplete m bs of (ok, lo, hi, err) \<Rightarrow>
        if err = None \<and> \<not> ok then ([], Inr bs)
        else
          (case frame_event defs bs lo hi err of
             Inl e \<Rightarrow> ([], Inl e)
           | Inr ev \<Rightarrow> (case rx_spec m defs (drop hi bs) of (evs, r) \<Rightarrow> (ev # evs, r))))"
  by pat_completeness auto
termination
  by (relation "measure (\<lambda>(m, defs, bs). length bs)") (auto dest!: packetComplete_progress [OF sym])

declare rx_spec.simps [simp del]

lemma slice_range_subslice:
  "lo \<le> hi \<Longrightarrow> hi \<le> length (vis s) \<Longrightarrow> slice_range s lo hi = Inr (subslice (vis s) (spare s) lo hi)"
  by (simp add: slice_range_vis subslice_def)

lemma rx_frame_event:
  assumes "packetComplete m (vis s) = (ok, lo, hi, err)" and "err \<noteq> None \<or> ok"
  shows "rx_frame defs s lo hi err = frame_event defs (vis s) lo hi err"
proof -
  note b = packetComplete_progress [OF assms]
  let ?f = "take (hi - lo) (drop lo (vis s))" and ?s = "subslice (vis s) (spare s) lo hi"
  have s: "slice_range s lo hi = Inr ?s" using b by (intro slice_range_subslice) auto
  have f: "vis ?s = ?f" "length ?f = hi - lo" using b by (auto simp: subslice_def)
  have hex: "PrintHex ?f (hi - lo) = Inr (hex_dump ?f)"
    using PrintHex_ok [of "hi - lo" ?f] unfolding hex_dump_def f(2) by auto
  show ?thesis
  proof (cases err)
    case None
    with assms have "candidate m (vis s) lo hi" "crc_ok (vis s) lo"
      by (auto dest: packetComplete_found packetComplete_accepted)
    then have "newPacketFromBinary defs ?s = parse_frame defs (take 8 (drop lo (vis s))) ?f"
      by (simp add: newPacketFromBinary_frame)
    with None show ?thesis
      by (auto simp: rx_frame_def frame_event_def s f(1) hex Let_def split: sum.splits go_error.splits)
  next
    case (Some e)
    then show ?thesis by (simp add: rx_frame_def frame_event_def s f(1) hex Let_def)
  qed
qed

text \<open>The loop refines the specification: the stale bytes have no influence.\<close>

lemma drain_spec:
  "fst (drain m defs s) = fst (rx_spec m defs (vis s)) \<and>
   map_sum (\<lambda>e. e) vis (snd (drain m defs s)) = snd (rx_spec m defs (vis s))"
proof (induction m defs s rule: drain.induct)
  case (1 m defs s)
  obtain ok lo hi err where v: "packetComplete m (vis s) = (ok, lo, hi, err)"
    by (metis prod_cases4)
  show ?case
  proof (cases "err = None \<and> \<not> ok")
    case True
    with v show ?thesis by (simp add: drain.simps [of m defs s] rx_spec.simps [of m defs "vis s"])
  next
    case False
    note b = packetComplete_progress [OF v]
    note ev = rx_frame_event [OF v, of defs]
    obtain s' where s': "strip s hi = Inr s'" "vis s' = drop hi (vis s)"
      using b False by (auto simp: strip_def)
    show ?thesis
    proof (cases "frame_event defs (vis s) lo hi err")
      case (Inl e)
      with v False ev show ?thesis
        by (auto simp: drain.simps [of m defs s] rx_spec.simps [of m defs "vis s"])
    next
      case (Inr e)
      have "fst (drain m defs s') = fst (rx_spec m defs (vis s')) \<and>
          map_sum (\<lambda>e. e) vis (snd (drain m defs s')) = snd (rx_spec m defs (vis s'))"
        using v False ev Inr s' by (intro "1.IH") (auto intro!: refl)
      with v False ev Inr s' show ?thesis
        by (auto simp: drain.simps [of m defs s] rx_spec.simps [of m defs "vis s"] split: prod.splits)
    qed
  qed
qed

section \<open>How the stream is cut into reads\<close>

lemma rx_spec_wait: "packetComplete m bs = wait \<Longrightarrow> rx_spec m defs bs = ([], Inr bs)"
  by (simp add: rx_spec.simps)

lemma rx_spec_rest: "rx_spec m defs bs = (evs, Inr rest) \<Longrightarrow> packetComplete m rest = wait"
proof (induction m defs bs arbitrary: evs rule: rx_spec.induct)
  case (1 m defs bs)
  obtain ok lo hi err where v: "packetComplete m bs = (ok, lo, hi, err)" by (metis prod_cases4)
  show ?case
  proof (cases "err = None \<and> \<not> ok")
    case True
    with v have "packetComplete m bs = wait" by (intro packetComplete_idle [of m bs lo hi]) simp
    with "1.prems" show ?thesis by (simp add: rx_spec_wait)
  next
    case False
    with "1.prems" v obtain ev evs' where "frame_event defs bs lo hi err = Inr ev"
        "rx_spec m defs (drop hi bs) = (evs', Inr rest)"
      by (subst (asm) rx_spec.simps) (auto split: sum.splits prod.splits)
    with "1.IH" [OF v [symmetric] refl refl False] show ?thesis by blast
  qed
qed

text \<open>A frame found in the bytes at hand is the frame found once more bytes are there.\<close>

lemma frame_event_append:
  assumes "packetComplete m bs = (ok, lo, hi, err)" and "err \<noteq> None \<or> ok"
  shows "frame_event defs (bs @ later) lo hi err = frame_event defs bs lo hi err"
proof -
  have "candidate m bs lo hi" using assms by (rule packetComplete_found)
  then have "lo + 8 \<le> length bs" "hi \<le> length bs" "lo \<le> hi" by (auto simp: candidate_def)
  then have "take (hi - lo) (drop lo (bs @ later)) = take (hi - lo) (drop lo bs)"
      "take 8 (drop lo (bs @ later)) = take 8 (drop lo bs)"
    by simp_all
  then show ?thesis by (simp only: frame_event_def)
qed

lemma rx_spec_append:
  "rx_spec m defs (bs @ later) =
     (case rx_spec m defs bs of
        (evs, Inl e) \<Rightarrow> (evs, Inl e)
      | (evs, Inr rest) \<Rightarrow> (case rx_spec m defs (rest @ later) of (evs', r) \<Rightarrow> (evs @ evs', r)))"
proof (induction m defs bs rule: rx_spec.induct)
  case (1 m defs bs)
  obtain ok lo hi err where v: "packetComplete m bs = (ok, lo, hi, err)" by (metis prod_cases4)
  show ?case
  proof (cases "err = None \<and> \<not> ok")
    case True
    with v have "packetComplete m bs = wait" by (intro packetComplete_idle [of m bs lo hi]) simp
    then show ?thesis by (simp add: rx_spec_wait)
  next
    case False
    with v have v': "packetComplete m (bs @ later) = (ok, lo, hi, err)"
      using packetComplete_append [of m bs later] by auto
    have hi: "hi \<le> length bs" using packetComplete_progress [OF v] False by auto
    have fe: "frame_event defs (bs @ later) lo hi err = frame_event defs bs lo hi err"
      using frame_event_append [OF v] False by blast
    show ?thesis
    proof (cases "frame_event defs bs lo hi err")
      case (Inl e)
      with v v' fe False show ?thesis by (auto simp: rx_spec.simps [of m defs bs] rx_spec.simps [of m defs "bs @ later"])
    next
      case (Inr ev)
      note IH = "1.IH" [OF v [symmetric] refl refl False Inr]
      have "rx_spec m defs (bs @ later) = (case rx_spec m defs (drop hi bs @ later) of (evs, r) \<Rightarrow> (ev # evs, r))"
        using v' fe False Inr hi by (subst rx_spec.simps) auto
      moreover have "rx_spec m defs bs = (case rx_spec m defs (drop hi bs) of (evs, r) \<Rightarrow> (ev # evs, r))"
        using v False Inr by (subst rx_spec.simps) auto
      ultimately show ?thesis unfolding IH by (auto split: prod.splits sum.splits)
    qed
  qed
qed

lemma vis_slice_append [simp]: "vis (slice_append grow s bs) = vis s @ bs"
  by (simp add: slice_append_def)

lemma rx_read_spec:
  assumes "packetComplete m (vis s) = wait"
  shows "fst (rx_read grow m defs chunk s) = fst (rx_spec m defs (vis s @ chunk)) \<and>
    map_sum (\<lambda>e. e) vis (snd (rx_read grow m defs chunk s)) = snd (rx_spec m defs (vis s @ chunk))"
  using drain_spec [of m defs "slice_append grow s chunk"] rx_spec_wait [OF assms]
  by (simp add: rx_read_def)

lemma rx_run_spec:
  assumes "packetComplete m (vis s) = wait"
  shows "fst (rx_run grow m defs chunks s) = fst (rx_spec m defs (vis s @ concat chunks)) \<and>
    map_sum (\<lambda>e. e) vis (snd (rx_run grow m defs chunks s)) = snd (rx_spec m defs (vis s @ concat chunks))"
  using assms
proof (induction chunks arbitrary: s)
  case Nil
  then show ?case by (simp add: rx_spec_wait)
next
  case (Cons c cs)
  obtain evs r where e: "rx_read grow m defs c s = (evs, r)" by fastforce
  with rx_read_spec [OF Cons.prems, of grow defs c]
  have sp: "rx_spec m defs (vis s @ c) = (evs, map_sum (\<lambda>e. e) vis r)" by (metis fst_conv prod.collapse snd_conv)
  show ?case
  proof (cases r)
    case (Inl x)
    with e sp rx_spec_append [of m defs "vis s @ c" "concat cs"] show ?thesis by simp
  next
    case (Inr s')
    then have "packetComplete m (vis s') = wait" using rx_spec_rest sp by simp
    from Cons.IH [OF this] show ?thesis
      using Inr e sp rx_spec_append [of m defs "vis s @ c" "concat cs"]
      by (cases "rx_run grow m defs cs s'") (simp split: prod.splits)
  qed
qed

lemma packetComplete_Nil [simp]: "packetComplete m [] = wait"
  by (simp add: packetComplete_def packetComplete_from_unfold find_sync_def)

corollary rx_run_chunks:
  "fst (rx_run grow m defs chunks rx_buffer) = fst (rx_spec m defs (concat chunks))"
  using rx_run_spec [of m rx_buffer grow defs chunks] by (simp add: rx_buffer_def)

section \<open>A stream of frames\<close>

lemma rx_spec_frame:
  assumes "0x3c \<notin> set junk" and "is_frame m f" and "parse_frame defs (take 8 f) f = Inr p"
  shows "rx_spec m defs (junk @ f @ rest) = (case rx_spec m defs rest of (evs, r) \<Rightarrow> (RxPacket p # evs, r))"
proof -
  have "8 \<le> length f" using assms(2) by (simp add: is_frame_def)
  then have "frame_event defs (junk @ f @ rest) (length junk) (length junk + length f) None = Inr (RxPacket p)"
    using assms(3) by (simp add: frame_event_def)
  with packetComplete_frame [OF assms(1,2), of rest] show ?thesis
    by (subst rx_spec.simps) simp
qed

text \<open>What a sender may put on the wire for this receiver to understand.\<close>

definition sendable :: "int \<Rightarrow> definitions \<Rightarrow> Packet \<Rightarrow> bool" where
  "sendable m defs p \<longleftrightarrow>
     packet_ok defs p \<and> wire_length (defs ! pDefinition p) (pCmd p) \<le> m + 10 \<and> \<not> bit (pCmd p) 5 \<and>
     GetDefinitionForObjectID defs (dObjectID (defs ! pDefinition p)) = Inr (pDefinition p)"

definition frame_of :: "runtime \<Rightarrow> definitions \<Rightarrow> Packet \<Rightarrow> bytes" where
  "frame_of rt defs p = (case toBinary rt defs p of Inr bs \<Rightarrow> bs | Inl _ \<Rightarrow> [])"

lemma sendable_frame:
  assumes "sendable m defs p"
  shows "toBinary rt defs p = Inr (frame_of rt defs p)" and "is_frame m (frame_of rt defs p)"
    and "parse_frame defs (take 8 (frame_of rt defs p)) (frame_of rt defs p) = Inr (packet_dec rt defs p)"
proof -
  from assms have a: "packet_ok defs p" "wire_length (defs ! pDefinition p) (pCmd p) \<le> m + 10"
      "\<not> bit (pCmd p) 5" "GetDefinitionForObjectID defs (dObjectID (defs ! pDefinition p)) = Inr (pDefinition p)"
    by (auto simp: sendable_def)
  obtain bs where "toBinary rt defs p = Inr bs" "is_frame m bs" using toBinary_frame [OF a(1,2)] .
  then show "toBinary rt defs p = Inr (frame_of rt defs p)" "is_frame m (frame_of rt defs p)"
    by (simp_all add: frame_of_def)
  with parse_frame_toBinary [OF a(1) _ a(4,3)]
  show "parse_frame defs (take 8 (frame_of rt defs p)) (frame_of rt defs p) = Inr (packet_dec rt defs p)"
    by blast
qed

lemma rx_spec_frames:
  assumes "list_all (\<lambda>(junk, p). 0x3c \<notin> set junk \<and> sendable m defs p) jps"
  shows "rx_spec m defs (concat (map (\<lambda>(junk, p). junk @ frame_of rt defs p) jps) @ rest) =
    (map (\<lambda>(junk, p). RxPacket (packet_dec rt defs p)) jps @ fst (rx_spec m defs rest), snd (rx_spec m defs rest))"
  using assms
proof (induction jps)
  case (Cons jp jps)
  obtain junk p where jp: "jp = (junk, p)" by fastforce
  with Cons.prems have "0x3c \<notin> set junk" "sendable m defs p" by auto
  from rx_spec_frame [OF this(1) sendable_frame(2,3) [OF this(2), where rt = rt]] Cons
  show ?case by (simp add: jp)
qed simp

text \<open>A rejected frame costs the stream at most the longest frame.\<close>

lemma packetComplete_reject_bound:
  assumes "packetComplete m bs = (False, lo, hi, Some e)"
  shows "hi \<le> length bs \<and> int hi \<le> int lo + m + 11"
  using packetComplete_found [OF assms] by (auto simp: candidate_def)

end
