(* ===== verification/Wchar.thy ===== *)
theory Wchar
  imports Translators
begin

text \<open>
  \<open>cgo.wchar\<close>: \<open>convert.go\<close> and \<open>wchar.go\<close>, the conversions between Go strings and the
  wide strings of C that \<open>hid.go\<close> uses. A Go string is its bytes, a \<open>Wchar\<close> (\<open>int32\<close>) its
  bits, a pointer to wide characters the words mapped from its address on (\<open>None\<close> is
  NULL): reading past them is a memory fault, \<open>Panic\<close> here.

  The C library \<open>iconv\<close> is a parameter. What it is asked to convert is a byte string and
  the room it is told of; it answers with the bytes it stores and its error number. The
  lemmas characterise every conversion for an \<open>iconv\<close> that converts between UTF-8 and
  32-bit code points (\<open>converts\<close>), where the buffers are too small or not terminated too.
\<close>

type_synonym wchar = "32 word"
type_synonym wchar_ptr = "wchar list option"

text \<open>\<open>behind\<close> is what memory holds behind a buffer the conversions allocate.\<close>

record iconv_lib =
  iconv_open :: "string \<Rightarrow> string \<Rightarrow> nat option \<times> string option"
  iconv :: "nat \<Rightarrow> bytes \<Rightarrow> nat \<Rightarrow> bytes \<times> string option"
  behind :: bytes

abbreviation iconvCharsetWchar :: string where "iconvCharsetWchar \<equiv> ''wchar_t//TRANSLIT''"
abbreviation iconvCharsetUtf8 :: string where "iconvCharsetUtf8 \<equiv> ''utf-8//TRANSLIT''"

text \<open>What a C function leaves in a buffer of the caller.\<close>

definition put_buffer :: "'a list \<Rightarrow> 'a list \<Rightarrow> 'a list" where
  "put_buffer out buf = take (length buf) out @ drop (length out) buf"

definition C_GoString :: "bytes \<Rightarrow> bytes res" where
  "C_GoString mem = (if 0 \<in> set mem then Inr (takeWhile (\<lambda>b. b \<noteq> 0) mem) else Inl Panic)"

section \<open>convert.go\<close>

definition iconv_open_failed :: string where
  "iconv_open_failed = ''Could not open iconv instance: ''"

fun collect_wchars :: "bytes \<Rightarrow> wchar list" where
  "collect_wchars (b0 # b1 # b2 # b3 # outputChars) =
     (let w = get_le [b0, b1, b2, b3] in if w = 0 then [] else w # collect_wchars outputChars)"
| "collect_wchars _ = []"

definition convertGoStringToWcharString :: "iconv_lib \<Rightarrow> bytes \<Rightarrow> wchar list res" where
  "convertGoStringToWcharString ic input =
     (if input = [] then Inr []
      else case iconv_open ic iconvCharsetWchar iconvCharsetUtf8 of
        (Some cd, None) \<Rightarrow>
          (case iconv ic cd input (length input * 4) of
             (_, Some errno) \<Rightarrow> Inl (IOError errno)
           | (out, None) \<Rightarrow> Inr (collect_wchars (put_buffer out (replicate (length input * 4) 0)) @ [0]))
      | (_, Some errno) \<Rightarrow> Inl (IOError (iconv_open_failed @ errno))
      | (None, None) \<Rightarrow> Inl (IOError (iconv_open_failed @ ''%!s(<nil>)'')))"

fun wchar_chars :: "wchar list \<Rightarrow> bytes" where
  "wchar_chars [] = []"
| "wchar_chars (nextWchar # ws) = (if nextWchar = 0 then [] else put_le 4 nextWchar @ wchar_chars ws)"

text \<open>\<open>errno.Error()\<close> on a nil error panics.\<close>

definition convertWcharStringToGoString :: "iconv_lib \<Rightarrow> wchar list \<Rightarrow> bytes res" where
  "convertWcharStringToGoString ic ws =
     (if ws = [] then Inr []
      else case iconv_open ic iconvCharsetUtf8 iconvCharsetWchar of
        (Some cd, None) \<Rightarrow>
          (let inputAsCChars = wchar_chars ws in
           if inputAsCChars = [] then Inr []
           else case iconv ic cd inputAsCChars (length inputAsCChars) of
             (_, Some errno) \<Rightarrow> Inl (IOError errno)
           | (out, None) \<Rightarrow> C_GoString (put_buffer out (replicate (length inputAsCChars) 0) @ behind ic))
      | (_, Some errno) \<Rightarrow> Inl (IOError (iconv_open_failed @ errno))
      | (None, None) \<Rightarrow> Inl Panic)"

text \<open>
  The rune is copied to a C string of its one to four bytes and a zero byte, of which
  \<open>iconv\<close> is told to read four; the buffer has four bytes, of which it is told there are
  sixteen. The second component of the result is what it stores behind the buffer.
\<close>

definition convertGoRuneToWchar :: "iconv_lib \<Rightarrow> int \<Rightarrow> wchar res \<times> bytes" where
  "convertGoRuneToWchar ic r =
     (if r = 0 then (Inr 0, [])
      else case iconv_open ic iconvCharsetWchar iconvCharsetUtf8 of
        (Some cd, None) \<Rightarrow>
          (case iconv ic cd (take 4 (encodeRune r @ [0] @ behind ic)) (4 * 4) of
             (out, errno) \<Rightarrow>
               (case errno of Some e \<Rightarrow> Inl (IOError e) | None \<Rightarrow> Inr (get_le (put_buffer out (replicate 4 0))),
                drop 4 out))
      | (_, Some errno) \<Rightarrow> (Inl (IOError (iconv_open_failed @ errno)), [])
      | (None, None) \<Rightarrow> (Inl (IOError (iconv_open_failed @ ''%!s(<nil>)'')), []))"

definition convertWcharToGoRune :: "iconv_lib \<Rightarrow> wchar \<Rightarrow> int res" where
  "convertWcharToGoRune ic w =
     (if w = 0 then Inr 0
      else case iconv_open ic iconvCharsetUtf8 iconvCharsetWchar of
        (Some cd, None) \<Rightarrow>
          (case iconv ic cd (put_le 4 w) 4 of
             (_, Some errno) \<Rightarrow> Inl (IOError errno)
           | (out, None) \<Rightarrow> Inr (sint (get_le (put_buffer out (replicate 4 0)) :: 32 word)))
      | (_, Some errno) \<Rightarrow> Inl (IOError (iconv_open_failed @ errno))
      | (None, None) \<Rightarrow> Inl Panic)"

section \<open>wchar.go\<close>

definition Wchar_GoRune :: "iconv_lib \<Rightarrow> wchar \<Rightarrow> int res" where
  "Wchar_GoRune ic w = convertWcharToGoRune ic w"

definition FromGoRune :: "iconv_lib \<Rightarrow> int \<Rightarrow> wchar res \<times> bytes" where
  "FromGoRune ic r = convertGoRuneToWchar ic r"

definition FromWcharPtr :: "wchar_ptr \<Rightarrow> wchar res" where
  "FromWcharPtr ptr = (case ptr of None \<Rightarrow> Inr 0 | Some [] \<Rightarrow> Inl Panic | Some (w # _) \<Rightarrow> Inr w)"

definition NewWcharString :: "nat \<Rightarrow> wchar list" where
  "NewWcharString n = replicate n 0"

definition FromGoString :: "iconv_lib \<Rightarrow> bytes \<Rightarrow> wchar list res" where
  "FromGoString ic s = convertGoStringToWcharString ic s"

fun ptr_loop :: "wchar list \<Rightarrow> wchar list res" where
  "ptr_loop [] = Inl Panic"
| "ptr_loop (w # mem) = (if w = 0 then Inr [] else res_bind (ptr_loop mem) (\<lambda>ws. Inr (w # ws)))"

definition FromWcharStringPtr :: "wchar_ptr \<Rightarrow> wchar list res" where
  "FromWcharStringPtr first = (case first of None \<Rightarrow> Inr (NewWcharString 0) | Some mem \<Rightarrow> ptr_loop mem)"

fun ptr_loop_n :: "nat \<Rightarrow> wchar list \<Rightarrow> wchar list res" where
  "ptr_loop_n 0 mem = Inr []"
| "ptr_loop_n (Suc n) [] = Inl Panic"
| "ptr_loop_n (Suc n) (x # mem) = (if x = 0 then Inr [] else res_bind (ptr_loop_n n mem) (\<lambda>ws. Inr (x # ws)))"

text \<open>A negative length is not a capacity \<open>make\<close> accepts.\<close>

definition FromWcharStringPtrN :: "wchar_ptr \<Rightarrow> int \<Rightarrow> wchar list res" where
  "FromWcharStringPtrN first n =
     (case first of None \<Rightarrow> Inr (NewWcharString 0)
      | Some mem \<Rightarrow> if n < 0 then Inl Panic else ptr_loop_n (nat n) mem)"

definition WcharString_Pointer :: "wchar list \<Rightarrow> wchar list res" where
  "WcharString_Pointer ws = (if ws = [] then Inl Panic else Inr ws)"

definition WcharString_GoString :: "iconv_lib \<Rightarrow> wchar list \<Rightarrow> bytes res" where
  "WcharString_GoString ic ws = convertWcharStringToGoString ic ws"

definition WcharStringPtrToGoString :: "iconv_lib \<Rightarrow> wchar_ptr \<Rightarrow> bytes res" where
  "WcharStringPtrToGoString ic first =
     (if first = None then Inr [] else res_bind (FromWcharStringPtr first) (convertWcharStringToGoString ic))"

definition WcharStringPtrNToGoString :: "iconv_lib \<Rightarrow> wchar_ptr \<Rightarrow> int \<Rightarrow> bytes res" where
  "WcharStringPtrNToGoString ic first n =
     (if first = None then Inr [] else res_bind (FromWcharStringPtrN first n) (convertWcharStringToGoString ic))"

definition WcharPtrToGoRune :: "iconv_lib \<Rightarrow> wchar_ptr \<Rightarrow> int res" where
  "WcharPtrToGoRune ic first =
     (if first = None then Inr 0 else res_bind (FromWcharPtr first) (convertWcharToGoRune ic))"

section \<open>UTF-8 of every code point\<close>

text \<open>Characters, those other than zero, and the two encodings of a text.\<close>

definition code_point :: "nat \<Rightarrow> bool" where
  "code_point c \<longleftrightarrow> c \<le> MaxRune \<and> \<not> (0xD800 \<le> c \<and> c \<le> 0xDFFF)"

definition scalar :: "nat \<Rightarrow> bool" where
  "scalar c \<longleftrightarrow> 0 < c \<and> code_point c"

lemma scalar_code_point: "scalar c \<Longrightarrow> code_point c"
  by (simp add: scalar_def)

lemma scalars_code_points: "list_all scalar cs \<Longrightarrow> list_all code_point cs"
  by (simp add: list_all_iff scalar_def)

definition utf8_text :: "nat list \<Rightarrow> bytes" where
  "utf8_text cs = concat (map (\<lambda>c. encodeRune (int c)) cs)"

definition utf32_text :: "nat list \<Rightarrow> bytes" where
  "utf32_text cs = concat (map (\<lambda>c. put_le 4 (word_of_nat c :: wchar)) cs)"

lemma cont_byte_ok [simp]: "cont (cont_byte n)" "low6 (cont_byte n) = n mod 64"
  using cont_mod64 [of "n mod 64"] by (simp_all add: cont_byte_def)

lemma unat_lead: "n < 256 \<Longrightarrow> unat (word_of_nat n :: byte) = n"
  by (simp add: unsigned_of_nat take_bit_nat_eq_self)

lemma lead_bits:
  assumes "n < 2 ^ k" and "k \<le> 6" and "a mod 2 ^ k = 0" and "a + n < 256"
  shows "unat ((word_of_nat (a + n) :: byte) AND word_of_nat (2 ^ k - 1)) = n"
proof -
  have "(word_of_nat (2 ^ k - 1) :: byte) = mask k" by (simp add: mask_eq_exp_minus_1)
  then have "(word_of_nat (a + n) :: byte) AND word_of_nat (2 ^ k - 1) = take_bit k (word_of_nat (a + n))"
    by (simp add: take_bit_eq_mask)
  then have "unat ((word_of_nat (a + n) :: byte) AND word_of_nat (2 ^ k - 1)) = (a + n) mod 2 ^ k"
    using assms(4) by (simp only: unsigned_take_bit_eq unat_lead) (simp add: take_bit_eq_mod)
  also have "\<dots> = n" using assms(1,3) by (metis add.commute add_0 mod_add_right_eq mod_less)
  finally show ?thesis .
qed

lemma lead_bits_2: "n < 32 \<Longrightarrow> unat ((word_of_nat (0xC0 + n) :: byte) AND 0x1F) = n"
  using lead_bits [of n 5 "0xC0"] by (simp del: of_nat_add)

lemma lead_bits_3: "n < 16 \<Longrightarrow> unat ((word_of_nat (0xE0 + n) :: byte) AND 0x0F) = n"
  using lead_bits [of n 4 "0xE0"] by (simp del: of_nat_add)

lemma lead_bits_4: "n < 8 \<Longrightarrow> unat ((word_of_nat (0xF0 + n) :: byte) AND 0x07) = n"
  using lead_bits [of n 3 "0xF0"] by (simp del: of_nat_add)

lemma lead_order: "n < 256 \<Longrightarrow> (word_of_nat n :: byte) < word_of_nat m \<longleftrightarrow> n < m" if "m < 256"
  using that by (simp add: word_less_nat_alt unat_lead)

lemma digits64:
  "c div 64 * 64 + c mod 64 = (c :: nat)"
  "c div 4096 * 4096 + c div 64 mod 64 * 64 + c mod 64 = c"
  "c div 262144 * 262144 + c div 4096 mod 64 * 4096 + c div 64 mod 64 * 64 + c mod 64 = c"
proof -
  have a: "c div 64 * 64 + c mod 64 = c" by simp
  have b: "c div 4096 * 64 + c div 64 mod 64 = c div 64"
    using div_mult_mod_eq [of "c div 64" 64] by (simp add: div_mult2_eq [symmetric])
  have d: "c div 262144 * 64 + c div 4096 mod 64 = c div 4096"
    using div_mult_mod_eq [of "c div 4096" 64] by (simp add: div_mult2_eq [symmetric])
  show "c div 64 * 64 + c mod 64 = c" by (rule a)
  show "c div 4096 * 4096 + c div 64 mod 64 * 64 + c mod 64 = c" using a b by linarith
  show "c div 262144 * 262144 + c div 4096 mod 64 * 4096 + c div 64 mod 64 * 64 + c mod 64 = c"
    using a b d by linarith
qed

lemma decodeRune_encodeRune:
  assumes "code_point c"
  shows "decodeRune (encodeRune (int c) @ rest) = (c, length (encodeRune (int c)), False)"
proof -
  have c: "nat (int c mod 4294967296) = c" using assms by (simp add: code_point_def nat_mod_distrib)
  have s: "c \<le> MaxRune" "\<not> (0xD800 \<le> c \<and> c \<le> 0xDFFF)" using assms by (auto simp: code_point_def)
  consider "c \<le> 0x7F" | "0x7F < c" "c \<le> 0x7FF" | "0x7FF < c" "c \<le> 0xFFFF" | "0xFFFF < c" by linarith
  then show ?thesis
  proof cases
    case 1
    then show ?thesis using c lead_order [of 128 c] unat_lead [of c] by (simp add: encodeRune_def decodeRune_def)
  next
    case 2
    then have n: "c div 64 < 32" by (simp add: less_mult_imp_div_less)
    have "\<not> (word_of_nat (0xC0 + c div 64) :: byte) < 0x80" "\<not> (word_of_nat (0xC0 + c div 64) :: byte) < 0xC0"
      "(word_of_nat (0xC0 + c div 64) :: byte) < 0xE0"
      using n lead_order [of 128 "0xC0 + c div 64"] lead_order [of 192 "0xC0 + c div 64"]
        lead_order [of 224 "0xC0 + c div 64"] by simp_all
    then show ?thesis using 2 c n lead_bits_2 [of "c div 64"] digits64(1) [of c]
      by (simp add: encodeRune_def decodeRune_def Let_def del: of_nat_add)
  next
    case 3
    then have n: "c div 4096 < 16" by (simp add: less_mult_imp_div_less)
    have "\<not> (word_of_nat (0xE0 + c div 4096) :: byte) < 0x80" "\<not> (word_of_nat (0xE0 + c div 4096) :: byte) < 0xC0"
      "\<not> (word_of_nat (0xE0 + c div 4096) :: byte) < 0xE0" "(word_of_nat (0xE0 + c div 4096) :: byte) < 0xF0"
      using n lead_order [of 128 "0xE0 + c div 4096"] lead_order [of 192 "0xE0 + c div 4096"]
        lead_order [of 224 "0xE0 + c div 4096"] lead_order [of 240 "0xE0 + c div 4096"] by simp_all
    moreover have "encodeRune (int c) = [word_of_nat (0xE0 + c div 4096), cont_byte (c div 64), cont_byte c]"
      using 3 c s by (auto simp: encodeRune_def)
    ultimately show ?thesis using 3 n s lead_bits_3 [of "c div 4096"] digits64(2) [of c]
      by (auto simp: decodeRune_def Let_def simp del: of_nat_add)
  next
    case 4
    have n: "c div 262144 < 8" using s(1) by (simp add: less_mult_imp_div_less)
    have "\<not> (word_of_nat (0xF0 + c div 262144) :: byte) < 0x80" "\<not> (word_of_nat (0xF0 + c div 262144) :: byte) < 0xC0"
      "\<not> (word_of_nat (0xF0 + c div 262144) :: byte) < 0xE0" "\<not> (word_of_nat (0xF0 + c div 262144) :: byte) < 0xF0"
      "(word_of_nat (0xF0 + c div 262144) :: byte) < 0xF8"
      using n lead_order [of 128 "0xF0 + c div 262144"] lead_order [of 192 "0xF0 + c div 262144"]
        lead_order [of 224 "0xF0 + c div 262144"] lead_order [of 240 "0xF0 + c div 262144"]
        lead_order [of 248 "0xF0 + c div 262144"] by simp_all
    moreover have "encodeRune (int c) = [word_of_nat (0xF0 + c div 262144), cont_byte (c div 4096), cont_byte (c div 64), cont_byte c]"
      using 4 c s by (auto simp: encodeRune_def)
    ultimately show ?thesis using 4 n s lead_bits_4 [of "c div 262144"] digits64(3) [of c]
      by (auto simp: decodeRune_def Let_def simp del: of_nat_add)
  qed
qed

lemma string_runes_utf8: "list_all code_point cs \<Longrightarrow> string_runes (utf8_text cs) = cs"
proof (induction cs)
  case Nil
  then show ?case by (simp add: utf8_text_def string_runes.simps)
next
  case (Cons c cs)
  have "encodeRune (int c) \<noteq> []" using encodeRune_length(1) [of "int c"] by auto
  with Cons show ?case
    by (simp add: utf8_text_def string_runes.simps [of "encodeRune (int c) @ _"] decodeRune_encodeRune)
qed

lemma encodeRune_nonzero: "scalar c \<Longrightarrow> 0 \<notin> set (encodeRune (int c))"
proof -
  assume c: "scalar c"
  have cont0: "cont_byte n \<noteq> 0" for n using cont_byte_ok(1) [of n] by (auto simp: cont_def)
  have lead: "0 < n \<Longrightarrow> n < 256 \<Longrightarrow> (word_of_nat n :: byte) \<noteq> 0" for n
    using unat_lead [of n] by (metis less_numeral_extra(3) unsigned_0)
  have "nat (int c mod 4294967296) = c" using c by (simp add: scalar_def code_point_def nat_mod_distrib)
  moreover have "c \<le> 0x7FF \<Longrightarrow> c div 64 < 32" "c \<le> 0xFFFF \<Longrightarrow> c div 4096 < 16" "c div 262144 < 8"
    using c by (simp_all add: scalar_def code_point_def less_mult_imp_div_less)
  ultimately show ?thesis
    using c lead [of c] lead [of "0xC0 + c div 64"] lead [of "0xE0 + c div 4096"] lead [of "0xF0 + c div 262144"] cont0
    by (auto simp: encodeRune_def Let_def errorBytes_def scalar_def code_point_def simp del: of_nat_add)
qed

lemma encodeRune_short: "scalar c \<Longrightarrow> length (encodeRune (int c)) < 4 \<longleftrightarrow> c < 0x10000"
  by (auto simp: encodeRune_def Let_def errorBytes_def scalar_def code_point_def nat_mod_distrib)

lemma utf8_text_nonzero: "list_all scalar cs \<Longrightarrow> 0 \<notin> set (utf8_text cs)"
  by (auto simp: utf8_text_def list_all_iff dest: encodeRune_nonzero)

lemma utf8_text_length:
  "length cs \<le> length (utf8_text cs)"
  "length (utf8_text cs) \<le> 4 * length cs"
proof (induction cs)
  case (Cons c cs)
  {
    case 1
    show ?case using Cons(1) encodeRune_length(1) [of "int c"] by (simp add: utf8_text_def del: length_greater_0_conv)
  next
    case 2
    show ?case using Cons(2) encodeRune_length(2) [of "int c"] by (simp add: utf8_text_def)
  }
qed (simp_all add: utf8_text_def)

lemma utf8_text_short:
  assumes "list_all scalar cs"
  shows "length (utf8_text cs) < 4 * length cs \<longleftrightarrow> (\<exists>c\<in>set cs. c < 0x10000)"
  using assms
proof (induction cs)
  case (Cons c cs)
  then show ?case
    using encodeRune_short [of c] encodeRune_length(2) [of "int c"] utf8_text_length(2) [of cs]
    by (fastforce simp: utf8_text_def)
qed (simp add: utf8_text_def)

lemma utf32_text_length [simp]: "length (utf32_text cs) = 4 * length cs"
  by (induction cs) (simp_all add: utf32_text_def)

section \<open>Converting texts\<close>

lemma word_code_point [simp]: "code_point c \<Longrightarrow> unat (word_of_nat c :: wchar) = c"
  by (simp add: code_point_def unsigned_of_nat take_bit_nat_eq_self)

lemma word_scalar_nonzero [simp]: "scalar c \<Longrightarrow> (word_of_nat c :: wchar) \<noteq> 0"
proof
  assume c: "scalar c" and "(word_of_nat c :: wchar) = 0"
  with word_code_point [of c] show False by (simp add: scalar_def)
qed

lemma collect_wchars_put: "w \<noteq> 0 \<Longrightarrow> collect_wchars (put_le 4 w @ rest) = w # collect_wchars rest"
proof -
  assume w: "w \<noteq> 0"
  have "get_le (put_le 4 w) = w" by simp
  moreover obtain b0 b1 b2 b3 where "put_le 4 w = [b0, b1, b2, b3]" by (simp add: numeral_eq_Suc)
  ultimately show ?thesis using w by simp
qed

lemma collect_wchars_zeros: "collect_wchars (replicate n 0) = []"
proof -
  consider "n = 0" | "n = 1" | "n = 2" | "n = 3" | m where "n = Suc (Suc (Suc (Suc m)))"
    by (metis One_nat_def Suc_1 not0_implies_Suc numeral_3_eq_3)
  then show ?thesis by cases (simp_all add: numeral_eq_Suc)
qed

lemma collect_wchars_text:
  "list_all scalar cs \<Longrightarrow> collect_wchars (utf32_text cs @ replicate n 0) = map word_of_nat cs"
  by (induction cs) (simp_all add: utf32_text_def collect_wchars_zeros collect_wchars_put)

lemma wchar_chars_text:
  "list_all scalar cs \<Longrightarrow> rest = [] \<or> hd rest = 0 \<Longrightarrow> wchar_chars (map word_of_nat cs @ rest) = utf32_text cs"
proof (induction cs)
  case Nil
  then show ?case by (cases rest) (auto simp: utf32_text_def)
qed (simp add: utf32_text_def)

text \<open>
  What \<open>iconv\<close> is used for: descriptors for both directions can be opened, and they convert
  texts between UTF-8 and 32-bit code points, given room enough.
\<close>

definition converts :: "iconv_lib \<Rightarrow> bool" where
  "converts ic \<longleftrightarrow>
     (\<exists>cd. iconv_open ic iconvCharsetWchar iconvCharsetUtf8 = (Some cd, None) \<and>
        (\<forall>cs n. list_all code_point cs \<and> 4 * length cs \<le> n \<longrightarrow> iconv ic cd (utf8_text cs) n = (utf32_text cs, None))) \<and>
     (\<exists>cd. iconv_open ic iconvCharsetUtf8 iconvCharsetWchar = (Some cd, None) \<and>
        (\<forall>cs n. list_all code_point cs \<and> length (utf8_text cs) \<le> n \<longrightarrow> iconv ic cd (utf32_text cs) n = (utf8_text cs, None)))"

lemma FromGoString_text:
  assumes "converts ic" and "list_all scalar cs" and "cs \<noteq> []"
  shows "FromGoString ic (utf8_text cs) = Inr (map word_of_nat cs @ [0])"
proof -
  have len: "length cs \<le> length (utf8_text cs)" by (rule utf8_text_length)
  with assms(3) have ne: "utf8_text cs \<noteq> []" by auto
  from assms(1,2) len obtain cd where "iconv_open ic iconvCharsetWchar iconvCharsetUtf8 = (Some cd, None)"
      "iconv ic cd (utf8_text cs) (length (utf8_text cs) * 4) = (utf32_text cs, None)"
    by (auto simp: converts_def dest: scalars_code_points)
  with ne len show ?thesis
    by (simp add: FromGoString_def convertGoStringToWcharString_def put_buffer_def collect_wchars_text [OF assms(2)])
qed

lemma GoString_text:
  assumes "converts ic" and "list_all scalar cs" and "cs \<noteq> []" and "rest = [] \<or> hd rest = 0"
  shows "WcharString_GoString ic (map word_of_nat cs @ rest) =
    (if \<exists>c\<in>set cs. c < 0x10000 then Inr (utf8_text cs) else C_GoString (utf8_text cs @ behind ic))"
proof -
  let ?n = "4 * length cs - length (utf8_text cs)"
  have ne: "utf32_text cs \<noteq> []" using assms(3) utf32_text_length [of cs] by (metis length_0_conv mult_eq_0_iff zero_neq_numeral)
  have len: "length (utf8_text cs) \<le> 4 * length cs" by (rule utf8_text_length)
  with assms(1,2) obtain cd where cd: "iconv_open ic iconvCharsetUtf8 iconvCharsetWchar = (Some cd, None)"
      "iconv ic cd (utf32_text cs) (4 * length cs) = (utf8_text cs, None)"
    by (auto simp: converts_def dest: scalars_code_points)
  have out: "WcharString_GoString ic (map word_of_nat cs @ rest) = C_GoString (utf8_text cs @ replicate ?n 0 @ behind ic)"
    using cd ne len assms(3) wchar_chars_text [OF assms(2,4)]
    by (simp add: WcharString_GoString_def convertWcharStringToGoString_def Let_def put_buffer_def)
  show ?thesis
  proof (cases "\<exists>c\<in>set cs. c < 0x10000")
    case True
    then have "0 < ?n" using utf8_text_short [OF assms(2)] by simp
    then obtain m where m: "?n = Suc m" using gr0_conv_Suc by blast
    have "\<forall>b\<in>set (utf8_text cs). b \<noteq> 0" using utf8_text_nonzero [OF assms(2)] by metis
    then have "takeWhile (\<lambda>b. b \<noteq> 0) (utf8_text cs @ 0 # replicate m 0 @ behind ic) = utf8_text cs"
      by (simp add: takeWhile_append2)
    then show ?thesis unfolding out m using True by (simp add: C_GoString_def)
  next
    case False
    then have "?n = 0" using utf8_text_short [OF assms(2)] by simp
    with False show ?thesis unfolding out by simp
  qed
qed

section \<open>Converting single characters\<close>

lemma encode_buffer_length: "length (put_buffer (encodeRune r) (replicate 4 0)) = 4"
  using encodeRune_length(2) [of r] by (simp add: put_buffer_def)

lemma GoRune_text:
  assumes "converts ic" and "scalar c"
  shows "Wchar_GoRune ic (word_of_nat c) =
    Inr (sint (get_le (put_buffer (encodeRune (int c)) (replicate 4 0)) :: wchar))"
proof -
  have "list_all code_point [c]" using assms(2) by (simp add: scalar_def)
  moreover have "utf32_text [c] = put_le 4 (word_of_nat c :: wchar)" "utf8_text [c] = encodeRune (int c)"
    by (simp_all add: utf32_text_def utf8_text_def)
  ultimately obtain cd where "iconv_open ic iconvCharsetUtf8 iconvCharsetWchar = (Some cd, None)"
      "iconv ic cd (put_le 4 (word_of_nat c :: wchar)) 4 = (encodeRune (int c), None)"
    using assms(1) encodeRune_length(2) [of "int c"] unfolding converts_def by metis
  with assms(2) show ?thesis by (simp add: Wchar_GoRune_def convertWcharToGoRune_def)
qed

lemma unat_nth_put_le: "k < n \<Longrightarrow> unat (put_le n w ! k) = unat (w :: 'a::len word) div 2 ^ (8 * k) mod 256"
proof (induction n arbitrary: k w)
  case (Suc n)
  show ?case
  proof (cases k)
    case 0
    then show ?thesis by (simp add: unsigned_ucast_eq take_bit_eq_mod)
  next
    case (Suc j)
    let ?v = "drop_bit 8 w"
    have v: "unat ?v = unat w div 2 ^ 8" unfolding unat_drop_bit_eq by (simp add: drop_bit_eq_div)
    have "unat (put_le (Suc n) w ! k) = unat ?v div 2 ^ (8 * j) mod 256"
      using Suc Suc.prems Suc.IH [of j ?v] by simp
    then show ?thesis unfolding v Suc by (simp add: div_mult2_eq power_add)
  qed
qed simp

text \<open>The last byte of an encoding of several bytes is at least \<open>0x80\<close>, the same byte of the code point is not.\<close>

lemma encode_not_code:
  assumes "code_point c" and "0x80 \<le> c"
  shows "put_buffer (encodeRune (int c)) (replicate 4 0) \<noteq> put_le 4 (word_of_nat c :: wchar)"
proof
  let ?k = "length (encodeRune (int c)) - 1"
  assume eq: "put_buffer (encodeRune (int c)) (replicate 4 0) = put_le 4 (word_of_nat c :: wchar)"
  have n: "nat (int c mod 4294967296) = c" using assms(1) by (simp add: code_point_def nat_mod_distrib)
  have k: "?k < 4" "encodeRune (int c) \<noteq> []"
    using encodeRune_length [of "int c"] by auto
  have last: "last (encodeRune (int c)) = cont_byte c" "c < 2 ^ (8 * ?k + 7)"
    using assms n by (auto simp: encodeRune_def Let_def code_point_def)
  have "put_buffer (encodeRune (int c)) (replicate 4 0) ! ?k = cont_byte c"
    using k encodeRune_length(2) [of "int c"] last(1) by (simp add: put_buffer_def nth_append last_conv_nth)
  then have "unat (cont_byte c) = c div 2 ^ (8 * ?k) mod 256"
    using eq unat_nth_put_le [of ?k 4 "word_of_nat c :: wchar"] k(1) assms(1) by simp
  moreover have "c div 2 ^ (8 * ?k) < 2 ^ 7"
    using last(2) by (simp add: power_add less_mult_imp_div_less mult.commute)
  ultimately have "unat (cont_byte c) < 128" by simp
  moreover have "128 \<le> unat (cont_byte c)" using cont_byte_ok(1) [of c] by (simp add: cont_def word_le_nat_alt)
  ultimately show False by simp
qed

lemma GoRune_ascii:
  assumes "converts ic" and "scalar c"
  shows "Wchar_GoRune ic (word_of_nat c) = Inr (int c) \<longleftrightarrow> c < 0x80"
proof -
  let ?b = "put_buffer (encodeRune (int c)) (replicate 4 0)"
  have c: "code_point c" using assms(2) by (simp add: scalar_def)
  have s: "sint (word_of_nat c :: wchar) = int c"
    using c by (simp add: code_point_def signed_of_nat signed_take_bit_int_eq_self)
  have "Wchar_GoRune ic (word_of_nat c) = Inr (int c) \<longleftrightarrow> sint (get_le ?b :: wchar) = sint (word_of_nat c :: wchar)"
    unfolding GoRune_text [OF assms] s by simp
  also have "\<dots> \<longleftrightarrow> (get_le ?b :: wchar) = word_of_nat c" by (simp only: word_eq_iff_signed [symmetric])
  also have "\<dots> \<longleftrightarrow> c < 0x80"
  proof
    assume g: "(get_le ?b :: wchar) = word_of_nat c"
    have "put_le 4 (get_le ?b :: wchar) = ?b" by (rule put_get_le_n) (simp_all add: encode_buffer_length)
    with g encode_not_code [OF c] show "c < 0x80" by (metis not_le)
  next
    assume small: "c < 0x80"
    then have e: "encodeRune (int c) = [word_of_nat c]" by (simp add: encodeRune_def)
    have "(ucast (word_of_nat c :: byte) :: wchar) = word_of_nat c"
      using small by (intro unsigned_word_eqI [where 'a = nat]) (simp add: unsigned_ucast_eq unsigned_of_nat take_bit_nat_eq_self)
    with e show "(get_le ?b :: wchar) = word_of_nat c" by (simp add: put_buffer_def numeral_eq_Suc)
  qed
  finally show ?thesis .
qed

text \<open>An ASCII rune: the zero byte and two bytes behind the C string are converted too.\<close>

lemma FromGoRune_spills:
  assumes "converts ic" and "0 < c" and "c < 0x80" and "behind ic = b1 # b2 # rest" and "b1 < 0x80" and "b2 < 0x80"
  shows "FromGoRune ic (int c) = (Inr (word_of_nat c), utf32_text [0, unat b1, unat b2])"
proof -
  have ascii: "encodeRune (int n) = [word_of_nat n]" if "n < 0x80" for n
    using that by (simp add: encodeRune_def)
  have b: "unat b1 < 0x80" "unat b2 < 0x80" using assms(5,6) by (simp_all add: word_less_nat_alt)
  let ?cs = "[c, 0, unat b1, unat b2]"
  have "list_all code_point ?cs" using assms(3) b by (simp add: code_point_def)
  moreover have "utf8_text ?cs = take 4 (encodeRune (int c) @ [0] @ behind ic)"
    using assms(3,4) b ascii [of c] ascii [of 0] ascii [of "unat b1"] ascii [of "unat b2"] by (simp add: utf8_text_def)
  moreover obtain cd where cd: "iconv_open ic iconvCharsetWchar iconvCharsetUtf8 = (Some cd, None)"
      "\<And>cs n. list_all code_point cs \<Longrightarrow> 4 * length cs \<le> n \<Longrightarrow> iconv ic cd (utf8_text cs) n = (utf32_text cs, None)"
    using assms(1) unfolding converts_def by blast
  ultimately have "iconv ic cd (take 4 (encodeRune (int c) @ [0] @ behind ic)) 16 = (utf32_text ?cs, None)"
    using cd(2) [of ?cs 16] by simp
  moreover have "utf32_text ?cs = put_le 4 (word_of_nat c :: wchar) @ utf32_text [0, unat b1, unat b2]"
    by (simp add: utf32_text_def)
  ultimately show ?thesis using assms(2) cd(1) by (simp add: FromGoRune_def convertGoRuneToWchar_def put_buffer_def)
qed

end
