(* ===== verification/Hid.thy ===== *)
theory Hid
  imports Wchar
begin

text \<open>
  \<open>go.hid/hid.go\<close>. The C library hidapi is not part of the sources: the record \<open>hidapi\<close> has
  one field per C function, each acting on a state \<open>'w\<close> of the outside world, and the
  functions of the package are defined from these fields and the conversions of \<open>Wchar\<close>.
  A Go string is the string of its bytes.
\<close>

type_synonym handle = nat

record c_device_info =
  cPath :: string
  cVendor :: "16 word"
  cProduct :: "16 word"
  cRelease :: "16 word"
  cUsagePage :: "16 word"
  cUsage :: "16 word"
  cInterface :: int
  cSerial :: wchar_ptr
  cManufacturer :: wchar_ptr
  cProductString :: wchar_ptr

text \<open>
  A NULL list or handle is \<open>None\<close>; a function that fills a buffer returns its result and the
  elements it stored. \<open>c_iconv\<close> is the library under \<open>cgo.wchar\<close>.
\<close>

record 'w hidapi =
  c_init :: "'w \<Rightarrow> int \<times> 'w"
  c_enumerate :: "16 word \<Rightarrow> 16 word \<Rightarrow> 'w \<Rightarrow> c_device_info list option"
  c_open :: "16 word \<Rightarrow> 16 word \<Rightarrow> wchar_ptr \<Rightarrow> 'w \<Rightarrow> handle option \<times> 'w"
  c_open_path :: "string \<Rightarrow> 'w \<Rightarrow> handle option \<times> 'w"
  c_write :: "handle \<Rightarrow> bytes \<Rightarrow> 'w \<Rightarrow> int \<times> 'w"
  c_read_timeout :: "handle \<Rightarrow> nat \<Rightarrow> int \<Rightarrow> 'w \<Rightarrow> int \<times> bytes \<times> 'w"
  c_read :: "handle \<Rightarrow> nat \<Rightarrow> 'w \<Rightarrow> int \<times> bytes \<times> 'w"
  c_set_nonblocking :: "handle \<Rightarrow> int \<Rightarrow> 'w \<Rightarrow> int \<times> 'w"
  c_send_feature_report :: "handle \<Rightarrow> bytes \<Rightarrow> 'w \<Rightarrow> int \<times> 'w"
  c_get_feature_report :: "handle \<Rightarrow> bytes \<Rightarrow> 'w \<Rightarrow> int \<times> bytes \<times> 'w"
  c_close :: "handle \<Rightarrow> 'w \<Rightarrow> 'w"
  c_get_manufacturer_string :: "handle \<Rightarrow> nat \<Rightarrow> 'w \<Rightarrow> int \<times> wchar list \<times> 'w"
  c_get_product_string :: "handle \<Rightarrow> nat \<Rightarrow> 'w \<Rightarrow> int \<times> wchar list \<times> 'w"
  c_get_serial_number_string :: "handle \<Rightarrow> nat \<Rightarrow> 'w \<Rightarrow> int \<times> wchar list \<times> 'w"
  c_get_indexed_string :: "handle \<Rightarrow> int \<Rightarrow> nat \<Rightarrow> 'w \<Rightarrow> int \<times> wchar list \<times> 'w"
  c_error :: "handle \<Rightarrow> 'w \<Rightarrow> wchar_ptr"
  c_iconv :: iconv_lib

section \<open>Enumerating and opening\<close>

record DeviceInfo =
  diPath :: string
  diVendorId :: "16 word"
  diProductId :: "16 word"
  diSerialNumber :: string
  diReleaseNumber :: "16 word"
  diManufacturer :: string
  diProduct :: string
  diUsagePage :: "16 word"
  diUsage :: "16 word"
  diInterfaceNumber :: int

definition wide_string :: "'w hidapi \<Rightarrow> wchar_ptr \<Rightarrow> string res" where
  "wide_string hid p = map_sum (\<lambda>e. e) bytes_str (WcharStringPtrToGoString (c_iconv hid) p)"

text \<open>A failed conversion, as opposed to a memory fault, is a value of \<open>err\<close>.\<close>

definition or_empty :: "string res \<Rightarrow> string res" where
  "or_empty r = (case r of Inl Panic \<Rightarrow> Inl Panic | Inl _ \<Rightarrow> Inr [] | Inr s \<Rightarrow> Inr s)"

definition explain :: "string \<Rightarrow> string \<Rightarrow> go_error \<Rightarrow> go_error" where
  "explain before after e = (case e of IOError t \<Rightarrow> IOError (before @ t @ after) | _ \<Rightarrow> e)"

definition device_info :: "'w hidapi \<Rightarrow> c_device_info \<Rightarrow> DeviceInfo res" where
  "device_info hid next =
     res_bind (or_empty (wide_string hid (cSerial next))) (\<lambda>serial.
     res_bind (or_empty (wide_string hid (cManufacturer next))) (\<lambda>manufacturer.
     res_bind (map_sum (explain ''Could not convert *C.wchar_t product_string from hid_device_info to go string. Error: '' [CHR 0x0A])
         (\<lambda>s. s) (wide_string hid (cProductString next))) (\<lambda>product.
     Inr \<lparr>diPath = cPath next, diVendorId = cVendor next, diProductId = cProduct next, diSerialNumber = serial,
          diReleaseNumber = cRelease next, diManufacturer = manufacturer, diProduct = product,
          diUsagePage = cUsagePage next, diUsage = cUsage next, diInterfaceNumber = cInterface next\<rparr>)))"

definition Enumerate :: "'w hidapi \<Rightarrow> 16 word \<Rightarrow> 16 word \<Rightarrow> 'w \<Rightarrow> DeviceInfo list res" where
  "Enumerate hid vendorId productId w =
     (case c_enumerate hid vendorId productId w of
        None \<Rightarrow> Inl (IOError ''Could not enumerate devices. Failure.'')
      | Some infos \<Rightarrow> map_res (device_info hid) infos)"

text \<open>\<open>hidInit\<close>: \<open>sync.Once\<close>, so only the first call can report the failure.\<close>

definition hidInit :: "'w hidapi \<Rightarrow> bool \<Rightarrow> 'w \<Rightarrow> go_error option \<times> bool \<times> 'w" where
  "hidInit hid initDone w =
     (if initDone then (None, True, w)
      else (case c_init hid w of (errInt, w) \<Rightarrow>
        (if errInt = - 1 then Some (IOError ''Could not initialize hidapi.'') else None, True, w)))"

definition Exit :: "go_error option" where
  "Exit = Some (IOError ''not implemented yet'')"

definition serial_ptr :: "'w hidapi \<Rightarrow> string \<Rightarrow> wchar_ptr res" where
  "serial_ptr hid serialNumber =
     (if serialNumber = [] then Inr None
      else case FromGoString (c_iconv hid) (str_bytes serialNumber) of
        Inl _ \<Rightarrow> Inl (IOError ''Unable to convert serialNumber to WcharString'')
      | Inr serialNumberWchar \<Rightarrow> map_sum (\<lambda>e. e) Some (WcharString_Pointer serialNumberWchar))"

definition Open :: "'w hidapi \<Rightarrow> 16 word \<Rightarrow> 16 word \<Rightarrow> string \<Rightarrow> bool \<Rightarrow> 'w \<Rightarrow> handle res \<times> bool \<times> 'w" where
  "Open hid vendorId productId serialNumber initDone w =
     (case hidInit hid initDone w of
        (Some e, initDone, w) \<Rightarrow> (Inl e, initDone, w)
      | (None, initDone, w) \<Rightarrow>
          (case serial_ptr hid serialNumber of
             Inl e \<Rightarrow> (Inl e, initDone, w)
           | Inr serial \<Rightarrow>
               (case c_open hid vendorId productId serial w of
                  (None, w) \<Rightarrow> (Inl (IOError ''Unable to open device.''), initDone, w)
                | (Some h, w) \<Rightarrow> (Inr h, initDone, w))))"

definition di_Device :: "'w hidapi \<Rightarrow> DeviceInfo \<Rightarrow> bool \<Rightarrow> 'w \<Rightarrow> handle res \<times> bool \<times> 'w" where
  "di_Device hid di initDone w = Open hid (diVendorId di) (diProductId di) (diSerialNumber di) initDone w"

text \<open>The C function sees the path up to its first zero byte.\<close>

definition OpenPath :: "'w hidapi \<Rightarrow> string \<Rightarrow> bool \<Rightarrow> 'w \<Rightarrow> handle res \<times> bool \<times> 'w" where
  "OpenPath hid path initDone w =
     (case hidInit hid initDone w of
        (Some e, initDone, w) \<Rightarrow> (Inl e, initDone, w)
      | (None, initDone, w) \<Rightarrow>
          (case c_open_path hid (takeWhile (\<lambda>c. c \<noteq> CHR 0x00) path) w of
             (None, w) \<Rightarrow> (Inl (IOError ''Could not open device by path.''), initDone, w)
           | (Some h, w) \<Rightarrow> (Inr h, initDone, w)))"

section \<open>Errors\<close>

definition lastErrorString :: "'w hidapi \<Rightarrow> handle \<Rightarrow> 'w \<Rightarrow> string res" where
  "lastErrorString hid dev w =
     (case wide_string hid (c_error hid dev w) of
        Inl (IOError t) \<Rightarrow> Inr (''Error retrieving error string: '' @ t)
      | Inl e \<Rightarrow> Inl e
      | Inr str \<Rightarrow> Inr str)"

definition lastError :: "'w hidapi \<Rightarrow> handle \<Rightarrow> 'w \<Rightarrow> go_error" where
  "lastError hid dev w = (case lastErrorString hid dev w of Inl e \<Rightarrow> e | Inr s \<Rightarrow> IOError s)"

definition count_or_error :: "'w hidapi \<Rightarrow> handle \<Rightarrow> 'w \<Rightarrow> int \<Rightarrow> int res" where
  "count_or_error hid dev w n = (if n = - 1 then Inl (lastError hid dev w) else Inr n)"

section \<open>Reports\<close>

definition dev_Write :: "'w hidapi \<Rightarrow> handle \<Rightarrow> bytes \<Rightarrow> 'w \<Rightarrow> int res \<times> 'w" where
  "dev_Write hid dev b w =
     (if b = [] then (Inr 0, w)
      else (case c_write hid dev b w of (n, w) \<Rightarrow> (count_or_error hid dev w n, w)))"

text \<open>The second component is the caller's buffer after the call.\<close>

definition dev_ReadTimeout :: "'w hidapi \<Rightarrow> handle \<Rightarrow> bytes \<Rightarrow> int \<Rightarrow> 'w \<Rightarrow> int res \<times> bytes \<times> 'w" where
  "dev_ReadTimeout hid dev b timeout w =
     (if b = [] then (Inr 0, b, w)
      else (case c_read_timeout hid dev (length b) timeout w of (n, data, w) \<Rightarrow>
        (count_or_error hid dev w n, put_buffer data b, w)))"

definition dev_Read :: "'w hidapi \<Rightarrow> handle \<Rightarrow> bytes \<Rightarrow> 'w \<Rightarrow> int res \<times> bytes \<times> 'w" where
  "dev_Read hid dev b w =
     (if b = [] then (Inr 0, b, w)
      else (case c_read hid dev (length b) w of (n, data, w) \<Rightarrow> (count_or_error hid dev w n, put_buffer data b, w)))"

definition SetReadWriteNonBlocking :: "'w hidapi \<Rightarrow> handle \<Rightarrow> bool \<Rightarrow> 'w \<Rightarrow> go_error option \<times> 'w" where
  "SetReadWriteNonBlocking hid dev nonblocking w =
     (case c_set_nonblocking hid dev (if nonblocking then 1 else 0) w of (n, w) \<Rightarrow>
        (if n \<noteq> 0 then Some (lastError hid dev w) else None, w))"

text \<open>\<open>&data[0]\<close> on an empty slice panics.\<close>

definition SendFeatureReport :: "'w hidapi \<Rightarrow> handle \<Rightarrow> bytes \<Rightarrow> 'w \<Rightarrow> int res \<times> 'w" where
  "SendFeatureReport hid dev data w =
     (if data = [] then (Inl Panic, w)
      else (case c_send_feature_report hid dev data w of (n, w) \<Rightarrow> (count_or_error hid dev w n, w)))"

text \<open>
  \<open>make\<close> panics on a negative size and the store into \<open>buf[0]\<close> on size zero. The whole buffer
  is returned, not the bytes read.
\<close>

definition GetFeatureReport :: "'w hidapi \<Rightarrow> handle \<Rightarrow> byte \<Rightarrow> int \<Rightarrow> 'w \<Rightarrow> bytes res \<times> 'w" where
  "GetFeatureReport hid dev reportId reportDataSize w =
     (if reportDataSize + 1 \<le> 0 then (Inl Panic, w)
      else let buf = (replicate (nat (reportDataSize + 1)) 0)[0 := reportId]
           in case c_get_feature_report hid dev buf w of (n, data, w) \<Rightarrow>
                (if n = - 1 then Inl (lastError hid dev w) else Inr (put_buffer data buf), w))"

definition dev_Close :: "'w hidapi \<Rightarrow> handle \<Rightarrow> 'w \<Rightarrow> 'w" where
  "dev_Close hid dev w = c_close hid dev w"

section \<open>Strings of a device\<close>

definition device_string :: "'w hidapi \<Rightarrow> handle \<Rightarrow> nat \<Rightarrow> (nat \<Rightarrow> 'w \<Rightarrow> int \<times> wchar list \<times> 'w) \<Rightarrow> 'w \<Rightarrow> string res \<times> 'w" where
  "device_string hid dev n get w =
     (let ws = NewWcharString n
      in case get n w of (res, data, w) \<Rightarrow>
        (if res \<noteq> 0 then Inl (lastError hid dev w)
         else map_sum (\<lambda>e. e) bytes_str (WcharString_GoString (c_iconv hid) (put_buffer data ws)), w))"

definition ManufacturerString :: "'w hidapi \<Rightarrow> handle \<Rightarrow> 'w \<Rightarrow> string res \<times> 'w" where
  "ManufacturerString hid dev w = device_string hid dev 100 (c_get_manufacturer_string hid dev) w"

definition ProductString :: "'w hidapi \<Rightarrow> handle \<Rightarrow> 'w \<Rightarrow> string res \<times> 'w" where
  "ProductString hid dev w = device_string hid dev 100 (c_get_product_string hid dev) w"

definition SerialNumberString :: "'w hidapi \<Rightarrow> handle \<Rightarrow> 'w \<Rightarrow> string res \<times> 'w" where
  "SerialNumberString hid dev w = device_string hid dev 100 (c_get_serial_number_string hid dev) w"

definition GetIndexedString :: "'w hidapi \<Rightarrow> handle \<Rightarrow> int \<Rightarrow> 'w \<Rightarrow> string res \<times> 'w" where
  "GetIndexedString hid dev index w = device_string hid dev 256 (c_get_indexed_string hid dev index) w"

section \<open>A library without devices\<close>

text \<open>What the sample devices of the development are built from.\<close>

definition idle_iconv :: iconv_lib where
  "idle_iconv = \<lparr>iconv_open = (\<lambda>t f. (None, None)), iconv = (\<lambda>cd b n. ([], None)), behind = []\<rparr>"

definition idle_hidapi :: "'w hidapi" where
  "idle_hidapi =
     \<lparr>c_init = (\<lambda>w. (0, w)), c_enumerate = (\<lambda>v p w. None), c_open = (\<lambda>v p s w. (None, w)),
      c_open_path = (\<lambda>p w. (None, w)), c_write = (\<lambda>h r w. (- 1, w)), c_read_timeout = (\<lambda>h n t w. (0, [], w)),
      c_read = (\<lambda>h n w. (0, [], w)), c_set_nonblocking = (\<lambda>h b w. (- 1, w)),
      c_send_feature_report = (\<lambda>h r w. (- 1, w)), c_get_feature_report = (\<lambda>h r w. (- 1, [], w)),
      c_close = (\<lambda>h w. w), c_get_manufacturer_string = (\<lambda>h n w. (- 1, [], w)),
      c_get_product_string = (\<lambda>h n w. (- 1, [], w)), c_get_serial_number_string = (\<lambda>h n w. (- 1, [], w)),
      c_get_indexed_string = (\<lambda>h i n w. (- 1, [], w)), c_error = (\<lambda>h w. None), c_iconv = idle_iconv\<rparr>"

lemma wide_string_NULL [simp]: "wide_string hid None = Inr []"
  by (simp add: wide_string_def WcharStringPtrToGoString_def bytes_str_def)

end
