(* ===== verification/Links.thy ===== *)
theory Links
  imports Packet Hid
begin

text \<open>
  \<open>uavtalk/links.go\<close> over the functions of \<open>Hid\<close>.

  The lemmas show which device \<open>NewUSBLink\<close> opens, that \<open>Write\<close> ends on every device that
  accepts more than the two header bytes of a report, and that what \<open>Write\<close> cuts into
  reports is what \<open>Read\<close> yields from them.
\<close>

section \<open>usbLink\<close>

definition deviceIDs :: "(16 word \<times> 16 word) list" where
  "deviceIDs = [(0x20a0, 0x415b), (0x20a0, 0x4195), (0x20a0, 0x41d0), (0x20a0, 0x415c), (0x20a0, 0x4235),
     (0x0fda, 0x0100)]"

record usbLink =
  cc :: handle
  fixedLengthWriteBuffer :: bytes

text \<open>The labelled loop: the index of the first table entry that matches the first device that has one.\<close>

fun matchDevice :: "DeviceInfo list \<Rightarrow> nat option" where
  "matchDevice [] = None"
| "matchDevice (device # devices) =
     (case find_first (\<lambda>(vendorID, productID). diVendorId device = vendorID \<and> diProductId device = productID) deviceIDs of
        Some index \<Rightarrow> Some index
      | None \<Rightarrow> matchDevice devices)"

definition NewUSBLink :: "'w hidapi \<Rightarrow> bool \<Rightarrow> 'w \<Rightarrow> usbLink res \<times> bool \<times> 'w" where
  "NewUSBLink hid initDone w =
     (case Enumerate hid 0 0 w of
        Inl e \<Rightarrow> (Inl e, initDone, w)
      | Inr devices \<Rightarrow>
          (case matchDevice devices of
             None \<Rightarrow> (Inl NoSuitableDevice, initDone, w)
           | Some deviceIDIndex \<Rightarrow>
               (case deviceIDs ! deviceIDIndex of (vendorID, productID) \<Rightarrow>
                  (case Open hid vendorID productID [] initDone w of
                     (Inl e, initDone, w) \<Rightarrow> (Inl e, initDone, w)
                   | (Inr h, initDone, w) \<Rightarrow>
                       (Inr \<lparr>cc = h, fixedLengthWriteBuffer = replicate MaxHIDFrameSize 0\<rparr>, initDone, w)))))"

text \<open>The report \<open>Write\<close> fills for the bytes \<open>part\<close>: what an earlier report left stays behind it.\<close>

definition fill_report :: "bytes \<Rightarrow> bytes \<Rightarrow> bytes" where
  "fill_report buf part =
     (let buf = buf[0 := 0x02, 1 := word_of_nat (length part)]
      in take 2 buf @ part @ drop (2 + length part) buf)"

text \<open>
  The loop of \<open>Write\<close>. A device that keeps accepting at most two bytes keeps it running for
  ever: the result is \<open>None\<close> when \<open>fuel\<close> runs out, and \<open>usb_Write_ends\<close> shows that the
  length of \<open>b\<close> is enough fuel for a device that makes progress.
\<close>

fun usb_Write :: "'w hidapi \<Rightarrow> nat \<Rightarrow> bytes \<Rightarrow> nat \<Rightarrow> usbLink \<Rightarrow> 'w \<Rightarrow>
    ((nat \<times> go_error option) \<times> usbLink \<times> 'w) option" where
  "usb_Write hid fuel b currentOffset l w =
     (if currentOffset < length b then
        (case fuel of
           0 \<Rightarrow> None
         | Suc fuel \<Rightarrow>
             let toWriteLength = min (length b - currentOffset) (MaxHIDFrameSize - 2);
                 buf = fill_report (fixedLengthWriteBuffer l) (take toWriteLength (drop currentOffset b));
                 l = l\<lparr>fixedLengthWriteBuffer := buf\<rparr>
             in case dev_Write hid (cc l) buf w of
                  (Inl e, w) \<Rightarrow> Some ((currentOffset, Some e), l, w)
                | (Inr n, w) \<Rightarrow>
                    usb_Write hid fuel b (if n > 2 then currentOffset + nat (n - 2) else currentOffset) l w)
      else Some ((currentOffset, None), l, w))"

declare usb_Write.simps [simp del]

definition usb_Read :: "'w hidapi \<Rightarrow> usbLink \<Rightarrow> bytes \<Rightarrow> 'w \<Rightarrow> int res \<times> bytes \<times> 'w" where
  "usb_Read hid l b w =
     (case dev_ReadTimeout hid (cc l) b 50 w of
        (Inl e, b, w) \<Rightarrow> (Inl e, b, w)
      | (Inr n, b, w) \<Rightarrow>
          if n = 0 then (Inr 0, b, w)
          else if length b < 2 then (Inl Panic, b, w)
          else (Inr (int (unat (b ! 1))), drop 2 b @ drop (length b - 2) b, w))"

definition usb_Close :: "'w hidapi \<Rightarrow> usbLink \<Rightarrow> 'w \<Rightarrow> 'w" where
  "usb_Close hid l w = dev_Close hid (cc l) w"

text \<open>\<open>net.Dial\<close> is the parameter.\<close>

definition NewTCPLink :: "(string \<Rightarrow> string \<Rightarrow> 'c res) \<Rightarrow> 'c res" where
  "NewTCPLink dial = dial ''tcp'' ''localhost:9000''"

section \<open>Which device is opened\<close>

definition device_key :: "DeviceInfo \<Rightarrow> 16 word \<times> 16 word" where
  "device_key d = (diVendorId d, diProductId d)"

lemma matchDevice_key:
  "(\<lambda>(vendorID, productID). diVendorId d = vendorID \<and> diProductId d = productID) = (\<lambda>x. x = device_key d)"
  by (auto simp: device_key_def)

lemma matchDevice_Some:
  assumes "matchDevice devices = Some i"
  shows "\<exists>k<length devices. i < length deviceIDs \<and> deviceIDs ! i = device_key (devices ! k) \<and>
    (\<forall>j<k. device_key (devices ! j) \<notin> set deviceIDs)"
  using assms
proof (induction devices)
  case (Cons d ds)
  show ?case
  proof (cases "find_first (\<lambda>x. x = device_key d) deviceIDs")
    case None
    then have d: "device_key d \<notin> set deviceIDs" by (auto simp: find_first_None_iff)
    have "matchDevice ds = Some i" using Cons.prems None by (simp add: matchDevice_key)
    from Cons.IH [OF this] obtain k where "k < length ds" "i < length deviceIDs"
        "deviceIDs ! i = device_key (ds ! k)" "\<forall>j<k. device_key (ds ! j) \<notin> set deviceIDs"
      by blast
    with d show ?thesis by (intro exI [of _ "Suc k"]) (auto simp: nth_Cons split: nat.splits)
  next
    case (Some j)
    with find_first_SomeD [OF Some] Cons.prems show ?thesis
      by (intro exI [of _ 0]) (simp add: matchDevice_key)
  qed
qed simp

lemma matchDevice_None:
  "matchDevice devices = None \<longleftrightarrow> (\<forall>d\<in>set devices. device_key d \<notin> set deviceIDs)"
proof (induction devices)
  case (Cons d ds)
  have "find_first (\<lambda>x. x = device_key d) deviceIDs = None \<longleftrightarrow> device_key d \<notin> set deviceIDs"
    by (auto simp: find_first_None_iff)
  with Cons show ?case
    by (cases "find_first (\<lambda>x. x = device_key d) deviceIDs") (simp_all add: matchDevice_key)
qed simp

section \<open>Write ends\<close>

lemma usb_Write_ends:
  assumes "\<And>r w. r \<noteq> [] \<Longrightarrow> fst (c_write hid (cc l) r w) = - 1 \<or> 2 < fst (c_write hid (cc l) r w)"
    and "length b - currentOffset \<le> fuel"
  shows "\<exists>r. usb_Write hid fuel b currentOffset l w = Some r"
  using assms
proof (induction fuel arbitrary: currentOffset l w)
  case 0
  then show ?case by (simp add: usb_Write.simps)
next
  case (Suc fuel)
  show ?case
  proof (cases "currentOffset < length b")
    case False
    then show ?thesis by (simp add: usb_Write.simps)
  next
    case True
    let ?part = "take (min (length b - currentOffset) 62) (drop currentOffset b)"
    let ?buf = "fill_report (fixedLengthWriteBuffer l) ?part"
    let ?l = "l\<lparr>fixedLengthWriteBuffer := ?buf\<rparr>"
    obtain n w' where c: "c_write hid (cc l) ?buf w = (n, w')" by fastforce
    have ne: "?buf \<noteq> []" using True by (simp add: fill_report_def Let_def)
    show ?thesis
    proof (cases "n = - 1")
      case True
      with \<open>currentOffset < length b\<close> c ne show ?thesis
        by (subst usb_Write.simps) (simp add: Let_def dev_Write_def count_or_error_def)
    next
      case False
      with Suc.prems(1) [OF ne, of w] c have "2 < n" by simp
      moreover from this have "\<exists>r. usb_Write hid fuel b (currentOffset + nat (n - 2)) ?l w' = Some r"
        using Suc.prems True by (intro Suc.IH) auto
      ultimately show ?thesis using True c ne False
        by (subst usb_Write.simps) (simp add: Let_def dev_Write_def count_or_error_def)
    qed
  qed
qed

section \<open>What Write sends and Read yields\<close>

text \<open>The reports of a message, given what the write buffer holds.\<close>

function usb_reports :: "bytes \<Rightarrow> bytes \<Rightarrow> bytes list" where
  "usb_reports buf b =
     (if b = [] then [] else let r = fill_report buf (take 62 b) in r # usb_reports r (drop 62 b))"
  by pat_completeness auto
termination by (relation "measure (\<lambda>(buf, b). length b)") auto

declare usb_reports.simps [simp del]

definition report_payload :: "bytes \<Rightarrow> bytes" where
  "report_payload r = take (unat (r ! 1)) (drop 2 r)"

definition is_report :: "bytes \<Rightarrow> bool" where
  "is_report r \<longleftrightarrow> length r = 64 \<and> unat (r ! 1) \<le> 62"

lemma fill_report_ok:
  assumes "length buf = 64" and "length part \<le> 62"
  shows "is_report (fill_report buf part)" and "report_payload (fill_report buf part) = part"
    and "fill_report buf part ! 0 = 2"
proof -
  from assms(1) obtain a b rest where buf: "buf = a # b # rest" "length rest = 62"
    by (auto simp: numeral_eq_Suc length_Suc_conv)
  have "unat (word_of_nat (length part) :: byte) = length part"
    using assms(2) by (simp add: unsigned_of_nat take_bit_nat_eq_self)
  with buf assms(2) show "is_report (fill_report buf part)" "report_payload (fill_report buf part) = part"
    "fill_report buf part ! 0 = 2"
    by (simp_all add: fill_report_def is_report_def report_payload_def numeral_2_eq_2)
qed

lemma report_count: "0 < n \<Longrightarrow> Suc ((n - 62 + 61) div 62) = (n + 61) div 62" for n :: nat
proof (cases "n \<le> 62")
  case True
  moreover assume "0 < n"
  ultimately have "(n + 61) div 62 = 1" by (intro div_nat_eqI) auto
  with True show ?thesis by simp
next
  case False
  then obtain k where "n = k + 62" by (metis add.commute le_add_diff_inverse nat_le_linear)
  then show ?thesis using div_add_self2 [of 62 "k + 61"] by (simp add: add.commute add.left_commute)
qed

lemma usb_reports_ok:
  "length buf = 64 \<Longrightarrow>
   list_all is_report (usb_reports buf b) \<and> concat (map report_payload (usb_reports buf b)) = b \<and>
   length (usb_reports buf b) = (length b + 61) div 62 \<and> (usb_reports buf b = [] \<longleftrightarrow> b = [])"
proof (induction buf b rule: usb_reports.induct)
  case (1 buf b)
  show ?case
  proof (cases "b = []")
    case False
    let ?r = "fill_report buf (take 62 b)"
    have r: "is_report ?r" "report_payload ?r = take 62 b" using fill_report_ok "1.prems" by simp_all
    then have "length ?r = 64" by (simp add: is_report_def)
    note IH = "1.IH" [OF False refl this]
    have "Suc ((length b - 62 + 61) div 62) = (length b + 61) div 62"
      using False report_count [of "length b"] by simp
    with IH r False show ?thesis by (subst (1 2 3 4) usb_reports.simps) (simp add: Let_def)
  qed (simp add: usb_reports.simps)
qed

text \<open>A device that takes every report whole.\<close>

definition accepts :: "'w hidapi \<Rightarrow> handle \<Rightarrow> bool" where
  "accepts hid h \<longleftrightarrow> (\<forall>r w. fst (c_write hid h r w) = int (length r))"

definition send_all :: "'w hidapi \<Rightarrow> handle \<Rightarrow> bytes list \<Rightarrow> 'w \<Rightarrow> 'w" where
  "send_all hid h rs w = fold (\<lambda>r w. snd (c_write hid h r w)) rs w"

lemma usb_Write_reports:
  assumes "accepts hid (cc l)" and "length (fixedLengthWriteBuffer l) = 64" and "length b - off \<le> fuel"
  shows "usb_Write hid fuel b off l w =
    (let rs = usb_reports (fixedLengthWriteBuffer l) (drop off b) in
     Some ((off + 62 * length rs, None),
           (if rs = [] then l else l\<lparr>fixedLengthWriteBuffer := last rs\<rparr>), send_all hid (cc l) rs w))"
  using assms
proof (induction fuel arbitrary: off l w)
  case 0
  then show ?case by (simp add: usb_Write.simps usb_reports.simps send_all_def)
next
  case (Suc fuel)
  show ?case
  proof (cases "off < length b")
    case False
    then show ?thesis by (simp add: usb_Write.simps usb_reports.simps send_all_def)
  next
    case True
    let ?part = "take (min (length b - off) 62) (drop off b)"
    let ?r = "fill_report (fixedLengthWriteBuffer l) ?part"
    let ?l = "l\<lparr>fixedLengthWriteBuffer := ?r\<rparr>"
    have part: "?part = take 62 (drop off b)" by (simp add: min_def)
    have len: "length ?r = 64"
      using fill_report_ok(1) [OF Suc.prems(2), of ?part] by (simp add: is_report_def)
    obtain w' where c: "c_write hid (cc l) ?r w = (64, w')"
      using Suc.prems(1) len by (metis accepts_def of_nat_numeral prod.collapse)
    have step: "usb_Write hid (Suc fuel) b off l w = usb_Write hid fuel b (off + 62) ?l w'"
      using True c len by (subst usb_Write.simps) (auto simp: Let_def dev_Write_def count_or_error_def)
    have IH: "usb_Write hid fuel b (off + 62) ?l w' =
        (let rs = usb_reports ?r (drop (off + 62) b) in
         Some ((off + 62 + 62 * length rs, None),
           (if rs = [] then ?l else ?l\<lparr>fixedLengthWriteBuffer := last rs\<rparr>), send_all hid (cc l) rs w'))"
      using Suc.prems len by (subst Suc.IH) auto
    have rs: "usb_reports (fixedLengthWriteBuffer l) (drop off b) = ?r # usb_reports ?r (drop (off + 62) b)"
      using True part by (subst usb_reports.simps) (simp add: Let_def add.commute)
    show ?thesis unfolding step IH rs by (simp add: Let_def send_all_def c)
  qed
qed

lemma usb_Read_report:
  assumes "is_report r" and "c_read_timeout hid (cc l) 64 50 w = (64, r, w')" and "length packet = 64"
  obtains packet' where "usb_Read hid l packet w = (Inr (int (length (report_payload r))), packet', w')"
    and "take (length (report_payload r)) packet' = report_payload r" and "length packet' = 64"
proof -
  let ?p = "drop 2 r @ drop 62 r"
  have r: "length r = 64" "unat (r ! 1) \<le> 62" using assms(1) by (auto simp: is_report_def)
  have n: "length (report_payload r) = unat (r ! 1)" using r by (simp add: report_payload_def)
  have "packet \<noteq> []" using assms(3) by auto
  then have "usb_Read hid l packet w = (Inr (int (unat (r ! 1))), ?p, w')"
    using assms(2,3) r by (simp add: usb_Read_def dev_ReadTimeout_def count_or_error_def put_buffer_def)
  moreover have "take (unat (r ! 1)) ?p = report_payload r" using r by (simp add: report_payload_def)
  moreover have "length ?p = 64" using r by simp
  ultimately show thesis using that [of ?p] n by simp
qed

section \<open>The contract of a byte link\<close>

text \<open>
  What \<open>start\<close> relies on: a link keeps the order and the content of what is written, whatever
  the transfers it is cut into.
\<close>

locale byte_link =
  fixes send :: "'s \<Rightarrow> bytes \<Rightarrow> 'r list \<times> 's" and recv :: "'r \<Rightarrow> bytes" and inv :: "'s \<Rightarrow> bool"
  assumes send_inv: "inv s \<Longrightarrow> inv (snd (send s b))"
    and send_recv: "inv s \<Longrightarrow> concat (map recv (fst (send s b))) = b"
begin

fun send_many :: "'s \<Rightarrow> bytes list \<Rightarrow> 'r list" where
  "send_many s [] = []"
| "send_many s (b # bs) = fst (send s b) @ send_many (snd (send s b)) bs"

lemma recv_many: "inv s \<Longrightarrow> concat (map recv (send_many s bs)) = concat bs"
  by (induction bs arbitrary: s) (simp_all add: send_recv send_inv)

end

text \<open>A device that records the reports it is given.\<close>

definition log_device :: "bytes list hidapi" where
  "log_device =
     idle_hidapi\<lparr>c_open := (\<lambda>v p s w. (Some 0, w)), c_write := (\<lambda>h r w. (int (length r), w @ [r]))\<rparr>"

definition usb_send :: "bytes \<Rightarrow> bytes \<Rightarrow> bytes list \<times> bytes" where
  "usb_send buf b =
     (case usb_Write log_device (length b) b 0 \<lparr>cc = 0, fixedLengthWriteBuffer = buf\<rparr> [] of
        Some (_, l, rs) \<Rightarrow> (rs, fixedLengthWriteBuffer l)
      | None \<Rightarrow> ([], buf))"

lemma send_all_log: "send_all log_device h rs w = w @ rs"
  by (induction rs arbitrary: w) (simp_all add: send_all_def log_device_def)

lemma usb_send_eq:
  assumes "length buf = 64"
  shows "usb_send buf b = (usb_reports buf b, if b = [] then buf else last (usb_reports buf b))"
proof -
  have "accepts log_device 0" by (simp add: accepts_def log_device_def)
  with usb_Write_reports [of log_device "\<lparr>cc = 0, fixedLengthWriteBuffer = buf\<rparr>" b 0 "length b" "[]"] assms
  show ?thesis using usb_reports_ok [OF assms, of b] by (simp add: usb_send_def Let_def send_all_log)
qed

interpretation usb: byte_link usb_send report_payload "\<lambda>buf. length buf = 64"
proof unfold_locales
  fix buf b :: bytes
  assume l: "length buf = 64"
  note ok = usb_reports_ok [OF l, of b]
  show "concat (map report_payload (fst (usb_send buf b))) = b" using ok by (simp add: usb_send_eq l)
  show "length (snd (usb_send buf b)) = 64"
    using ok by (auto simp: usb_send_eq l list_all_iff is_report_def)
qed

end
