(* ===== verification/Pipeline.thy ===== *)
theory Pipeline
  imports Connection Links
begin

text \<open>
  \<open>start\<close> in \<open>uavtalk/uavtalk.go\<close>: the loop that opens the link, the reader and the writer
  goroutine, and the two bounded channels (\<open>fcInChan\<close>, \<open>fcOutChan\<close> of \<open>main.go\<close>) between
  them and the bridge. The goroutines are the steps of a relation that may interleave in any
  order. The lemmas show that packets come out in the order and number the byte stream
  defines, that nothing accepted for writing is lost or reordered, and that a packet
  written through one link and read through another is the packet that was sent.
\<close>

section \<open>Operations\<close>

text \<open>
  The loop that retries \<open>NewUSBLink\<close> every second; \<open>sleep\<close> is what \<open>time.Sleep\<close> lets happen
  outside. The result carries the logged warnings; \<open>None\<close> when \<open>fuel\<close> attempts all failed.
\<close>

fun connect :: "'w hidapi \<Rightarrow> ('w \<Rightarrow> 'w) \<Rightarrow> nat \<Rightarrow> bool \<Rightarrow> 'w \<Rightarrow>
    (usbLink res \<times> go_error list \<times> bool \<times> 'w) option" where
  "connect hid sleep 0 initDone w = None"
| "connect hid sleep (Suc fuel) initDone w =
     (case NewUSBLink hid initDone w of
        (Inl Panic, initDone, w) \<Rightarrow> Some (Inl Panic, [], initDone, w)
      | (Inl err, initDone, w) \<Rightarrow>
          map_option (\<lambda>(l, warns, r). (l, err # warns, r))
            (connect hid sleep fuel initDone (sleep w))
      | (Inr l, initDone, w) \<Rightarrow> Some (Inr l, [], initDone, w))"

text \<open>\<open>link.Read(packet)\<close> and \<open>packet[0:n]\<close> in the reader; an error is fatal.\<close>

definition read_chunk :: "'w hidapi \<Rightarrow> usbLink \<Rightarrow> bytes \<Rightarrow> 'w \<Rightarrow> bytes res \<times> bytes \<times> 'w" where
  "read_chunk hid l packet w =
     (case usb_Read hid l packet w of
        (Inl e, packet, w) \<Rightarrow> (or_fatal (Inl e), packet, w)
      | (Inr n, packet, w) \<Rightarrow>
          (if n \<le> int (length packet) then Inr (take (nat n) packet) else Inl Panic, packet, w))"

text \<open>
  One turn of the writer: \<open>Inr None\<close> when the packet went out, \<open>Inr (Some e)\<close> when it was
  dropped with a warning, \<open>Inl\<close> when the process ends.
\<close>

definition writer_turn :: "runtime \<Rightarrow> definitions \<Rightarrow> 'w hidapi \<Rightarrow> nat \<Rightarrow> Packet \<Rightarrow> usbLink \<Rightarrow> 'w \<Rightarrow>
    (go_error option res \<times> usbLink \<times> 'w) option" where
  "writer_turn rt defs hid fuel packet l w =
     (case toBinary rt defs packet of
        Inl Panic \<Rightarrow> Some (Inl Panic, l, w)
      | Inl e \<Rightarrow> Some (Inr (Some e), l, w)
      | Inr binaryPacket \<Rightarrow>
          (case usb_Write hid fuel binaryPacket 0 l w of
             None \<Rightarrow> None
           | Some ((_, None), l, w) \<Rightarrow> Some (Inr None, l, w)
           | Some ((_, Some e), l, w) \<Rightarrow> Some (Inl (Fatal e), l, w)))"

section \<open>The goroutines and the channels\<close>

text \<open>
  The last four fields record what happened: the bytes read so far, the packets taken from
  \<open>outChan\<close>, the packets put into \<open>inChan\<close> and the packets the writer took from it.
\<close>

record 'w conn =
  inChan :: "Packet list"
  outChan :: "Packet list"
  link :: usbLink
  rpacket :: bytes
  rbuffer :: slice
  pending :: "rx_event list"
  failed :: "go_error option"
  world :: 'w
  arrived :: bytes
  delivered :: "Packet list"
  accepted :: "Packet list"
  taken :: "Packet list"

abbreviation (input) chan_capacity :: nat where "chan_capacity \<equiv> 100"

inductive conn_step :: "runtime \<Rightarrow> 'w hidapi \<Rightarrow> (nat \<Rightarrow> nat \<Rightarrow> nat) \<Rightarrow> int \<Rightarrow> definitions \<Rightarrow> 'w conn \<Rightarrow> 'w conn \<Rightarrow> bool"
  for rt hid grow m defs where
  read: "pending s = [] \<Longrightarrow> failed s = None \<Longrightarrow>
    read_chunk hid (link s) (rpacket s) (world s) = (Inr chunk, packet, w) \<Longrightarrow>
    rx_read grow m defs chunk (rbuffer s) = (evs, r) \<Longrightarrow>
    conn_step rt hid grow m defs s
      (s\<lparr>rpacket := packet, world := w, arrived := arrived s @ chunk, pending := evs,
         rbuffer := (case r of Inr b \<Rightarrow> b | Inl _ \<Rightarrow> rbuffer s),
         failed := (case r of Inr _ \<Rightarrow> None | Inl e \<Rightarrow> Some e)\<rparr>)"
| read_error: "pending s = [] \<Longrightarrow> failed s = None \<Longrightarrow>
    read_chunk hid (link s) (rpacket s) (world s) = (Inl e, packet, w) \<Longrightarrow>
    conn_step rt hid grow m defs s (s\<lparr>rpacket := packet, world := w, failed := Some e\<rparr>)"
| deliver: "pending s = RxPacket p # evs \<Longrightarrow> length (outChan s) < chan_capacity \<Longrightarrow>
    conn_step rt hid grow m defs s (s\<lparr>pending := evs, outChan := outChan s @ [p]\<rparr>)"
| warn: "pending s = RxWarn e l # evs \<Longrightarrow> conn_step rt hid grow m defs s (s\<lparr>pending := evs\<rparr>)"
| consume: "outChan s = p # ps \<Longrightarrow>
    conn_step rt hid grow m defs s (s\<lparr>outChan := ps, delivered := delivered s @ [p]\<rparr>)"
| enqueue: "length (inChan s) < chan_capacity \<Longrightarrow>
    conn_step rt hid grow m defs s (s\<lparr>inChan := inChan s @ [p], accepted := accepted s @ [p]\<rparr>)"
| write_packet: "inChan s = p # ps \<Longrightarrow> failed s = None \<Longrightarrow>
    writer_turn rt defs hid fuel p (link s) (world s) = Some (res, l, w) \<Longrightarrow>
    conn_step rt hid grow m defs s
      (s\<lparr>inChan := ps, taken := taken s @ [p], link := l, world := w,
         failed := (case res of Inr _ \<Rightarrow> None | Inl e \<Rightarrow> Some e)\<rparr>)"

inductive conn_reach :: "runtime \<Rightarrow> 'w hidapi \<Rightarrow> (nat \<Rightarrow> nat \<Rightarrow> nat) \<Rightarrow> int \<Rightarrow> definitions \<Rightarrow> 'w conn \<Rightarrow> bool"
  for rt hid grow m defs where
  start: "length (fixedLengthWriteBuffer l) = 64 \<Longrightarrow>
    conn_reach rt hid grow m defs
      \<lparr>inChan = [], outChan = [], link = l, rpacket = replicate 64 0, rbuffer = rx_buffer, pending = [],
       failed = None, world = w, arrived = [], delivered = [], accepted = [], taken = []\<rparr>"
| step: "conn_reach rt hid grow m defs s \<Longrightarrow> conn_step rt hid grow m defs s s' \<Longrightarrow>
    conn_reach rt hid grow m defs s'"

inductive_cases conn_stepE: "conn_step rt hid grow m defs s s'"

fun packets_of :: "rx_event list \<Rightarrow> Packet list" where
  "packets_of [] = []"
| "packets_of (RxPacket p # evs) = p # packets_of evs"
| "packets_of (RxWarn e l # evs) = packets_of evs"

lemma packets_of_append [simp]: "packets_of (xs @ ys) = packets_of xs @ packets_of ys"
  by (induction xs rule: packets_of.induct) auto

definition conn_inv :: "int \<Rightarrow> definitions \<Rightarrow> 'w conn \<Rightarrow> bool" where
  "conn_inv m defs s \<longleftrightarrow>
     delivered s @ outChan s @ packets_of (pending s) = packets_of (fst (rx_spec m defs (arrived s))) \<and>
     (failed s = None \<longrightarrow> snd (rx_spec m defs (arrived s)) = Inr (vis (rbuffer s))) \<and>
     accepted s = taken s @ inChan s \<and> length (outChan s) \<le> chan_capacity \<and> length (inChan s) \<le> chan_capacity"

text \<open>The reader's turn keeps the buffer and the events in step with the bytes that arrived.\<close>

lemma rx_read_arrived:
  assumes "snd (rx_spec m defs bs) = Inr (vis buf)" and "rx_read grow m defs chunk buf = (evs, r)"
  shows "fst (rx_spec m defs (bs @ chunk)) = fst (rx_spec m defs bs) @ evs"
    and "snd (rx_spec m defs (bs @ chunk)) = map_sum (\<lambda>e. e) vis r"
proof -
  obtain evs0 where e0: "rx_spec m defs bs = (evs0, Inr (vis buf))" using assms(1) by (metis prod.collapse)
  have "packetComplete m (vis buf) = wait" using rx_spec_rest [OF e0] .
  from rx_read_spec [OF this, of grow defs chunk] assms(2)
  have "rx_spec m defs (vis buf @ chunk) = (evs, map_sum (\<lambda>e. e) vis r)" by (metis fst_conv prod.collapse snd_conv)
  with rx_spec_append [of m defs bs chunk] e0
  show "fst (rx_spec m defs (bs @ chunk)) = fst (rx_spec m defs bs) @ evs"
    "snd (rx_spec m defs (bs @ chunk)) = map_sum (\<lambda>e. e) vis r"
    by simp_all
qed

lemma conn_step_inv: "conn_step rt hid grow m defs s s' \<Longrightarrow> conn_inv m defs s \<Longrightarrow> conn_inv m defs s'"
proof (induction rule: conn_step.induct)
  case (read s chunk packet w evs r)
  note a = rx_read_arrived [OF _ read.hyps(4), of "arrived s"]
  from read show ?case
    by (auto simp: conn_inv_def a split: sum.splits)
qed (auto simp: conn_inv_def)

lemma conn_reach_inv: "conn_reach rt hid grow m defs s \<Longrightarrow> conn_inv m defs s"
proof (induction rule: conn_reach.induct)
  case (start l w)
  show ?case by (simp add: conn_inv_def rx_spec_wait rx_buffer_def)
qed (rule conn_step_inv)

section \<open>From one end of the cable to the other\<close>

text \<open>The writer's link over a sequence of messages, on the recording device.\<close>

fun usb_stream :: "bytes \<Rightarrow> bytes list \<Rightarrow> bytes list" where
  "usb_stream buf [] = []"
| "usb_stream buf (b # bs) = fst (usb_send buf b) @ usb_stream (snd (usb_send buf b)) bs"

lemma usb_stream_eq: "usb_stream buf bs = usb.send_many buf bs"
  by (induction bs arbitrary: buf) simp_all

lemma usb_stream_payload: "length buf = 64 \<Longrightarrow> concat (map report_payload (usb_stream buf bs)) = concat bs"
  unfolding usb_stream_eq by (rule usb.recv_many)

lemma usb_stream_reports: "length buf = 64 \<Longrightarrow> list_all is_report (usb_stream buf bs)"
proof (induction bs arbitrary: buf)
  case (Cons b bs)
  with usb.send_inv [of buf b] usb_reports_ok [of buf b] show ?case by (simp add: usb_send_eq)
qed simp

text \<open>A device that yields a given sequence of reports, one per read.\<close>

definition replay_device :: "bytes list hidapi" where
  "replay_device = log_device\<lparr>c_read_timeout :=
     (\<lambda>h n t w. case w of [] \<Rightarrow> (0, [], []) | r # rs \<Rightarrow> (int (length r), r, rs))\<rparr>"

fun read_chunks :: "'w hidapi \<Rightarrow> usbLink \<Rightarrow> nat \<Rightarrow> bytes \<Rightarrow> 'w \<Rightarrow> bytes list res" where
  "read_chunks hid l 0 packet w = Inr []"
| "read_chunks hid l (Suc k) packet w =
     (case read_chunk hid l packet w of
        (Inl e, _, _) \<Rightarrow> Inl e
      | (Inr chunk, packet, w) \<Rightarrow> res_bind (read_chunks hid l k packet w) (\<lambda>cs. Inr (chunk # cs)))"

lemma read_chunk_report:
  assumes "is_report r" and "c_read_timeout hid (cc l) 64 50 w = (64, r, w')" and "length packet = 64"
  obtains packet' where "read_chunk hid l packet w = (Inr (report_payload r), packet', w')" and "length packet' = 64"
proof -
  obtain packet' where p: "usb_Read hid l packet w = (Inr (int (length (report_payload r))), packet', w')"
      "take (length (report_payload r)) packet' = report_payload r" "length packet' = 64"
    using assms by (rule usb_Read_report)
  have "length (report_payload r) \<le> 64" using p(2,3) by (metis length_take min.cobounded1)
  with p show thesis by (intro that [of packet']) (simp_all add: read_chunk_def)
qed

lemma read_chunks_replay:
  "list_all is_report rs \<Longrightarrow> length packet = 64 \<Longrightarrow>
   read_chunks replay_device l (length rs) packet rs = Inr (map report_payload rs)"
proof (induction rs arbitrary: packet)
  case (Cons r rs)
  then have r: "is_report r" "length r = 64" by (auto simp: is_report_def)
  have "c_read_timeout replay_device (cc l) 64 50 (r # rs) = (64, r, rs)"
    using r(2) by (simp add: replay_device_def)
  from read_chunk_report [OF r(1) this Cons.prems(2)]
  obtain packet' where "read_chunk replay_device l packet (r # rs) = (Inr (report_payload r), packet', rs)"
      "length packet' = 64" .
  with Cons show ?case by simp
qed simp

text \<open>A length byte above the size of the read buffer is a slice panic.\<close>

lemma read_chunk_oversize:
  assumes "c_read_timeout hid (cc l) 64 50 w = (64, r, w')" and "length r = 64" and "length packet = 64"
    and "64 < unat (r ! 1)"
  shows "fst (read_chunk hid l packet w) = Inl Panic"
proof -
  have "packet \<noteq> []" using assms(3) by auto
  moreover have "64 < uint (r ! 1)" using assms(4) unat_eq_nat_uint [of "r ! 1"] by linarith
  ultimately show ?thesis using assms(1-3) by (simp add: read_chunk_def usb_Read_def dev_ReadTimeout_def count_or_error_def put_buffer_def)
qed

section \<open>Connecting\<close>

fun after_failures :: "'w hidapi \<Rightarrow> ('w \<Rightarrow> 'w) \<Rightarrow> nat \<Rightarrow> bool \<Rightarrow> 'w \<Rightarrow> (bool \<times> 'w) option" where
  "after_failures hid sleep 0 i w = Some (i, w)"
| "after_failures hid sleep (Suc k) i w =
     (case NewUSBLink hid i w of
        (Inl Panic, i, w) \<Rightarrow> None
      | (Inl e, i, w) \<Rightarrow> after_failures hid sleep k i (sleep w)
      | (Inr l, i, w) \<Rightarrow> None)"

lemma connect_ends:
  "after_failures hid sleep k i w = Some (i', w') \<Longrightarrow> NewUSBLink hid i' w' = (Inr l, i'', w'') \<Longrightarrow>
   k < fuel \<Longrightarrow> \<exists>warns. connect hid sleep fuel i w = Some (Inr l, warns, i'', w'') \<and> length warns = k"
proof (induction k arbitrary: fuel i w)
  case 0
  then show ?case by (cases fuel) auto
next
  case (Suc k)
  then obtain f where f: "fuel = Suc f" "k < f" by (metis Suc_less_eq2)
  with Suc.prems obtain e i1 w1 where "NewUSBLink hid i w = (Inl e, i1, w1)" "e \<noteq> Panic"
      "after_failures hid sleep k i1 (sleep w1) = Some (i', w')"
    by (auto split: prod.splits sum.splits go_error.splits)
  with Suc.IH [OF _ Suc.prems(2) f(2), of i1 "sleep w1"] f(1) show ?case by (auto split: go_error.splits)
qed

end
