(* ===== verification/Samples.thy ===== *)
theory Samples
  imports Loading Bridge Pipeline
begin

text \<open>
  Concrete data for the witnesses: a run-time system, the \<open>AttitudeActual\<close> object published in
  the README, the \<open>SessionManaging\<close> object of the session protocol and an object with several
  instances, an array and an enum; each as the XML decoder delivers it and as the table holds it.
\<close>

definition sample_rt :: runtime where
  "sample_rt = \<lparr>rt_conv = (\<lambda>lo hi f. 0), rt_nan32 = (\<lambda>f. 0x7fc00000), rt_lower = (\<lambda>s. s), rt_upper = (\<lambda>s. s),
     rt_fmt = (\<lambda>s. s)\<rparr>"

definition raw_field :: "string \<Rightarrow> string \<Rightarrow> FieldDefinition" where
  "raw_field nm ty = empty_field\<lparr>fName := nm, fType := ty\<rparr>"

definition attitude_raw :: Definition where
  "attitude_raw = empty_definition\<lparr>dName := ''AttitudeActual'', dSingleInstance := True,
     dFields := map (\<lambda>nm. raw_field nm ''float'') [''q1'', ''q2'', ''q3'', ''q4'', ''Roll'', ''Pitch'', ''Yaw'']\<rparr>"

definition session_raw :: Definition where
  "session_raw = empty_definition\<lparr>dName := ''SessionManaging'', dSingleInstance := True,
     dFields := [raw_field ''SessionID'' ''uint16'', raw_field ''ObjectID'' ''uint32'',
       raw_field ''ObjectInstances'' ''uint8'', raw_field ''NumberOfObjects'' ''uint8'',
       raw_field ''ObjectOfInterestIndex'' ''uint8'']\<rparr>"

definition waypoint_raw :: Definition where
  "waypoint_raw = empty_definition\<lparr>dName := ''Waypoint'', dSettings := True,
     dTelemetryFlight := \<lparr>tlAcked = True, tlUpdateMode = ''onchange'', tlPeriod = ''0''\<rparr>,
     dFields := [(raw_field ''Action'' ''enum'')\<lparr>fOptionsAttr := ''None, Stop''\<rparr>,
       (raw_field ''Position'' ''float'')\<lparr>fElements := 3\<rparr>]\<rparr>"

text \<open>A directory with one file per object; a file's content is its path.\<close>

definition sample_fsys :: fsys where
  "sample_fsys = \<lparr>fs_ReadDir = (\<lambda>dir. Inr [''attitudeactual.xml'', ''sessionmanaging.xml'', ''waypoint.xml'']),
     fs_Open = (\<lambda>path. Inr path),
     xml_Decode = (\<lambda>content.
       if content = ''uavobjects/attitudeactual.xml'' then Some attitude_raw
       else if content = ''uavobjects/sessionmanaging.xml'' then Some session_raw
       else if content = ''uavobjects/waypoint.xml'' then Some waypoint_raw else None)\<rparr>"

section \<open>The table that loading this directory builds\<close>

definition type_info :: "nat \<Rightarrow> FieldTypeInfo option" where
  "type_info i = Some (TypeInfos ! i)"

definition ready :: "nat \<Rightarrow> FieldDefinition \<Rightarrow> FieldDefinition" where
  "ready i f = f\<lparr>fElements := (if fElements f = 0 then 1 else fElements f), fFieldTypeInfo := type_info i\<rparr>"

definition meta_ready :: "FieldDefinition list" where
  "meta_ready = [ready 3 (meta_fields ! 0), ready 4 (meta_fields ! 1), ready 4 (meta_fields ! 2), ready 4 (meta_fields ! 3)]"

definition meta_for :: "nat \<Rightarrow> Definition \<Rightarrow> Definition" where
  "meta_for i d = empty_definition\<lparr>dName := dName d @ ''Meta'', dDescription := ''Meta for: '' @ [CHR 0x0A],
     dSingleInstance := True, dObjectID := dObjectID d + 1, dMetaFor := Some i, dFields := meta_ready\<rparr>"

definition attitude :: Definition where
  "attitude = attitude_raw\<lparr>dObjectID := 869979622, dMeta := Some 1, dFields := map (ready 6) (dFields attitude_raw)\<rparr>"

definition session :: Definition where
  "session = session_raw\<lparr>dObjectID := 2298695242, dMeta := Some 3,
     dFields := [ready 5 (raw_field ''ObjectID'' ''uint32''), ready 4 (raw_field ''SessionID'' ''uint16''),
       ready 3 (raw_field ''ObjectInstances'' ''uint8''), ready 3 (raw_field ''NumberOfObjects'' ''uint8''),
       ready 3 (raw_field ''ObjectOfInterestIndex'' ''uint8'')]\<rparr>"

definition waypoint :: Definition where
  "waypoint = waypoint_raw\<lparr>dObjectID := 643347058, dMeta := Some 5,
     dFields := [ready 6 ((raw_field ''Position'' ''float'')\<lparr>fElements := 3\<rparr>),
       (ready 7 ((raw_field ''Action'' ''enum'')\<lparr>fOptionsAttr := ''None, Stop''\<rparr>))\<lparr>fOptions := [''None'', ''Stop'']\<rparr>]\<rparr>"

definition sample_defs :: definitions where
  "sample_defs = [attitude, meta_for 0 attitude, session, meta_for 2 session, waypoint, meta_for 4 waypoint]"

lemmas sample_simps = sample_defs_def attitude_def session_def waypoint_def attitude_raw_def session_raw_def
  waypoint_raw_def meta_for_def meta_ready_def ready_def raw_field_def type_info_def meta_fields_def
  empty_field_def empty_definition_def TypeInfos_def

section \<open>Loading the sample directory\<close>

lemma sample_setup:
  "FinishSetup attitude_raw = Inr (attitude\<lparr>dObjectID := 0, dMeta := None\<rparr>)"
  "FinishSetup session_raw = Inr (session\<lparr>dObjectID := 0, dMeta := None\<rparr>)"
  "FinishSetup waypoint_raw = Inr (waypoint\<lparr>dObjectID := 0, dMeta := None\<rparr>)"
  by code_simp+

lemma sample_hash:
  "fold updateHashWithInt (plain_stream (attitude\<lparr>dObjectID := 0, dMeta := None\<rparr>)) 0 AND 0xFFFFFFFE = 869979622"
  "fold updateHashWithInt (plain_stream (session\<lparr>dObjectID := 0, dMeta := None\<rparr>)) 0 AND 0xFFFFFFFE = 2298695242"
  "fold updateHashWithInt (plain_stream (waypoint\<lparr>dObjectID := 0, dMeta := None\<rparr>)) 0 AND 0xFFFFFFFE = 643347058"
  by (simp_all add: sample_simps plain_stream_def str_words_def updateHashWithInt_def)

lemma sample_typed:
  "list_all (\<lambda>f. fFieldTypeInfo f \<noteq> None) (dFields (attitude\<lparr>dObjectID := 0, dMeta := None\<rparr>))"
  "list_all (\<lambda>f. fFieldTypeInfo f \<noteq> None) (dFields (session\<lparr>dObjectID := 0, dMeta := None\<rparr>))"
  "list_all (\<lambda>f. fFieldTypeInfo f \<noteq> None) (dFields (waypoint\<lparr>dObjectID := 0, dMeta := None\<rparr>))"
  by (simp_all add: sample_simps)

lemma sample_plain:
  "plain_names (attitude\<lparr>dObjectID := 0, dMeta := None\<rparr>)"
  "plain_names (session\<lparr>dObjectID := 0, dMeta := None\<rparr>)"
  "plain_names (waypoint\<lparr>dObjectID := 0, dMeta := None\<rparr>)"
  by code_simp+

lemma sample_id:
  "calculateID rt (attitude\<lparr>dObjectID := 0, dMeta := None\<rparr>) = Inr (attitude\<lparr>dMeta := None\<rparr>)"
  "calculateID rt (session\<lparr>dObjectID := 0, dMeta := None\<rparr>) = Inr (session\<lparr>dMeta := None\<rparr>)"
  "calculateID rt (waypoint\<lparr>dObjectID := 0, dMeta := None\<rparr>) = Inr (waypoint\<lparr>dMeta := None\<rparr>)"
  unfolding calculateID_plain [OF sample_typed(1) sample_plain(1)] calculateID_plain [OF sample_typed(2) sample_plain(2)]
    calculateID_plain [OF sample_typed(3) sample_plain(3)] sample_hash
  by (simp_all add: sample_simps)

lemma sample_meta:
  "NewMetaDefinition 0 (Suc 0) (attitude\<lparr>dMeta := None\<rparr>) = Inr (attitude, meta_for 0 attitude)"
  "NewMetaDefinition (Suc (Suc 0)) (Suc (Suc (Suc 0))) (session\<lparr>dMeta := None\<rparr>) = Inr (session, meta_for 2 session)"
  "NewMetaDefinition (Suc (Suc (Suc (Suc 0)))) (Suc (Suc (Suc (Suc (Suc 0))))) (waypoint\<lparr>dMeta := None\<rparr>) =
     Inr (waypoint, meta_for 4 waypoint)"
  by code_simp+

lemma sample_load: "LoadDefinitions sample_rt sample_fsys ''uavobjects/'' = Inr sample_defs"
  by (simp add: LoadDefinitions_def newDefinitions_def sample_fsys_def newDefinition_def sample_setup sample_id
      sample_meta sample_defs_def)

lemma sample_loaded: "loaded sample_defs"
  using sample_load by (rule LoadDefinitions_loaded)

lemma sample_no_collision: "no_collision sample_defs"
  by (simp add: no_collision_def sample_simps upt_rec)

lemma sample_length [simp]: "length sample_defs = 6"
  by (simp add: sample_defs_def)

lemma sample_lookup: "i < 6 \<Longrightarrow> GetDefinitionForObjectID sample_defs (dObjectID (sample_defs ! i)) = Inr i"
  using loaded_lookup [OF sample_loaded sample_no_collision] by simp

section \<open>Packets\<close>

text \<open>Level flight: the quaternion (1, 0, 0, 0) and three zero angles.\<close>

definition attitude_data :: gmap where
  "attitude_data = (''q1'', GF64 0x3FF0000000000000) #
     map (\<lambda>nm. (nm, GF64 0)) [''q2'', ''q3'', ''q4'', ''Roll'', ''Pitch'', ''Yaw'']"

definition attitude_packet :: Packet where
  "attitude_packet = \<lparr>pDefinition = 0, pCmd = ObjectCmd, pLength = 36, pInstanceID = 0, pData = attitude_data\<rparr>"

definition waypoint_data :: gmap where
  "waypoint_data = [(''Position'', GArr [GF64 0x3FF0000000000000, GF64 0, GF64 0]), (''Action'', GStr ''Stop'')]"

definition waypoint_packet :: Packet where
  "waypoint_packet = \<lparr>pDefinition = 4, pCmd = ObjectCmdWithAck, pLength = 23, pInstanceID = 7, pData = waypoint_data\<rparr>"

lemma sample_packet_ok: "packet_ok sample_defs attitude_packet" "packet_ok sample_defs waypoint_packet"
  by code_simp+

lemma sample_sendable: "sendable 36 sample_defs attitude_packet" "sendable 36 sample_defs waypoint_packet"
  by code_simp+

end
