(* ===== verification/Wire_Properties.thy ===== *)
theory Wire_Properties
  imports Samples
begin

text \<open>
  The properties of the wire format: the checksum, the encoding of objects, the packets and
  their frames. Each is followed by a witness on the sample definitions where it has
  hypotheses.
\<close>

section \<open>Checksum\<close>

text \<open>C34: the table-driven \<open>computeCrc8\<close> computes the bitwise CRC-8 with the generator
  \<open>x^8 + x^2 + x + 1\<close> (0x07), from any start value, on any message.\<close>

theorem crc_table_is_bitwise: "computeCrc8 crc bs = crc8_ref crc bs"
  by (rule computeCrc8_eq_ref)

text \<open>Appending a byte to a message leaves the checksum register at zero exactly when that
  byte is the checksum; so a receiver may check the whole frame, the CRC byte included.\<close>

theorem crc_residue: "computeCrc8 crc (bs @ [c]) = 0 \<longleftrightarrow> c = computeCrc8 crc bs"
  by (rule crc8_residue_iff)

text \<open>Two messages of different bit parity have different checksums, so every corruption of an
  odd number of bits is noticed.\<close>

theorem crc_detects_odd:
  assumes "parity_bytes xs \<noteq> parity_bytes ys"
  shows "computeCrc8 crc xs \<noteq> computeCrc8 crc ys"
  using assms parity_computeCrc8 [of crc xs] parity_computeCrc8 [of crc ys] by auto

theorem crc_detects_odd_witness:
  "parity_bytes [0x3c, 0x20] \<noteq> parity_bytes [0x3c, 0x21, 0xc0] \<and> computeCrc8 0 [0x3c, 0x20] \<noteq> computeCrc8 0 [0x3c, 0x21, 0xc0]"
proof -
  have h: "parity_bytes [0x3c, 0x20] \<noteq> parity_bytes [0x3c, 0x21, 0xc0]" by code_simp
  from h crc_detects_odd [OF h, of 0] show ?thesis by (rule conjI)
qed

section \<open>Corrupted frames\<close>

text \<open>C11: a frame in which any one byte other than the sync byte and the length field was changed is
  rejected with a CRC error, and exactly that frame is skipped.\<close>

theorem corrupted_byte_rejected:
  assumes "is_frame m f" and "i < length f" and "i \<notin> {0, 2, 3}" and "b \<noteq> f ! i"
  shows "packetComplete m (f[i := b] @ rest) = (False, 0, length f, Some WrongCrc8)"
proof -
  let ?g = "f[i := b]"
  have f: "8 < length f" "f ! 0 = 0x3c" "Suc (len_at f 0) = length f" "int (len_at f 0) \<le> m + 10"
      "last f = computeCrc8 0 (butlast f)"
    using assms(1) by (auto simp: is_frame_def)
  have "last ?g \<noteq> computeCrc8 0 (butlast ?g)" using f(1,5) assms(2,4) by (intro crc_update_last) auto
  moreover have "len_at ?g 0 = len_at f 0" "?g ! 0 = 0x3c" using assms(3) f(2) by (simp_all add: len_at_update)
  ultimately show ?thesis using packetComplete_reject [of ?g m rest] f by simp
qed

text \<open>The acknowledgement of \<open>AttitudeActual\<close>: a frame without data.\<close>

definition ack_frame :: bytes where
  "ack_frame = [0x3c, 0x23, 0x08, 0x00, 0xe6, 0xd5, 0xda, 0x33, 0x5b]"

lemma ack_frame: "is_frame 36 ack_frame" "length ack_frame = 9" "ack_frame ! 1 = 0x23"
  by code_simp+

theorem corrupted_byte_rejected_witness:
  "is_frame 36 ack_frame \<and> packetComplete 36 (ack_frame[1 := 0x20] @ [0x3c]) = (False, 0, 9, Some WrongCrc8)"
  using corrupted_byte_rejected [OF ack_frame(1), of 1 "0x20" "[0x3c]"] ack_frame by simp

section \<open>Objects\<close>

text \<open>C5: encoding a data map whose values fit the fields of a definition succeeds, produces exactly
  the number of bytes \<open>ByteLength\<close> announces, and decoding these bytes, whatever follows them, gives the
  values back as the decoder represents them.\<close>

theorem object_roundtrip:
  assumes "data_ok d data"
  shows "\<exists>bs. mapToUAVTalk rt d data = Inr bs \<and> ByteLength (dFields d) = Inr (int (length bs)) \<and>
    (\<forall>rest. uAVTalkToMap d (bs @ rest) = Inr (data_dec rt d data))"
  using object_codec [OF assms, of rt] by metis

theorem object_roundtrip_witness:
  "data_ok waypoint waypoint_data \<and>
   (\<exists>bs. mapToUAVTalk sample_rt waypoint waypoint_data = Inr bs \<and> ByteLength (dFields waypoint) = Inr (int (length bs)) \<and>
    (\<forall>rest. uAVTalkToMap waypoint (bs @ rest) = Inr (data_dec sample_rt waypoint waypoint_data)))"
proof -
  have h: "data_ok waypoint waypoint_data" by code_simp
  from h object_roundtrip [OF h, of sample_rt] show ?thesis by (rule conjI)
qed

lemma f64_small:
  "uint w < 256 \<Longrightarrow> f64_to_u8 rt (f64_of_u32 w) = ucast w"
  "uint w < 65536 \<Longrightarrow> f64_to_u16 rt (f64_of_u32 w) = ucast w"
  using f64_to_int_fits [OF f64_trunc_of_u32, of 0 w 255 rt] f64_to_int_fits [OF f64_trunc_of_u32, of 0 w 65535 rt]
  by (simp_all add: f64_to_u8_def f64_to_u16_def)

lemma unsigned_sizes:
  assumes "wf_field f"
  shows "fType f = ''uint8'' \<Longrightarrow> field_size f = 1" "fType f = ''uint16'' \<Longrightarrow> field_size f = 2"
  using assms by (auto elim!: wf_field_info simp: TypeInfos_def field_size_def)

text \<open>An unsigned number that fits an unsigned field, written as the \<open>float64\<close> the bridge and its clients
  use, is read back as exactly that number.\<close>

theorem unsigned_exact:
  assumes "wf_field f" and "fType f \<in> {''uint8'', ''uint16'', ''uint32''}" and "uint w < 2 ^ (8 * nat (field_size f))"
  shows "\<exists>bs. writeToUAVTalk rt f (GF64 (f64_of_u32 w)) = Inr bs \<and>
    (\<forall>rest. readFromUAVTalk f (bs @ rest) =
       Inr (if fType f = ''uint8'' then GU8 (ucast w) else if fType f = ''uint16'' then GU16 (ucast w) else GU32 w, rest))"
proof -
  have dec: "scalar_dec rt f (GF64 (f64_of_u32 w)) =
      (if fType f = ''uint8'' then GU8 (ucast w) else if fType f = ''uint16'' then GU16 (ucast w) else GU32 w)"
    using assms(2)
  proof (elim insertE emptyE)
    assume "fType f = ''uint8''"
    with assms(3) unsigned_sizes(1) [OF assms(1)] show ?thesis by (simp add: scalar_dec_def f64_small)
  next
    assume "fType f = ''uint16''"
    with assms(3) unsigned_sizes(2) [OF assms(1)] show ?thesis by (simp add: scalar_dec_def f64_small)
  next
    assume "fType f = ''uint32''"
    then show ?thesis by (simp add: scalar_dec_def)
  qed
  have "fType f \<noteq> ''enum''" using assms(2) by auto
  from scalar_number [OF assms(1) this, of rt "f64_of_u32 w"] show ?thesis unfolding dec by blast
qed

theorem unsigned_exact_witness:
  "\<exists>bs. writeToUAVTalk sample_rt (ready 4 (raw_field ''SessionID'' ''uint16'')) (GF64 (f64_of_u32 65535)) = Inr bs \<and>
    (\<forall>rest. readFromUAVTalk (ready 4 (raw_field ''SessionID'' ''uint16'')) (bs @ rest) = Inr (GU16 65535, rest))"
proof -
  let ?f = "ready 4 (raw_field ''SessionID'' ''uint16'')"
  have "wf_field ?f" by code_simp
  moreover have "fType ?f = ''uint16''" "field_size ?f = 2"
    by (simp_all add: ready_def raw_field_def field_size_def type_info_def TypeInfos_def)
  ultimately show ?thesis using unsigned_exact [of ?f 65535 sample_rt] by simp
qed

text \<open>A numeric field given anything but a number (a string, a missing key) appends no byte and
  reports no error: \<open>writeToUAVTalk\<close> recovers from the failed type assertion.\<close>

theorem wrong_type_is_silent:
  assumes "wf_field f" and "fType f \<noteq> ''enum''" and "\<And>x. v \<noteq> GF64 x"
  shows "writeToUAVTalk rt f v = Inr []"
  using assms by (rule writeToUAVTalk_silent)

theorem wrong_type_is_silent_witness:
  "wf_field (ready 4 (raw_field ''ArmTime'' ''uint16'')) \<and>
   writeToUAVTalk sample_rt (ready 4 (raw_field ''ArmTime'' ''uint16'')) (GStr ''1000'') = Inr []"
proof -
  have h: "wf_field (ready 4 (raw_field ''ArmTime'' ''uint16''))" by code_simp
  have t: "fType (ready 4 (raw_field ''ArmTime'' ''uint16'')) \<noteq> ''enum''" by (simp add: ready_def raw_field_def)
  from h wrong_type_is_silent [OF h t, of "GStr ''1000''" sample_rt] show ?thesis by simp
qed

section \<open>Packets and frames\<close>

text \<open>C4: the frame \<open>toBinary\<close> makes of a well-formed packet is parsed back by \<open>newPacketFromBinary\<close>,
  whatever lies behind it in the receive buffer, into that packet with its decoded data; the instance id
  of a single-instance object is not transmitted.\<close>

theorem packet_roundtrip:
  assumes "packet_ok defs p" and "\<not> bit (pCmd p) 5"
    and "GetDefinitionForObjectID defs (dObjectID (defs ! pDefinition p)) = Inr (pDefinition p)"
  shows "\<exists>bs. toBinary rt defs p = Inr bs \<and>
    (\<forall>stale. newPacketFromBinary defs \<lparr>vis = bs, spare = stale\<rparr> = Inr (packet_dec rt defs p))"
proof -
  obtain bs where bs: "toBinary rt defs p = Inr bs" "is_frame (wire_length (defs ! pDefinition p) (pCmd p)) bs"
    using toBinary_frame [OF assms(1), of _ rt] by (metis add_increasing2 order_refl zero_le_numeral)
  then have len: "8 < length bs" by (simp add: is_frame_def)
  have "newPacketFromBinary defs \<lparr>vis = bs, spare = stale\<rparr> = parse_frame defs (take 8 bs) bs" for stale
    using newPacketFromBinary_parse [of "\<lparr>vis = bs, spare = stale\<rparr>" defs] len by simp
  with parse_frame_toBinary [OF assms(1) bs(1) assms(3,2)] bs(1) show ?thesis by simp
qed

theorem packet_roundtrip_witness:
  "packet_ok sample_defs waypoint_packet \<and>
   (\<exists>bs. toBinary sample_rt sample_defs waypoint_packet = Inr bs \<and>
    (\<forall>stale. newPacketFromBinary sample_defs \<lparr>vis = bs, spare = stale\<rparr> =
       Inr (packet_dec sample_rt sample_defs waypoint_packet)))"
proof -
  note s = sample_sendable(2) [unfolded sendable_def]
  from s packet_roundtrip [of sample_defs waypoint_packet sample_rt] show ?thesis by blast
qed

text \<open>C10: \<open>packetComplete\<close> returns one of three verdicts: keep waiting; a frame with sync byte, admissible
  length, all its bytes in the buffer and a correct checksum; or such a frame with a wrong checksum.\<close>

theorem packetComplete_verdict:
  "packetComplete m buffer = (False, 0, 0, None) \<or>
   (\<exists>lo hi. packetComplete m buffer = (True, lo, hi, None) \<and> candidate m buffer lo hi \<and> crc_ok buffer lo) \<or>
   (\<exists>lo hi. packetComplete m buffer = (False, lo, hi, Some WrongCrc8) \<and> candidate m buffer lo hi \<and> crc_ok buffer lo = False)"
  by (rule packetComplete_cases [of m buffer]) auto

text \<open>Once \<open>packetComplete\<close> has decided on a frame, bytes that arrive later do not change the decision.\<close>

theorem packetComplete_stable:
  assumes "packetComplete m xs \<noteq> (False, 0, 0, None)"
  shows "packetComplete m (xs @ ys) = packetComplete m xs"
  using assms by (rule packetComplete_append)

theorem packetComplete_stable_witness:
  "packetComplete 36 ack_frame \<noteq> (False, 0, 0, None) \<and>
   packetComplete 36 (ack_frame @ [0x3c, 0x20]) = packetComplete 36 ack_frame"
proof -
  have h: "packetComplete 36 ack_frame \<noteq> (False, 0, 0, None)"
    using packetComplete_frame [of "[]" 36 ack_frame "[]"] ack_frame(1) by simp
  from h packetComplete_stable [OF h] show ?thesis by (rule conjI)
qed

text \<open>The frame of a packet that fits the length limit is found and accepted wherever it stands in the
  buffer, behind any bytes that are not a sync byte and before any others.\<close>

theorem frame_accepted:
  assumes "packet_ok defs p" and "wire_length (defs ! pDefinition p) (pCmd p) \<le> m + 10" and "0x3c \<notin> set junk"
  shows "\<exists>f. toBinary rt defs p = Inr f \<and>
    packetComplete m (junk @ f @ rest) = (True, length junk, length junk + length f, None)"
  using toBinary_frame [OF assms(1,2), of rt] packetComplete_frame [OF assms(3)] by metis

theorem frame_accepted_witness:
  "packet_ok sample_defs attitude_packet \<and>
   (\<exists>f. toBinary sample_rt sample_defs attitude_packet = Inr f \<and>
     packetComplete 36 ([0x00, 0xff] @ f @ [0x3c]) = (True, length [0x00, 0xff :: byte], length [0x00, 0xff :: byte] + length f, None))"
proof -
  note s = sample_sendable(1) [unfolded sendable_def]
  have "0x3c \<notin> set [0x00, 0xff :: byte]" by simp
  with s frame_accepted [of sample_defs attitude_packet 36 "[0x00, 0xff]" sample_rt "[0x3c]"] show ?thesis by blast
qed

text \<open>What \<open>newPacketFromBinary\<close> makes of an accepted frame does not depend on the stale bytes in the
  backing array behind the buffer, although its header reads are bounded by the capacity only.\<close>

theorem stale_bytes_unused:
  assumes "packetComplete m buffer = (True, lo, hi, None)"
  shows "newPacketFromBinary defs (subslice buffer stale lo hi) = newPacketFromBinary defs (subslice buffer stale' lo hi)"
  using newPacketFromBinary_frame [OF packetComplete_found [OF assms] packetComplete_accepted [OF assms]] by simp

theorem stale_bytes_unused_witness:
  "packetComplete 36 ack_frame = (True, 0, 9, None) \<and>
   newPacketFromBinary sample_defs (subslice ack_frame [] 0 9) =
   newPacketFromBinary sample_defs (subslice ack_frame [1, 2, 3] 0 9)"
proof -
  have h: "packetComplete 36 ack_frame = (True, 0, 9, None)"
    using packetComplete_frame [of "[]" 36 ack_frame "[]"] ack_frame by simp
  from h stale_bytes_unused [OF h, of sample_defs "[]" "[1, 2, 3]"] show ?thesis by (rule conjI)
qed

text \<open>C37: an accepted frame of a known object whose length field is not larger than its header makes
  the reader panic: \<open>binaryPacket[headerSize : len(binaryPacket)-1]\<close> in \<open>newPacketFromBinary\<close> is out of
  range, and nothing recovers.\<close>

theorem short_frame_panics:
  assumes "packetComplete m (vis s) = (True, lo, hi, None)"
    and "GetDefinitionForObjectID defs (get_le (take 4 (drop (lo + 4) (vis s)))) = Inr p"
    and "hi - lo \<le> (if dSingleInstance (defs ! p) then 8 else 10)"
  shows "drain m defs s = ([], Inl Panic)"
proof -
  have "drop 4 (take 8 (drop lo (vis s))) = take 4 (drop (lo + 4) (vis s))" by (simp add: drop_take add.commute)
  moreover have "length (take (hi - lo) (drop lo (vis s))) \<le> (if dSingleInstance (defs ! p) then 8 else 10)"
    using assms(3) by (simp add: min_le_iff_disj)
  ultimately have "parse_frame defs (take 8 (drop lo (vis s))) (take (hi - lo) (drop lo (vis s))) = Inl Panic"
    unfolding parse_frame_def Let_def using assms(2) by (simp only: res_bind_Inr if_True)
  then have "frame_event defs (vis s) lo hi None = Inl Panic" by (simp add: frame_event_def)
  then have "rx_frame defs s lo hi None = Inl Panic" using rx_frame_event [OF assms(1)] by simp
  with assms(1) show ?thesis by (simp add: drain.simps)
qed

definition short_frame :: slice where
  "short_frame = \<lparr>vis = [0x3c, 0xb4, 0x01, 0x00, 0xe6, 0xd5, 0xda, 0x33], spare = replicate 4088 0\<rparr>"

theorem short_frame_panics_witness:
  "packetComplete 36 (vis short_frame) = (True, 0, 2, None) \<and> drain 36 sample_defs short_frame = ([], Inl Panic)"
proof -
  have "find_sync (vis short_frame) 0 = Some 0" "len_at (vis short_frame) 0 = 1" by code_simp+
  then have h: "packetComplete 36 (vis short_frame) = (True, 0, 2, None)"
    unfolding packetComplete_def
    by (subst packetComplete_from_unfold) (simp add: short_frame_def crc8Table_def)
  have "GetDefinitionForObjectID sample_defs (get_le (take 4 (drop (0 + 4) (vis short_frame)))) = Inr 0"
    by code_simp
  moreover have "dSingleInstance (sample_defs ! 0)" by (simp add: sample_defs_def attitude_def attitude_raw_def)
  ultimately have "drain 36 sample_defs short_frame = ([], Inl Panic)"
    using short_frame_panics [OF h] by simp
  with h show ?thesis by (rule conjI)
qed

end
