(* ===== verification/Definition_Properties.thy ===== *)
theory Definition_Properties
  imports Samples "HOL-Library.Multiset"
begin

text \<open>
  The properties of the object definitions: their processing after XML decoding, their
  lookup, the conversion of names to Latin-1, the object ids, and the loading of a directory.
\<close>

section \<open>Processing and lookup\<close>



text \<open>The clone loop of \<open>fieldProcess\<close>, which updates the fields one after the other in place, is the
  simultaneous replacement of every clone by the field it names, under its own name.\<close>

theorem clone_loop_simultaneous:
  assumes "clones_resolved fs"
  shows "cloneFields [0..<length fs] fs = Inr (map (resolve fs) fs)"
  using assms by (rule cloneFields_all)

definition clone_fields :: "FieldDefinition list" where
  "clone_fields = [(raw_field ''Max'' [])\<lparr>fCloneOf := ''Min''\<rparr>, raw_field ''Min'' ''int16'']"

theorem clone_loop_simultaneous_witness:
  "clones_resolved clone_fields \<and>
   cloneFields [0..<length clone_fields] clone_fields = Inr (map (resolve clone_fields) clone_fields)"
proof -
  have h: "clones_resolved clone_fields" by code_simp
  from h clone_loop_simultaneous [OF h] show ?thesis by (rule conjI)
qed

text \<open>The two definition lookups return the first entry with the key, and fail only when no entry has
  it; names are compared in lower case.\<close>

theorem lookup_first_match:
  "(GetDefinitionForObjectID defs oid = Inr i \<longleftrightarrow>
      i < length defs \<and> dObjectID (defs ! i) = oid \<and> list_all (\<lambda>d. dObjectID d \<noteq> oid) (take i defs)) \<and>
   (GetDefinitionForName rt defs nm = Inr i \<longleftrightarrow>
      i < length defs \<and> ToLower rt (dName (defs ! i)) = ToLower rt nm \<and>
      list_all (\<lambda>d. ToLower rt (dName d) \<noteq> ToLower rt nm) (take i defs))"
proof -
  have hit: "(case find_first P defs of None \<Rightarrow> Inl e | Some j \<Rightarrow> Inr j) = Inr i \<longleftrightarrow>
      i < length defs \<and> P (defs ! i) \<and> list_all (\<lambda>d. \<not> P d) (take i defs)" for P and e :: go_error
  proof -
    have "(case find_first P defs of None \<Rightarrow> Inl e | Some j \<Rightarrow> Inr j) = Inr i \<longleftrightarrow> find_first P defs = Some i"
      by (simp split: option.splits)
    then show ?thesis by (auto simp: find_first_Some_iff list_all_length)
  qed
  show ?thesis unfolding GetDefinitionForObjectID_def GetDefinitionForName_def hit by simp
qed

section \<open>Latin-1\<close>

text \<open>The translating writer of the charset package yields the same bytes however the text is split
  into \<open>Write\<close> calls, also in the middle of a UTF-8 sequence.\<close>

theorem writer_split_independent:
  "twOut (tw_Close tr (fold (tw_Write tr) ds NewTranslatingWriter)) =
   twOut (tw_Close tr (tw_Write tr (concat ds) NewTranslatingWriter))"
  using tw_Close_Writes [of tr ds NewTranslatingWriter] tw_Close_Writes [of tr "[concat ds]" NewTranslatingWriter]
  by simp

text \<open>\<open>toISO88591\<close> turns the UTF-8 text of code points below 256 into one byte per code point.\<close>

theorem toISO88591_latin1:
  assumes "str_bytes (Fprintf rt s) = concat (map encodeRune2 rs)" and "list_all (\<lambda>r. r < 256) rs"
  shows "toISO88591 rt s = Inr (map word_of_nat rs)"
  by (simp add: toISO88591_eq latin1_text_def assms(1) Translate_latin1 [OF assms(2)])

theorem toISO88591_latin1_witness:
  "str_bytes (Fprintf sample_rt [CHR ''m'', CHR 0xC2, CHR 0xB5]) = concat (map encodeRune2 [0x6D, 0xB5]) \<and>
   toISO88591 sample_rt [CHR ''m'', CHR 0xC2, CHR 0xB5] = Inr (map word_of_nat [0x6D, 0xB5])"
proof -
  have h: "str_bytes (Fprintf sample_rt [CHR ''m'', CHR 0xC2, CHR 0xB5]) = concat (map encodeRune2 [0x6D, 0xB5])"
    by code_simp
  have "list_all (\<lambda>r. r < 256) [0x6D, 0xB5 :: nat]" by simp
  from h toISO88591_latin1 [OF h this] show ?thesis by (rule conjI)
qed

section \<open>Object ids\<close>

text \<open>The object id is one pass of the rolling hash over the name, the two flags and the fields in
  their final order, with the lowest bit cleared.\<close>

theorem object_id_stream:
  assumes "list_all (\<lambda>f. fFieldTypeInfo f \<noteq> None) (dFields d)"
  shows "calculateID rt d = Inr (d\<lparr>dObjectID := fold updateHashWithInt (id_stream rt d) 0 AND 0xFFFFFFFE\<rparr>)"
  using assms by (rule calculateID_stream)

theorem object_id_stream_witness:
  "list_all (\<lambda>f. fFieldTypeInfo f \<noteq> None) (dFields attitude) \<and>
   calculateID sample_rt attitude =
     Inr (attitude\<lparr>dObjectID := fold updateHashWithInt (id_stream sample_rt attitude) 0 AND 0xFFFFFFFE\<rparr>)"
proof -
  have h: "list_all (\<lambda>f. fFieldTypeInfo f \<noteq> None) (dFields attitude)" by (simp add: sample_simps)
  from h object_id_stream [OF h] show ?thesis by (rule conjI)
qed

text \<open>The id the code computes for \<open>AttitudeActual\<close> is the one the README publishes, 869979622.\<close>

theorem attitude_published_id:
  "res_bind (FinishSetup attitude_raw) (calculateID rt) = Inr (attitude\<lparr>dMeta := None\<rparr>) \<and>
   dObjectID attitude = 869979622"
  by (simp add: sample_setup sample_id) (simp add: attitude_def)

section \<open>Loading\<close>

text \<open>C12: in every table that \<open>LoadDefinitions\<close> returns, definitions stand at even and their meta
  definitions at odd places, linked to each other; ids of definitions are even, each meta id is one more.\<close>

theorem loaded_table:
  assumes "LoadDefinitions rt fsys dir = Inr defs"
  shows "loaded defs"
  using assms by (rule LoadDefinitions_loaded)

theorem loaded_table_witness:
  "LoadDefinitions sample_rt sample_fsys ''uavobjects/'' = Inr sample_defs \<and> loaded sample_defs"
  using loaded_table [OF sample_load] sample_load by simp

text \<open>C36: a directory whose files all decode to well-formed objects loads without error, and every
  definition of the table has well-formed fields.\<close>

theorem load_succeeds:
  assumes "fs_ReadDir fsys dir = Inr names" and "list_all (\<lambda>name. good_file fsys (dir @ name)) names"
  shows "\<exists>defs. LoadDefinitions rt fsys dir = Inr defs \<and> length defs = 2 * length names \<and>
    list_all (\<lambda>d. list_all wf_field (dFields d)) defs"
proof -
  obtain defs where d: "loadFiles rt fsys dir names [] = Inr defs" "\<forall>d\<in>set defs. list_all wf_field (dFields d)"
    using loadFiles_ok [OF assms(2), of "[]" rt] by auto
  have "loaded []" by (simp add: loaded_def)
  with loadFiles_loaded [OF d(1)] d assms(1) show ?thesis
    by (simp add: LoadDefinitions_def newDefinitions_def list_all_iff)
qed

theorem load_succeeds_witness:
  "list_all (\<lambda>name. good_file sample_fsys (''uavobjects/'' @ name)) [''attitudeactual.xml'', ''sessionmanaging.xml'', ''waypoint.xml''] \<and>
   (\<exists>defs. LoadDefinitions sample_rt sample_fsys ''uavobjects/'' = Inr defs \<and>
     length defs = 2 * length [''attitudeactual.xml'', ''sessionmanaging.xml'', ''waypoint.xml''] \<and>
     list_all (\<lambda>d. list_all wf_field (dFields d)) defs)"
proof -
  have h: "list_all (\<lambda>name. good_file sample_fsys (''uavobjects/'' @ name)) [''attitudeactual.xml'', ''sessionmanaging.xml'', ''waypoint.xml'']"
    by code_simp
  have "fs_ReadDir sample_fsys ''uavobjects/'' = Inr [''attitudeactual.xml'', ''sessionmanaging.xml'', ''waypoint.xml'']"
    by (simp add: sample_fsys_def)
  from h load_succeeds [OF this h, of sample_rt] show ?thesis by (rule conjI)
qed

text \<open>When no two files hash to the same id, every id of the loaded table, definition or meta, finds
  its own entry.\<close>

theorem loaded_ids_unique:
  assumes "LoadDefinitions rt fsys dir = Inr defs" and "no_collision defs" and "i < length defs"
  shows "GetDefinitionForObjectID defs (dObjectID (defs ! i)) = Inr i"
  using loaded_lookup [OF LoadDefinitions_loaded [OF assms(1)] assms(2,3)] .

theorem loaded_ids_unique_witness:
  "no_collision sample_defs \<and> GetDefinitionForObjectID sample_defs (dObjectID (sample_defs ! 3)) = Inr 3"
  using loaded_ids_unique [OF sample_load sample_no_collision, of 3] sample_no_collision by simp

text \<open>The limit \<open>maxUAVObjectLength\<close> that \<open>Start\<close> computes is at least the length of every frame of every
  loaded object, so \<open>packetComplete\<close> never skips a legitimate frame for its length.\<close>

theorem length_limit:
  assumes "maxUAVObjectLength_loop defs 0 = Inr m" and "d \<in> set defs" and "list_all wf_field (dFields d)"
  shows "wire_length d cmd \<le> m"
  using maxUAVObjectLength_loop_bound [OF assms(1)] assms(2,3) by blast

theorem length_limit_witness: "maxUAVObjectLength_loop sample_defs 0 = Inr 36 \<and> wire_length waypoint 0 \<le> 36"
proof -
  have h: "maxUAVObjectLength_loop sample_defs 0 = Inr 36" by code_simp
  have "waypoint \<in> set sample_defs" by (simp add: sample_defs_def)
  moreover have "list_all wf_field (dFields waypoint)" by code_simp
  ultimately show ?thesis using length_limit [OF h] h by blast
qed

end
