(* ===== verification/Bridge_Properties.thy ===== *)
theory Bridge_Properties
  imports Samples
begin

text \<open>
  The properties of the USB link, of the goroutines of a connection and of the bridge in
  \<open>main.go\<close>.
\<close>

section \<open>The USB link\<close>

text \<open>\<open>NewUSBLink\<close> opens a device by the vendor and product id of the first enumerated device that is
  in the device table.\<close>

theorem device_choice:
  assumes "Enumerate hid 0 0 w = Inr devices" and "k < length devices" and "device_key (devices ! k) \<in> set deviceIDs"
    and "list_all (\<lambda>d. device_key d \<notin> set deviceIDs) (take k devices)"
  shows "NewUSBLink hid i w =
    (case Open hid (diVendorId (devices ! k)) (diProductId (devices ! k)) [] i w of
       (Inl e, i, w) \<Rightarrow> (Inl e, i, w)
     | (Inr h, i, w) \<Rightarrow> (Inr \<lparr>cc = h, fixedLengthWriteBuffer = replicate 64 0\<rparr>, i, w))"
proof -
  obtain j where j: "matchDevice devices = Some j"
    using assms(2,3) matchDevice_None [of devices] by (cases "matchDevice devices") auto
  from matchDevice_Some [OF this] obtain k' where k': "k' < length devices"
      "deviceIDs ! j = device_key (devices ! k')" "j < length deviceIDs"
      "\<forall>i<k'. device_key (devices ! i) \<notin> set deviceIDs"
    by blast
  have "\<not> k < k'" using k'(4) assms(3) by blast
  moreover have "\<not> k' < k" using assms(2,4) k'(2,3) by (auto simp: list_all_length dest: nth_mem [of j])
  ultimately have "deviceIDs ! j = (diVendorId (devices ! k), diProductId (devices ! k))"
    using k'(2) by (simp add: device_key_def)
  with assms(1) j show ?thesis by (simp add: NewUSBLink_def)
qed

definition sparky :: c_device_info where
  "sparky = \<lparr>cPath = [], cVendor = 0x20a0, cProduct = 0x41d0, cRelease = 0, cUsagePage = 0, cUsage = 0,
     cInterface = 0, cSerial = None, cManufacturer = None, cProductString = Some [0]\<rparr>"

definition sparky_info :: DeviceInfo where
  "sparky_info = \<lparr>diPath = [], diVendorId = 0x20a0, diProductId = 0x41d0, diSerialNumber = [], diReleaseNumber = 0,
     diManufacturer = [], diProduct = [], diUsagePage = 0, diUsage = 0, diInterfaceNumber = 0\<rparr>"

text \<open>A device that takes three bytes of every report and appears after the given number of seconds.\<close>

definition slow_device :: "nat hidapi" where
  "slow_device =
     idle_hidapi\<lparr>c_enumerate := (\<lambda>v p w. if w = 0 then Some [sparky\<lparr>cVendor := 1\<rparr>, sparky] else None),
       c_open := (\<lambda>v p s w. (Some 5, w)), c_write := (\<lambda>h r w. (3, Suc w))\<rparr>"

lemma slow_device_enumerate: "Enumerate slow_device 0 0 0 = Inr [sparky_info\<lparr>diVendorId := 1\<rparr>, sparky_info]"
  by (simp add: Enumerate_def device_info_def slow_device_def sparky_def sparky_info_def or_empty_def wide_string_def
      WcharStringPtrToGoString_def FromWcharStringPtr_def convertWcharStringToGoString_def bytes_str_def)

theorem device_choice_witness:
  "NewUSBLink slow_device False 0 =
    (case Open slow_device (diVendorId sparky_info) (diProductId sparky_info) [] False 0 of
       (Inl e, i, w) \<Rightarrow> (Inl e, i, w)
     | (Inr h, i, w) \<Rightarrow> (Inr \<lparr>cc = h, fixedLengthWriteBuffer = replicate 64 0\<rparr>, i, w))"
  using device_choice [OF slow_device_enumerate, of 1]
  by (simp add: device_key_def sparky_info_def deviceIDs_def)

text \<open>C35: \<open>usbLink.Write\<close> ends on every device whose writes either fail or take more than the two header
  bytes of a report; as many turns of the loop as there are bytes are enough.\<close>

theorem usb_write_ends:
  assumes "\<And>r w. r \<noteq> [] \<Longrightarrow> fst (c_write hid (cc l) r w) = - 1 \<or> 2 < fst (c_write hid (cc l) r w)"
  shows "\<exists>r. usb_Write hid (length b) b 0 l w = Some r"
  using assms by (rule usb_Write_ends) simp_all

theorem usb_write_ends_witness:
  "\<exists>r. usb_Write slow_device (length [1, 2, 3 :: byte]) [1, 2, 3 :: byte] 0 \<lparr>cc = 0, fixedLengthWriteBuffer = replicate 64 0\<rparr> 0 = Some r"
  by (rule usb_write_ends) (simp add: slow_device_def)

text \<open>On a device that takes whole reports, \<open>usbLink.Write\<close> sends the message as reports of 64 bytes
  with at most 62 bytes of payload each, in order, and returns without error. The count it returns is 62
  per report, which exceeds the length of the message unless that is a multiple of 62.\<close>

theorem usb_write_reports:
  assumes "accepts hid (cc l)" and "length (fixedLengthWriteBuffer l) = 64"
  shows "\<exists>l' rs. usb_Write hid (length b) b 0 l w = Some ((62 * length rs, None), l', send_all hid (cc l) rs w) \<and>
    list_all is_report rs \<and> concat (map report_payload rs) = b \<and> length rs = (length b + 61) div 62"
proof -
  let ?rs = "usb_reports (fixedLengthWriteBuffer l) b"
  obtain l' where "usb_Write hid (length b) b 0 l w = Some ((62 * length ?rs, None), l', send_all hid (cc l) ?rs w)"
    using usb_Write_reports [OF assms, of b 0 "length b" w] by (simp add: Let_def)
  with usb_reports_ok [OF assms(2), of b] show ?thesis by blast
qed

theorem usb_write_reports_witness:
  "\<exists>l' rs. usb_Write log_device (length [0x3c, 0x21 :: byte]) [0x3c, 0x21 :: byte] 0 \<lparr>cc = 0, fixedLengthWriteBuffer = replicate 64 0\<rparr> [] =
      Some ((62 * length rs, None), l', send_all log_device (cc \<lparr>cc = 0, fixedLengthWriteBuffer = replicate 64 0\<rparr>) rs []) \<and>
    list_all is_report rs \<and> concat (map report_payload rs) = [0x3c, 0x21] \<and>
    length rs = (length [0x3c, 0x21 :: byte] + 61) div 62"
  by (rule usb_write_reports) (simp_all add: accepts_def log_device_def)

text \<open>A report whose length byte exceeds the 64 bytes of the read buffer makes the reader panic on
  \<open>packet[0:n]\<close>.\<close>

theorem oversized_report_panics:
  assumes "c_read_timeout hid (cc l) 64 50 w = (64, r, w')" and "length r = 64" and "length packet = 64"
    and "64 < unat (r ! 1)"
  shows "fst (read_chunk hid l packet w) = Inl Panic"
  using assms by (rule read_chunk_oversize)

definition bad_report :: bytes where
  "bad_report = [1, 0xff] @ replicate 62 0"

theorem oversized_report_panics_witness:
  "fst (read_chunk replay_device \<lparr>cc = 0, fixedLengthWriteBuffer = []\<rparr> (replicate 64 0) [bad_report]) = Inl Panic"
  by (rule oversized_report_panics [where r = bad_report and w' = "[]"])
     (simp_all add: replay_device_def bad_report_def)

text \<open>\<open>start\<close> keeps retrying until a device can be opened: after \<open>k\<close> failed attempts, each logged,
  the next successful \<open>NewUSBLink\<close> ends the loop with its link.\<close>

theorem connect_succeeds:
  assumes "after_failures hid sleep k i w = Some (i', w')" and "NewUSBLink hid i' w' = (Inr l, i'', w'')"
  shows "\<exists>warns. connect hid sleep (Suc k) i w = Some (Inr l, warns, i'', w'') \<and> length warns = k"
  using assms by (rule connect_ends) simp

theorem connect_succeeds_witness:
  "\<exists>warns. connect slow_device (\<lambda>w. w - 1) (Suc 2) False 2 =
     Some (Inr \<lparr>cc = 5, fixedLengthWriteBuffer = replicate 64 0\<rparr>, warns, True, 0) \<and> length warns = 2"
proof (rule connect_succeeds)
  show "after_failures slow_device (\<lambda>w. w - 1) 2 False 2 = Some (False, 0)"
    by (simp add: slow_device_def idle_hidapi_def NewUSBLink_def Enumerate_def numeral_2_eq_2)
  show "NewUSBLink slow_device False 0 =
      (Inr \<lparr>cc = 5, fixedLengthWriteBuffer = replicate 64 0\<rparr>, True, 0)"
    by (simp add: NewUSBLink_def slow_device_enumerate sparky_info_def deviceIDs_def)
       (simp add: slow_device_def idle_hidapi_def Open_def serial_ptr_def hidInit_def)
qed

section \<open>The goroutines of a connection\<close>

text \<open>C6: in every state that the reader, the writer and the users of the two channels can reach in any
  interleaving, the packets delivered, queued and pending are exactly the packets of the bytes read so far,
  in order; the packets taken by the writer and those still queued are exactly the packets accepted, in
  order; and neither channel exceeds its capacity.\<close>

theorem channels_keep_order:
  assumes "conn_reach rt hid grow m defs s"
  shows "delivered s @ outChan s @ packets_of (pending s) = packets_of (fst (rx_spec m defs (arrived s))) \<and>
    accepted s = taken s @ inChan s \<and> length (outChan s) \<le> 100 \<and> length (inChan s) \<le> 100"
  using conn_reach_inv [OF assms] by (simp add: conn_inv_def)

definition start_conn :: "bytes list conn" where
  "start_conn = \<lparr>inChan = [], outChan = [], link = \<lparr>cc = 0, fixedLengthWriteBuffer = replicate 64 0\<rparr>,
     rpacket = replicate 64 0, rbuffer = rx_buffer, pending = [], failed = None, world = [], arrived = [],
     delivered = [], accepted = [], taken = []\<rparr>"

theorem channels_keep_order_witness:
  "conn_reach sample_rt log_device (\<lambda>c n. n) 36 sample_defs
     (start_conn\<lparr>inChan := [attitude_packet], accepted := [attitude_packet]\<rparr>) \<and>
   accepted (start_conn\<lparr>inChan := [attitude_packet], accepted := [attitude_packet]\<rparr>) = [] @ [attitude_packet]"
proof -
  let ?s = "start_conn\<lparr>inChan := [attitude_packet], accepted := [attitude_packet]\<rparr>"
  have 0: "conn_reach sample_rt log_device (\<lambda>c n. n) 36 sample_defs start_conn"
    unfolding start_conn_def by (rule conn_reach.start) simp
  have "conn_step sample_rt log_device (\<lambda>c n. n) 36 sample_defs start_conn ?s"
    using conn_step.enqueue [of start_conn sample_rt log_device "\<lambda>c n. n" 36 sample_defs attitude_packet]
    by (simp add: start_conn_def)
  with 0 have h: "conn_reach sample_rt log_device (\<lambda>c n. n) 36 sample_defs ?s" by (rule conn_reach.step)
  from h channels_keep_order [OF h] show ?thesis by (simp add: start_conn_def)
qed

section \<open>The session\<close>

text \<open>No sequence of handler calls, in whatever order packets arrive, moves the object counter back
  (so it never wraps around), and the active definitions always point into the table.\<close>

theorem session_counter_monotone:
  assumes "auth_run rt defs fts sm init_auth es s" and "auth_run rt defs fts sm s es' s'"
  shows "currentObjectID s \<le> currentObjectID s' \<and> list_all (\<lambda>p. p < length defs) (activeDefinitions s')"
  using auth_run_ok [OF assms(1)] auth_run_ok [OF assms(2)] by (simp add: auth_ok_def init_auth_def)

theorem session_counter_monotone_witness:
  "currentObjectID init_auth \<le> currentObjectID init_auth \<and> list_all (\<lambda>p. p < length sample_defs) (activeDefinitions init_auth)"
  by (rule session_counter_monotone) (rule auth_run.run_none)+

text \<open>C9: when the flight controller announces \<open>n\<close> objects and sends one acknowledged \<open>SessionManaging\<close>
  object after each request, the bridge acknowledges every one, requests the objects 0 to \<open>n - 1\<close> in order
  under one session id, the low 16 bits of the Unix time of the first, and ends with the completed fetch.\<close>

theorem session_fetches_all:
  assumes "GetDefinitionForName rt defs ''SessionManaging'' = Inr sm" and "list_all wf_field (dFields (defs ! sm))"
    and "sm \<noteq> fts" and "list_all (\<lambda>(now, p). announces sm n p) tps" and "announces sm n p"
    and "length tps = unat n" and "0 < n" and "currentObjectID s = 0" and "numberOfObjects s = n"
  shows "\<exists>s1 ess ack s2 es. session_run rt defs fts sm tps s = Inr (s1, ess) \<and> length ess = unat n \<and>
    sessionID s1 = unix_id (fst (hd tps)) \<and> CreatePacketAck defs sm = Inr ack \<and>
    (\<forall>i<unat n. hd (ess ! i) = ToFC ack \<and>
      (\<exists>pk. CreateSessionManagingPacket rt defs (unix_id (fst (hd tps))) (word_of_nat i) = Inr pk \<and>
            last (ess ! i) = ToFC pk)) \<and>
    sessionHandler rt defs fts sm now p s1 = Inr (s2, ToFC ack # es @ [FetchDone (now - start_time s1)]) \<and>
    currentObjectID s2 = n"
proof -
  have "tps \<noteq> []" using assms(6,7) by (auto simp: word_less_nat_alt)
  obtain s1 ess ack where run: "session_run rt defs fts sm tps s = Inr (s1, ess)" "length ess = length tps"
      "unat (currentObjectID s1) = unat (currentObjectID s) + length tps" "numberOfObjects s1 = n"
      "tps \<noteq> [] \<longrightarrow> sessionID s1 = unix_id (fst (hd tps))" "CreatePacketAck defs sm = Inr ack"
      "\<forall>i<length tps. hd (ess ! i) = ToFC ack \<and>
        (\<exists>pk. CreateSessionManagingPacket rt defs (unix_id (fst (hd tps))) (currentObjectID s + word_of_nat i) = Inr pk \<and>
              last (ess ! i) = ToFC pk)"
    using session_requests [OF assms(1-4,9), of "unix_id (fst (hd tps))"] assms(6,8) by auto
  have c: "currentObjectID s1 = n" using run(3) assms(6,8) by (simp add: word_unat_eq_iff)
  have "sm < length defs" using by_name.lookup_sound [OF assms(1)] by simp
  from session_finish [OF assms(5,3) run(4) _ this, of rt now] c
  obtain s2 es where "sessionHandler rt defs fts sm now p s1 = Inr (s2, ToFC ack # es @ [FetchDone (now - start_time s1)])"
      "currentObjectID s2 = n"
    using run(6) by auto
  with run \<open>tps \<noteq> []\<close> assms(6,8) show ?thesis by auto
qed

definition announcement :: Packet where
  "announcement = \<lparr>pDefinition = 2, pCmd = ObjectCmdWithAck, pLength = 17, pInstanceID = 0,
     pData = [(''NumberOfObjects'', GU8 1), (''ObjectID'', GU32 869979622)]\<rparr>"

lemma sample_session:
  "GetDefinitionForName sample_rt sample_defs ''SessionManaging'' = Inr 2"
  "list_all wf_field (dFields (sample_defs ! 2))" "announces 2 1 announcement"
  by code_simp+

theorem session_fetches_all_witness:
  "\<exists>s1 ess ack s2 es. session_run sample_rt sample_defs 0 2 [(1000000000, announcement)] (init_auth\<lparr>numberOfObjects := 1\<rparr>) =
      Inr (s1, ess) \<and> length ess = unat (1 :: 8 word) \<and>
    sessionID s1 = unix_id (fst (hd [(1000000000, announcement)])) \<and> CreatePacketAck sample_defs 2 = Inr ack \<and>
    (\<forall>i<unat (1 :: 8 word). hd (ess ! i) = ToFC ack \<and>
      (\<exists>pk. CreateSessionManagingPacket sample_rt sample_defs (unix_id (fst (hd [(1000000000, announcement)])))
              (word_of_nat i) = Inr pk \<and> last (ess ! i) = ToFC pk)) \<and>
    sessionHandler sample_rt sample_defs 0 2 2000000000 announcement s1 =
      Inr (s2, ToFC ack # es @ [FetchDone (2000000000 - start_time s1)]) \<and> currentObjectID s2 = 1"
  by (rule session_fetches_all) (use sample_session in \<open>simp_all add: init_auth_def\<close>)


definition after_fetch :: auth where
  "after_fetch = init_auth\<lparr>numberOfObjects := 1, currentObjectID := 1\<rparr>"


section \<open>Rotonde\<close>

text \<open>The action \<open>GET_X\<close> under which an object is published becomes a request packet for exactly that
  object, with no data, for instance 0.\<close>

theorem rotonde_get:
  assumes "names_distinct rt defs" and "i < length defs" and "ascii (dName (defs ! i))"
  shows "toUAVTalkPacket rt defs (Action (''GET_'' @ ToUpper rt (dName (defs ! i))) data) =
    Inr (Some \<lparr>pDefinition = i, pCmd = ObjectRequest, pLength = (if dSingleInstance (defs ! i) then 8 else 10),
               pInstanceID = 0, pData = []\<rparr>)"
  by (rule toUAVTalkPacket_get) (rule lookup_upper [OF assms])

lemma sample_names: "names_distinct sample_rt sample_defs" "ascii (dName (sample_defs ! 4))"
  by code_simp+

theorem rotonde_get_witness:
  "names_distinct sample_rt sample_defs \<and>
   toUAVTalkPacket sample_rt sample_defs (Action (''GET_'' @ ToUpper sample_rt (dName (sample_defs ! 4))) []) =
     Inr (Some \<lparr>pDefinition = 4, pCmd = ObjectRequest, pLength = (if dSingleInstance (sample_defs ! 4) then 8 else 10),
                pInstanceID = 0, pData = []\<rparr>)"
  using rotonde_get [OF sample_names(1) _ sample_names(2), of "[]"] sample_names(1) by simp

text \<open>C32: the action \<open>SET_X\<close> with values that fit the object becomes a packet for that object that can be
  encoded: with acknowledgement for settings, the instance taken from \<open>index\<close> when the object has several,
  and \<open>index\<close> removed from the data.\<close>

theorem rotonde_set:
  assumes "names_distinct rt defs" and "i < length defs" and "ascii (dName (defs ! i))"
    and "data_ok (defs ! i) data" and "''index'' \<notin> fName ` set (dFields (defs ! i))"
    and "wire_length (defs ! i) (set_cmd (defs ! i)) < 65536"
  shows "\<exists>p. toUAVTalkPacket rt defs (Action (''SET_'' @ ToUpper rt (dName (defs ! i))) data) = Inr (Some p) \<and>
    packet_ok defs p \<and> pDefinition p = i \<and> pCmd p = set_cmd (defs ! i) \<and>
    pInstanceID p = set_index rt (defs ! i) data \<and> pData p = set_data (defs ! i) data"
proof -
  note l = lookup_upper [OF assms(1-3)]
  obtain p where "NewPacket defs i (set_cmd (defs ! i)) (set_index rt (defs ! i) data) (set_data (defs ! i) data) = Inr p"
      "packet_ok defs p" "pDefinition p = i" "pCmd p = set_cmd (defs ! i)"
      "pInstanceID p = set_index rt (defs ! i) data" "pData p = set_data (defs ! i) data"
    using NewPacket_ok [OF assms(2,6) data_ok_set_data [OF assms(4,5)]] by blast
  with toUAVTalkPacket_set [OF l, of data] show ?thesis by simp
qed

theorem rotonde_set_witness:
  "data_ok (sample_defs ! 4) ((''index'', GF64 (f64_of_u32 7)) # waypoint_data) \<and>
   (\<exists>p. toUAVTalkPacket sample_rt sample_defs (Action (''SET_'' @ ToUpper sample_rt (dName (sample_defs ! 4)))
          ((''index'', GF64 (f64_of_u32 7)) # waypoint_data)) = Inr (Some p) \<and>
    packet_ok sample_defs p \<and> pDefinition p = 4 \<and> pCmd p = set_cmd (sample_defs ! 4) \<and>
    pInstanceID p = set_index sample_rt (sample_defs ! 4) ((''index'', GF64 (f64_of_u32 7)) # waypoint_data) \<and>
    pData p = set_data (sample_defs ! 4) ((''index'', GF64 (f64_of_u32 7)) # waypoint_data))"
proof -
  let ?data = "(''index'', GF64 (f64_of_u32 7)) # waypoint_data"
  have "data_ok (sample_defs ! 4) waypoint_data" by code_simp
  then have h: "data_ok (sample_defs ! 4) ?data" by (simp add: data_ok_def gmap_get_def sample_simps)
  have i: "''index'' \<notin> fName ` set (dFields (sample_defs ! 4))" by (simp add: sample_simps)
  have w: "wire_length (sample_defs ! 4) (set_cmd (sample_defs ! 4)) < 65536" by code_simp
  from h rotonde_set [OF sample_names(1) _ sample_names(2) h i w] show ?thesis by simp
qed

text \<open>The stream handler answers an object sent with acknowledgement by an acknowledgement of the same
  object and forwards its data under the upper-case name; it asks for a settings object to be saved when that
  object is acknowledged, but never when the save request itself is, so saving does not loop.\<close>

theorem stream_reactions:
  assumes "pDefinition p < length defs"
  shows "(pCmd p = ObjectCmdWithAck \<longrightarrow> (\<exists>ack. CreatePacketAck defs (pDefinition p) = Inr ack \<and>
      streamHandler rt defs op p = Inr [ToFC ack, ToClient (ToUpper rt (dName (defs ! pDefinition p))) (pData p)])) \<and>
    (pCmd p = ObjectAck \<and> dSettings (defs ! pDefinition p) \<and> pDefinition p \<noteq> op \<longrightarrow>
      streamHandler rt defs op p =
        res_bind (CreatePersistObject rt defs (pDefinition p) (pInstanceID p)) (\<lambda>persist. Inr [ToFC persist])) \<and>
    (pCmd p = ObjectAck \<and> pDefinition p = op \<longrightarrow> streamHandler rt defs op p = Inr [])"
proof -
  obtain ack where "CreatePacketAck defs (pDefinition p) = Inr ack" using CreatePacketAck_ok [OF assms] by blast
  with assms show ?thesis by (auto simp: streamHandler_def toRotondePacket_def get_def_def)
qed

theorem stream_reactions_witness:
  "\<exists>ack. CreatePacketAck sample_defs 4 = Inr ack \<and>
     streamHandler sample_rt sample_defs 0 waypoint_packet =
       Inr [ToFC ack, ToClient (ToUpper sample_rt (dName (sample_defs ! 4))) waypoint_data]"
  using stream_reactions [of waypoint_packet sample_defs sample_rt 0] by (simp add: waypoint_packet_def)

text \<open>C39: the setters queued after a fetch share one map. When the writer encodes a setter only after the
  next one was queued, the first object is configured with the modes of the second.\<close>

theorem shared_meta_race:
  assumes "fetchSetter rt defs p initial_meta = Inr (pk, meta)" and "fetchSetter rt defs q meta = Inr (pk', meta')"
  shows "\<exists>s1 s2 s3. setter_step rt defs \<lparr>todo = [p, q], shared_meta = initial_meta, queued = [], encoded = []\<rparr> s1 \<and>
    setter_step rt defs s1 s2 \<and> setter_step rt defs s2 s3 \<and>
    map pDefinition (encoded s3) = [pDefinition pk] \<and>
    map (\<lambda>k. gmap_get (pData k) ''modes'') (encoded s3) = [GF64 (f64_of_u32 (modes_of (defs ! q)))]"
proof -
  let ?s0 = "\<lparr>todo = [p, q], shared_meta = initial_meta, queued = [], encoded = []\<rparr> :: setters"
  let ?s1 = "\<lparr>todo = [q], shared_meta = meta, queued = [pk], encoded = []\<rparr> :: setters"
  let ?s2 = "\<lparr>todo = [], shared_meta = meta', queued = [pk, pk'], encoded = []\<rparr> :: setters"
  let ?s3 = "\<lparr>todo = [], shared_meta = meta', queued = [pk'], encoded = [pk\<lparr>pData := meta'\<rparr>]\<rparr> :: setters"
  have "setter_step rt defs ?s0 ?s1" using setter_step.push [of ?s0 p "[q]" rt defs pk meta] assms(1) by simp
  moreover have "setter_step rt defs ?s1 ?s2" using setter_step.push [of ?s1 q "[]" rt defs pk' meta'] assms(2) by simp
  moreover have "setter_step rt defs ?s2 ?s3" using setter_step.take [of ?s2 pk "[pk']" rt defs] by simp
  ultimately show ?thesis
    using fetchSetter_modes(1) [OF assms(2)] by (intro exI [of _ ?s1] exI [of _ ?s2] exI [of _ ?s3]) simp
qed

text \<open>\<open>AttitudeActual\<close> is not acknowledged, \<open>Waypoint\<close> is: the first is sent the modes of the second.\<close>

lemma sample_meta_names:
  "GetDefinitionForName sample_rt sample_defs (dName (sample_defs ! 1)) = Inr 1"
  "GetDefinitionForName sample_rt sample_defs (dName (sample_defs ! 5)) = Inr 5"
  "ByteLength (dFields (sample_defs ! 1)) = Inr 7" "ByteLength (dFields (sample_defs ! 5)) = Inr 7"
  "dMeta (sample_defs ! 0) = Some 1" "dMeta (sample_defs ! 4) = Some 5"
  "dSingleInstance (sample_defs ! 1)" "dSingleInstance (sample_defs ! 5)"
  by code_simp+

definition with_modes :: "defptr \<Rightarrow> gmap \<Rightarrow> gmap" where
  "with_modes p meta = AList.update ''modes'' (GF64 (f64_of_u32 (modes_of (sample_defs ! p)))) meta"

definition meta_setter :: "defptr \<Rightarrow> gmap \<Rightarrow> Packet" where
  "meta_setter mp meta = \<lparr>pDefinition = mp, pCmd = ObjectCmd, pLength = 15, pInstanceID = 0, pData = meta\<rparr>"

lemma sample_setters:
  "fetchSetter sample_rt sample_defs 0 meta = Inr (meta_setter 1 (with_modes 0 meta), with_modes 0 meta)"
  "fetchSetter sample_rt sample_defs 4 meta = Inr (meta_setter 5 (with_modes 4 meta), with_modes 4 meta)"
  using sample_meta_names
  by (simp_all add: fetchSetter_def CreateObjectSetter_def NewPacket_def get_def_def meta_setter_def with_modes_def Let_def
      del: One_nat_def)

theorem shared_meta_race_witness:
  "modes_of (sample_defs ! 0) = 0 \<and> modes_of (sample_defs ! 4) = 4 \<and>
   (\<exists>s1 s2 s3. setter_step sample_rt sample_defs \<lparr>todo = [0, 4], shared_meta = initial_meta, queued = [], encoded = []\<rparr> s1 \<and>
    setter_step sample_rt sample_defs s1 s2 \<and> setter_step sample_rt sample_defs s2 s3 \<and>
    map pDefinition (encoded s3) = [pDefinition (meta_setter 1 (with_modes 0 initial_meta))] \<and>
    map (\<lambda>k. gmap_get (pData k) ''modes'') (encoded s3) = [GF64 (f64_of_u32 (modes_of (sample_defs ! 4)))])"
proof -
  have "modes_of (sample_defs ! 0) = 0" "modes_of (sample_defs ! 4) = 4" by code_simp+
  with shared_meta_race [OF sample_setters] show ?thesis by blast
qed

end
