(* ===== verification/System.thy ===== *)
theory System
  imports Pipeline Bridge Loading
begin

text \<open>
  The process as a whole: \<open>main\<close> and \<open>chanCast\<close> (\<open>main.go\<close>) put the goroutines of \<open>start\<close>
  (\<open>uavtalk.go\<close>), the handlers and the goroutine of a finished fetch together over the two
  channels \<open>fcInChan\<close> and \<open>fcOutChan\<close>. Each goroutine is a group of rules of one step
  relation; a rule of \<open>sys_input\<close> takes something from outside (a report, a rotonde action), a
  rule of \<open>sys_internal\<close> does not.

  \<open>handlers.go\<close> is not part of the sources. What it does with a packet is a parameter: \<open>pCalls\<close>
  gives the handlers it calls for a packet, each inner list in order and the inner lists
  concurrently; \<open>pAdmit\<close> says when it takes another packet, given the calls in progress.

  The lemmas show that the process, left alone, cannot run for ever, that it can only stop
  with nothing left to do, and that then every packet of the bytes read was handled and every
  packet sent was written: the cycle from the reader over the handlers and the two bounded
  channels to the writer cannot deadlock.
\<close>

section \<open>Handlers and goroutines\<close>

datatype handler = DisconnectedHandler | SessionHandler | StreamHandler

record task =
  tPacket :: Packet
  tCalls :: "handler list"
  tEffects :: "effect list"

definition task_done :: "task \<Rightarrow> bool" where
  "task_done t \<longleftrightarrow> tCalls t = [] \<and> tEffects t = []"

text \<open>
  The goroutine started at the end of a fetch: before and in its sleep, in its first loop
  before a turn and before the send of a turn, in its second loop. \<open>range\<close> evaluates
  \<open>activeDefinitions\<close> when a loop starts.
\<close>

datatype phase = Sleeping | Setting "defptr list" | Sending Packet "defptr list" | Publishing "defptr list" | Finished

record fetch =
  fPhase :: phase
  fMeta :: gmap

text \<open>
  The data of a packet in \<open>fcInChan\<close> is a map of its own or the one map that a fetch goroutine
  shares between its packets.
\<close>

datatype chan_data = Own | Shared nat

definition chan_packet :: "fetch list \<Rightarrow> chan_data \<times> Packet \<Rightarrow> Packet" where
  "chan_packet fs sp = (case sp of (Own, p) \<Rightarrow> p | (Shared g, p) \<Rightarrow> p\<lparr>pData := fMeta (fs ! g)\<rparr>)"

text \<open>What does not change while the process runs.\<close>

record 'w process =
  pRt :: runtime
  pDefs :: definitions
  pHid :: "'w hidapi"
  pGrow :: "nat \<Rightarrow> nat \<Rightarrow> nat"
  pMax :: int
  pSessionManaging :: defptr
  pFlightTelemetryStats :: defptr
  pObjectPersistence :: defptr
  pCalls :: "Packet \<Rightarrow> handler list list"
  pAdmit :: "task list \<Rightarrow> bool"

text \<open>
  \<open>ended\<close> is the panic or the \<open>log.Fatal\<close> that ended the process, \<open>readFailed\<close> the one the reader
  comes to once its pending events are delivered. The fields from \<open>bytesRead\<close> on record what
  happened.
\<close>

record 'w system =
  fcInChan :: "(chan_data \<times> Packet) list"
  fcOutChan :: "Packet list"
  castChan :: "Packet option"
  usb_link :: usbLink
  readPacket :: bytes
  readBuffer :: slice
  readEvents :: "rx_event list"
  readFailed :: "go_error option"
  ended :: "go_error option"
  outside :: 'w
  authState :: auth
  tasks :: "task list"
  fetches :: "fetch list"
  actions :: "Packet list"
  bytesRead :: bytes
  handled :: "Packet list"
  sent :: "(chan_data \<times> Packet) list"
  written :: "(chan_data \<times> Packet) list"
  encodedPackets :: "Packet list"
  clientMsgs :: "(string \<times> gmap) list"
  announced :: "Definition list"

definition run_handler :: "'w process \<Rightarrow> int \<Rightarrow> handler \<Rightarrow> Packet \<Rightarrow> auth \<Rightarrow> (auth \<times> effect list) res" where
  "run_handler P now h p s =
     (case h of
        DisconnectedHandler \<Rightarrow>
          res_bind (authFilter (pDefs P) p) (\<lambda>ok.
          if ok then disconnectedHandler (pRt P) (pDefs P) (pFlightTelemetryStats P) p s else Inr (s, []))
      | SessionHandler \<Rightarrow>
          res_bind (authFilter (pDefs P) p) (\<lambda>ok.
          if ok then sessionHandler (pRt P) (pDefs P) (pFlightTelemetryStats P) (pSessionManaging P) now p s else Inr (s, []))
      | StreamHandler \<Rightarrow>
          res_bind (streamFilter (pDefs P) p) (\<lambda>ok.
          if ok then res_bind (streamHandler (pRt P) (pDefs P) (pObjectPersistence P) p) (\<lambda>es. Inr (s, es)) else Inr (s, [])))"

text \<open>A turn of the second loop of a fetch: the two arguments of \<open>sendAsRotondeDefinitions\<close>.\<close>

definition publish :: "definitions \<Rightarrow> defptr \<Rightarrow> Definition list res" where
  "publish defs p =
     res_bind (get_def defs p) (\<lambda>d. res_bind (deref (dMeta d)) (\<lambda>mp. res_bind (get_def defs mp) (\<lambda>m. Inr [d, m])))"

section \<open>The start of the process\<close>

definition first_state :: "usbLink \<Rightarrow> 'w \<Rightarrow> effect list \<Rightarrow> 'w system" where
  "first_state l w es =
     (let q = concat (map (\<lambda>e. case e of ToFC p \<Rightarrow> [(Own, p)] | _ \<Rightarrow> []) es)
      in \<lparr>fcInChan = q, fcOutChan = [], castChan = None, usb_link = l, readPacket = replicate MaxHIDFrameSize 0,
          readBuffer = rx_buffer, readEvents = [], readFailed = None, ended = None, outside = w,
          authState = init_auth, tasks = [], fetches = [], actions = [], bytesRead = [], handled = [], sent = q,
          written = [], encodedPackets = [], clientMsgs = [], announced = []\<rparr>)"

text \<open>
  \<open>main\<close>, for the link \<open>l\<close> that \<open>start\<close> connects to. \<open>os.Args[0]\<close> of an empty list of arguments panics.
\<close>

definition main_start :: "runtime \<Rightarrow> fsys \<Rightarrow> string list \<Rightarrow> 'w hidapi \<Rightarrow> (nat \<Rightarrow> nat \<Rightarrow> nat) \<Rightarrow>
    (Packet \<Rightarrow> handler list list) \<Rightarrow> (task list \<Rightarrow> bool) \<Rightarrow> usbLink \<Rightarrow> 'w \<Rightarrow> ('w process \<times> 'w system) res" where
  "main_start rt fsys args hid grow calls admit l w =
     (if args = [] then Inl Panic
      else if length args < 2 then Inl (Fatal (IOError (''Usage: '' @ args ! 0 @ '' common_directory/'')))
      else
        res_bind (LoadDefinitions rt fsys (args ! 1)) (\<lambda>defs.
        res_bind (maxUAVObjectLength_loop defs 0) (\<lambda>m.
        res_bind (initAuthHandlers rt defs) (\<lambda>(sessionManaging, flightTelemetryStats, es).
        res_bind (initStreamHandlers rt defs) (\<lambda>objectPersistence.
        Inr (\<lparr>pRt = rt, pDefs = defs, pHid = hid, pGrow = grow, pMax = m, pSessionManaging = sessionManaging,
              pFlightTelemetryStats = flightTelemetryStats, pObjectPersistence = objectPersistence,
              pCalls = calls, pAdmit = admit\<rparr>,
             first_state l w es))))))"

section \<open>Steps\<close>

text \<open>From outside: the reader's \<open>link.Read\<close> and the callback of \<open>client.OnAction\<close>.\<close>

inductive sys_input :: "'w process \<Rightarrow> 'w system \<Rightarrow> 'w system \<Rightarrow> bool" for P where
  in_read: "ended s = None \<Longrightarrow> readEvents s = [] \<Longrightarrow> readFailed s = None \<Longrightarrow>
    read_chunk (pHid P) (usb_link s) (readPacket s) (outside s) = (Inr chunk, packet, w) \<Longrightarrow>
    rx_read (pGrow P) (pMax P) (pDefs P) chunk (readBuffer s) = (evs, r) \<Longrightarrow>
    sys_input P s
      (s\<lparr>readPacket := packet, outside := w, bytesRead := bytesRead s @ chunk, readEvents := evs,
         readBuffer := (case r of Inr b \<Rightarrow> b | Inl _ \<Rightarrow> readBuffer s),
         readFailed := (case r of Inr _ \<Rightarrow> None | Inl e \<Rightarrow> Some e)\<rparr>)"
| in_read_error: "ended s = None \<Longrightarrow> readEvents s = [] \<Longrightarrow> readFailed s = None \<Longrightarrow>
    read_chunk (pHid P) (usb_link s) (readPacket s) (outside s) = (Inl e, packet, w) \<Longrightarrow>
    sys_input P s (s\<lparr>readPacket := packet, outside := w, ended := Some e\<rparr>)"
| in_action: "ended s = None \<Longrightarrow> toUAVTalkPacket (pRt P) (pDefs P) i = Inr q \<Longrightarrow>
    sys_input P s (s\<lparr>actions := actions s @ (case q of None \<Rightarrow> [] | Some p \<Rightarrow> [p])\<rparr>)"
| in_action_error: "ended s = None \<Longrightarrow> toUAVTalkPacket (pRt P) (pDefs P) i = Inl e \<Longrightarrow>
    sys_input P s (s\<lparr>ended := Some e\<rparr>)"

abbreviation room :: "'w system \<Rightarrow> bool" where "room s \<equiv> length (fcInChan s) < chan_capacity"

definition send_fc :: "chan_data \<times> Packet \<Rightarrow> 'w system \<Rightarrow> 'w system" where
  "send_fc sp s = s\<lparr>fcInChan := fcInChan s @ [sp], sent := sent s @ [sp]\<rparr>"

definition set_task :: "nat \<Rightarrow> task \<Rightarrow> 'w system \<Rightarrow> 'w system" where
  "set_task i t s = s\<lparr>tasks := (tasks s)[i := t]\<rparr>"

definition set_fetch :: "nat \<Rightarrow> fetch \<Rightarrow> 'w system \<Rightarrow> 'w system" where
  "set_fetch g f s = s\<lparr>fetches := (fetches s)[g := f]\<rparr>"

inductive sys_internal :: "'w process \<Rightarrow> 'w system \<Rightarrow> 'w system \<Rightarrow> bool" for P where
  \<comment> \<open>the reader, \<open>chanCast\<close> and the dispatch of \<open>handlers.go\<close>\<close>
  deliver_packet: "ended s = None \<Longrightarrow> readEvents s = RxPacket p # evs \<Longrightarrow> length (fcOutChan s) < chan_capacity \<Longrightarrow>
    sys_internal P s (s\<lparr>readEvents := evs, fcOutChan := fcOutChan s @ [p]\<rparr>)"
| deliver_warning: "ended s = None \<Longrightarrow> readEvents s = RxWarn e n # evs \<Longrightarrow> sys_internal P s (s\<lparr>readEvents := evs\<rparr>)"
| reader_ends: "ended s = None \<Longrightarrow> readEvents s = [] \<Longrightarrow> readFailed s = Some e \<Longrightarrow>
    sys_internal P s (s\<lparr>ended := Some e\<rparr>)"
| chanCast: "ended s = None \<Longrightarrow> fcOutChan s = p # ps \<Longrightarrow> castChan s = None \<Longrightarrow>
    sys_internal P s (s\<lparr>fcOutChan := ps, castChan := Some p\<rparr>)"
| dispatch: "ended s = None \<Longrightarrow> castChan s = Some p \<Longrightarrow> pAdmit P (filter (\<lambda>t. \<not> task_done t) (tasks s)) \<Longrightarrow>
    sys_internal P s (s\<lparr>castChan := None, handled := handled s @ [p],
      tasks := tasks s @ map (\<lambda>hs. \<lparr>tPacket = p, tCalls = hs, tEffects = []\<rparr>) (pCalls P p)\<rparr>)"
  \<comment> \<open>a handler is called and its effects take place\<close>
| call: "ended s = None \<Longrightarrow> i < length (tasks s) \<Longrightarrow> tasks s ! i = t \<Longrightarrow> tEffects t = [] \<Longrightarrow> tCalls t = h # hs \<Longrightarrow>
    run_handler P now h (tPacket t) (authState s) = Inr (a, es) \<Longrightarrow>
    sys_internal P s (set_task i (t\<lparr>tCalls := hs, tEffects := es\<rparr>) (s\<lparr>authState := a\<rparr>))"
| call_fails: "ended s = None \<Longrightarrow> i < length (tasks s) \<Longrightarrow> tasks s ! i = t \<Longrightarrow> tEffects t = [] \<Longrightarrow> tCalls t = h # hs \<Longrightarrow>
    run_handler P now h (tPacket t) (authState s) = Inl e \<Longrightarrow> sys_internal P s (s\<lparr>ended := Some e\<rparr>)"
| effect_send: "ended s = None \<Longrightarrow> i < length (tasks s) \<Longrightarrow> tasks s ! i = t \<Longrightarrow> tEffects t = ToFC p # es \<Longrightarrow> room s \<Longrightarrow>
    sys_internal P s (set_task i (t\<lparr>tEffects := es\<rparr>) (send_fc (Own, p) s))"
| effect_fetch: "ended s = None \<Longrightarrow> i < length (tasks s) \<Longrightarrow> tasks s ! i = t \<Longrightarrow> tEffects t = FetchDone spent # es \<Longrightarrow>
    sys_internal P s (set_task i (t\<lparr>tEffects := es\<rparr>)
      (s\<lparr>fetches := fetches s @ [\<lparr>fPhase = Sleeping, fMeta = initial_meta\<rparr>]\<rparr>))"
| effect_warn: "ended s = None \<Longrightarrow> i < length (tasks s) \<Longrightarrow> tasks s ! i = t \<Longrightarrow> tEffects t = Warn e # es \<Longrightarrow>
    sys_internal P s (set_task i (t\<lparr>tEffects := es\<rparr>) s)"
| effect_client: "ended s = None \<Longrightarrow> i < length (tasks s) \<Longrightarrow> tasks s ! i = t \<Longrightarrow> tEffects t = ToClient name data # es \<Longrightarrow>
    sys_internal P s (set_task i (t\<lparr>tEffects := es\<rparr>) (s\<lparr>clientMsgs := clientMsgs s @ [(name, data)]\<rparr>))"
  \<comment> \<open>the goroutine of a finished fetch\<close>
| fetch_wakes: "ended s = None \<Longrightarrow> g < length (fetches s) \<Longrightarrow> fetches s ! g = f \<Longrightarrow> fPhase f = Sleeping \<Longrightarrow>
    sys_internal P s (set_fetch g (f\<lparr>fPhase := Setting (activeDefinitions (authState s))\<rparr>) s)"
| fetch_sets: "ended s = None \<Longrightarrow> g < length (fetches s) \<Longrightarrow> fetches s ! g = f \<Longrightarrow> fPhase f = Setting (d # ds) \<Longrightarrow>
    fetchSetter (pRt P) (pDefs P) d (fMeta f) = Inr (setter, meta) \<Longrightarrow>
    sys_internal P s (set_fetch g \<lparr>fPhase = Sending setter ds, fMeta = meta\<rparr> s)"
| fetch_sets_fails: "ended s = None \<Longrightarrow> g < length (fetches s) \<Longrightarrow> fetches s ! g = f \<Longrightarrow> fPhase f = Setting (d # ds) \<Longrightarrow>
    fetchSetter (pRt P) (pDefs P) d (fMeta f) = Inl e \<Longrightarrow> sys_internal P s (s\<lparr>ended := Some e\<rparr>)"
| fetch_sends: "ended s = None \<Longrightarrow> g < length (fetches s) \<Longrightarrow> fetches s ! g = f \<Longrightarrow> fPhase f = Sending setter ds \<Longrightarrow> room s \<Longrightarrow>
    sys_internal P s (set_fetch g (f\<lparr>fPhase := Setting ds\<rparr>) (send_fc (Shared g, setter) s))"
| fetch_turns: "ended s = None \<Longrightarrow> g < length (fetches s) \<Longrightarrow> fetches s ! g = f \<Longrightarrow> fPhase f = Setting [] \<Longrightarrow>
    sys_internal P s (set_fetch g (f\<lparr>fPhase := Publishing (activeDefinitions (authState s))\<rparr>) s)"
| fetch_publishes: "ended s = None \<Longrightarrow> g < length (fetches s) \<Longrightarrow> fetches s ! g = f \<Longrightarrow> fPhase f = Publishing (d # ds) \<Longrightarrow>
    publish (pDefs P) d = Inr defs \<Longrightarrow>
    sys_internal P s (set_fetch g (f\<lparr>fPhase := Publishing ds\<rparr>) (s\<lparr>announced := announced s @ defs\<rparr>))"
| fetch_publishes_fails: "ended s = None \<Longrightarrow> g < length (fetches s) \<Longrightarrow> fetches s ! g = f \<Longrightarrow> fPhase f = Publishing (d # ds) \<Longrightarrow>
    publish (pDefs P) d = Inl e \<Longrightarrow> sys_internal P s (s\<lparr>ended := Some e\<rparr>)"
| fetch_ends: "ended s = None \<Longrightarrow> g < length (fetches s) \<Longrightarrow> fetches s ! g = f \<Longrightarrow> fPhase f = Publishing [] \<Longrightarrow>
    sys_internal P s (set_fetch g (f\<lparr>fPhase := Finished\<rparr>) s)"
  \<comment> \<open>the callback of an action, the writer\<close>
| action_sends: "ended s = None \<Longrightarrow> actions s = p # ps \<Longrightarrow> room s \<Longrightarrow>
    sys_internal P s (send_fc (Own, p) (s\<lparr>actions := ps\<rparr>))"
| writer_takes: "ended s = None \<Longrightarrow> fcInChan s = sp # sps \<Longrightarrow>
    writer_turn (pRt P) (pDefs P) (pHid P) fuel (chan_packet (fetches s) sp) (usb_link s) (outside s) = Some (res, l, w) \<Longrightarrow>
    sys_internal P s
      (s\<lparr>fcInChan := sps, written := written s @ [sp], encodedPackets := encodedPackets s @ [chan_packet (fetches s) sp],
         usb_link := l, outside := w, ended := (case res of Inr _ \<Rightarrow> None | Inl e \<Rightarrow> Some e)\<rparr>)"

inductive sys_reach :: "'w process \<Rightarrow> 'w system \<Rightarrow> bool" for P where
  reach_start: "length (fixedLengthWriteBuffer l) = 64 \<Longrightarrow> sys_reach P (first_state l w [ToFC p])"
| reach_input: "sys_reach P s \<Longrightarrow> sys_input P s s' \<Longrightarrow> sys_reach P s'"
| reach_internal: "sys_reach P s \<Longrightarrow> sys_internal P s s' \<Longrightarrow> sys_reach P s'"

inductive_cases sys_internalE: "sys_internal P s s'"

section \<open>Left alone, the process stops\<close>

lemma sum_update_less:
  "i < length xs \<Longrightarrow> f y < f (xs ! i) \<Longrightarrow> (\<Sum>x\<leftarrow>xs[i := y]. f x) < (\<Sum>x\<leftarrow>xs. f x)" for f :: "'a \<Rightarrow> nat"
proof (induction xs arbitrary: i)
  case (Cons x xs)
  then show ?case by (cases i) auto
qed simp

lemma sum_update_eq:
  "i < length xs \<Longrightarrow> f y = f (xs ! i) \<Longrightarrow> (\<Sum>x\<leftarrow>xs[i := y]. f x) = (\<Sum>x\<leftarrow>xs. f x)" for f :: "'a \<Rightarrow> nat"
proof (induction xs arbitrary: i)
  case (Cons x xs)
  then show ?case by (cases i) auto
qed simp

fun phase_rank :: "phase \<Rightarrow> nat" where
  "phase_rank Sleeping = 3"
| "phase_rank (Setting ds) = 2"
| "phase_rank (Sending p ds) = 2"
| "phase_rank (Publishing ds) = 1"
| "phase_rank Finished = 0"

fun phase_work :: "phase \<Rightarrow> nat" where
  "phase_work (Setting ds) = 2 * length ds"
| "phase_work (Sending p ds) = 2 * length ds + 1"
| "phase_work (Publishing ds) = Suc (length ds)"
| "phase_work _ = 0"

text \<open>
  What is left to do, most significant first: packets on their way to the handlers, calls,
  effects, phases and turns of fetch goroutines, actions, packets on their way to the writer.
\<close>

definition sys_measures :: "('w system \<Rightarrow> nat) list" where
  "sys_measures =
     [\<lambda>s. if ended s = None then 1 else 0,
      \<lambda>s. 3 * length (readEvents s) + 2 * length (fcOutChan s) + (if castChan s = None then 0 else 1),
      \<lambda>s. \<Sum>t\<leftarrow>tasks s. length (tCalls t),
      \<lambda>s. \<Sum>t\<leftarrow>tasks s. length (tEffects t),
      \<lambda>s. \<Sum>f\<leftarrow>fetches s. phase_rank (fPhase f),
      \<lambda>s. \<Sum>f\<leftarrow>fetches s. phase_work (fPhase f),
      \<lambda>s. length (actions s),
      \<lambda>s. length (fcInChan s)]"

lemmas update_sums =
  sum_update_less [where f = "\<lambda>t. length (tCalls t)"] sum_update_eq [where f = "\<lambda>t. length (tCalls t)"]
  sum_update_less [where f = "\<lambda>t. length (tEffects t)"]
  sum_update_less [where f = "\<lambda>f. phase_rank (fPhase f)"] sum_update_eq [where f = "\<lambda>f. phase_rank (fPhase f)"]
  sum_update_less [where f = "\<lambda>f. phase_work (fPhase f)"]

lemmas sys_updates = set_task_def set_fetch_def send_fc_def

lemma sys_internal_decreases: "sys_internal P s s' \<Longrightarrow> (s', s) \<in> measures sys_measures"
proof (induction rule: sys_internal.induct)
  case (writer_takes s sp sps fuel res l w)
  then show ?case by (cases res) (simp_all add: sys_measures_def)
qed (simp_all add: sys_measures_def sys_updates update_sums)

lemma sys_internal_wf: "wfp (\<lambda>s' s. sys_internal P s s')"
proof -
  have "wf (measures (sys_measures :: ('a system \<Rightarrow> nat) list))" by simp
  then have "wf {(s', s). sys_internal P s s'}"
    by (rule wf_subset) (auto intro: sys_internal_decreases)
  then show ?thesis by (simp add: wfp_def)
qed

section \<open>It stops only when nothing is left to do\<close>

definition at_rest :: "'w system \<Rightarrow> bool" where
  "at_rest s \<longleftrightarrow>
     readEvents s = [] \<and> readFailed s = None \<and> fcOutChan s = [] \<and> castChan s = None \<and>
     list_all task_done (tasks s) \<and> list_all (\<lambda>f. fPhase f = Finished) (fetches s) \<and>
     actions s = [] \<and> fcInChan s = []"

text \<open>A device whose writes fail or take more than the two header bytes of a report.\<close>

definition makes_progress :: "'w hidapi \<Rightarrow> bool" where
  "makes_progress hid \<longleftrightarrow> (\<forall>h r w. r \<noteq> [] \<longrightarrow> fst (c_write hid h r w) = - 1 \<or> 2 < fst (c_write hid h r w))"

definition stuck :: "'w process \<Rightarrow> 'w system \<Rightarrow> bool" where
  "stuck P s \<longleftrightarrow> \<not> (\<exists>s'. sys_internal P s s')"

lemma writer_turn_ends:
  assumes "makes_progress hid"
  shows "\<exists>fuel res l' w'. writer_turn rt defs hid fuel p l w = Some (res, l', w')"
proof (cases "toBinary rt defs p")
  case (Inl e)
  then show ?thesis by (cases e) (auto simp: writer_turn_def)
next
  case (Inr b)
  obtain r where "usb_Write hid (length b) b 0 l w = Some r"
    using usb_Write_ends [of hid l b 0 "length b" w] assms by (auto simp: makes_progress_def)
  with Inr have "\<exists>res l' w'. writer_turn rt defs hid (length b) p l w = Some (res, l', w')"
    by (auto simp: writer_turn_def split: prod.splits option.splits)
  then show ?thesis by blast
qed

lemma stuck_writer:
  assumes "stuck P s" and "ended s = None" and "makes_progress (pHid P)"
  shows "fcInChan s = []"
proof (rule ccontr)
  assume "fcInChan s \<noteq> []"
  then obtain sp sps where "fcInChan s = sp # sps" by (auto simp: neq_Nil_conv)
  with writer_turn_ends [OF assms(3), of "pRt P" "pDefs P" "chan_packet (fetches s) sp" "usb_link s" "outside s"] assms(1,2)
  show False unfolding stuck_def by (blast intro: sys_internal.writer_takes)
qed

lemma stuck_task:
  assumes "stuck P s" and "ended s = None" and "room s" and i: "i < length (tasks s)"
  shows "task_done (tasks s ! i)"
proof (rule ccontr)
  assume nd: "\<not> task_done (tasks s ! i)"
  note no = assms(1) [unfolded stuck_def] and rules = assms(2) i refl
  show False
  proof (cases "tEffects (tasks s ! i)")
    case (Cons e es)
    then show False using no sys_internal.effect_send [OF rules _ assms(3)] sys_internal.effect_fetch [OF rules]
        sys_internal.effect_warn [OF rules] sys_internal.effect_client [OF rules] by (cases e) blast+
  next
    case Nil
    with nd obtain h hs where "tCalls (tasks s ! i) = h # hs" by (auto simp: task_done_def neq_Nil_conv)
    with Nil no sys_internal.call [OF rules Nil, of h hs P 0] sys_internal.call_fails [OF rules Nil, of h hs P 0]
    show False by (cases "run_handler P 0 h (tPacket (tasks s ! i)) (authState s)") auto
  qed
qed

lemma stuck_fetch:
  assumes "stuck P s" and "ended s = None" and "room s" and g: "g < length (fetches s)"
  shows "fPhase (fetches s ! g) = Finished"
proof (rule ccontr)
  assume nf: "fPhase (fetches s ! g) \<noteq> Finished"
  note no = assms(1) [unfolded stuck_def] and rules = assms(2) g refl
  show False
  proof (cases "fPhase (fetches s ! g)")
    case Sleeping
    then show False using no sys_internal.fetch_wakes [OF rules] by blast
  next
    case (Setting ds)
    then show False using no sys_internal.fetch_turns [OF rules] sys_internal.fetch_sets [OF rules, of "hd ds" "tl ds" P]
        sys_internal.fetch_sets_fails [OF rules, of "hd ds" "tl ds" P]
      by (cases ds; cases "fetchSetter (pRt P) (pDefs P) (hd ds) (fMeta (fetches s ! g))") auto
  next
    case (Sending p ds)
    then show False using no sys_internal.fetch_sends [OF rules _ assms(3)] by blast
  next
    case (Publishing ds)
    then show False using no sys_internal.fetch_ends [OF rules] sys_internal.fetch_publishes [OF rules, of "hd ds" "tl ds" P]
        sys_internal.fetch_publishes_fails [OF rules, of "hd ds" "tl ds" P]
      by (cases ds; cases "publish (pDefs P) (hd ds)") auto
  qed (use nf in simp)
qed

lemma stuck_at_rest:
  assumes "stuck P s" and "ended s = None" and "makes_progress (pHid P)" and "pAdmit P []"
  shows "at_rest s"
proof -
  note no = assms(1) [unfolded stuck_def]
  have inchan: "fcInChan s = []" using assms(1-3) by (rule stuck_writer)
  then have r: "room s" by simp
  have ts: "list_all task_done (tasks s)" using stuck_task [OF assms(1,2) r] by (simp add: list_all_length)
  have fs: "list_all (\<lambda>f. fPhase f = Finished) (fetches s)" using stuck_fetch [OF assms(1,2) r] by (simp add: list_all_length)
  have acts: "actions s = []"
    using no sys_internal.action_sends [OF assms(2) _ r] by (metis neq_Nil_conv)
  have "filter (\<lambda>t. \<not> task_done t) (tasks s) = []" using ts by (simp add: list_all_iff)
  then have cast: "castChan s = None"
    using no sys_internal.dispatch [OF assms(2)] assms(4) by (metis option.exhaust)
  then have out: "fcOutChan s = []"
    using no sys_internal.chanCast [OF assms(2)] by (metis neq_Nil_conv)
  have evs: "readEvents s = []"
  proof (cases "readEvents s")
    case (Cons e es)
    then show ?thesis using no out sys_internal.deliver_packet [OF assms(2)] sys_internal.deliver_warning [OF assms(2)]
      by (cases e) auto
  qed
  then have "readFailed s = None"
    using no sys_internal.reader_ends [OF assms(2)] by (metis option.exhaust)
  with inchan ts fs acts cast out evs show ?thesis by (simp add: at_rest_def)
qed

section \<open>Nothing is lost\<close>

definition sys_inv :: "'w process \<Rightarrow> 'w system \<Rightarrow> bool" where
  "sys_inv P s \<longleftrightarrow>
     handled s @ (case castChan s of None \<Rightarrow> [] | Some p \<Rightarrow> [p]) @ fcOutChan s @ packets_of (readEvents s) =
       packets_of (fst (rx_spec (pMax P) (pDefs P) (bytesRead s))) \<and>
     (readFailed s = None \<longrightarrow> snd (rx_spec (pMax P) (pDefs P) (bytesRead s)) = Inr (vis (readBuffer s))) \<and>
     sent s = written s @ fcInChan s \<and> length (encodedPackets s) = length (written s) \<and>
     length (fcInChan s) \<le> chan_capacity \<and> length (fcOutChan s) \<le> chan_capacity"

lemma sys_input_inv: "sys_input P s s' \<Longrightarrow> sys_inv P s \<Longrightarrow> sys_inv P s'"
proof (induction rule: sys_input.induct)
  case (in_read s chunk packet w evs r)
  note a = rx_read_arrived [OF _ in_read.hyps(5), of "bytesRead s"]
  from in_read show ?case by (auto simp: sys_inv_def a split: sum.splits)
qed (simp_all add: sys_inv_def)

lemma sys_internal_inv: "sys_internal P s s' \<Longrightarrow> sys_inv P s \<Longrightarrow> sys_inv P s'"
  by (induction rule: sys_internal.induct) (simp_all add: sys_inv_def sys_updates)

lemma sys_reach_inv: "sys_reach P s \<Longrightarrow> sys_inv P s"
proof (induction rule: sys_reach.induct)
  case (reach_start l w p)
  show ?case by (simp add: sys_inv_def first_state_def Let_def rx_spec_wait rx_buffer_def)
qed (rule sys_input_inv sys_internal_inv; assumption)+

lemma sys_internal_bytes: "(sys_internal P)\<^sup>*\<^sup>* s s' \<Longrightarrow> bytesRead s' = bytesRead s"
proof (induction rule: rtranclp_induct)
  case (step t u)
  from step.hyps(2) have "bytesRead u = bytesRead t"
    by (induction rule: sys_internal.induct) (simp_all add: sys_updates)
  with step.IH show ?case by simp
qed simp

lemma sys_reach_internal: "(sys_internal P)\<^sup>*\<^sup>* s s' \<Longrightarrow> sys_reach P s \<Longrightarrow> sys_reach P s'"
  by (induction rule: rtranclp_induct) (auto intro: reach_internal)

lemma at_rest_complete:
  assumes "sys_inv P s" and "at_rest s"
  shows "handled s = packets_of (fst (rx_spec (pMax P) (pDefs P) (bytesRead s)))" and "written s = sent s"
  using assms by (auto simp: sys_inv_def at_rest_def)

section \<open>What a handler must do is done\<close>

text \<open>
  \<open>h\<close> answers \<open>p\<close> with the effect \<open>e\<close>: it is called for \<open>p\<close>, and every successful call has the effect.
  Until it has taken place the call or the effect is outstanding.
\<close>

definition performed :: "effect \<Rightarrow> 'w system \<Rightarrow> bool" where
  "performed e s \<longleftrightarrow>
     (case e of ToFC q \<Rightarrow> (Own, q) \<in> set (sent s)
      | FetchDone _ \<Rightarrow> fetches s \<noteq> []
      | Warn _ \<Rightarrow> True
      | ToClient name data \<Rightarrow> (name, data) \<in> set (clientMsgs s))"

definition answers :: "'w process \<Rightarrow> handler \<Rightarrow> Packet \<Rightarrow> effect \<Rightarrow> bool" where
  "answers P h p e \<longleftrightarrow>
     (\<exists>hs\<in>set (pCalls P p). h \<in> set hs) \<and>
     (\<forall>now a a' es. run_handler P now h p a = Inr (a', es) \<longrightarrow> e \<in> set es)"

definition task_owes :: "handler \<Rightarrow> Packet \<Rightarrow> effect \<Rightarrow> task \<Rightarrow> bool" where
  "task_owes h p e t \<longleftrightarrow> tPacket t = p \<and> (h \<in> set (tCalls t) \<or> e \<in> set (tEffects t))"

definition answered :: "handler \<Rightarrow> Packet \<Rightarrow> effect \<Rightarrow> 'w system \<Rightarrow> bool" where
  "answered h p e s \<longleftrightarrow> p \<in> set (handled s) \<longrightarrow> performed e s \<or> (\<exists>t\<in>set (tasks s). task_owes h p e t)"

lemma set_update_keep: "t \<in> set xs \<Longrightarrow> t \<noteq> xs ! i \<Longrightarrow> t \<in> set (xs[i := y])"
  by (metis in_set_conv_nth length_list_update nth_list_update_neq)

lemma answered_task:
  assumes "answered h p e s" and "i < length (tasks s)"
    and "handled s' = handled s" and "performed e s \<Longrightarrow> performed e s'" and "tasks s' = (tasks s)[i := t']"
    and "task_owes h p e (tasks s ! i) \<Longrightarrow> task_owes h p e t' \<or> performed e s'"
  shows "answered h p e s'"
  unfolding answered_def assms(3)
proof
  assume "p \<in> set (handled s)"
  with assms(1) consider "performed e s" | t where "t \<in> set (tasks s)" "task_owes h p e t"
    by (auto simp: answered_def)
  then show "performed e s' \<or> (\<exists>t\<in>set (tasks s'). task_owes h p e t)"
  proof cases
    case (2 t)
    show ?thesis
    proof (cases "t = tasks s ! i")
      case True
      with 2 assms(2,5,6) show ?thesis by (metis set_update_memI)
    next
      case False
      with 2 assms(5) set_update_keep show ?thesis by metis
    qed
  qed (use assms(4) in blast)
qed

lemma performed_mono:
  "performed e s \<Longrightarrow> set (sent s) \<subseteq> set (sent s') \<Longrightarrow> set (clientMsgs s) \<subseteq> set (clientMsgs s') \<Longrightarrow>
   (fetches s' = [] \<Longrightarrow> fetches s = []) \<Longrightarrow> performed e s'"
  by (auto simp: performed_def split: effect.splits)

lemma answered_same:
  "answered h p e s \<Longrightarrow> handled s' = handled s \<Longrightarrow> tasks s' = tasks s \<Longrightarrow> set (sent s) \<subseteq> set (sent s') \<Longrightarrow>
   set (clientMsgs s) \<subseteq> set (clientMsgs s') \<Longrightarrow> (fetches s' = [] \<Longrightarrow> fetches s = []) \<Longrightarrow> answered h p e s'"
  using performed_mono [of e s s'] by (auto simp: answered_def)

lemma sys_internal_answered:
  assumes "answers P h p e"
  shows "sys_internal P s s' \<Longrightarrow> answered h p e s \<Longrightarrow> answered h p e s'"
proof (induction rule: sys_internal.induct)
  case (dispatch s p')
  show ?case
  proof (cases "p' = p")
    case True
    from assms obtain hs where "hs \<in> set (pCalls P p)" "h \<in> set hs" by (auto simp: answers_def)
    then have "task_owes h p e \<lparr>tPacket = p, tCalls = hs, tEffects = []\<rparr>" by (simp add: task_owes_def)
    with True \<open>hs \<in> set (pCalls P p)\<close> show ?thesis by (fastforce simp: answered_def)
  next
    case False
    with dispatch show ?thesis by (auto simp: answered_def performed_def split: effect.splits)
  qed
next
  case (call s i t h' hs now a es)
  have "h = h' \<Longrightarrow> tPacket t = p \<Longrightarrow> e \<in> set es" using assms call.hyps(6) by (auto simp: answers_def)
  then show ?case using call
    by (intro answered_task [OF call.prems call.hyps(2), where t' = "t\<lparr>tCalls := hs, tEffects := es\<rparr>"])
       (auto simp: sys_updates task_owes_def performed_def split: effect.splits)
next
  case (effect_send s i t p' es)
  then show ?case
    by (intro answered_task [OF effect_send.prems effect_send.hyps(2), where t' = "t\<lparr>tEffects := es\<rparr>"])
       (auto simp: sys_updates task_owes_def performed_def split: effect.splits)
next
  case (effect_fetch s i t spent es)
  then show ?case
    by (intro answered_task [OF effect_fetch.prems effect_fetch.hyps(2), where t' = "t\<lparr>tEffects := es\<rparr>"])
       (auto simp: sys_updates task_owes_def performed_def split: effect.splits)
next
  case (effect_warn s i t err es)
  then show ?case
    by (intro answered_task [OF effect_warn.prems effect_warn.hyps(2), where t' = "t\<lparr>tEffects := es\<rparr>"])
       (auto simp: sys_updates task_owes_def performed_def split: effect.splits)
next
  case (effect_client s i t name data es)
  then show ?case
    by (intro answered_task [OF effect_client.prems effect_client.hyps(2), where t' = "t\<lparr>tEffects := es\<rparr>"])
       (auto simp: sys_updates task_owes_def performed_def split: effect.splits)
qed (erule answered_same; force simp: sys_updates)+

lemma sys_reach_answered:
  assumes "answers P h p e"
  shows "sys_reach P s \<Longrightarrow> answered h p e s"
proof (induction rule: sys_reach.induct)
  case (reach_start l w p)
  show ?case by (simp add: answered_def first_state_def Let_def)
next
  case (reach_input s s')
  from reach_input.hyps(2) reach_input.IH show ?case
    by (induction rule: sys_input.induct) (erule answered_same; simp)+
next
  case (reach_internal s s')
  from assms reach_internal.hyps(2) reach_internal.IH show ?case by (rule sys_internal_answered)
qed

lemma at_rest_answered:
  assumes "sys_reach P s" and "at_rest s" and "answers P h p e"
    and "p \<in> set (packets_of (fst (rx_spec (pMax P) (pDefs P) (bytesRead s))))"
  shows "performed e s" and "sent s = written s"
proof -
  note full = at_rest_complete [OF sys_reach_inv [OF assms(1)] assms(2)]
  have "\<not> task_owes h p e t" if "t \<in> set (tasks s)" for t
    using that assms(2) by (auto simp: at_rest_def task_owes_def task_done_def list_all_iff)
  with sys_reach_answered [OF assms(3,1)] assms(4) full show "performed e s" "sent s = written s"
    by (auto simp: answered_def)
qed

end
