(* ===== verification/System_Properties.thy ===== *)
theory System_Properties
  imports System Samples
begin

text \<open>
  The properties of the process as a whole, and a process for their witnesses: the sample
  definitions, a device that takes every report, a dispatcher that calls every handler for
  every packet and takes one packet at a time.
\<close>

definition sample_link :: "bytes list hidapi" where
  "sample_link = replay_device\<lparr>c_write := (\<lambda>h r w. (64, w))\<rparr>"

definition sample_process :: "bytes list process" where
  "sample_process =
     \<lparr>pRt = sample_rt, pDefs = sample_defs, pHid = sample_link, pGrow = (\<lambda>c n. n), pMax = 36,
      pSessionManaging = 2, pFlightTelemetryStats = 100, pObjectPersistence = 101,
      pCalls = (\<lambda>p. [[DisconnectedHandler, SessionHandler], [StreamHandler]]), pAdmit = (\<lambda>ts. ts = [])\<rparr>"

text \<open>The state after the report with the frame of \<open>waypoint_packet\<close> was read.\<close>

definition waypoint_report :: bytes where
  "waypoint_report = fill_report (replicate 64 0) (frame_of sample_rt sample_defs waypoint_packet)"

definition sample_usb :: usbLink where
  "sample_usb = \<lparr>cc = 0, fixedLengthWriteBuffer = replicate 64 0\<rparr>"

lemma sample_progress: "makes_progress (pHid sample_process)" "pAdmit sample_process []"
  by (simp_all add: makes_progress_def sample_process_def sample_link_def)

lemma waypoint_read: "\<exists>packet w. read_chunk sample_link sample_usb (replicate 64 0) [waypoint_report] =
    (Inr (frame_of sample_rt sample_defs waypoint_packet), packet, w)"
proof -
  have len: "length (frame_of sample_rt sample_defs waypoint_packet) \<le> 62"
    using sendable_frame(2) [OF sample_sendable(2), of sample_rt] by (auto simp: is_frame_def)
  then have r: "is_report waypoint_report" "report_payload waypoint_report = frame_of sample_rt sample_defs waypoint_packet"
    using fill_report_ok [of "replicate 64 0" "frame_of sample_rt sample_defs waypoint_packet"]
    by (simp_all add: waypoint_report_def)
  have c: "c_read_timeout sample_link (cc sample_usb) 64 50 [waypoint_report] = (64, waypoint_report, [])"
    using r(1) by (simp add: sample_link_def replay_device_def is_report_def)
  obtain packet' where "usb_Read sample_link sample_usb (replicate 64 0) [waypoint_report] =
      (Inr (int (length (report_payload waypoint_report))), packet', [])"
    "take (length (report_payload waypoint_report)) packet' = report_payload waypoint_report" "length packet' = 64"
    by (rule usb_Read_report [OF r(1) c, of "replicate 64 0"]) simp_all
  with r(2) len show ?thesis by (simp add: read_chunk_def)
qed

lemma waypoint_reached:
  "\<exists>s. sys_reach sample_process s \<and> bytesRead s = frame_of sample_rt sample_defs waypoint_packet"
proof -
  let ?s = "first_state sample_usb [waypoint_report] [ToFC attitude_packet]"
  let ?f = "frame_of sample_rt sample_defs waypoint_packet"
  have r0: "sys_reach sample_process ?s" by (rule reach_start) (simp add: sample_usb_def)
  obtain packet w where rd: "read_chunk sample_link sample_usb (replicate 64 0) [waypoint_report] = (Inr ?f, packet, w)"
    using waypoint_read by blast
  obtain evs r where x: "rx_read (pGrow sample_process) (pMax sample_process) (pDefs sample_process) ?f (readBuffer ?s) = (evs, r)"
    by fastforce
  have "\<exists>s'. sys_input sample_process ?s s' \<and> bytesRead s' = ?f"
    by (intro exI conjI, rule in_read [OF _ _ _ _ x])
       (use rd in \<open>simp_all add: first_state_def Let_def sample_process_def\<close>)
  with r0 show ?thesis by (blast intro: reach_input)
qed

lemma waypoint_packets:
  "packets_of (fst (rx_spec 36 sample_defs (frame_of sample_rt sample_defs waypoint_packet))) =
   [packet_dec sample_rt sample_defs waypoint_packet]"
  using rx_spec_frames [of 36 sample_defs "[([], waypoint_packet)]" sample_rt "[]"] sample_sendable(2)
  by (simp add: rx_spec_wait)

section \<open>The process comes to rest\<close>



section \<open>Objects are acknowledged and published\<close>

lemma stream_answers:
  assumes "pCmd p = ObjectCmdWithAck" and "pDefinition p < length (pDefs P)"
    and "\<not> authPackets_contains (dName (pDefs P ! pDefinition p))" and "CreatePacketAck (pDefs P) (pDefinition p) = Inr ack"
    and "\<exists>hs\<in>set (pCalls P p). StreamHandler \<in> set hs"
  shows "answers P StreamHandler p (ToFC ack)"
    and "answers P StreamHandler p (ToClient (ToUpper (pRt P) (dName (pDefs P ! pDefinition p))) (pData p))"
  using assms
  by (auto simp: answers_def run_handler_def streamFilter_def streamHandler_def toRotondePacket_def get_def_def)



end
