(* ===== verification/Hid_Properties.thy ===== *)
theory Hid_Properties
  imports Hid
begin

text \<open>
  The properties of the wide strings of \<open>cgo.wchar\<close> and of the functions of \<open>hid.go\<close> that
  exchange them with the C library, and an \<open>iconv\<close> for their witnesses: descriptor 0 decodes
  UTF-8, descriptor 1 encodes it.
\<close>

fun le_chars :: "bytes \<Rightarrow> nat list" where
  "le_chars (b0 # b1 # b2 # b3 # rest) = unat (get_le [b0, b1, b2, b3] :: wchar) # le_chars rest"
| "le_chars _ = []"

definition fitting :: "bytes \<Rightarrow> nat \<Rightarrow> bytes \<times> string option" where
  "fitting out n = (if length out \<le> n then (out, None) else ([], Some ''argument list too long''))"

definition sample_iconv :: iconv_lib where
  "sample_iconv =
     \<lparr>iconv_open = (\<lambda>tocode fromcode. (Some (if tocode = iconvCharsetWchar then 0 else 1), None)),
      iconv = (\<lambda>cd b n. fitting (if cd = 0 then utf32_text (string_runes b) else utf8_text (le_chars b)) n),
      behind = [0x41, 0x42, 0]\<rparr>"

lemma le_chars_put: "le_chars (put_le 4 (w :: wchar) @ rest) = unat w # le_chars rest"
proof -
  obtain b0 b1 b2 b3 where b: "put_le 4 w = [b0, b1, b2, b3]" by (simp add: numeral_eq_Suc)
  have "get_le (put_le 4 w) = w" by simp
  with b show ?thesis by simp
qed

lemma le_chars_text: "list_all code_point cs \<Longrightarrow> le_chars (utf32_text cs) = cs"
  by (induction cs) (simp_all add: utf32_text_def le_chars_put)

lemma sample_converts: "converts sample_iconv"
  by (simp add: converts_def sample_iconv_def fitting_def string_runes_utf8 le_chars_text)

section \<open>Texts\<close>

text \<open>A text of characters other than zero, at least one of them below \<open>0x10000\<close>, survives
  \<open>FromGoString\<close> and \<open>GoString\<close>; in between it is its code points and a terminating zero.\<close>

theorem wchar_roundtrip:
  assumes "converts ic" and "list_all scalar cs" and "\<exists>c\<in>set cs. c < 0x10000"
  shows "FromGoString ic (utf8_text cs) = Inr (map word_of_nat cs @ [0])"
    and "WcharString_GoString ic (map word_of_nat cs @ [0]) = Inr (utf8_text cs)"
proof -
  have ne: "cs \<noteq> []" using assms(3) by auto
  show "FromGoString ic (utf8_text cs) = Inr (map word_of_nat cs @ [0])"
    using assms(1,2) ne by (rule FromGoString_text)
  show "WcharString_GoString ic (map word_of_nat cs @ [0]) = Inr (utf8_text cs)"
    using GoString_text [OF assms(1,2) ne, of "[0]"] assms(3) by simp
qed

text \<open>Without a character below \<open>0x10000\<close> the output buffer is filled to its last byte and
  \<open>C.GoString\<close> runs on into the memory behind it.\<close>

theorem wchar_unterminated:
  assumes "converts ic" and "list_all scalar cs" and "cs \<noteq> []" and "list_all (\<lambda>c. 0x10000 \<le> c) cs"
    and "behind ic = junk @ 0 # rest" and "0 \<notin> set junk"
  shows "WcharString_GoString ic (map word_of_nat cs @ [0]) = Inr (utf8_text cs @ junk)"
proof -
  have "\<not> (\<exists>c\<in>set cs. c < 0x10000)" using assms(4) by (auto simp: list_all_iff)
  then have "WcharString_GoString ic (map word_of_nat cs @ [0]) = C_GoString (utf8_text cs @ junk @ 0 # rest)"
    using GoString_text [OF assms(1-3), of "[0]"] assms(5) by auto
  moreover have "\<forall>b\<in>set (utf8_text cs @ junk). b \<noteq> 0"
    using utf8_text_nonzero [OF assms(2)] assms(6) by auto
  then have "takeWhile (\<lambda>b. b \<noteq> 0) ((utf8_text cs @ junk) @ 0 # rest) = utf8_text cs @ junk"
    by (subst takeWhile_append2) auto
  ultimately show ?thesis by (simp add: C_GoString_def)
qed

lemma ptr_loop_text: "list_all scalar cs \<Longrightarrow> ptr_loop (map word_of_nat cs @ 0 # rest) = Inr (map word_of_nat cs)"
  by (induction cs) simp_all

lemma wide_string_text:
  assumes "converts (c_iconv hid)" and "list_all scalar cs" and "\<exists>c\<in>set cs. c < 0x10000"
  shows "wide_string hid (Some (map word_of_nat cs @ 0 # rest)) = Inr (bytes_str (utf8_text cs))"
proof -
  have "cs \<noteq> []" using assms(3) by auto
  from GoString_text [OF assms(1,2) this, of "[]"] assms(3) ptr_loop_text [OF assms(2), of rest] show ?thesis
    by (simp add: wide_string_def WcharStringPtrToGoString_def FromWcharStringPtr_def WcharString_GoString_def)
qed

section \<open>Devices\<close>

text \<open>C30: a device is reopened by its serial number. Whatever text the C library reports as the serial number
  of an enumerated device, with at least one character below \<open>0x10000\<close>, \<open>DeviceInfo.Device\<close> hands the same
  zero-terminated wide string back to it, with the vendor and product of the device.\<close>

theorem reopen_by_serial:
  assumes "converts (c_iconv hid)" and "list_all scalar cs" and "\<exists>c\<in>set cs. c < 0x10000"
    and "c_enumerate hid v p w = Some (pre @ c # post)" and "cSerial c = Some (map word_of_nat cs @ 0 # rest)"
    and "Enumerate hid v p w = Inr dil"
  shows "di_Device hid (dil ! length pre) True w' =
    (case c_open hid (cVendor c) (cProduct c) (Some (map word_of_nat cs @ [0])) w' of
       (None, w) \<Rightarrow> (Inl (IOError ''Unable to open device.''), True, w)
     | (Some h, w) \<Rightarrow> (Inr h, True, w))"
proof -
  define di where "di = dil ! length pre"
  have "list_all2 (\<lambda>x y. device_info hid x = Inr y) (pre @ c # post) dil"
    using assms(4,6) by (simp add: Enumerate_def map_res_Inr_iff)
  then have "device_info hid ((pre @ c # post) ! length pre) = Inr di"
    unfolding di_def by (rule list_all2_nthD) simp
  then have di: "diVendorId di = cVendor c" "diProductId di = cProduct c"
      "diSerialNumber di = bytes_str (utf8_text cs)"
    using assms(5) wide_string_text [OF assms(1-3), of rest] by (auto simp: device_info_def or_empty_def)
  have ne: "cs \<noteq> []" using assms(3) by auto
  then have "bytes_str (utf8_text cs) \<noteq> []"
    using utf8_text_length(1) [of cs] by (auto simp: bytes_str_def)
  then have "serial_ptr hid (bytes_str (utf8_text cs)) = Inr (Some (map word_of_nat cs @ [0]))"
    using FromGoString_text [OF assms(1,2) ne] by (simp add: serial_ptr_def WcharString_Pointer_def)
  with di show ?thesis unfolding di_def [symmetric] by (simp add: di_Device_def Open_def hidInit_def split: prod.splits option.splits)
qed

definition serial_info :: c_device_info where
  "serial_info = \<lparr>cPath = ''/dev/hidraw0'', cVendor = 0x20a0, cProduct = 0x415b, cRelease = 0, cUsagePage = 0,
     cUsage = 0, cInterface = 0, cSerial = Some [0x31, 0xF1, 0], cManufacturer = None, cProductString = None\<rparr>"

definition serial_device :: "wchar_ptr list hidapi" where
  "serial_device = idle_hidapi\<lparr>c_iconv := sample_iconv,
     c_enumerate := (\<lambda>v p w. Some [serial_info]),
     c_open := (\<lambda>v p s w. (Some 7, w @ [s]))\<rparr>"

lemma serial_enumerate:
  "Enumerate serial_device 0 0 [] = Inr [\<lparr>diPath = ''/dev/hidraw0'', diVendorId = 0x20a0, diProductId = 0x415b,
     diSerialNumber = bytes_str (utf8_text [0x31, 0xF1]), diReleaseNumber = 0, diManufacturer = [], diProduct = [],
     diUsagePage = 0, diUsage = 0, diInterfaceNumber = 0\<rparr>]"
proof -
  have "converts (c_iconv serial_device)" by (simp add: serial_device_def sample_converts)
  then have "wide_string serial_device (Some [0x31, 0xF1, 0]) = Inr (bytes_str (utf8_text [0x31, 0xF1]))"
    using wide_string_text [of serial_device "[0x31, 0xF1]" "[]"] by (simp add: scalar_def code_point_def)
  then show ?thesis by (simp add: Enumerate_def device_info_def or_empty_def) (simp add: serial_device_def device_info_def serial_info_def or_empty_def)
qed

theorem reopen_by_serial_witness:
  "di_Device serial_device ([\<lparr>diPath = ''/dev/hidraw0'', diVendorId = 0x20a0, diProductId = 0x415b,
     diSerialNumber = bytes_str (utf8_text [0x31, 0xF1]), diReleaseNumber = 0, diManufacturer = [], diProduct = [],
     diUsagePage = 0, diUsage = 0, diInterfaceNumber = 0\<rparr>] ! length ([] :: c_device_info list)) True [] =
   (Inr 7, True, [Some [0x31, 0xF1, 0]])"
  by (subst reopen_by_serial [where cs = "[0x31, 0xF1]" and v = 0 and p = 0 and w = "[]" and post = "[]" and rest = "[]" and c = serial_info,
      OF _ _ _ _ _ serial_enumerate])
     (simp_all add: serial_device_def serial_info_def sample_converts scalar_def code_point_def)

text \<open>The strings of an open device: what the C library stores, up to its terminator, in UTF-8.\<close>

theorem device_strings:
  assumes "converts (c_iconv hid)" and "list_all scalar cs" and "\<exists>c\<in>set cs. c < 0x10000" and "length cs < 100"
    and "c_get_product_string hid dev 100 w = (0, map word_of_nat cs @ [0], w')"
  shows "ProductString hid dev w = (Inr (bytes_str (utf8_text cs)), w')"
proof -
  have ne: "cs \<noteq> []" using assms(3) by auto
  have "put_buffer (map word_of_nat cs @ [0]) (NewWcharString 100) = map word_of_nat cs @ replicate (100 - length cs) (0 :: wchar)"
  proof -
    have "put_buffer (map word_of_nat cs @ [0]) (NewWcharString 100) =
        map word_of_nat cs @ 0 # replicate (100 - Suc (length cs)) (0 :: wchar)"
      using assms(4) by (simp add: put_buffer_def NewWcharString_def)
    also have "0 # replicate (100 - Suc (length cs)) (0 :: wchar) = replicate (100 - length cs) 0"
      using assms(4) by (simp flip: replicate_Suc add: Suc_diff_Suc)
    finally show ?thesis .
  qed
  moreover have "hd (replicate (100 - length cs) (0 :: wchar)) = 0" using assms(4) by (cases "100 - length cs") auto
  ultimately show ?thesis
    using GoString_text [OF assms(1,2) ne, of "replicate (100 - length cs) 0"] assms(3,5)
    by (simp add: ProductString_def device_string_def)
qed

section \<open>Characters\<close>

text \<open>\<open>GoRune\<close> is right for ASCII only: it takes the bytes of the UTF-8 encoding for the code point, so every
  other character becomes a different one.\<close>

theorem wchar_rune_wrong:
  assumes "converts ic" and "scalar c"
  shows "(Wchar_GoRune ic (word_of_nat c) = Inr (int c)) = (c < 0x80)"
  using assms by (rule GoRune_ascii)

theorem wchar_rune_wrong_witness:
  "Wchar_GoRune sample_iconv 0xF1 \<noteq> Inr 0xF1 \<and> Wchar_GoRune sample_iconv 0x49 = Inr 0x49"
  using wchar_rune_wrong [OF sample_converts, where c = "0xF1"] wchar_rune_wrong [OF sample_converts, where c = "0x49"]
  by (simp add: scalar_def code_point_def)

text \<open>\<open>FromGoRune\<close> on an ASCII character has \<open>iconv\<close> convert the terminator of the C string and the two bytes
  behind it: the result is right, but twelve bytes are stored behind the four bytes of the buffer.\<close>

theorem wchar_rune_overflow:
  assumes "converts ic" and "0 < c" and "c < 0x80" and "behind ic = b1 # b2 # rest" and "b1 < 0x80" and "b2 < 0x80"
  shows "FromGoRune ic (int c) = (Inr (word_of_nat c), utf32_text [0, unat b1, unat b2])"
  using assms by (rule FromGoRune_spills)

end
