(* ===== verification/WsConn.thy ===== *)
theory WsConn
  imports Prelude
begin

text \<open>
  The WebSocket connection of \<open>gorilla/websocket/conn.go\<close>, over which the rotonde
  client of the bridge talks: frames are built in a write buffer and sent, and frames
  are parsed from a buffered reader.

  The record \<open>ws_conn\<close> has the fields of \<open>Conn\<close>. The mutex \<open>mu\<close> and the
  network connection \<open>conn\<close> are represented by what can be seen of them: \<open>wire\<close>
  is the sequence of successful (possibly partial) calls of \<open>conn.Write\<close>,
  \<open>netClosed\<close> records \<open>conn.Close\<close>, and \<open>tick\<close> counts the questions put to the
  environment. \<open>ws_env\<close> is that environment: the random source, the clock, the
  outcome of waiting for the mutex with a timer, and the network's answer to a write.

  The record \<open>bufio\<close> is the \<open>bufio.Reader\<close> of the standard library: a buffer, a
  pending error and the reads the network will answer, each with its bytes and an
  error; after the last of them the network answers \<open>io.EOF\<close>.

  An operation returns its result or error together with the connection it leaves.
\<close>

section \<open>Constants and errors\<close>

abbreviation (input) maxFrameHeaderSize :: nat where "maxFrameHeaderSize \<equiv> 14"
abbreviation (input) maxControlFramePayloadSize :: nat where "maxControlFramePayloadSize \<equiv> 125"
abbreviation (input) finalBit :: byte where "finalBit \<equiv> 0x80"
abbreviation (input) maskBit :: byte where "maskBit \<equiv> 0x80"
abbreviation (input) writeWait :: int where "writeWait \<equiv> 1000000000"
abbreviation (input) defaultReadBufferSize :: nat where "defaultReadBufferSize \<equiv> 4096"
abbreviation (input) defaultWriteBufferSize :: nat where "defaultWriteBufferSize \<equiv> 4096"
abbreviation (input) continuationFrame :: int where "continuationFrame \<equiv> 0"
abbreviation (input) noFrame :: int where "noFrame \<equiv> -1"

abbreviation (input) CloseNormalClosure :: int where "CloseNormalClosure \<equiv> 1000"
abbreviation (input) CloseGoingAway :: int where "CloseGoingAway \<equiv> 1001"
abbreviation (input) CloseProtocolError :: int where "CloseProtocolError \<equiv> 1002"
abbreviation (input) CloseNoStatusReceived :: int where "CloseNoStatusReceived \<equiv> 1005"
abbreviation (input) CloseAbnormalClosure :: int where "CloseAbnormalClosure \<equiv> 1006"
abbreviation (input) CloseMessageTooBig :: int where "CloseMessageTooBig \<equiv> 1009"

abbreviation (input) TextMessage :: int where "TextMessage \<equiv> 1"
abbreviation (input) BinaryMessage :: int where "BinaryMessage \<equiv> 2"
abbreviation (input) CloseMessage :: int where "CloseMessage \<equiv> 8"
abbreviation (input) PingMessage :: int where "PingMessage \<equiv> 9"
abbreviation (input) PongMessage :: int where "PongMessage \<equiv> 10"

text \<open>
  \<open>NetError msg temporary timeout\<close> is any error with the \<open>net.Error\<close> interface,
  \<open>CloseError code text\<close> the \<open>closeError\<close> of a received close frame and
  \<open>ErrorString\<close> an error of \<open>errors.New\<close>. \<open>WsDiverges\<close> is not an error of the
  code: it marks a copy loop that makes no progress, which a buffer with no room
  behind the header would cause; no connection of \<open>newConn\<close> has such a buffer.
\<close>

datatype ws_error =
    WsEOF
  | NoProgress
  | NetError string bool bool
  | CloseError int string
  | ErrorString string
  | WsDiverges

definition ErrCloseSent :: ws_error where
  "ErrCloseSent = ErrorString ''websocket: close sent''"

definition ErrReadLimit :: ws_error where
  "ErrReadLimit = ErrorString ''websocket: read limit exceeded''"

definition errWriteTimeout :: ws_error where
  "errWriteTimeout = NetError ''websocket: write timeout'' False True"

definition errUnexpectedEOF :: ws_error where
  "errUnexpectedEOF = CloseError CloseAbnormalClosure ''unexpected EOF''"

definition errBadWriteOpCode :: ws_error where
  "errBadWriteOpCode = ErrorString ''websocket: bad write message type''"

definition errWriteClosed :: ws_error where
  "errWriteClosed = ErrorString ''websocket: write closed''"

definition errInvalidControlFrame :: ws_error where
  "errInvalidControlFrame = ErrorString ''websocket: invalid control frame''"

definition errExtraInClient :: ws_error where
  "errExtraInClient = ErrorString ''websocket: internal error, extra used in client mode''"

definition errUnexpectedData :: ws_error where
  "errUnexpectedData = ErrorString ''websocket: internal error, unexpected text or binary in Reader''"

lemmas ws_errors = ErrCloseSent_def ErrReadLimit_def errWriteTimeout_def errUnexpectedEOF_def
  errBadWriteOpCode_def errWriteClosed_def errInvalidControlFrame_def errExtraInClient_def
  errUnexpectedData_def

fun hideTempErr :: "ws_error option \<Rightarrow> ws_error option" where
  "hideTempErr (Some (NetError msg temporary timeout)) =
     Some (NetError msg (if temporary then False else temporary) timeout)"
| "hideTempErr err = err"

definition isControl :: "int \<Rightarrow> bool" where
  "isControl frameType \<longleftrightarrow>
     frameType = CloseMessage \<or> frameType = PingMessage \<or> frameType = PongMessage"

definition isData :: "int \<Rightarrow> bool" where
  "isData frameType \<longleftrightarrow> frameType = TextMessage \<or> frameType = BinaryMessage"

section \<open>Bytes\<close>

text \<open>\<open>binary.BigEndian\<close>.\<close>

definition put_be :: "nat \<Rightarrow> 'a::len word \<Rightarrow> bytes" where
  "put_be n w = rev (put_le n w)"

definition get_be :: "bytes \<Rightarrow> 'a::len word" where
  "get_be bs = get_le (rev bs)"

text \<open>\<open>copy(xs[i:], ys)\<close>: as many bytes as fit.\<close>

definition put_at :: "bytes \<Rightarrow> nat \<Rightarrow> bytes \<Rightarrow> bytes" where
  "put_at xs i ys =
     (let ys = take (length xs - i) ys in take i xs @ ys @ drop (i + length ys) xs)"

text \<open>
  \<open>maskBytes\<close> masks its argument in place and returns the next position in the key;
  here it returns the masked bytes as well.
\<close>

fun maskBytes :: "bytes \<Rightarrow> nat \<Rightarrow> bytes \<Rightarrow> bytes \<times> nat" where
  "maskBytes key pos [] = ([], pos mod 4)"
| "maskBytes key pos (b # bs) =
     (let (out, p) = maskBytes key (pos + 1) bs in ((b XOR key ! (pos mod 4)) # out, p))"

definition FormatCloseMessage :: "int \<Rightarrow> string \<Rightarrow> bytes" where
  "FormatCloseMessage closeCode text = put_be 2 (word_of_int closeCode :: 16 word) @ str_bytes text"

section \<open>The buffered reader\<close>

type_synonym src = "(bytes \<times> ws_error option) list"

fun src_Read :: "nat \<Rightarrow> src \<Rightarrow> (bytes \<times> ws_error option) \<times> src" where
  "src_Read n [] = (([], Some WsEOF), [])"
| "src_Read n ((bs, e) # rest) =
     (if length bs \<le> n then ((bs, e), rest) else ((take n bs, None), (drop n bs, e) # rest))"

record bufio =
  bfSize :: nat
  bfBuf :: bytes
  bfErr :: "ws_error option"
  bfSrc :: src

fun fill_loop :: "nat \<Rightarrow> bufio \<Rightarrow> bufio" where
  "fill_loop 0 r = r\<lparr>bfErr := Some NoProgress\<rparr>"
| "fill_loop (Suc k) r =
     (let ((bs, e), src') = src_Read (bfSize r) (bfSrc r);
          r' = r\<lparr>bfBuf := bs, bfSrc := src'\<rparr>
      in if e \<noteq> None then r'\<lparr>bfErr := e\<rparr>
         else if bs \<noteq> [] then r' else fill_loop k r')"

definition fill :: "bufio \<Rightarrow> bufio" where
  "fill r = fill_loop 100 r"

definition br_take :: "nat \<Rightarrow> bufio \<Rightarrow> bytes \<times> ws_error option \<times> bufio" where
  "br_take n r = (take n (bfBuf r), None, r\<lparr>bfBuf := drop n (bfBuf r)\<rparr>)"

definition br_readErr :: "bufio \<Rightarrow> bytes \<times> ws_error option \<times> bufio" where
  "br_readErr r = ([], bfErr r, r\<lparr>bfErr := None\<rparr>)"

definition br_Read :: "nat \<Rightarrow> bufio \<Rightarrow> bytes \<times> ws_error option \<times> bufio" where
  "br_Read n r =
     (if n = 0 then br_readErr r
      else if bfBuf r \<noteq> [] then br_take n r
      else if bfErr r \<noteq> None then br_readErr r
      else if bfSize r \<le> n then
        (let ((bs, e), src') = src_Read n (bfSrc r) in (bs, e, r\<lparr>bfSrc := src'\<rparr>))
      else (let r' = fill r in if bfBuf r' = [] then br_readErr r' else br_take n r'))"

text \<open>What is left to read; every read that does not fail makes it smaller.\<close>

fun src_size :: "src \<Rightarrow> nat" where
  "src_size [] = 0"
| "src_size ((bs, e) # rest) = Suc (length bs + src_size rest)"

definition rd_size :: "bufio \<Rightarrow> nat" where
  "rd_size r = length (bfBuf r) + src_size (bfSrc r)"

lemma src_Read_size:
  "src_Read n s = ((bs, e), s') \<Longrightarrow>
     length bs \<le> n \<and> length bs + src_size s' \<le> src_size s \<and>
     (0 < n \<longrightarrow> e = None \<longrightarrow> src_size s' < src_size s) \<and>
     (bs = [] \<longrightarrow> e = None \<longrightarrow> 0 < n \<longrightarrow> Suc (src_size s') = src_size s)"
  by (cases "(n, s)" rule: src_Read.cases) (auto split: if_splits)

lemma fill_loop_size: "bfBuf r = [] \<Longrightarrow> rd_size (fill_loop k r) \<le> rd_size r"
proof (induction k arbitrary: r)
  case (Suc k)
  obtain bs e s' where s: "src_Read (bfSize r) (bfSrc r) = ((bs, e), s')" by (metis surj_pair)
  from src_Read_size [OF s] Suc.IH [of "r\<lparr>bfBuf := [], bfSrc := s'\<rparr>"] Suc.prems show ?case
    by (auto simp: s rd_size_def Let_def)
qed (simp add: rd_size_def)

lemma br_take_size:
  "bfBuf r \<noteq> [] \<Longrightarrow> 0 < n \<Longrightarrow> br_take n r = (bs, e, r') \<Longrightarrow>
     length bs \<le> n \<and> length bs + rd_size r' \<le> rd_size r \<and> rd_size r' < rd_size r"
  by (cases "bfBuf r") (auto simp: br_take_def rd_size_def)

lemma br_Read_size:
  assumes "br_Read n r = (bs, e, r')"
  shows "length bs \<le> n \<and> length bs + rd_size r' \<le> rd_size r \<and> (0 < n \<longrightarrow> e = None \<longrightarrow> rd_size r' < rd_size r)"
proof -
  consider "n = 0 \<or> (bfBuf r = [] \<and> bfErr r \<noteq> None)" | "0 < n" "bfBuf r \<noteq> []"
    | "0 < n" "bfBuf r = []" "bfErr r = None" "bfSize r \<le> n"
    | "0 < n" "bfBuf r = []" "bfErr r = None" "\<not> bfSize r \<le> n" by blast
  then show ?thesis
  proof cases
    case 1
    with assms show ?thesis
      by (auto simp: br_Read_def br_readErr_def rd_size_def split: if_splits)
  next
    case 2
    with assms have "br_take n r = (bs, e, r')" by (simp add: br_Read_def)
    with 2 br_take_size [of r n bs e r'] show ?thesis by simp
  next
    case 3
    obtain bs' e' s' where s: "src_Read n (bfSrc r) = ((bs', e'), s')" by (metis surj_pair)
    from src_Read_size [OF s] 3 assms s show ?thesis by (auto simp: br_Read_def rd_size_def)
  next
    case 4
    show ?thesis
    proof (cases "bfBuf (fill r) = []")
      case True
      have "bfErr (fill_loop k x) \<noteq> None" if "bfBuf (fill_loop k x) = []" for k x
        using that by (induction k x rule: fill_loop.induct) (auto simp: Let_def split: prod.splits if_splits)
      with True have "bfErr (fill r) \<noteq> None" by (simp add: fill_def)
      with 4 assms True fill_loop_size [of r 100] show ?thesis
        by (auto simp: br_Read_def br_readErr_def rd_size_def fill_def)
    next
      case False
      with 4 assms have "br_take n (fill r) = (bs, e, r')" by (simp add: br_Read_def)
      with 4 False br_take_size [of "fill r" n bs e r'] fill_loop_size [of r 100] show ?thesis
        by (simp add: fill_def)
    qed
  qed
qed

text \<open>
  Reading \<open>k\<close> bytes in a loop that ends at the first error, each turn asking for at
  most \<open>cap\<close> bytes: the loop of \<open>readFull\<close>, and with the 8192-byte buffer of
  \<open>ioutil.Discard\<close> that of \<open>io.CopyN\<close>.
\<close>

function read_n :: "nat \<Rightarrow> nat \<Rightarrow> bufio \<Rightarrow> bytes \<times> ws_error option \<times> bufio" where
  "read_n cap k r =
     (if k = 0 \<or> cap = 0 then ([], None, r)
      else (case br_Read (min cap k) r of
              (bs, Some e, r') \<Rightarrow> (bs, Some e, r')
            | (bs, None, r') \<Rightarrow>
                (let (bs', e, r'') = read_n cap (k - length bs) r' in (bs @ bs', e, r''))))"
  by pat_completeness auto
termination
  by (relation "measure (\<lambda>(cap, k, r). rd_size r)") (auto dest: br_Read_size [OF sym] br_Read_size)

declare read_n.simps [simp del]

lemma read_n_size:
  "read_n cap k r = (bs, e, r') \<Longrightarrow> length bs \<le> k \<and> length bs + rd_size r' \<le> rd_size r"
proof (induction cap k r arbitrary: bs e r' rule: read_n.induct)
  case (1 cap k r)
  show ?case
  proof (cases "k = 0 \<or> cap = 0")
    case True
    with "1.prems" show ?thesis by (auto simp: read_n.simps)
  next
    case False
    obtain bs1 e1 r1 where b: "br_Read (min cap k) r = (bs1, e1, r1)" by (metis surj_pair)
    show ?thesis
    proof (cases e1)
      case None
      obtain bs2 e2 r2 where n: "read_n cap (k - length bs1) r1 = (bs2, e2, r2)" by (metis surj_pair)
      have "length bs2 \<le> k - length bs1 \<and> length bs2 + rd_size r2 \<le> rd_size r1"
        using "1.IH" [OF False b [symmetric] refl None n] by auto
      with None n b br_Read_size [OF b] "1.prems" False show ?thesis
        by (auto simp: read_n.simps [of cap k r])
    next
      case (Some e')
      with b br_Read_size [OF b] "1.prems" False show ?thesis
        by (auto simp: read_n.simps [of cap k r])
    qed
  qed
qed

section \<open>Connections\<close>

text \<open>
  \<open>we_rand\<close>, \<open>we_now\<close> and \<open>we_mutex\<close> answer the \<open>n\<close>-th question: \<open>rand.Uint32\<close>,
  \<open>time.Now\<close> in nanoseconds, and whether \<open>mu\<close> was received before a timer of the
  given duration fired. \<open>we_write closed before buf\<close> is the answer of
  \<open>conn.Write(buf)\<close> after the writes \<open>before\<close>.
\<close>

record ws_env =
  we_rand :: "nat \<Rightarrow> 32 word"
  we_now :: "nat \<Rightarrow> int"
  we_mutex :: "nat \<Rightarrow> int \<Rightarrow> bool"
  we_write :: "bool \<Rightarrow> bytes list \<Rightarrow> bytes \<Rightarrow> nat \<times> ws_error option"

text \<open>
  A handler is \<open>None\<close> for the default one; a handler of the application is a function
  from the message to its error. The zero time is \<open>None\<close>. \<open>readRemaining\<close>,
  \<open>readLength\<close> and \<open>readLimit\<close> are 64-bit signed integers.
\<close>

record ws_conn =
  isServer :: bool
  subprotocol :: string
  closeSent :: bool
  writeErr :: "ws_error option"
  writeBuf :: bytes
  writePos :: nat
  writeFrameType :: int
  writeSeq :: int
  writeDeadline :: "int option"
  readErr :: "ws_error option"
  br :: bufio
  readRemaining :: int
  readFinal :: bool
  readSeq :: int
  readLength :: int
  readLimit :: int
  readMaskPos :: nat
  readMaskKey :: bytes
  handlePong :: "(string \<Rightarrow> ws_error option) option"
  handlePing :: "(string \<Rightarrow> ws_error option) option"
  wire :: "bytes list"
  netClosed :: bool
  tick :: nat

definition SetPingHandler :: "(string \<Rightarrow> ws_error option) option \<Rightarrow> ws_conn \<Rightarrow> ws_conn" where
  "SetPingHandler h c = c\<lparr>handlePing := h\<rparr>"

definition SetPongHandler :: "(string \<Rightarrow> ws_error option) option \<Rightarrow> ws_conn \<Rightarrow> ws_conn" where
  "SetPongHandler h c = c\<lparr>handlePong := h\<rparr>"

definition SetReadLimit :: "int \<Rightarrow> ws_conn \<Rightarrow> ws_conn" where
  "SetReadLimit limit c = c\<lparr>readLimit := limit\<rparr>"

definition SetWriteDeadline :: "int option \<Rightarrow> ws_conn \<Rightarrow> ws_conn" where
  "SetWriteDeadline t c = c\<lparr>writeDeadline := t\<rparr>"

definition ws_Close :: "ws_conn \<Rightarrow> ws_conn" where
  "ws_Close c = c\<lparr>netClosed := True\<rparr>"

definition newConn :: "src \<Rightarrow> bool \<Rightarrow> nat \<Rightarrow> nat \<Rightarrow> ws_conn" where
  "newConn conn server readBufferSize writeBufferSize =
     (let readBufferSize = (if readBufferSize = 0 then defaultReadBufferSize else readBufferSize);
          writeBufferSize = (if writeBufferSize = 0 then defaultWriteBufferSize else writeBufferSize);
          c = \<lparr>isServer = server, subprotocol = [], closeSent = False, writeErr = None,
               writeBuf = replicate (writeBufferSize + maxFrameHeaderSize) 0,
               writePos = maxFrameHeaderSize, writeFrameType = noFrame, writeSeq = 0,
               writeDeadline = None, readErr = None,
               br = \<lparr>bfSize = max 16 readBufferSize, bfBuf = [], bfErr = None, bfSrc = conn\<rparr>,
               readRemaining = 0, readFinal = True, readSeq = 0, readLength = 0, readLimit = 0,
               readMaskPos = 0, readMaskKey = [0, 0, 0, 0], handlePong = None, handlePing = None,
               wire = [], netClosed = False, tick = 0\<rparr>
      in SetPongHandler None (SetPingHandler None c))"

section \<open>Writing\<close>

type_synonym 'a ws_res = "(ws_error + 'a) \<times> ws_conn"

definition newMaskKey :: "ws_env \<Rightarrow> ws_conn \<Rightarrow> bytes \<times> ws_conn" where
  "newMaskKey env c = (let n = we_rand env (tick c)
     in ([ucast n, ucast (drop_bit 8 n), ucast (drop_bit 16 n), ucast (drop_bit 24 n)],
         c\<lparr>tick := Suc (tick c)\<rparr>))"

definition Now :: "ws_env \<Rightarrow> ws_conn \<Rightarrow> int \<times> ws_conn" where
  "Now env c = (we_now env (tick c), c\<lparr>tick := Suc (tick c)\<rparr>)"

text \<open>\<open>conn.Write\<close>.\<close>

definition net_Write :: "ws_env \<Rightarrow> bytes \<Rightarrow> ws_conn \<Rightarrow> (nat \<times> ws_error option) \<times> ws_conn" where
  "net_Write env buf c =
     (let (n, err) = we_write env (netClosed c) (wire c) buf
      in ((n, err), c\<lparr>wire := wire c @ [take n buf]\<rparr>))"

fun write_bufs :: "ws_env \<Rightarrow> bytes list \<Rightarrow> ws_conn \<Rightarrow> ws_error option \<times> ws_conn" where
  "write_bufs env [] c = (None, c)"
| "write_bufs env (buf # bufs) c =
     (if buf = [] then write_bufs env bufs c
      else (let ((n, err), c) = net_Write env buf c;
                c = (if n \<noteq> length buf then ws_Close c else c)
            in if err \<noteq> None then (err, c) else write_bufs env bufs c))"

definition conn_write :: "ws_env \<Rightarrow> int \<Rightarrow> bytes list \<Rightarrow> ws_conn \<Rightarrow> ws_error option \<times> ws_conn" where
  "conn_write env frameType bufs c =
     (if closeSent c then (Some ErrCloseSent, c)
      else (let c = (if frameType = CloseMessage then c\<lparr>closeSent := True\<rparr> else c)
            in write_bufs env bufs c))"

text \<open>
  \<open>WriteControl\<close>: the frame it builds, the wait for the mutex, and the whole. Its
  timer runs for 1000 hours when there is no deadline.
\<close>

definition control_frame :: "ws_env \<Rightarrow> int \<Rightarrow> bytes \<Rightarrow> ws_conn \<Rightarrow> bytes \<times> ws_conn" where
  "control_frame env messageType data c =
     (let b0 = word_of_int messageType OR finalBit;
          b1 = word_of_nat (length data);
          b1 = (if isServer c then b1 else b1 OR maskBit)
      in if isServer c then ([b0, b1] @ data, c)
         else (let (key, c) = newMaskKey env c in ([b0, b1] @ key @ fst (maskBytes key 0 data), c)))"

definition timer_for :: "ws_env \<Rightarrow> int option \<Rightarrow> ws_conn \<Rightarrow> int \<times> ws_conn" where
  "timer_for env deadline c =
     (case deadline of None \<Rightarrow> (1000 * 3600 * 1000000000, c)
      | Some t \<Rightarrow> (let (now, c) = Now env c in (t - now, c)))"

definition WriteControl ::
  "ws_env \<Rightarrow> int \<Rightarrow> bytes \<Rightarrow> int option \<Rightarrow> ws_conn \<Rightarrow> ws_error option \<times> ws_conn" where
  "WriteControl env messageType data deadline c =
     (if \<not> isControl messageType then (Some errBadWriteOpCode, c)
      else if length data > maxControlFramePayloadSize then (Some errInvalidControlFrame, c)
      else (let (buf, c) = control_frame env messageType data c;
                (d, c) = timer_for env deadline c
            in if d < 0 then (Some errWriteTimeout, c)
               else (let got = we_mutex env (tick c) d; c = c\<lparr>tick := Suc (tick c)\<rparr>
                     in if \<not> got then (Some errWriteTimeout, c)
                        else if closeSent c then (Some ErrCloseSent, c)
                        else (let c = (if messageType = CloseMessage then c\<lparr>closeSent := True\<rparr> else c);
                                  ((n, err), c) = net_Write env buf c;
                                  c = (if n \<noteq> 0 \<and> n \<noteq> length buf then ws_Close c else c)
                              in (err, c)))))"

text \<open>\<open>flushFrame\<close>: the header it puts in front of the data, and the whole.\<close>

definition put_header :: "bool \<Rightarrow> byte \<Rightarrow> byte \<Rightarrow> nat \<Rightarrow> bytes \<Rightarrow> nat \<times> bytes" where
  "put_header server b0 b1 len buf =
     (let framePos = (if server then 4 else 0)
      in if 65536 \<le> len then
           (framePos, put_at (buf[framePos := b0, framePos + 1 := b1 OR 127]) (framePos + 2)
                        (put_be 8 (word_of_nat len :: 64 word)))
         else if 125 < len then
           (let framePos = framePos + 6
            in (framePos, put_at (buf[framePos := b0, framePos + 1 := b1 OR 126]) (framePos + 2)
                            (put_be 2 (word_of_nat len :: 16 word))))
         else (let framePos = framePos + 8
               in (framePos, buf[framePos := b0, framePos + 1 := b1 OR word_of_nat len])))"

definition mask_frame :: "ws_env \<Rightarrow> ws_conn \<Rightarrow> ws_conn" where
  "mask_frame env c =
     (let (key, c) = newMaskKey env c;
          buf = put_at (writeBuf c) (maxFrameHeaderSize - 4) key;
          data = take (writePos c - maxFrameHeaderSize) (drop maxFrameHeaderSize buf)
      in c\<lparr>writeBuf := put_at buf maxFrameHeaderSize (fst (maskBytes key 0 data))\<rparr>)"

definition flushFrame :: "ws_env \<Rightarrow> bool \<Rightarrow> bytes \<Rightarrow> ws_conn \<Rightarrow> ws_error option \<times> ws_conn" where
  "flushFrame env final extra c =
     (let len = writePos c - maxFrameHeaderSize + length extra
      in if isControl (writeFrameType c) \<and> (\<not> final \<or> len > maxControlFramePayloadSize) then
           (Some errInvalidControlFrame,
            c\<lparr>writeSeq := writeSeq c + 1, writeFrameType := noFrame, writePos := maxFrameHeaderSize\<rparr>)
         else
           (let b0 = word_of_int (writeFrameType c);
                b0 = (if final then b0 OR finalBit else b0);
                b1 = (if isServer c then 0 else 0 OR maskBit);
                (framePos, buf) = put_header (isServer c) b0 b1 len (writeBuf c);
                c = c\<lparr>writeBuf := buf\<rparr>;
                c = (if isServer c then c else mask_frame env c)
            in if \<not> isServer c \<and> extra \<noteq> [] then
                 (Some errExtraInClient, c\<lparr>writeErr := Some errExtraInClient\<rparr>)
               else
                 (let (err, c) = conn_write env (writeFrameType c)
                        [take (writePos c - framePos) (drop framePos (writeBuf c)), extra] c;
                      c = c\<lparr>writeErr := err, writePos := maxFrameHeaderSize,
                            writeFrameType := continuationFrame\<rparr>;
                      c = (if final then c\<lparr>writeSeq := writeSeq c + 1, writeFrameType := noFrame\<rparr> else c)
                  in (err, c))))"

text \<open>A message writer is its connection, passed as the state, and its sequence number.\<close>

definition NextWriter :: "ws_env \<Rightarrow> int \<Rightarrow> ws_conn \<Rightarrow> int ws_res" where
  "NextWriter env messageType c =
     (case writeErr c of Some e \<Rightarrow> (Inl e, c)
      | None \<Rightarrow>
          (let (err, c) = (if writeFrameType c \<noteq> noFrame then flushFrame env True [] c else (None, c))
           in case err of Some e \<Rightarrow> (Inl e, c)
              | None \<Rightarrow>
                  if \<not> isControl messageType \<and> \<not> isData messageType then (Inl errBadWriteOpCode, c)
                  else (Inr (writeSeq c), c\<lparr>writeFrameType := messageType\<rparr>)))"

definition mw_err :: "int \<Rightarrow> ws_conn \<Rightarrow> ws_error option" where
  "mw_err sq c = (if writeSeq c \<noteq> sq then Some errWriteClosed else writeErr c)"

definition mw_ncopy :: "ws_env \<Rightarrow> nat \<Rightarrow> ws_conn \<Rightarrow> nat ws_res" where
  "mw_ncopy env m c =
     (let n = length (writeBuf c) - writePos c
      in if n = 0 then
           (case flushFrame env False [] c of
              (Some e, c) \<Rightarrow> (Inl e, c)
            | (None, c) \<Rightarrow> (Inr (min (length (writeBuf c) - writePos c) m), c))
         else (Inr (min n m), c))"

function copy_loop :: "ws_env \<Rightarrow> bytes \<Rightarrow> ws_conn \<Rightarrow> ws_error option \<times> ws_conn" where
  "copy_loop env p c =
     (if p = [] then (None, c)
      else (case mw_ncopy env (length p) c of
              (Inl e, c') \<Rightarrow> (Some e, c')
            | (Inr n, c') \<Rightarrow>
                if n = 0 then (Some WsDiverges, c')
                else copy_loop env (drop n p)
                       (c'\<lparr>writeBuf := put_at (writeBuf c') (writePos c') (take n p),
                          writePos := writePos c' + n\<rparr>)))"
  by pat_completeness auto
termination
  by (relation "measure (\<lambda>(env, p, c). length p)") auto

declare copy_loop.simps [simp del]

definition mw_write :: "ws_env \<Rightarrow> int \<Rightarrow> bool \<Rightarrow> bytes \<Rightarrow> ws_conn \<Rightarrow> nat ws_res" where
  "mw_write env sq final p c =
     (case mw_err sq c of Some e \<Rightarrow> (Inl e, c)
      | None \<Rightarrow>
          if length p > 2 * length (writeBuf c) \<and> isServer c then
            (case flushFrame env final p c of
               (Some e, c) \<Rightarrow> (Inl e, c)
             | (None, c) \<Rightarrow> (Inr (length p), c))
          else
            (case copy_loop env p c of
               (Some e, c) \<Rightarrow> (Inl e, c)
             | (None, c) \<Rightarrow> (Inr (length p), c)))"

definition mw_Write :: "ws_env \<Rightarrow> int \<Rightarrow> bytes \<Rightarrow> ws_conn \<Rightarrow> nat ws_res" where
  "mw_Write env sq p c = mw_write env sq False p c"

definition mw_WriteString :: "ws_env \<Rightarrow> int \<Rightarrow> string \<Rightarrow> ws_conn \<Rightarrow> nat ws_res" where
  "mw_WriteString env sq p c =
     (case mw_err sq c of Some e \<Rightarrow> (Inl e, c)
      | None \<Rightarrow>
          (case copy_loop env (str_bytes p) c of
             (Some e, c) \<Rightarrow> (Inl e, c)
           | (None, c) \<Rightarrow> (Inr (length p), c)))"

text \<open>\<open>ReadFrom\<close> copies from any reader, given by the reads it answers.\<close>

function copy_from :: "ws_env \<Rightarrow> src \<Rightarrow> nat \<Rightarrow> ws_conn \<Rightarrow> (nat \<times> ws_error option) \<times> ws_conn" where
  "copy_from env r nn c =
     (case (if writePos c = length (writeBuf c) then flushFrame env False [] c else (None, c)) of
        (Some e, c') \<Rightarrow> ((nn, Some e), c')
      | (None, c') \<Rightarrow>
          if length (writeBuf c') - writePos c' = 0 then ((nn, Some WsDiverges), c')
          else (case src_Read (length (writeBuf c') - writePos c') r of
                  ((bs, err), r') \<Rightarrow>
                    (let c' = c'\<lparr>writeBuf := put_at (writeBuf c') (writePos c') bs,
                                 writePos := writePos c' + length bs\<rparr>
                     in if err \<noteq> None
                        then ((nn + length bs, if err = Some WsEOF then None else err), c')
                        else copy_from env r' (nn + length bs) c')))"
  by pat_completeness auto
termination
  by (relation "measure (\<lambda>(env, r, nn, c). src_size r)")
     (auto dest: src_Read_size [OF sym] src_Read_size)

declare copy_from.simps [simp del]

definition mw_ReadFrom :: "ws_env \<Rightarrow> int \<Rightarrow> src \<Rightarrow> ws_conn \<Rightarrow> (nat \<times> ws_error option) \<times> ws_conn" where
  "mw_ReadFrom env sq r c =
     (case mw_err sq c of Some e \<Rightarrow> ((0, Some e), c) | None \<Rightarrow> copy_from env r 0 c)"

definition mw_Close :: "ws_env \<Rightarrow> int \<Rightarrow> ws_conn \<Rightarrow> ws_error option \<times> ws_conn" where
  "mw_Close env sq c =
     (case mw_err sq c of Some e \<Rightarrow> (Some e, c) | None \<Rightarrow> flushFrame env True [] c)"

definition WriteMessage :: "ws_env \<Rightarrow> int \<Rightarrow> bytes \<Rightarrow> ws_conn \<Rightarrow> ws_error option \<times> ws_conn" where
  "WriteMessage env messageType data c =
     (case NextWriter env messageType c of
        (Inl e, c) \<Rightarrow> (Some e, c)
      | (Inr sq, c) \<Rightarrow>
          (case mw_write env sq True data c of
             (Inl e, c) \<Rightarrow> (Some e, c)
           | (Inr _, c) \<Rightarrow> if writeSeq c = sq then flushFrame env True [] c else (None, c)))"

end
