(* ===== verification/WsReader.thy ===== *)
theory WsReader
  imports WsConn
begin

text \<open>
  The reading half of \<open>conn.go\<close>: \<open>advanceFrame\<close> in its seven steps, the loops of
  \<open>NextReader\<close> and \<open>messageReader.Read\<close> over it, and \<open>ReadMessage\<close>. The loops are
  total: every frame consumes at least its two header bytes (\<open>advanceFrame_size\<close>) and
  every read of data at least one read of the network (\<open>mr_Read_size\<close>).
\<close>

section \<open>Reading\<close>

definition conn_readFull :: "nat \<Rightarrow> ws_conn \<Rightarrow> bytes \<times> ws_error option \<times> ws_conn" where
  "conn_readFull k c =
     (let (bs, err, r) = read_n k k (br c);
          err = (if length bs = k then None
                 else if err = Some WsEOF then Some errUnexpectedEOF else err)
      in (bs, err, c\<lparr>br := r\<rparr>))"

text \<open>\<open>io.CopyN(ioutil.Discard, c.br, n)\<close>.\<close>

definition discard_n :: "nat \<Rightarrow> ws_conn \<Rightarrow> ws_error option \<times> ws_conn" where
  "discard_n n c =
     (let (bs, err, r) = read_n 8192 n (br c)
      in (if length bs = n then None else err, c\<lparr>br := r\<rparr>))"

text \<open>The call \<open>c.WriteControl(t, data, time.Now().Add(writeWait))\<close>, whose error the reader ignores.\<close>

definition control_soon :: "ws_env \<Rightarrow> int \<Rightarrow> bytes \<Rightarrow> ws_conn \<Rightarrow> ws_conn" where
  "control_soon env messageType data c =
     (let (now, c) = Now env c in snd (WriteControl env messageType data (Some (now + writeWait)) c))"

definition handleProtocolError :: "ws_env \<Rightarrow> string \<Rightarrow> ws_conn \<Rightarrow> 'a ws_res" where
  "handleProtocolError env message c =
     (let c = control_soon env CloseMessage (FormatCloseMessage CloseProtocolError message) c
      in (Inl (ErrorString (''websocket: '' @ message)), c))"

text \<open>The steps of \<open>advanceFrame\<close>, numbered as in its comments.\<close>

definition skip_frame :: "ws_conn \<Rightarrow> ws_error option \<times> ws_conn" where
  "skip_frame c = (if readRemaining c > 0 then discard_n (nat (readRemaining c)) c else (None, c))"

definition check_header :: "ws_env \<Rightarrow> byte \<Rightarrow> byte \<Rightarrow> ws_conn \<Rightarrow> int ws_res" where
  "check_header env b0 b1 c =
     (let final = (b0 AND finalBit \<noteq> 0);
          frameType = uint (b0 AND 0xF);
          reserved = unat (drop_bit 4 b0 AND 0x7);
          c = c\<lparr>readRemaining := uint (b1 AND 0x7F)\<rparr>
      in if reserved \<noteq> 0 then
           handleProtocolError env (''unexpected reserved bits '' @ decimal reserved) c
         else if isControl frameType then
           (if readRemaining c > int maxControlFramePayloadSize
            then handleProtocolError env ''control frame length > 125'' c
            else if \<not> final then handleProtocolError env ''control frame not final'' c
            else (Inr frameType, c))
         else if isData frameType then
           (if \<not> readFinal c then handleProtocolError env ''message start before final message frame'' c
            else (Inr frameType, c\<lparr>readFinal := final\<rparr>))
         else if frameType = continuationFrame then
           (if readFinal c then handleProtocolError env ''continuation after final message frame'' c
            else (Inr frameType, c\<lparr>readFinal := final\<rparr>))
         else handleProtocolError env (''unknown opcode '' @ decimal (nat frameType)) c)"

definition read_length :: "ws_conn \<Rightarrow> ws_error option \<times> ws_conn" where
  "read_length c =
     (if readRemaining c = 126 then
        (case conn_readFull 2 c of
           (_, Some e, c) \<Rightarrow> (Some e, c)
         | (b, None, c) \<Rightarrow> (None, c\<lparr>readRemaining := uint (get_be b :: 16 word)\<rparr>))
      else if readRemaining c = 127 then
        (case conn_readFull 8 c of
           (_, Some e, c) \<Rightarrow> (Some e, c)
         | (b, None, c) \<Rightarrow> (None, c\<lparr>readRemaining := sint (get_be b :: 64 word)\<rparr>))
      else (None, c))"

definition read_mask :: "ws_env \<Rightarrow> byte \<Rightarrow> ws_conn \<Rightarrow> unit ws_res" where
  "read_mask env b1 c =
     (let mask = (b1 AND maskBit \<noteq> 0)
      in if mask \<noteq> isServer c then handleProtocolError env ''incorrect mask flag'' c
         else if mask then
           (case conn_readFull 4 (c\<lparr>readMaskPos := 0\<rparr>) of
              (b, err, c) \<Rightarrow>
                (let c = c\<lparr>readMaskKey := put_at (readMaskKey c) 0 b\<rparr>
                 in case err of Some e \<Rightarrow> (Inl e, c) | None \<Rightarrow> (Inr (), c)))
         else (Inr (), c))"

definition wrap64 :: "int \<Rightarrow> int" where
  "wrap64 i = sint (word_of_int i :: 64 word)"

definition enforce_limit :: "ws_env \<Rightarrow> int \<Rightarrow> ws_conn \<Rightarrow> int ws_res" where
  "enforce_limit env frameType c =
     (let c = c\<lparr>readLength := wrap64 (readLength c + readRemaining c)\<rparr>
      in if readLimit c > 0 \<and> readLength c > readLimit c then
           (Inl ErrReadLimit, control_soon env CloseMessage (FormatCloseMessage CloseMessageTooBig []) c)
         else (Inr frameType, c))"

definition read_payload :: "ws_conn \<Rightarrow> bytes ws_res" where
  "read_payload c =
     (if readRemaining c > 0 then
        (case conn_readFull (nat (readRemaining c)) (c\<lparr>readRemaining := 0\<rparr>) of
           (_, Some e, c) \<Rightarrow> (Inl e, c)
         | (payload, None, c) \<Rightarrow>
             (Inr (if isServer c then fst (maskBytes (readMaskKey c) 0 payload) else payload), c))
      else (Inr [], c))"

definition close_reason :: "bytes \<Rightarrow> ws_error" where
  "close_reason payload =
     (let (closeCode, closeText) =
            (if 2 \<le> length payload
             then (uint (get_be (take 2 payload) :: 16 word), bytes_str (drop 2 payload))
             else (CloseNoStatusReceived, []))
      in if closeCode = CloseNormalClosure \<or> closeCode = CloseGoingAway then WsEOF
         else CloseError closeCode closeText)"

definition run_ping :: "ws_env \<Rightarrow> bytes \<Rightarrow> ws_conn \<Rightarrow> ws_error option \<times> ws_conn" where
  "run_ping env payload c =
     (case handlePing c of
        Some h \<Rightarrow> (h (bytes_str payload), c)
      | None \<Rightarrow> (None, control_soon env PongMessage (str_bytes (bytes_str payload)) c))"

definition run_pong :: "bytes \<Rightarrow> ws_conn \<Rightarrow> ws_error option" where
  "run_pong payload c = (case handlePong c of Some h \<Rightarrow> h (bytes_str payload) | None \<Rightarrow> None)"

definition process_control :: "ws_env \<Rightarrow> int \<Rightarrow> bytes \<Rightarrow> ws_conn \<Rightarrow> int ws_res" where
  "process_control env frameType payload c =
     (if frameType = PongMessage then
        (case run_pong payload c of Some e \<Rightarrow> (Inl e, c) | None \<Rightarrow> (Inr frameType, c))
      else if frameType = PingMessage then
        (case run_ping env payload c of (Some e, c) \<Rightarrow> (Inl e, c) | (None, c) \<Rightarrow> (Inr frameType, c))
      else if frameType = CloseMessage then
        (Inl (close_reason payload), control_soon env CloseMessage [] c)
      else (Inr frameType, c))"

text \<open>Sequencing of the steps: an error ends \<open>advanceFrame\<close>.\<close>

definition ws_bind :: "'a ws_res \<Rightarrow> ('a \<Rightarrow> ws_conn \<Rightarrow> 'b ws_res) \<Rightarrow> 'b ws_res" where
  "ws_bind m f = (case m of (Inl e, c) \<Rightarrow> (Inl e, c) | (Inr x, c) \<Rightarrow> f x c)"

definition ws_lift :: "ws_error option \<times> ws_conn \<Rightarrow> unit ws_res" where
  "ws_lift m = (case m of (Some e, c) \<Rightarrow> (Inl e, c) | (None, c) \<Rightarrow> (Inr (), c))"

lemma ws_bind_simps [simp]:
  "ws_bind (Inl e, c) f = (Inl e, c)" "ws_bind (Inr x, c) f = f x c"
  "ws_lift (Some e, c) = (Inl e, c)" "ws_lift (None, c) = (Inr (), c)"
  by (simp_all add: ws_bind_def ws_lift_def)

definition advanceFrame :: "ws_env \<Rightarrow> ws_conn \<Rightarrow> int ws_res" where
  "advanceFrame env c =
     ws_bind (ws_lift (skip_frame c)) (\<lambda>_ c.
     case conn_readFull 2 c of
       (_, Some e, c) \<Rightarrow> (Inl e, c)
     | (b, None, c) \<Rightarrow>
         ws_bind (check_header env (b ! 0) (b ! 1) c) (\<lambda>frameType c.
         ws_bind (ws_lift (read_length c)) (\<lambda>_ c.
         ws_bind (read_mask env (b ! 1) c) (\<lambda>_ c.
         if frameType = continuationFrame \<or> isData frameType then enforce_limit env frameType c
         else ws_bind (read_payload c) (\<lambda>payload c.
              process_control env frameType payload c)))))"

text \<open>
  Control frames touch neither the reader nor the message writer: \<open>core\<close> is the
  connection without \<open>closeSent\<close>, the network and the clock.
\<close>

definition core :: "ws_conn \<Rightarrow> ws_conn" where
  "core c = c\<lparr>closeSent := False, wire := [], netClosed := False, tick := 0\<rparr>"

lemma core_simps [simp]:
  "core (c\<lparr>closeSent := cs\<rparr>) = core c" "core (c\<lparr>wire := w\<rparr>) = core c"
  "core (c\<lparr>netClosed := nc\<rparr>) = core c" "core (c\<lparr>tick := t\<rparr>) = core c" "core (ws_Close c) = core c"
  by (simp_all add: core_def ws_Close_def)

lemma core_eqD:
  assumes "core c' = core c"
  shows "br c' = br c" "readErr c' = readErr c" "readRemaining c' = readRemaining c"
    "readFinal c' = readFinal c" "readSeq c' = readSeq c" "readLength c' = readLength c"
    "readLimit c' = readLimit c" "readMaskPos c' = readMaskPos c" "readMaskKey c' = readMaskKey c"
    "isServer c' = isServer c" "writeErr c' = writeErr c" "writeBuf c' = writeBuf c"
    "writePos c' = writePos c" "writeFrameType c' = writeFrameType c" "writeSeq c' = writeSeq c"
    "handlePing c' = handlePing c" "handlePong c' = handlePong c"
  using assms by (cases c; cases c'; simp add: core_def)+

lemma core_net_Write [simp]: "core (snd (net_Write env buf c)) = core c"
  by (simp add: net_Write_def split: prod.splits)

lemma core_control_frame [simp]: "core (snd (control_frame env mt data c)) = core c"
  by (simp add: control_frame_def newMaskKey_def Let_def)

lemma core_timer_for [simp]: "core (snd (timer_for env deadline c)) = core c"
  by (simp add: timer_for_def Now_def split: option.splits)

lemma core_WriteControl [simp]: "core (snd (WriteControl env mt data deadline c)) = core c"
proof -
  obtain buf c1 where f: "control_frame env mt data c = (buf, c1)" by (metis surj_pair)
  obtain d c2 where t: "timer_for env deadline c1 = (d, c2)" by (metis surj_pair)
  have "core c1 = core c" "core c2 = core c1"
    using core_control_frame [of env mt data c] core_timer_for [of env deadline c1] by (simp_all add: f t)
  then show ?thesis
    by (auto simp: WriteControl_def f t net_Write_def Let_def split: prod.splits)
qed

lemma core_control_soon [simp]: "core (control_soon env mt data c) = core c"
  by (simp add: control_soon_def Now_def)

lemmas control_soon_core [simp] = core_eqD [OF core_control_soon]

lemma handleProtocolError_eq:
  "handleProtocolError env msg c = (Inl (ErrorString (''websocket: '' @ msg)),
     control_soon env CloseMessage (FormatCloseMessage CloseProtocolError msg) c)"
  by (simp add: handleProtocolError_def)

lemma br_check_header [simp]: "br (snd (check_header env b0 b1 c)) = br c"
  by (simp add: check_header_def handleProtocolError_def Let_def)

lemma br_enforce_limit [simp]: "br (snd (enforce_limit env ft c)) = br c"
  by (simp add: enforce_limit_def Let_def)

lemma br_process_control [simp]: "br (snd (process_control env ft payload c)) = br c"
  by (simp add: process_control_def run_ping_def split: option.splits)

lemma read_n_full: "read_n cap k r = (bs, None, r') \<Longrightarrow> 0 < cap \<or> k = 0 \<Longrightarrow> length bs = k"
proof (induction cap k r arbitrary: bs r' rule: read_n.induct)
  case (1 cap k r)
  show ?case
  proof (cases "k = 0 \<or> cap = 0")
    case True
    with "1.prems" show ?thesis by (auto simp: read_n.simps)
  next
    case False
    obtain bs1 e1 r1 where b: "br_Read (min cap k) r = (bs1, e1, r1)" by (metis surj_pair)
    obtain bs2 e2 r2 where n: "read_n cap (k - length bs1) r1 = (bs2, e2, r2)" by (metis surj_pair)
    have e1: "e1 = None" using "1.prems" b False
      by (cases e1) (auto simp: read_n.simps [of cap k r])
    then have "bs = bs1 @ bs2" "e2 = None"
      using "1.prems" b n False by (auto simp: read_n.simps [of cap k r])
    moreover have "length bs2 = k - length bs1"
      using "1.IH" [OF False b [symmetric] refl e1] n False \<open>e2 = None\<close> by simp
    ultimately show ?thesis using br_Read_size [OF b] by simp
  qed
qed

lemma conn_readFull_size:
  assumes "conn_readFull k c = (bs, err, c')"
  shows "length bs + rd_size (br c') \<le> rd_size (br c)" and "err = None \<Longrightarrow> length bs = k"
    and "core c' = core (c\<lparr>br := br c'\<rparr>)"
proof -
  obtain bs1 e1 r1 where n: "read_n k k (br c) = (bs1, e1, r1)" by (metis surj_pair)
  show "length bs + rd_size (br c') \<le> rd_size (br c)"
    using assms n read_n_size [OF n] by (auto simp: conn_readFull_def)
  show "err = None \<Longrightarrow> length bs = k"
    using assms n read_n_full [of k k "br c" bs1 r1] by (auto simp: conn_readFull_def split: if_splits)
  show "core c' = core (c\<lparr>br := br c'\<rparr>)" using assms n by (auto simp: conn_readFull_def)
qed


lemma br_skip_frame: "rd_size (br (snd (skip_frame c))) \<le> rd_size (br c)"
proof -
  obtain bs e r where n: "read_n 8192 (nat (readRemaining c)) (br c) = (bs, e, r)" by (metis surj_pair)
  from read_n_size [OF n] show ?thesis by (simp add: skip_frame_def discard_n_def n)
qed

lemma br_read_length: "rd_size (br (snd (read_length c))) \<le> rd_size (br c)"
  using conn_readFull_size(1) [of 2 c] conn_readFull_size(1) [of 8 c]
  by (fastforce simp: read_length_def split: prod.splits option.splits)

lemma br_read_mask: "rd_size (br (snd (read_mask env b1 c))) \<le> rd_size (br c)"
  using conn_readFull_size(1) [of 4 "c\<lparr>readMaskPos := 0\<rparr>"]
  by (fastforce simp: read_mask_def handleProtocolError_def Let_def split: prod.splits option.splits)

lemma br_read_payload: "rd_size (br (snd (read_payload c))) \<le> rd_size (br c)"
  using conn_readFull_size(1) [of "nat (readRemaining c)" "c\<lparr>readRemaining := 0\<rparr>"]
  by (fastforce simp: read_payload_def split: prod.splits option.splits)

lemma ws_bindD:
  "ws_bind m f = (Inr y, c') \<Longrightarrow> \<exists>x c. m = (Inr x, c) \<and> f x c = (Inr y, c')"
  by (cases m) (auto simp: ws_bind_def split: sum.splits)

lemma ws_lift_eq_Inr [simp]: "ws_lift m = (Inr u, c) \<longleftrightarrow> m = (None, c)"
  by (cases m) (auto simp: ws_lift_def split: option.splits)

text \<open>Every frame consumes at least its two header bytes, so the loops over frames end.\<close>

lemma advanceFrame_size:
  assumes "advanceFrame env c = (Inr ft, c')"
  shows "rd_size (br c') < rd_size (br c)"
proof -
  obtain c1 where 1: "skip_frame c = (None, c1)"
    and k: "(case conn_readFull 2 c1 of (_, Some e, c) \<Rightarrow> (Inl e, c) | (b, None, c) \<Rightarrow>
       ws_bind (check_header env (b ! 0) (b ! 1) c) (\<lambda>frameType c.
         ws_bind (ws_lift (read_length c)) (\<lambda>_ c.
         ws_bind (read_mask env (b ! 1) c) (\<lambda>_ c.
         if frameType = continuationFrame \<or> isData frameType then enforce_limit env frameType c
         else ws_bind (read_payload c) (\<lambda>payload c. process_control env frameType payload c))))) = (Inr ft, c')"
    using assms by (auto simp: advanceFrame_def dest!: ws_bindD)
  obtain b err c2 where 2: "conn_readFull 2 c1 = (b, err, c2)" by (metis surj_pair)
  with k have e: "err = None" by (cases err) auto
  from k 2 e obtain ft3 c3 c4 u c5 where 3: "check_header env (b ! 0) (b ! 1) c2 = (Inr ft3, c3)"
    and 4: "read_length c3 = (None, c4)" and 5: "read_mask env (b ! 1) c4 = (Inr u, c5)"
    and k': "(if ft3 = continuationFrame \<or> isData ft3 then enforce_limit env ft3 c5
         else ws_bind (read_payload c5) (\<lambda>payload c. process_control env ft3 payload c)) = (Inr ft, c')"
    by (auto dest!: ws_bindD)
  have "rd_size (br c') \<le> rd_size (br c5)"
  proof (cases "ft3 = continuationFrame \<or> isData ft3")
    case True
    with k' br_enforce_limit [of env ft3 c5] show ?thesis by simp
  next
    case False
    with k' obtain p c6 where "read_payload c5 = (Inr p, c6)" "process_control env ft3 p c6 = (Inr ft, c')"
      by (auto dest!: ws_bindD)
    with br_read_payload [of c5] br_process_control [of env ft3 p c6] show ?thesis by simp
  qed
  moreover have "rd_size (br c1) \<le> rd_size (br c)" using br_skip_frame [of c] 1 by simp
  moreover have "rd_size (br c2) < rd_size (br c1)" using conn_readFull_size(1,2) [OF 2] e by simp
  moreover have "br c3 = br c2" using br_check_header [of env "b ! 0" "b ! 1" c2] unfolding 3 by simp
  moreover have "rd_size (br c4) \<le> rd_size (br c3)" using br_read_length [of c3] 4 by simp
  moreover have "rd_size (br c5) \<le> rd_size (br c4)" using br_read_mask [of env "b ! 1" c4] 5 by simp
  ultimately show ?thesis by simp
qed


lemma hideTempErr_Some:
  "\<exists>e'. hideTempErr (Some e) = Some e'" "(case hideTempErr (Some e) of None \<Rightarrow> m | Some x \<Rightarrow> k) = k"
  by (cases e; simp)+

function next_frame :: "ws_env \<Rightarrow> ws_conn \<Rightarrow> (int \<times> int) ws_res" where
  "next_frame env c =
     (case readErr c of
        Some e \<Rightarrow> (Inl e, c)
      | None \<Rightarrow>
          (case advanceFrame env c of
             (Inl e, c') \<Rightarrow> next_frame env (c'\<lparr>readErr := hideTempErr (Some e)\<rparr>)
           | (Inr frameType, c') \<Rightarrow>
               if frameType = TextMessage \<or> frameType = BinaryMessage
               then (Inr (frameType, readSeq c'), c') else next_frame env c'))"
  by pat_completeness auto
termination
  by (relation "measure (\<lambda>(env, c). case readErr c of None \<Rightarrow> Suc (rd_size (br c)) | Some e \<Rightarrow> 0)")
     (auto simp: hideTempErr_Some dest: advanceFrame_size [OF sym] split: option.split)

declare next_frame.simps [simp del]

text \<open>A message reader is its sequence number. \<open>NextReader\<close> returns the message type and the reader.\<close>

definition NextReader :: "ws_env \<Rightarrow> ws_conn \<Rightarrow> (int \<times> int) ws_res" where
  "NextReader env c = next_frame env (c\<lparr>readSeq := readSeq c + 1, readLength := 0\<rparr>)"

text \<open>The read of data of the current frame, and the loop of \<open>messageReader.Read\<close>.\<close>

definition read_data :: "nat \<Rightarrow> ws_conn \<Rightarrow> (bytes \<times> ws_error option) \<times> ws_conn" where
  "read_data n c =
     (let m = (if int n > readRemaining c then nat (readRemaining c) else n);
          (bs, err, r) = br_Read m (br c);
          c = c\<lparr>br := r, readErr := hideTempErr err\<rparr>;
          (out, c) = (if isServer c
                      then (let (out, pos) = maskBytes (readMaskKey c) (readMaskPos c) bs
                            in (out, c\<lparr>readMaskPos := pos\<rparr>))
                      else (bs, c));
          c = c\<lparr>readRemaining := readRemaining c - int (length bs)\<rparr>
      in ((out, readErr c), c))"

function read_loop :: "ws_env \<Rightarrow> int \<Rightarrow> nat \<Rightarrow> ws_conn \<Rightarrow> (bytes \<times> ws_error option) \<times> ws_conn" where
  "read_loop env sq n c =
     (case readErr c of
        Some e \<Rightarrow> (([], Some (if e = WsEOF \<and> sq = readSeq c then errUnexpectedEOF else e)), c)
      | None \<Rightarrow>
          if readRemaining c > 0 then read_data n c
          else if readFinal c then (([], Some WsEOF), c\<lparr>readSeq := readSeq c + 1\<rparr>)
          else (case advanceFrame env c of
                  (Inl e, c') \<Rightarrow> read_loop env sq n (c'\<lparr>readErr := hideTempErr (Some e)\<rparr>)
                | (Inr frameType, c') \<Rightarrow>
                    if frameType = TextMessage \<or> frameType = BinaryMessage
                    then read_loop env sq n (c'\<lparr>readErr := Some errUnexpectedData\<rparr>)
                    else read_loop env sq n c'))"
  by pat_completeness auto
termination
  by (relation "measure (\<lambda>(env, sq, n, c). case readErr c of None \<Rightarrow> Suc (rd_size (br c)) | Some e \<Rightarrow> 0)")
     (auto simp: hideTempErr_Some dest: advanceFrame_size [OF sym] split: option.split)

declare read_loop.simps [simp del]

definition mr_Read :: "ws_env \<Rightarrow> int \<Rightarrow> nat \<Rightarrow> ws_conn \<Rightarrow> (bytes \<times> ws_error option) \<times> ws_conn" where
  "mr_Read env sq n c =
     (if sq \<noteq> readSeq c then (([], Some WsEOF), c) else read_loop env sq n c)"


lemma read_loop_size:
  "read_loop env sq n c = ((bs, None), c') \<Longrightarrow> 0 < n \<Longrightarrow> rd_size (br c') < rd_size (br c)"
proof (induction env sq n c rule: read_loop.induct)
  case (1 env sq n c)
  show ?case
  proof (cases "readErr c")
    case None
    show ?thesis
    proof (cases "readRemaining c > 0")
      case True
      let ?m = "if int n > readRemaining c then nat (readRemaining c) else n"
      obtain bs1 e1 r1 where b: "br_Read ?m (br c) = (bs1, e1, r1)" by (metis surj_pair)
      have "readErr c' = None" "br c' = r1" "hideTempErr e1 = readErr c'"
        using "1.prems" None True b
        by (auto simp: read_loop.simps [of env sq n c] read_data_def Let_def split: if_splits prod.splits)
      then have "e1 = None" using hideTempErr_Some(1) [of "the e1"] by (cases e1) auto
      with br_Read_size [OF b] True \<open>br c' = r1\<close> "1.prems" show ?thesis by (auto split: if_splits)
    next
      case False
      then have nf: "\<not> readFinal c" using "1.prems" None
        by (auto simp: read_loop.simps [of env sq n c])
      obtain x c1 where a: "advanceFrame env c = (x, c1)" by (metis surj_pair)
      have err: "snd (fst (read_loop env sq n (d\<lparr>readErr := Some e\<rparr>))) \<noteq> None" for d e
        by (simp add: read_loop.simps)
      show ?thesis
      proof (cases x)
        case (Inl e)
        obtain e' where h: "hideTempErr (Some e) = Some e'" using hideTempErr_Some(1) by blast
        have "read_loop env sq n c = read_loop env sq n (c1\<lparr>readErr := Some e'\<rparr>)"
          using None False nf a Inl h by (simp add: read_loop.simps [of env sq n c])
        with err [of e' c1] "1.prems" show ?thesis by simp
      next
        case (Inr ft)
        have nd: "\<not> (ft = TextMessage \<or> ft = BinaryMessage)"
          using err [of errUnexpectedData c1] "1.prems" None False nf a Inr
          by (auto simp: read_loop.simps [of env sq n c] split: if_splits)
        have "read_loop env sq n c1 = ((bs, None), c')"
          using "1.prems" None False nf a Inr nd by (auto simp: read_loop.simps [of env sq n c])
        then have "rd_size (br c') < rd_size (br c1)"
          using "1.IH"(3) [OF None False nf a [symmetric] Inr nd] "1.prems" by simp
        with advanceFrame_size [of env c ft c1] a Inr show ?thesis by simp
      qed
    qed
  next
    case (Some e)
    with "1.prems" show ?thesis by (simp add: read_loop.simps)
  qed
qed

lemma mr_Read_size:
  "mr_Read env sq n c = ((bs, None), c') \<Longrightarrow> 0 < n \<Longrightarrow> rd_size (br c') < rd_size (br c)"
  using read_loop_size [of env sq n c bs c'] by (auto simp: mr_Read_def split: if_splits)

text \<open>
  \<open>ioutil.ReadAll\<close> reads into a buffer with at least 512 free bytes; \<open>grow n\<close> is how
  many more there are after \<open>n\<close> bytes.
\<close>

function ReadAll :: "ws_env \<Rightarrow> (nat \<Rightarrow> nat) \<Rightarrow> int \<Rightarrow> bytes \<Rightarrow> ws_conn \<Rightarrow> (bytes \<times> ws_error option) \<times> ws_conn" where
  "ReadAll env grow sq acc c =
     (case mr_Read env sq (512 + grow (length acc)) c of
        ((bs, Some e), c') \<Rightarrow> ((acc @ bs, if e = WsEOF then None else Some e), c')
      | ((bs, None), c') \<Rightarrow> ReadAll env grow sq (acc @ bs) c')"
  by pat_completeness auto
termination
  by (relation "measure (\<lambda>(env, grow, sq, acc, c). rd_size (br c))")
     (auto dest: mr_Read_size [OF sym] mr_Read_size)

declare ReadAll.simps [simp del]

definition ReadMessage :: "ws_env \<Rightarrow> (nat \<Rightarrow> nat) \<Rightarrow> ws_conn \<Rightarrow> (int \<times> bytes \<times> ws_error option) \<times> ws_conn" where
  "ReadMessage env grow c =
     (case NextReader env c of
        (Inl e, c) \<Rightarrow> ((noFrame, [], Some e), c)
      | (Inr (messageType, r), c) \<Rightarrow>
          (case ReadAll env grow r [] c of ((p, err), c) \<Rightarrow> ((messageType, p, err), c)))"

end
