(* ===== verification/WsFrames.thy ===== *)
theory WsFrames
  imports WsReader
begin

text \<open>
  What the writing half puts on the wire and what the reading half makes of it.
  \<open>frame_bytes\<close> is a frame of RFC 6455 written down directly; \<open>enc_msg\<close> is a message
  in fragments. The writer's lemmas show that the buffer juggling of \<open>flushFrame\<close> and
  the copy loops produce exactly such messages; the reader's lemmas show that the
  parser, however the network cuts the stream into reads and whatever space the
  caller offers, returns their payload.
\<close>

section \<open>Masking\<close>

lemma maskBytes_pos: "snd (maskBytes key pos bs) = (pos + length bs) mod 4"
  by (induction key pos bs rule: maskBytes.induct) (auto split: prod.splits)

lemma length_maskBytes [simp]: "length (fst (maskBytes key pos bs)) = length bs"
  by (induction key pos bs rule: maskBytes.induct) (auto split: prod.splits)

lemma maskBytes_nth:
  "i < length bs \<Longrightarrow> fst (maskBytes key pos bs) ! i = bs ! i XOR key ! ((pos + i) mod 4)"
proof (induction key pos bs arbitrary: i rule: maskBytes.induct)
  case (2 key pos b bs)
  then show ?case by (cases i) (auto split: prod.splits)
qed simp

lemma maskBytes_mod: "fst (maskBytes key (pos mod 4) bs) = fst (maskBytes key pos bs)"
  by (rule nth_equalityI) (auto simp: maskBytes_nth mod_add_left_eq)

lemma maskBytes_append:
  "fst (maskBytes key pos (xs @ ys)) = fst (maskBytes key pos xs) @ fst (maskBytes key (pos + length xs) ys)"
  by (rule nth_equalityI) (auto simp: maskBytes_nth nth_append add.assoc)

lemma maskBytes_involution: "fst (maskBytes key pos (fst (maskBytes key pos bs))) = bs"
  by (rule nth_equalityI) (auto simp: maskBytes_nth xor.assoc)

lemma maskBytes_Nil [simp]: "fst (maskBytes key pos []) = []"
  by simp

section \<open>Frames\<close>

definition len_code :: "nat \<Rightarrow> byte \<times> bytes" where
  "len_code n =
     (if 65536 \<le> n then (127, put_be 8 (word_of_nat n :: 64 word))
      else if 125 < n then (126, put_be 2 (word_of_nat n :: 16 word))
      else (word_of_nat n, []))"

definition frame_bytes :: "bool \<Rightarrow> bytes \<Rightarrow> bool \<Rightarrow> int \<Rightarrow> bytes \<Rightarrow> bytes" where
  "frame_bytes server key fin op data =
     [if fin then word_of_int op OR finalBit else word_of_int op,
      (if server then 0 else maskBit) OR fst (len_code (length data))] @ snd (len_code (length data)) @
     (if server then data else key @ fst (maskBytes key 0 data))"

fun enc_msg :: "bool \<Rightarrow> int \<Rightarrow> (bytes \<times> bytes) list \<Rightarrow> bytes" where
  "enc_msg server op [] = []"
| "enc_msg server op [(key, data)] = frame_bytes server key True op data"
| "enc_msg server op ((key, data) # f # fs) =
     frame_bytes server key False op data @ enc_msg server continuationFrame (f # fs)"

text \<open>The payload of fragments given as pairs of key and data.\<close>

definition frag_bytes :: "(bytes \<times> bytes) list \<Rightarrow> bytes" where
  "frag_bytes fs = concat (map snd fs)"

definition keys_ok :: "(bytes \<times> bytes) list \<Rightarrow> bool" where
  "keys_ok fs \<longleftrightarrow> (\<forall>(key, d)\<in>set fs. length key = 4)"

section \<open>The writer\<close>

definition ws_ok :: "ws_conn \<Rightarrow> bool" where
  "ws_ok c \<longleftrightarrow> maxFrameHeaderSize < length (writeBuf c) \<and> maxFrameHeaderSize \<le> writePos c \<and>
     writePos c \<le> length (writeBuf c)"

definition pending :: "ws_conn \<Rightarrow> bytes" where
  "pending c = take (writePos c - maxFrameHeaderSize) (drop maxFrameHeaderSize (writeBuf c))"

text \<open>A network that takes whatever is written.\<close>

definition net_ok :: "ws_env \<Rightarrow> bool" where
  "net_ok env \<longleftrightarrow> (\<forall>closed before buf. we_write env closed before buf = (length buf, None))"

lemma length_put_be [simp]: "length (put_be n w) = n"
  by (simp add: put_be_def)

lemma length_len_code: "length (snd (len_code n)) = (if 65536 \<le> n then 8 else if 125 < n then 2 else 0)"
  by (simp add: len_code_def)

lemma put_at_append: "length ys \<le> length Y \<Longrightarrow> put_at (X @ Y) (length X) ys = X @ ys @ drop (length ys) Y"
  by (simp add: put_at_def)

lemma put_at_Nil [simp]: "put_at xs i [] = xs"
  by (simp add: put_at_def)

lemma length_put_at [simp]: "length (put_at xs i ys) = length xs"
  by (auto simp: put_at_def Let_def min_def)

lemma put_at_header:
  assumes "fp + 2 + length ext \<le> length h"
  shows "put_at (h[fp := b0, fp + 1 := b1]) (fp + 2) ext =
    take fp h @ [b0, b1] @ ext @ drop (fp + 2 + length ext) h"
proof -
  have "h[fp := b0, fp + 1 := b1] = (take fp h @ [b0, b1]) @ drop (fp + 2) h"
    using assms by (intro nth_equalityI) (auto simp: nth_append nth_list_update nth_Cons nat_diff_split_asm not_less le_imp_diff_is_add
        ac_simps split: nat.splits)
  moreover have "length (take fp h @ [b0, b1]) = fp + 2" using assms by simp
  ultimately have "put_at (h[fp := b0, fp + 1 := b1]) (fp + 2) ext =
      (take fp h @ [b0, b1]) @ ext @ drop (length ext) (drop (fp + 2) h)"
    using put_at_append [of ext "drop (fp + 2) h" "take fp h @ [b0, b1]"] assms by simp
  then show ?thesis by (simp add: add.commute)
qed

lemma put_header_eq:
  fixes server :: bool and n :: nat
  assumes "14 \<le> length buf"
  defines "e \<equiv> (if server then 14 else 10 :: nat)"
  defines "fp \<equiv> e - 2 - length (snd (len_code n))"
  shows "put_header server b0 b1 n buf =
    (fp, take fp buf @ [b0, b1 OR fst (len_code n)] @ snd (len_code n) @ drop e buf)"
proof -
  have h: "put_at (buf[q := b0, q + 1 := x]) (q + 2) ext =
      take q buf @ [b0, x] @ ext @ drop (q + 2 + length ext) buf"
    if "q + 2 + length ext \<le> 14" for q x ext
    using put_at_header [of q ext buf] that assms(1) by simp
  show ?thesis
    using h [of _ "[]"] h [of 4 "put_be 8 (word_of_nat n :: 64 word)"] h [of 0 "put_be 8 (word_of_nat n :: 64 word)"]
      h [of 10 "put_be 2 (word_of_nat n :: 16 word)"] h [of 6 "put_be 2 (word_of_nat n :: 16 word)"]
      h [of 12 "[]"] h [of 8 "[]"]
    by (simp add: put_header_def e_def fp_def len_code_def)
qed

text \<open>The masking key of the next frame.\<close>

definition next_key :: "ws_env \<Rightarrow> ws_conn \<Rightarrow> bytes" where
  "next_key env c = fst (newMaskKey env c)"

lemma newMaskKey_eq: "newMaskKey env c = (next_key env c, c\<lparr>tick := Suc (tick c)\<rparr>)"
  by (simp add: newMaskKey_def next_key_def Let_def)

lemma length_next_key [simp]: "length (next_key env c) = 4"
  by (simp add: next_key_def newMaskKey_def Let_def)

lemma next_key_cong: "tick c' = tick c \<Longrightarrow> next_key env c' = next_key env c"
  by (simp add: next_key_def newMaskKey_def Let_def)

lemma mask_frame_eq:
  assumes "writeBuf c = X @ Y @ pending c0 @ Z" and "length X = 10" and "length Y = 4"
    and "writePos c = 14 + length (pending c0)"
  shows "mask_frame env c = c\<lparr>tick := Suc (tick c),
    writeBuf := X @ next_key env c @ fst (maskBytes (next_key env c) 0 (pending c0)) @ Z\<rparr>"
proof -
  let ?k = "next_key env c"
  have a: "put_at (X @ Y @ pending c0 @ Z) 10 ?k = X @ ?k @ pending c0 @ Z"
    using put_at_append [of ?k "Y @ pending c0 @ Z" X] assms(2,3) by simp
  have b: "put_at (X @ ?k @ pending c0 @ Z) 14 m = X @ ?k @ m @ Z" if "length m = length (pending c0)" for m
    using put_at_append [of m "pending c0 @ Z" "X @ ?k"] assms(2) that by simp
  show ?thesis
    using assms by (simp add: mask_frame_def newMaskKey_eq a b)
qed

lemma writeBuf_split:
  assumes "ws_ok c"
  shows "writeBuf c = take 14 (writeBuf c) @ pending c @ drop (writePos c) (writeBuf c)"
    and "length (pending c) = writePos c - 14"
proof -
  show "length (pending c) = writePos c - 14" using assms by (auto simp: pending_def ws_ok_def)
  have "drop 14 (writeBuf c) = pending c @ drop (writePos c - 14) (drop 14 (writeBuf c))"
    by (simp only: pending_def append_take_drop_id)
  then show "writeBuf c = take 14 (writeBuf c) @ pending c @ drop (writePos c) (writeBuf c)"
    using assms by (metis append_take_drop_id drop_drop le_add_diff_inverse2 ws_ok_def)
qed

text \<open>The bytes between \<open>framePos\<close> and \<open>writePos\<close> when the frame is complete.\<close>

definition built :: "ws_env \<Rightarrow> byte \<Rightarrow> nat \<Rightarrow> ws_conn \<Rightarrow> nat \<times> ws_conn" where
  "built env b0 n c =
     (let (framePos, buf) = put_header (isServer c) b0 (if isServer c then 0 else 0 OR maskBit) n (writeBuf c);
          c = c\<lparr>writeBuf := buf\<rparr>
      in (framePos, if isServer c then c else mask_frame env c))"

lemma built_frame:
  assumes "ws_ok c" and "built env b0 n c = (fp, c')"
  shows "take (writePos c' - fp) (drop fp (writeBuf c')) =
      [b0, (if isServer c then 0 else maskBit) OR fst (len_code n)] @ snd (len_code n) @
      (if isServer c then pending c
       else next_key env c @ fst (maskBytes (next_key env c) 0 (pending c)))" (is "?a = ?f")
    and "c' = c\<lparr>writeBuf := writeBuf c', tick := tick c'\<rparr>"
    and "length (writeBuf c') = length (writeBuf c)"
proof -
  let ?x = "[b0, (if isServer c then 0 else maskBit) OR fst (len_code n)] @ snd (len_code n)"
  let ?e = "if isServer c then 14 else 10 :: nat"
  have l14: "14 \<le> length (writeBuf c)" using assms(1) by (simp add: ws_ok_def)
  have fp: "fp = ?e - 2 - length (snd (len_code n))"
    using assms(2) by (simp add: built_def put_header_eq [OF l14] Let_def)
  have sum: "fp + length ?x = ?e" and fp14: "fp \<le> 14" unfolding fp by (simp_all add: length_len_code)
  let ?d = "drop (writePos c) (writeBuf c)"
  have lt: "length (take fp (writeBuf c)) = fp" using l14 fp14 by simp
  have wp: "writePos c = 14 + length (pending c)" using writeBuf_split(2) [OF assms(1)] assms(1) by (simp add: ws_ok_def)
  have d14: "drop 14 (writeBuf c) = pending c @ ?d"
    using l14 by (subst writeBuf_split(1) [OF assms(1)]) simp
  have w: "writeBuf c' = take fp (writeBuf c) @ ?f @ ?d \<and> c' = c\<lparr>writeBuf := writeBuf c', tick := tick c'\<rparr>"
  proof (cases "isServer c")
    case True
    with assms(2) fp d14 show ?thesis
      by (auto simp: built_def put_header_eq [OF l14] Let_def)
  next
    case False
    let ?c = "c\<lparr>writeBuf := take fp (writeBuf c) @ ?x @ drop 10 (writeBuf c)\<rparr>"
    have y: "drop 10 (writeBuf c) = take 4 (drop 10 (writeBuf c)) @ pending c @ ?d"
      using d14 append_take_drop_id [of 4 "drop 10 (writeBuf c)"] by simp
    have "mask_frame env ?c = ?c\<lparr>tick := Suc (tick ?c), writeBuf :=
        (take fp (writeBuf c) @ ?x) @ next_key env ?c @ fst (maskBytes (next_key env ?c) 0 (pending c)) @ ?d\<rparr>"
    proof (rule mask_frame_eq)
      show "writeBuf ?c = (take fp (writeBuf c) @ ?x) @ take 4 (drop 10 (writeBuf c)) @ pending c @ ?d"
        by (subst y [symmetric]) simp
      show "length (take fp (writeBuf c) @ ?x) = 10" using False sum lt by simp
      show "length (take 4 (drop 10 (writeBuf c))) = 4" using l14 by simp
      show "writePos ?c = 14 + length (pending c)" using wp by simp
    qed
    moreover have "next_key env ?c = next_key env c" by (rule next_key_cong) simp
    moreover have "c' = mask_frame env ?c"
      using assms(2) False fp by (auto simp: built_def put_header_eq [OF l14] Let_def)
    ultimately show ?thesis using False by simp
  qed
  then show c': "c' = c\<lparr>writeBuf := writeBuf c', tick := tick c'\<rparr>" by blast
  then have wp': "writePos c' = writePos c" by (metis ws_conn.select_convs(6) ws_conn.surjective ws_conn.update_convs(5,23))
  define F where "F = ?f"
  have lf: "length F = writePos c - fp"
    using sum wp by (cases "isServer c") (auto simp: F_def)
  have "writeBuf c' = take fp (writeBuf c) @ F @ ?d" using w by (simp only: F_def)
  then have "?a = F" and "length (writeBuf c') = length (writeBuf c)"
    using lt lf wp' wp fp14 assms(1) by (auto simp: ws_ok_def)
  then show "?a = ?f" and "length (writeBuf c') = length (writeBuf c)" by (simp_all only: F_def)
qed


lemma write_bufs_ok:
  "net_ok env \<Longrightarrow> write_bufs env bufs c = (None, c\<lparr>wire := wire c @ filter (\<lambda>b. b \<noteq> []) bufs\<rparr>)"
  by (induction bufs arbitrary: c) (auto simp: net_ok_def net_Write_def)

lemma concat_filter_Nil [simp]: "concat (filter (\<lambda>b. b \<noteq> []) bs) = concat bs"
  by (induction bs) auto

lemma flushFrame_built:
  "flushFrame env final extra c =
     (let len = writePos c - maxFrameHeaderSize + length extra
      in if isControl (writeFrameType c) \<and> (\<not> final \<or> len > maxControlFramePayloadSize) then
           (Some errInvalidControlFrame,
            c\<lparr>writeSeq := writeSeq c + 1, writeFrameType := noFrame, writePos := maxFrameHeaderSize\<rparr>)
         else
           (let (framePos, c1) = built env (if final then word_of_int (writeFrameType c) OR finalBit
                                            else word_of_int (writeFrameType c)) len c
            in if \<not> isServer c1 \<and> extra \<noteq> [] then
                 (Some errExtraInClient, c1\<lparr>writeErr := Some errExtraInClient\<rparr>)
               else
                 (let (err, c2) = conn_write env (writeFrameType c1)
                        [take (writePos c1 - framePos) (drop framePos (writeBuf c1)), extra] c1;
                      c3 = c2\<lparr>writeErr := err, writePos := maxFrameHeaderSize,
                              writeFrameType := continuationFrame\<rparr>
                  in (err, if final then c3\<lparr>writeSeq := writeSeq c3 + 1, writeFrameType := noFrame\<rparr> else c3))))"
proof -
  obtain fp buf where "put_header (isServer c) (if final then word_of_int (writeFrameType c) OR finalBit
      else word_of_int (writeFrameType c)) (if isServer c then 0 else 0 OR maskBit)
      (writePos c - maxFrameHeaderSize + length extra) (writeBuf c) = (fp, buf)" by (metis surj_pair)
  then show ?thesis by (simp only: flushFrame_def built_def Let_def prod.case)
qed

text \<open>What a successful flush does: one frame on the wire, and an empty buffer.\<close>

definition flushed :: "bool \<Rightarrow> ws_conn \<Rightarrow> ws_conn \<Rightarrow> bool" where
  "flushed final c c' \<longleftrightarrow> ws_ok c' \<and> pending c' = [] \<and> writeErr c' = None \<and>
     writeFrameType c' = (if final then noFrame else continuationFrame) \<and>
     writeSeq c' = (if final then writeSeq c + 1 else writeSeq c) \<and>
     (closeSent c' \<longleftrightarrow> writeFrameType c = CloseMessage) \<and>
     isServer c' = isServer c \<and> length (writeBuf c') = length (writeBuf c)"

lemma flushFrame_ok:
  assumes ok: "ws_ok c" "net_ok env" "\<not> closeSent c"
    and extra: "isServer c \<or> extra = []"
    and ctl: "isControl (writeFrameType c) \<Longrightarrow> final \<and> length (pending c @ extra) \<le> 125"
  obtains c' where "flushFrame env final extra c = (None, c')" and "flushed final c c'"
    and "concat (wire c') = concat (wire c) @
      frame_bytes (isServer c) (next_key env c) final (writeFrameType c) (pending c @ extra)"
proof -
  let ?n = "writePos c - 14 + length extra"
  let ?b0 = "if final then word_of_int (writeFrameType c) OR finalBit else word_of_int (writeFrameType c) :: byte"
  obtain fp c1 where b: "built env ?b0 ?n c = (fp, c1)" by (metis surj_pair)
  note f = built_frame [OF ok(1) b]
  define F where "F = take (writePos c1 - fp) (drop fp (writeBuf c1))"
  have n: "?n = length (pending c @ extra)" using writeBuf_split(2) [OF ok(1)] by simp
  have c1: "isServer c1 = isServer c" "closeSent c1 = closeSent c" "wire c1 = wire c"
    "writeFrameType c1 = writeFrameType c" "writeSeq c1 = writeSeq c"
    by (subst f(2); simp)+
  let ?c2 = "(if writeFrameType c = CloseMessage then c1\<lparr>closeSent := True\<rparr> else c1)
     \<lparr>wire := wire c @ filter (\<lambda>b. b \<noteq> []) [F, extra], writeErr := None, writePos := 14,
      writeFrameType := continuationFrame\<rparr>"
  let ?c3 = "if final then ?c2\<lparr>writeSeq := writeSeq c + 1, writeFrameType := noFrame\<rparr> else ?c2"
  have ctl': "(isControl (writeFrameType c) \<and> (\<not> final \<or> ?n > 125)) = False"
    using ctl n by auto
  have ex: "(\<not> isServer c1 \<and> extra \<noteq> []) = False" using extra c1 by auto
  have cw: "conn_write env (writeFrameType c1) [F, extra] c1 =
     (None, (if writeFrameType c = CloseMessage then c1\<lparr>closeSent := True\<rparr> else c1)
        \<lparr>wire := wire c @ filter (\<lambda>b. b \<noteq> []) [F, extra]\<rparr>)"
    using ok c1 by (simp add: conn_write_def write_bufs_ok Let_def del: filter.simps write_bufs.simps)
  have fl: "flushFrame env final extra c = (None, ?c3)"
    unfolding flushFrame_built Let_def ctl' if_False b prod.case ex F_def [symmetric] cw
    using c1 by auto
  have "concat [F, extra] =
      frame_bytes (isServer c) (next_key env c) final (writeFrameType c) (pending c @ extra)"
    using extra unfolding F_def f(1) n frame_bytes_def by auto
  moreover have "wire ?c3 = wire c @ filter (\<lambda>b. b \<noteq> []) [F, extra]" by (simp del: filter.simps)
  ultimately have "concat (wire ?c3) = concat (wire c) @
      frame_bytes (isServer c) (next_key env c) final (writeFrameType c) (pending c @ extra)"
    by (simp only: concat_append concat_filter_Nil)
  moreover have "flushed final c ?c3"
    using ok f(3) c1 by (auto simp: flushed_def ws_ok_def pending_def)
  ultimately show ?thesis using that fl by blast
qed


text \<open>Fragments of a message that is not finished.\<close>

fun enc_frags :: "bool \<Rightarrow> int \<Rightarrow> (bytes \<times> bytes) list \<Rightarrow> bytes" where
  "enc_frags server op [] = []"
| "enc_frags server op ((key, data) # fs) =
     frame_bytes server key False op data @ enc_frags server continuationFrame fs"

lemma enc_frags_append:
  "enc_frags server op (fs @ gs) =
     enc_frags server op fs @ enc_frags server (if fs = [] then op else continuationFrame) gs"
  by (induction server op fs rule: enc_frags.induct) auto

lemma enc_msg_snoc:
  "enc_msg server op (fs @ [(key, data)]) =
     enc_frags server op fs @ frame_bytes server key True (if fs = [] then op else continuationFrame) data"
proof (induction server op fs rule: enc_frags.induct)
  case (2 server op k d fs)
  then show ?case by (cases fs) auto
qed simp

definition writing :: "ws_conn \<Rightarrow> bool" where
  "writing c \<longleftrightarrow> ws_ok c \<and> \<not> closeSent c \<and> writeErr c = None \<and> \<not> isControl (writeFrameType c)"

definition sent_frags :: "ws_conn \<Rightarrow> (bytes \<times> bytes) list \<Rightarrow> ws_conn \<Rightarrow> bool" where
  "sent_frags c fs c' \<longleftrightarrow> writing c' \<and> (\<forall>(key, data)\<in>set fs. length key = 4) \<and>
     concat (wire c') = concat (wire c) @ enc_frags (isServer c) (writeFrameType c) fs \<and>
     writeFrameType c' = (if fs = [] then writeFrameType c else continuationFrame) \<and>
     writeSeq c' = writeSeq c \<and> isServer c' = isServer c \<and> length (writeBuf c') = length (writeBuf c)"

lemma sent_frags_trans:
  "sent_frags c fs c' \<Longrightarrow> sent_frags c' gs c'' \<Longrightarrow> sent_frags c (fs @ gs) c''"
  by (auto simp: sent_frags_def enc_frags_append)

lemma isControl_small [simp]: "\<not> isControl 0" "\<not> isControl 1" "\<not> isControl 2" "\<not> isControl (-1)"
  by (simp_all add: isControl_def)

lemma flush_frag:
  assumes "writing c" and "net_ok env" and "isServer c \<or> extra = []"
  obtains c' where "flushFrame env False extra c = (None, c')"
    and "sent_frags c [(next_key env c, pending c @ extra)] c'" and "pending c' = []"
proof -
  obtain c' where "flushFrame env False extra c = (None, c')" "flushed False c c'"
    "concat (wire c') = concat (wire c) @
      frame_bytes (isServer c) (next_key env c) False (writeFrameType c) (pending c @ extra)"
    using assms flushFrame_ok [of c env extra False] by (metis writing_def)
  with assms that show ?thesis
    by (auto simp: flushed_def sent_frags_def writing_def isControl_def)
qed

lemma put_pending:
  assumes "ws_ok c" and "length q \<le> length (writeBuf c) - writePos c"
  defines "c' \<equiv> c\<lparr>writeBuf := put_at (writeBuf c) (writePos c) q, writePos := writePos c + length q\<rparr>"
  shows "ws_ok c'" and "pending c' = pending c @ q"
proof -
  define X where "X = take (writePos c) (writeBuf c)"
  have lx: "length X = writePos c" using assms(1) by (auto simp: X_def ws_ok_def)
  have "put_at (writeBuf c) (writePos c) q = X @ q @ drop (writePos c + length q) (writeBuf c)"
    using put_at_append [of q "drop (writePos c) (writeBuf c)" X] assms(2) lx
    by (simp add: X_def add.commute)
  moreover have "pending c = drop 14 X"
    using assms(1) by (simp add: pending_def X_def drop_take ws_ok_def)
  ultimately show "pending c' = pending c @ q"
    using lx assms(1) by (simp add: pending_def c'_def ws_ok_def)
  show "ws_ok c'" using assms by (auto simp: ws_ok_def)
qed

lemma sent_frags_put:
  assumes "sent_frags c fs c'" and "length q \<le> length (writeBuf c') - writePos c'"
  shows "sent_frags c fs (c'\<lparr>writeBuf := put_at (writeBuf c') (writePos c') q, writePos := writePos c' + length q\<rparr>)"
  using assms put_pending(1) [of c' q] by (auto simp: sent_frags_def writing_def)

lemma mw_ncopy_ok:
  assumes "writing c" and "net_ok env" and "0 < m"
  obtains fs n c' where "mw_ncopy env m c = (Inr n, c')" and "sent_frags c fs c'"
    and "0 < n" and "n \<le> m" and "n \<le> length (writeBuf c') - writePos c'"
    and "concat (map snd fs) @ pending c' = pending c"
proof (cases "length (writeBuf c) - writePos c = 0")
  case True
  obtain c' where f: "flushFrame env False [] c = (None, c')"
    and s: "sent_frags c [(next_key env c, pending c @ [])] c'" and p: "pending c' = []"
    using flush_frag [OF assms(1,2), of "[]"] by auto
  have "ws_ok c'" using s by (simp add: sent_frags_def writing_def)
  then have "0 < length (writeBuf c') - writePos c'"
    using writeBuf_split(2) [of c'] p by (simp add: ws_ok_def)
  with True f s p assms(3) that [of "min (length (writeBuf c') - writePos c') m" c'] show ?thesis
    by (simp add: mw_ncopy_def)
next
  case False
  have "sent_frags c [] c" using assms(1) by (simp add: sent_frags_def)
  with False assms(3) that [of "min (length (writeBuf c) - writePos c) m" c "[]"] show ?thesis
    by (simp add: mw_ncopy_def)
qed

lemma copy_loop_ok:
  assumes "writing c" and "net_ok env"
  shows "\<exists>fs c'. copy_loop env p c = (None, c') \<and> sent_frags c fs c' \<and>
    concat (map snd fs) @ pending c' = pending c @ p"
  using assms
proof (induction env p c rule: copy_loop.induct)
  case (1 env p c)
  show ?case
  proof (cases "p = []")
    case True
    with "1.prems" show ?thesis
      by (auto simp: copy_loop.simps sent_frags_def intro!: exI [of _ "[]"])
  next
    case False
    then have "0 < length p" by simp
    from mw_ncopy_ok [OF "1.prems" this]
    obtain fs n c1 where m: "mw_ncopy env (length p) c = (Inr n, c1)" and s: "sent_frags c fs c1"
      and n: "0 < n" "n \<le> length p" "n \<le> length (writeBuf c1) - writePos c1"
      and p: "concat (map snd fs) @ pending c1 = pending c" by metis
    let ?q = "take n p"
    let ?c2 = "c1\<lparr>writeBuf := put_at (writeBuf c1) (writePos c1) ?q, writePos := writePos c1 + n\<rparr>"
    have lq: "length ?q = n" using n by simp
    have s2: "sent_frags c fs ?c2" using sent_frags_put [OF s, of ?q] n lq by simp
    have p2: "pending ?c2 = pending c1 @ ?q"
      using put_pending(2) [of c1 ?q] s n lq by (simp add: sent_frags_def writing_def)
    have "writing ?c2" using s2 by (simp add: sent_frags_def)
    then obtain gs c' where "copy_loop env (drop n p) ?c2 = (None, c')" "sent_frags ?c2 gs c'"
      and "concat (map snd gs) @ pending c' = pending ?c2 @ drop n p"
      using "1.IH" [OF False m [symmetric] refl] n "1.prems" by auto
    with False m n p p2 sent_frags_trans [OF s2] show ?thesis
      by (intro exI [of _ "fs @ gs"] exI [of _ c'])
        (auto simp: copy_loop.simps [of env p c])
  qed
qed


text \<open>A connection between two messages.\<close>

definition idle :: "ws_conn \<Rightarrow> bool" where
  "idle c \<longleftrightarrow> ws_ok c \<and> \<not> closeSent c \<and> writeErr c = None \<and> writeFrameType c = noFrame \<and> pending c = []"

lemma idle_newConn: "idle (newConn src server rs ws)"
  by (simp add: idle_def newConn_def SetPingHandler_def SetPongHandler_def ws_ok_def pending_def Let_def)

lemma NextWriter_idle:
  "idle c \<Longrightarrow> isData mt \<Longrightarrow> NextWriter env mt c = (Inr (writeSeq c), c\<lparr>writeFrameType := mt\<rparr>)"
  by (simp add: idle_def NextWriter_def)

lemma flush_final:
  assumes "writing c" and "net_ok env" and "isServer c \<or> extra = []"
  obtains c' where "flushFrame env True extra c = (None, c')" and "idle c'"
    and "writeSeq c' = writeSeq c + 1" and "isServer c' = isServer c"
    and "concat (wire c') = concat (wire c) @
      frame_bytes (isServer c) (next_key env c) True (writeFrameType c) (pending c @ extra)"
proof -
  obtain c' where "flushFrame env True extra c = (None, c')" "flushed True c c'"
    "concat (wire c') = concat (wire c) @
      frame_bytes (isServer c) (next_key env c) True (writeFrameType c) (pending c @ extra)"
    using assms flushFrame_ok [of c env extra True] by (metis writing_def)
  with assms that show ?thesis
    by (auto simp: flushed_def idle_def writing_def isControl_def)
qed

lemma WriteMessage_frames:
  assumes "idle c" and "net_ok env" and "isData mt"
  obtains fs c' where "WriteMessage env mt data c = (None, c')" and "idle c'"
    and "isServer c' = isServer c" and "fs \<noteq> []" and "frag_bytes fs = data"
    and "keys_ok fs"
    and "concat (wire c') = concat (wire c) @ enc_msg (isServer c) mt fs"
proof -
  let ?c = "c\<lparr>writeFrameType := mt\<rparr>"
  have w: "writing ?c" and p0: "pending ?c = []" and e: "mw_err (writeSeq c) ?c = None"
    using assms by (auto simp: idle_def writing_def isData_def isControl_def ws_ok_def pending_def mw_err_def)
  note nw = NextWriter_idle [OF assms(1,3), of env]
  show ?thesis
  proof (cases "length data > 2 * length (writeBuf ?c) \<and> isServer ?c")
    case True
    obtain c' where f: "flushFrame env True data ?c = (None, c')" and c': "idle c'"
      "writeSeq c' = writeSeq ?c + 1" "isServer c' = isServer ?c"
      "concat (wire c') = concat (wire ?c) @
         frame_bytes (isServer ?c) (next_key env ?c) True mt (pending ?c @ data)"
      using flush_final [OF w assms(2), of data] True by auto
    have "WriteMessage env mt data c = (None, c')"
      using True f c' nw e by (simp add: WriteMessage_def mw_write_def)
    with c' p0 that [of c' "[(next_key env ?c, data)]"] show ?thesis by (simp add: frag_bytes_def keys_ok_def)
  next
    case False
    obtain fs c1 where cl: "copy_loop env data ?c = (None, c1)" and s: "sent_frags ?c fs c1"
      and d: "concat (map snd fs) @ pending c1 = data"
      using copy_loop_ok [OF w assms(2), of data] p0 by auto
    have s': "writing c1" "isServer c1 = isServer c" "writeSeq c1 = writeSeq c"
      using s by (auto simp: sent_frags_def)
    obtain c' where f: "flushFrame env True [] c1 = (None, c')" and c': "idle c'" "isServer c' = isServer c1"
      "concat (wire c') = concat (wire c1) @
         frame_bytes (isServer c1) (next_key env c1) True (writeFrameType c1) (pending c1 @ [])"
      using flush_final [OF s'(1) assms(2), of "[]"] by auto
    have "WriteMessage env mt data c = (None, c')"
      using False f s' cl nw e by (auto simp: WriteMessage_def mw_write_def)
    with c' s s' d that [of c' "fs @ [(next_key env c1, pending c1)]"] show ?thesis
      by (auto simp: enc_msg_snoc sent_frags_def frag_bytes_def keys_ok_def)
  qed
qed


section \<open>The reader\<close>

text \<open>A network that delivers at least one byte with every read and never fails before the end.\<close>

definition ok_src :: "src \<Rightarrow> bool" where
  "ok_src s \<longleftrightarrow> list_all (\<lambda>(bs, e). bs \<noteq> [] \<and> e = None) s"

definition clean :: "bufio \<Rightarrow> bool" where
  "clean r \<longleftrightarrow> bfErr r = None \<and> 0 < bfSize r \<and> ok_src (bfSrc r)"

definition stream :: "bufio \<Rightarrow> bytes" where
  "stream r = bfBuf r @ concat (map fst (bfSrc r))"

lemma src_Read_clean:
  assumes "ok_src s" and "s \<noteq> []" and "0 < n"
  shows "\<exists>bs s'. src_Read n s = ((bs, None), s') \<and> bs \<noteq> [] \<and> length bs \<le> n \<and>
    concat (map fst s) = bs @ concat (map fst s') \<and> ok_src s'"
  using assms by (cases "(n, s)" rule: src_Read.cases) (auto simp: ok_src_def)

lemma br_take_stream:
  assumes "bfBuf r \<noteq> []" and "clean r" and "0 < n"
  shows "\<exists>bs r'. br_take n r = (bs, None, r') \<and> bs \<noteq> [] \<and> length bs \<le> n \<and>
    stream r = bs @ stream r' \<and> clean r'"
  using assms by (auto simp: br_take_def stream_def clean_def)

lemma fill_clean:
  assumes "clean r" and "bfBuf r = []" and "bfSrc r \<noteq> []"
  shows "clean (fill r)" and "bfBuf (fill r) \<noteq> []" and "stream (fill r) = stream r"
proof -
  obtain bs s' where s: "src_Read (bfSize r) (bfSrc r) = ((bs, None), s')" "bs \<noteq> []"
      "concat (map fst (bfSrc r)) = bs @ concat (map fst s')"
      "ok_src s'"
    using src_Read_clean [of "bfSrc r" "bfSize r"] assms by (auto simp: clean_def)
  have "fill r = r\<lparr>bfBuf := bs, bfSrc := s'\<rparr>"
    using s by (simp add: fill_def numeral_eq_Suc)
  with s assms show "clean (fill r)" "bfBuf (fill r) \<noteq> []" "stream (fill r) = stream r"
    by (auto simp: clean_def stream_def)
qed

lemma br_Read_clean:
  assumes "clean r" and "stream r \<noteq> []" and "0 < n"
  obtains bs r' where "br_Read n r = (bs, None, r')" and "bs \<noteq> []" and "length bs \<le> n"
    and "stream r = bs @ stream r'" and "clean r'"
proof -
  consider "bfBuf r \<noteq> []" | "bfBuf r = []" "bfSize r \<le> n" | "bfBuf r = []" "\<not> bfSize r \<le> n" by blast
  then show ?thesis
  proof cases
    case 1
    with br_take_stream [OF 1 assms(1,3)] assms that show ?thesis by (auto simp: br_Read_def)
  next
    case 2
    then have "bfSrc r \<noteq> []" using assms(2) by (auto simp: stream_def)
    with src_Read_clean [of "bfSrc r" n] assms obtain bs s' where
      "src_Read n (bfSrc r) = ((bs, None), s')" "bs \<noteq> []" "length bs \<le> n"
      "concat (map fst (bfSrc r)) = bs @ concat (map fst s')"
      "ok_src s'" by (auto simp: clean_def)
    with 2 assms that [of bs "r\<lparr>bfSrc := s'\<rparr>"] show ?thesis
      by (simp add: br_Read_def clean_def stream_def)
  next
    case 3
    then have "bfSrc r \<noteq> []" using assms(2) by (auto simp: stream_def)
    note f = fill_clean [OF assms(1) 3(1) this]
    have "br_Read n r = br_take n (fill r)"
      using 3 assms f(2) by (simp add: br_Read_def clean_def Let_def)
    with br_take_stream [OF f(2,1) assms(3)] f(3) that show ?thesis by auto
  qed
qed

lemma read_n_clean:
  assumes "clean r" and "stream r = xs @ ys" and "length xs = k" and "0 < cap"
  shows "\<exists>r'. read_n cap k r = (xs, None, r') \<and> clean r' \<and> stream r' = ys"
  using assms
proof (induction k arbitrary: xs r rule: less_induct)
  case (less k)
  show ?case
  proof (cases "k = 0")
    case True
    with less.prems show ?thesis by (simp add: read_n.simps)
  next
    case False
    then obtain bs r1 where b: "br_Read (min cap k) r = (bs, None, r1)" "bs \<noteq> []"
        "length bs \<le> min cap k" "stream r = bs @ stream r1" "clean r1"
      using br_Read_clean [of r "min cap k"] less.prems by auto
    then have le: "length bs \<le> length xs" using less.prems by simp
    have "take (length bs) (stream r) = bs" using b by simp
    then have xs: "xs = bs @ drop (length bs) xs"
      using less.prems le by (metis append_take_drop_id diff_is_0_eq' take0 take_append append_Nil2)
    then have "stream r1 = drop (length bs) xs @ ys"
      using b(4) less.prems(2) by (metis append.assoc same_append_eq)
    moreover have "k - length bs < k" using b(2) False by simp
    ultimately obtain r' where
      "read_n cap (k - length bs) r1 = (drop (length bs) xs, None, r')" "clean r'" "stream r' = ys"
      using less.IH [of "k - length bs" r1 "drop (length bs) xs"] b(5) less.prems by auto
    with b(1) False less.prems xs show ?thesis by (auto simp: read_n.simps [of cap k r])
  qed
qed

lemma conn_readFull_clean:
  assumes "clean (br c)" and "stream (br c) = xs @ ys" and "length xs = k"
  obtains r where "conn_readFull k c = (xs, None, c\<lparr>br := r\<rparr>)" and "clean r" and "stream r = ys"
proof (cases "k = 0")
  case True
  with assms that [of "br c"] show ?thesis by (simp add: conn_readFull_def read_n.simps)
next
  case False
  with read_n_clean [OF assms, of k] assms(3) that show ?thesis by (auto simp: conn_readFull_def)
qed


subsection \<open>Parsing a frame\<close>

lemma get_put_be [simp]: "LENGTH('a) \<le> 8 * n \<Longrightarrow> get_be (put_be n w) = (w :: 'a::len word)"
  by (simp add: get_be_def put_be_def)

lemma low7:
  fixes x :: byte
  assumes "x < 128"
  shows "x AND 0x7F = x" and "x AND 0x80 = 0" and "(0x80 OR x) AND 0x7F = x" and "(0x80 OR x) AND 0x80 \<noteq> 0"
proof -
  have "take_bit 7 x = x"
    using assms by (intro word_uint_eqI)
      (simp add: unsigned_take_bit_eq take_bit_int_eq_self word_less_iff_unsigned [where 'a = int])
  then have "x AND mask 7 = x" by (simp only: take_bit_eq_mask)
  then show a: "x AND 0x7F = x" by (simp add: mask_eq_exp_minus_1)
  then have "x AND 0x80 = x AND (0x7F AND 0x80)" by (metis and.assoc)
  then show b: "x AND 0x80 = 0" by simp
  show "(0x80 OR x) AND 0x7F = x" using a by (simp add: bit.conj_disj_distrib2)
  show "(0x80 OR x) AND 0x80 \<noteq> 0" by (simp add: bit.conj_disj_distrib2 b)
qed

lemma len_code_less: "fst (len_code n) < 128"
  by (simp add: len_code_def word_less_nat_alt unsigned_of_nat take_bit_nat_eq_self)

definition header_ok :: "int \<Rightarrow> bool \<Rightarrow> bool \<Rightarrow> bool" where
  "header_ok op fin rf \<longleftrightarrow> op \<in> {0, 1, 2} \<and> (op = 0 \<longleftrightarrow> \<not> rf)"

lemma check_header_data:
  assumes "header_ok op fin (readFinal c)" and "x < 128"
  shows "check_header env (if fin then word_of_int op OR finalBit else word_of_int op)
      ((if s then 0 else maskBit) OR x) c =
    (Inr op, c\<lparr>readRemaining := uint x, readFinal := fin\<rparr>)"
proof -
  have x: "((if s then 0 else maskBit) OR x) AND 0x7F = x" using low7 [OF assms(2)] by simp
  let ?b0 = "if fin then word_of_int op OR finalBit else word_of_int op :: byte"
  have op: "op = 0 \<or> op = 1 \<or> op = 2" "op = 0 \<longleftrightarrow> \<not> readFinal c"
    using assms(1) by (auto simp: header_ok_def)
  have b0: "(?b0 AND finalBit \<noteq> 0) = fin" "uint (?b0 AND 0xF) = op" "unat (drop_bit 4 ?b0 AND 0x7) = 0"
    using op(1) by (elim disjE; cases fin; simp)+
  have "check_header env ?b0 y c = (Inr op, c\<lparr>readRemaining := uint (y AND 0x7F), readFinal := fin\<rparr>)" for y
    using op unfolding check_header_def b0 Let_def by (elim disjE) (simp_all add: isData_def isControl_def)
  then show ?thesis by (simp only: x)
qed

lemma read_length_ok:
  assumes "clean (br c)" and "stream (br c) = snd (len_code n) @ ys"
    and "readRemaining c = uint (fst (len_code n))" and "n < 2 ^ 63"
  obtains r where "read_length c = (None, c\<lparr>br := r, readRemaining := int n\<rparr>)" and "clean r" and "stream r = ys"
proof -
  consider "65536 \<le> n" | "n < 65536" "125 < n" | "n \<le> 125" by linarith
  then show ?thesis
  proof cases
    case 1
    then obtain r where "conn_readFull 8 c = (put_be 8 (word_of_nat n :: 64 word), None, c\<lparr>br := r\<rparr>)"
        "clean r" "stream r = ys"
      using conn_readFull_clean [OF assms(1), of "put_be 8 (word_of_nat n :: 64 word)" ys 8] assms(2)
      by (auto simp: len_code_def)
    moreover have "sint (word_of_nat n :: 64 word) = int n"
      using assms(4) by (simp add: signed_of_nat signed_take_bit_int_eq_self)
    ultimately show ?thesis using 1 assms(3) that [of r] by (simp add: read_length_def len_code_def)
  next
    case 2
    then obtain r where "conn_readFull 2 c = (put_be 2 (word_of_nat n :: 16 word), None, c\<lparr>br := r\<rparr>)"
        "clean r" "stream r = ys"
      using conn_readFull_clean [OF assms(1), of "put_be 2 (word_of_nat n :: 16 word)" ys 2] assms(2)
      by (auto simp: len_code_def)
    moreover have "uint (word_of_nat n :: 16 word) = int n"
      using 2 by (simp add: unsigned_of_nat take_bit_nat_eq_self)
    ultimately show ?thesis using 2 assms(3) that [of r] by (simp add: read_length_def len_code_def)
  next
    case 3
    then have "uint (word_of_nat n :: byte) = int n"
      by (simp add: unsigned_of_nat take_bit_nat_eq_self)
    with 3 assms that [of "br c"] show ?thesis by (simp add: read_length_def len_code_def)
  qed
qed

lemma read_mask_ok:
  assumes "clean (br c)" and "isServer c = (\<not> s)" and "length (readMaskKey c) = 4" and "length key = 4"
    and "stream (br c) = (if s then ys else key @ ys)" and "x < 128"
  obtains r where "read_mask env ((if s then 0 else maskBit) OR x) c =
      (Inr (), c\<lparr>br := r, readMaskPos := (if s then readMaskPos c else 0),
                 readMaskKey := (if s then readMaskKey c else key)\<rparr>)"
    and "clean r" and "stream r = ys"
proof (cases s)
  case True
  with assms low7 [OF assms(6)] that [of "br c"] show ?thesis by (simp add: read_mask_def)
next
  case False
  obtain r where "conn_readFull 4 (c\<lparr>readMaskPos := 0\<rparr>) = (key, None, c\<lparr>readMaskPos := 0, br := r\<rparr>)"
      "clean r" "stream r = ys"
    using conn_readFull_clean [of "c\<lparr>readMaskPos := 0\<rparr>" key ys 4] assms False by auto
  moreover have "put_at (readMaskKey c) 0 key = key" using assms by (simp add: put_at_def)
  ultimately show ?thesis using False assms low7 [OF assms(6)] that [of r] by (simp add: read_mask_def)
qed


text \<open>The state of a reader that expects a frame, and the limits within which no counter overflows.\<close>

definition rd_ok :: "bool \<Rightarrow> ws_conn \<Rightarrow> bool" where
  "rd_ok s c \<longleftrightarrow> isServer c = (\<not> s) \<and> clean (br c) \<and> readErr c = None \<and>
     length (readMaskKey c) = 4 \<and> - (2 ^ 63) \<le> readLength c"

definition in_limit :: "nat \<Rightarrow> ws_conn \<Rightarrow> bool" where
  "in_limit n c \<longleftrightarrow> n < 2 ^ 63 \<and> readLength c + int n < 2 ^ 63 \<and>
     (0 < readLimit c \<longrightarrow> readLength c + int n \<le> readLimit c)"

lemma wrap64_id: "- (2 ^ 63) \<le> i \<Longrightarrow> i < 2 ^ 63 \<Longrightarrow> wrap64 i = i"
  by (simp add: wrap64_def signed_of_int signed_take_bit_int_eq_self)

lemma advanceFrame_header:
  assumes ok: "rd_ok s c" and rem: "readRemaining c \<le> 0" and op: "header_ok op fin (readFinal c)"
    and n: "length d < 2 ^ 63" and key: "length key = 4"
    and str: "stream (br c) = frame_bytes s key fin op d @ rest"
  obtains r where "advanceFrame env c = enforce_limit env op (c\<lparr>br := r, readRemaining := int (length d),
      readFinal := fin, readMaskPos := (if s then readMaskPos c else 0),
      readMaskKey := (if s then readMaskKey c else key)\<rparr>)"
    and "clean r" and "stream r = (if s then d else fst (maskBytes key 0 d)) @ rest"
proof -
  let ?b0 = "if fin then word_of_int op OR finalBit else word_of_int op :: byte"
  let ?x = "fst (len_code (length d))"
  let ?b1 = "(if s then 0 else maskBit) OR ?x"
  let ?data = "(if s then d else fst (maskBytes key 0 d)) @ rest"
  have "stream (br c) = [?b0, ?b1] @ snd (len_code (length d)) @ (if s then [] else key) @ ?data"
    using str by (cases s) (simp_all add: frame_bytes_def)
  with conn_readFull_clean [of c "[?b0, ?b1]" _ 2] ok obtain r1 where
    r1: "conn_readFull 2 c = ([?b0, ?b1], None, c\<lparr>br := r1\<rparr>)" "clean r1"
      "stream r1 = snd (len_code (length d)) @ (if s then [] else key) @ ?data"
    by (metis length_Cons list.size(3) numeral_2_eq_2 rd_ok_def)
  let ?c2 = "c\<lparr>br := r1, readRemaining := uint ?x, readFinal := fin\<rparr>"
  have 2: "check_header env ?b0 ?b1 (c\<lparr>br := r1\<rparr>) = (Inr op, ?c2)"
    using check_header_data [of op fin "c\<lparr>br := r1\<rparr>" ?x env s] op len_code_less by simp
  obtain r2 where r2: "read_length ?c2 = (None, ?c2\<lparr>br := r2, readRemaining := int (length d)\<rparr>)" "clean r2"
      "stream r2 = (if s then [] else key) @ ?data"
    using read_length_ok [of ?c2 "length d"] r1 n by auto
  let ?c3 = "?c2\<lparr>br := r2, readRemaining := int (length d)\<rparr>"
  have p: "clean (br ?c3)" "isServer ?c3 = (\<not> s)" "length (readMaskKey ?c3) = 4"
    "stream (br ?c3) = (if s then ?data else key @ ?data)"
    using r2 ok by (auto simp: rd_ok_def)
  from read_mask_ok [OF p(1-3) key p(4) len_code_less]
  obtain r3 where r3: "read_mask env ?b1 ?c3 = (Inr (), ?c3\<lparr>br := r3,
        readMaskPos := (if s then readMaskPos ?c3 else 0), readMaskKey := (if s then readMaskKey ?c3 else key)\<rparr>)"
      "clean r3" "stream r3 = ?data"
    by blast
  have "op = 0 \<or> isData op" using op by (auto simp: header_ok_def isData_def)
  then have "advanceFrame env c = enforce_limit env op (?c3\<lparr>br := r3,
      readMaskPos := (if s then readMaskPos ?c3 else 0), readMaskKey := (if s then readMaskKey ?c3 else key)\<rparr>)"
    using rem r1(1) 2 r2(1) r3(1) by (simp only: advanceFrame_def skip_frame_def) simp
  moreover have "?c3\<lparr>br := r3, readMaskPos := (if s then readMaskPos ?c3 else 0),
      readMaskKey := (if s then readMaskKey ?c3 else key)\<rparr> =
    c\<lparr>br := r3, readRemaining := int (length d), readFinal := fin,
      readMaskPos := (if s then readMaskPos c else 0), readMaskKey := (if s then readMaskKey c else key)\<rparr>"
    by simp
  ultimately show ?thesis using r3 that [of r3] by (simp only:)
qed

lemma advanceFrame_data:
  assumes ok: "rd_ok s c" and rem: "readRemaining c \<le> 0" and op: "header_ok op fin (readFinal c)"
    and lim: "in_limit (length d) c" and key: "length key = 4"
    and str: "stream (br c) = frame_bytes s key fin op d @ rest"
  obtains r where "advanceFrame env c = (Inr op, c\<lparr>br := r, readRemaining := int (length d), readFinal := fin,
      readLength := readLength c + int (length d), readMaskPos := (if s then readMaskPos c else 0),
      readMaskKey := (if s then readMaskKey c else key)\<rparr>)"
    and "clean r" and "stream r = (if s then d else fst (maskBytes key 0 d)) @ rest"
proof -
  have n: "length d < 2 ^ 63" using lim by (simp add: in_limit_def)
  from advanceFrame_header [OF ok rem op n key str]
  obtain r where r: "advanceFrame env c = enforce_limit env op (c\<lparr>br := r, readRemaining := int (length d),
      readFinal := fin, readMaskPos := (if s then readMaskPos c else 0),
      readMaskKey := (if s then readMaskKey c else key)\<rparr>)" "clean r"
      "stream r = (if s then d else fst (maskBytes key 0 d)) @ rest" by blast
  have "wrap64 (readLength c + int (length d)) = readLength c + int (length d)"
    using lim ok by (intro wrap64_id) (simp_all add: in_limit_def rd_ok_def)
  with r lim that [of r] show ?thesis by (auto simp: enforce_limit_def in_limit_def Let_def)
qed

subsection \<open>Reading a message\<close>

text \<open>
  \<open>inside s d fs rest c\<close>: the reader is in a message of which the data \<open>d\<close> of the
  current frame and the frames \<open>fs\<close> are still to come, followed by \<open>rest\<close>.
\<close>

definition inside :: "bool \<Rightarrow> bytes \<Rightarrow> (bytes \<times> bytes) list \<Rightarrow> bytes \<Rightarrow> ws_conn \<Rightarrow> bool" where
  "inside s d fs rest c \<longleftrightarrow> rd_ok s c \<and> keys_ok fs \<and> in_limit (length (frag_bytes fs)) c \<and>
     readRemaining c = int (length d) \<and> (readFinal c \<longleftrightarrow> fs = []) \<and>
     stream (br c) = (if s then d else fst (maskBytes (readMaskKey c) (readMaskPos c) d)) @
       enc_msg s continuationFrame fs @ rest"

lemma frag_bytes_simps [simp]: "frag_bytes [] = []" "frag_bytes ((k, d) # fs) = d @ frag_bytes fs"
  by (simp_all add: frag_bytes_def)

text \<open>Entering the next frame of a message.\<close>

lemma enter_frame:
  assumes ok: "rd_ok s c" and rem: "readRemaining c \<le> 0" and op: "op \<in> {0, 1, 2}" "op = 0 \<longleftrightarrow> \<not> readFinal c"
    and lim: "in_limit (length (frag_bytes ((key, d) # fs))) c" and keys: "keys_ok ((key, d) # fs)"
    and str: "stream (br c) = enc_msg s op ((key, d) # fs) @ rest"
  obtains c' where "advanceFrame env c = (Inr op, c')" and "inside s d fs rest c'"
    and "readSeq c' = readSeq c" and "readLimit c' = readLimit c"
proof -
  have fr: "enc_msg s op ((key, d) # fs) =
      frame_bytes s key (fs = []) op d @ enc_msg s continuationFrame fs"
    by (cases fs) auto
  have lim1: "in_limit (length d) c" using lim by (auto simp: in_limit_def)
  obtain r where a: "advanceFrame env c = (Inr op, c\<lparr>br := r, readRemaining := int (length d),
      readFinal := (fs = []), readLength := readLength c + int (length d),
      readMaskPos := (if s then readMaskPos c else 0), readMaskKey := (if s then readMaskKey c else key)\<rparr>)"
    and r: "clean r" "stream r = (if s then d else fst (maskBytes key 0 d)) @ enc_msg s continuationFrame fs @ rest"
    using advanceFrame_data [OF ok rem _ lim1, of op "fs = []" key] op keys str fr
    by (auto simp: header_ok_def keys_ok_def)
  show ?thesis
    by (rule that [OF a])
      (use r ok lim keys in \<open>auto simp: inside_def rd_ok_def in_limit_def keys_ok_def\<close>)
qed


text \<open>One read of data: a non-empty part of what is left of the frame.\<close>

lemma read_data_inside:
  assumes i: "inside s d fs rest c" and d: "d \<noteq> []" and n: "0 < n"
  obtains bs d' c' where "read_data n c = ((bs, None), c')" and "bs \<noteq> []" and "d = bs @ d'"
    and "inside s d' fs rest c'" and "readSeq c' = readSeq c" and "readLimit c' = readLimit c"
proof -
  let ?m = "if int n > readRemaining c then nat (readRemaining c) else n"
  define X where "X = (if s then d else fst (maskBytes (readMaskKey c) (readMaskPos c) d))"
  have m: "0 < ?m" "?m \<le> length d" using i d n by (auto simp: inside_def)
  have str: "stream (br c) = X @ enc_msg s continuationFrame fs @ rest" and cl: "clean (br c)"
    using i by (simp_all only: inside_def rd_ok_def X_def)
  have lx: "length X = length d" by (simp add: X_def)
  have "X \<noteq> []" using d lx by (metis length_0_conv)
  then have "stream (br c) \<noteq> []" using str by simp
  then obtain bs r where b: "br_Read ?m (br c) = (bs, None, r)" "bs \<noteq> []" "length bs \<le> ?m"
      "stream (br c) = bs @ stream r" "clean r"
    using br_Read_clean [OF cl _ m(1)] by blast
  have le: "length bs \<le> length X" using b(3) m(2) lx by linarith
  have bsx: "bs = take (length bs) X"
  proof -
    have "bs = take (length bs) (stream (br c))" using b(4) by simp
    then show ?thesis using le by (simp add: str)
  qed
  then have x: "X = bs @ drop (length bs) X" by (metis append_take_drop_id)
  have sr: "stream r = drop (length bs) X @ enc_msg s continuationFrame fs @ rest"
    using b(4) str x by (metis append.assoc same_append_eq)
  let ?d1 = "take (length bs) d"
  let ?d2 = "drop (length bs) d"
  have split: "fst (maskBytes (readMaskKey c) (readMaskPos c) d) =
      fst (maskBytes (readMaskKey c) (readMaskPos c) ?d1) @
      fst (maskBytes (readMaskKey c) (readMaskPos c + length bs) ?d2)"
    using maskBytes_append [of "readMaskKey c" "readMaskPos c" ?d1 ?d2] le lx by simp
  have d1: "?d1 = (if s then bs else fst (maskBytes (readMaskKey c) (readMaskPos c) bs))"
    and d2: "drop (length bs) X = (if s then ?d2 else fst (maskBytes (readMaskKey c) (readMaskPos c + length bs) ?d2))"
  proof (atomize (full), cases s)
    case True
    then show "?d1 = (if s then bs else fst (maskBytes (readMaskKey c) (readMaskPos c) bs)) \<and>
      drop (length bs) X = (if s then ?d2 else fst (maskBytes (readMaskKey c) (readMaskPos c + length bs) ?d2))"
      using bsx by (simp add: X_def)
  next
    case False
    then have "bs = fst (maskBytes (readMaskKey c) (readMaskPos c) ?d1)"
      using bsx split le lx by (simp add: X_def)
    then have "?d1 = fst (maskBytes (readMaskKey c) (readMaskPos c) bs)"
      using maskBytes_involution by metis
    with False split le lx show "?d1 = (if s then bs else fst (maskBytes (readMaskKey c) (readMaskPos c) bs)) \<and>
      drop (length bs) X = (if s then ?d2 else fst (maskBytes (readMaskKey c) (readMaskPos c + length bs) ?d2))"
      by (simp add: X_def)
  qed
  let ?pos = "if s then readMaskPos c else (readMaskPos c + length bs) mod 4"
  let ?c' = "c\<lparr>br := r, readErr := None, readMaskPos := ?pos, readRemaining := readRemaining c - int (length bs)\<rparr>"
  have srv: "isServer c = (\<not> s)" using i by (simp add: inside_def rd_ok_def)
  obtain out pos where mb: "maskBytes (readMaskKey c) (readMaskPos c) bs = (out, pos)" by (metis surj_pair)
  have pos: "pos = (readMaskPos c + length bs) mod 4"
    using maskBytes_pos [of "readMaskKey c" "readMaskPos c" bs] by (simp add: mb)
  have "read_data n c = ((if s then bs else out, None), ?c')"
    unfolding read_data_def Let_def b(1) prod.case using srv by (cases s) (simp_all add: mb pos)
  then have "read_data n c = ((?d1, None), ?c')" unfolding d1 by (simp add: mb)
  moreover have "inside s ?d2 fs rest ?c'"
    using i b(5) sr d2 le lx
    by (auto simp: inside_def rd_ok_def in_limit_def maskBytes_mod)
  moreover have "?d1 \<noteq> []" using b(2) d by simp
  ultimately show ?thesis using that [of ?d1 ?c' ?d2] by simp
qed

definition between :: "bool \<Rightarrow> bytes \<Rightarrow> ws_conn \<Rightarrow> bool" where
  "between s rest c \<longleftrightarrow> rd_ok s c \<and> readRemaining c = 0 \<and> readFinal c \<and> stream (br c) = rest"

lemma read_loop_inside:
  assumes "inside s d fs rest c" and "0 < n"
  shows "(d @ frag_bytes fs = [] \<longrightarrow> (\<exists>c'. read_loop env sq n c = (([], Some WsEOF), c') \<and>
      between s rest c' \<and> readLimit c' = readLimit c)) \<and>
    (d @ frag_bytes fs \<noteq> [] \<longrightarrow> (\<exists>bs d' fs' c'. read_loop env sq n c = ((bs, None), c') \<and> bs \<noteq> [] \<and>
      inside s d' fs' rest c' \<and> bs @ d' @ frag_bytes fs' = d @ frag_bytes fs \<and>
      readSeq c' = readSeq c \<and> readLimit c' = readLimit c))"
  using assms
proof (induction fs arbitrary: c d)
  case Nil
  show ?case
  proof (cases "d = []")
    case True
    with Nil.prems show ?thesis
      by (auto simp: read_loop.simps [of env sq n c] inside_def rd_ok_def between_def)
  next
    case False
    obtain bs d' c' where r: "read_data n c = ((bs, None), c')" "bs \<noteq> []" "d = bs @ d'"
        "inside s d' [] rest c'" "readSeq c' = readSeq c" "readLimit c' = readLimit c"
      using read_data_inside [OF Nil.prems(1) False Nil.prems(2)] .
    moreover have "read_loop env sq n c = read_data n c"
      using Nil.prems False by (simp add: read_loop.simps [of env sq n c] inside_def rd_ok_def)
    ultimately show ?thesis using False
      by (intro conjI impI exI [of _ bs] exI [of _ d'] exI [of _ "[]"] exI [of _ c']) auto
  qed
next
  case (Cons f fs)
  obtain key d1 where f: "f = (key, d1)" by (metis surj_pair)
  show ?case
  proof (cases "d = []")
    case True
    have c: "rd_ok s c" "readRemaining c \<le> 0" "in_limit (length (frag_bytes ((key, d1) # fs))) c"
      "keys_ok ((key, d1) # fs)" "stream (br c) = enc_msg s continuationFrame ((key, d1) # fs) @ rest"
      "\<not> readFinal c"
      using Cons.prems True f by (auto simp: inside_def)
    obtain c1 where a: "advanceFrame env c = (Inr 0, c1)" and i: "inside s d1 fs rest c1"
      and q: "readSeq c1 = readSeq c" "readLimit c1 = readLimit c"
      using enter_frame [OF c(1,2) _ _ c(3-5)] c(6) by (metis insertI1)
    have "read_loop env sq n c = read_loop env sq n c1"
      using c a by (simp add: read_loop.simps [of env sq n c] rd_ok_def)
    with Cons.IH [OF i Cons.prems(2)] q True f show ?thesis by simp
  next
    case False
    obtain bs d' c' where r: "read_data n c = ((bs, None), c')" "bs \<noteq> []" "d = bs @ d'"
        "inside s d' (f # fs) rest c'" "readSeq c' = readSeq c" "readLimit c' = readLimit c"
      using read_data_inside [OF Cons.prems(1) False Cons.prems(2)] .
    moreover have "read_loop env sq n c = read_data n c"
      using Cons.prems False by (simp add: read_loop.simps [of env sq n c] inside_def rd_ok_def)
    ultimately show ?thesis using False
      by (intro conjI impI exI [of _ bs] exI [of _ d'] exI [of _ "f # fs"] exI [of _ c']) auto
  qed
qed

lemma ReadAll_inside:
  assumes "inside s d fs rest c" and "sq = readSeq c"
  shows "\<exists>c'. ReadAll env grow sq acc c = ((acc @ d @ frag_bytes fs, None), c') \<and>
    between s rest c' \<and> readLimit c' = readLimit c"
  using assms
proof (induction "length (d @ frag_bytes fs)" arbitrary: d fs c acc rule: less_induct)
  case less
  let ?n = "512 + grow (length acc)"
  have m: "mr_Read env sq ?n c = read_loop env sq ?n c" using less.prems by (simp add: mr_Read_def)
  show ?case
  proof (cases "d @ frag_bytes fs = []")
    case True
    with read_loop_inside [OF less.prems(1), of ?n env sq] m show ?thesis
      by (auto simp: ReadAll.simps [of env grow sq acc c])
  next
    case False
    then obtain bs d' fs' c1 where r: "read_loop env sq ?n c = ((bs, None), c1)" "bs \<noteq> []"
        "inside s d' fs' rest c1" "bs @ d' @ frag_bytes fs' = d @ frag_bytes fs"
        "readSeq c1 = readSeq c" "readLimit c1 = readLimit c"
      using read_loop_inside [OF less.prems(1), of ?n env sq] by auto
    have "length (d' @ frag_bytes fs') < length (d @ frag_bytes fs)"
      using arg_cong [OF r(4), of length] r(2) by (cases bs) auto
    moreover have "ReadAll env grow sq acc c = ReadAll env grow sq (acc @ bs) c1"
      using m r(1) by (simp add: ReadAll.simps [of env grow sq acc c])
    ultimately show ?thesis
      using less.hyps [of d' fs' c1 "acc @ bs"] r less.prems(2) by (simp add: append.assoc)
  qed
qed

lemma ReadMessage_msg:
  assumes b: "between s (enc_msg s mt fs @ rest) c" and mt: "isData mt" and fs: "fs \<noteq> []" "keys_ok fs"
    and lim: "in_limit (length (frag_bytes fs)) (c\<lparr>readLength := 0\<rparr>)"
  obtains c' where "ReadMessage env grow c = ((mt, frag_bytes fs, None), c')" and "between s rest c'"
    and "readLimit c' = readLimit c"
proof -
  obtain key d fs' where f: "fs = (key, d) # fs'" using fs(1) by (metis list.exhaust surj_pair)
  let ?c = "c\<lparr>readSeq := readSeq c + 1, readLength := 0\<rparr>"
  have c: "rd_ok s ?c" "readRemaining ?c \<le> 0" "in_limit (length (frag_bytes ((key, d) # fs'))) ?c"
    "keys_ok ((key, d) # fs')" "stream (br ?c) = enc_msg s mt ((key, d) # fs') @ rest"
    "mt \<in> {0, 1, 2}" "mt = 0 \<longleftrightarrow> \<not> readFinal ?c"
    using b mt fs lim f by (auto simp: between_def rd_ok_def in_limit_def isData_def)
  obtain c1 where a: "advanceFrame env ?c = (Inr mt, c1)" and i: "inside s d fs' rest c1"
    and q: "readSeq c1 = readSeq ?c" "readLimit c1 = readLimit ?c"
    using enter_frame [OF c(1,2,6,7,3-5), of env] .
  have nr: "NextReader env c = (Inr (mt, readSeq c1), c1)"
    using a mt c(1) by (simp add: NextReader_def next_frame.simps [of env ?c] isData_def rd_ok_def)
  from ReadAll_inside [OF i refl, of env grow "[]"] q nr f that show ?thesis
    by (auto simp: ReadMessage_def)
qed

end
