(* ===== verification/WsProtocol.thy ===== *)
theory WsProtocol
  imports WsFrames
begin

text \<open>
  Properties of whole connections: messages sent by one end are the messages read by
  the other (the locale \<open>message_channel\<close>, interpreted on \<open>WriteMessage\<close> and
  \<open>ReadMessage\<close>), and nothing is written behind a close frame, whatever the
  application calls (\<open>ws_step\<close>).
\<close>

section \<open>A channel for messages\<close>

text \<open>
  A sender appends an encoding of each message to its output; a receiver that is
  ready for an encoding followed by more returns the message and is ready for the
  rest.
\<close>

locale message_channel =
  fixes send :: "'m \<Rightarrow> 'w \<Rightarrow> 'e \<times> 'w"
    and out :: "'w \<Rightarrow> 'b list"
    and wok :: "'w \<Rightarrow> bool"
    and fine :: 'e
    and recv :: "'r \<Rightarrow> 'x \<times> 'r"
    and got :: "'m \<Rightarrow> 'x"
    and ready :: "'b list \<Rightarrow> 'r \<Rightarrow> bool"
    and good :: "'m \<Rightarrow> bool"
    and enc :: "'m \<Rightarrow> 'b list \<Rightarrow> bool"
  assumes send_enc: "wok w \<Longrightarrow> good m \<Longrightarrow>
      \<exists>w' bs. send m w = (fine, w') \<and> wok w' \<and> enc m bs \<and> out w' = out w @ bs"
    and recv_enc: "ready (bs @ rest) r \<Longrightarrow> good m \<Longrightarrow> enc m bs \<Longrightarrow>
      \<exists>r'. recv r = (got m, r') \<and> ready rest r'"
begin

fun send_each :: "'m list \<Rightarrow> 'w \<Rightarrow> 'e list \<times> 'w" where
  "send_each [] w = ([], w)"
| "send_each (m # ms) w = (let (e, w) = send m w; (es, w) = send_each ms w in (e # es, w))"

fun recv_all :: "nat \<Rightarrow> 'r \<Rightarrow> 'x list \<times> 'r" where
  "recv_all 0 r = ([], r)"
| "recv_all (Suc n) r = (let (x, r) = recv r; (xs, r) = recv_all n r in (x # xs, r))"

lemma send_each_enc:
  "wok w \<Longrightarrow> list_all good ms \<Longrightarrow>
     \<exists>w' bss. send_each ms w = (replicate (length ms) fine, w') \<and> wok w' \<and>
       list_all2 enc ms bss \<and> out w' = out w @ concat bss"
proof (induction ms arbitrary: w)
  case (Cons m ms)
  obtain w1 bs where s: "send m w = (fine, w1)" "wok w1" "enc m bs" "out w1 = out w @ bs"
    using send_enc Cons.prems by force
  obtain w2 bss where "send_each ms w1 = (replicate (length ms) fine, w2)" "wok w2"
      "list_all2 enc ms bss" "out w2 = out w1 @ concat bss"
    using Cons.IH [OF s(2)] Cons.prems by auto
  with s show ?case by (intro exI [of _ w2] exI [of _ "bs # bss"]) auto
qed auto

lemma recv_all_enc:
  "ready (concat bss @ rest) r \<Longrightarrow> list_all good ms \<Longrightarrow> list_all2 enc ms bss \<Longrightarrow>
     \<exists>r'. recv_all (length ms) r = (map got ms, r') \<and> ready rest r'"
proof (induction ms arbitrary: bss r)
  case (Cons m ms)
  then obtain bs bss' where b: "bss = bs # bss'" "enc m bs" "list_all2 enc ms bss'"
    by (auto simp: list_all2_Cons1)
  obtain r1 where r1: "recv r = (got m, r1)" "ready (concat bss' @ rest) r1"
    using recv_enc [of bs "concat bss' @ rest" r m] Cons.prems b by auto
  from Cons.IH [OF r1(2) _ b(3)] Cons.prems r1(1) show ?case by auto
qed auto

lemma roundtrip:
  assumes "wok w" and "list_all good ms" and "send_each ms w = (es, w')" and "out w = []"
    and "ready (out w') r"
  shows "es = replicate (length ms) fine \<and> fst (recv_all (length ms) r) = map got ms"
proof -
  obtain w1 bss where s: "send_each ms w = (replicate (length ms) fine, w1)"
      "list_all2 enc ms bss" "out w1 = out w @ concat bss"
    using send_each_enc [OF assms(1,2)] by blast
  with assms(3,4,5) have "ready (concat bss @ []) r" by simp
  from recv_all_enc [OF this assms(2) s(2)] s(1) assms(3) show ?thesis by auto
qed

end

definition data_msg :: "int \<times> bytes \<Rightarrow> bool" where
  "data_msg m \<longleftrightarrow> isData (fst m) \<and> length (snd m) < 2 ^ 63"

definition ws_ready :: "bool \<Rightarrow> bytes \<Rightarrow> ws_conn \<Rightarrow> bool" where
  "ws_ready s bs c \<longleftrightarrow> between s bs c \<and> readLimit c = 0"

definition ws_encodes :: "bool \<Rightarrow> int \<times> bytes \<Rightarrow> bytes \<Rightarrow> bool" where
  "ws_encodes s m bs \<longleftrightarrow>
     (\<exists>fs. fs \<noteq> [] \<and> keys_ok fs \<and> frag_bytes fs = snd m \<and> bs = enc_msg s (fst m) fs)"

interpretation ws: message_channel
  "\<lambda>m c. WriteMessage env (fst m) (snd m) c"
  "\<lambda>c. concat (wire c)"
  "\<lambda>c. net_ok env \<and> idle c \<and> isServer c = s"
  None
  "ReadMessage env' grow"
  "\<lambda>m. (fst m, snd m, None)"
  "ws_ready s"
  data_msg
  "ws_encodes s"
  for env env' :: ws_env and grow :: "nat \<Rightarrow> nat" and s :: bool
proof (unfold_locales, goal_cases)
  case (1 w m)
  then have h: "idle w" "net_ok env" "isData (fst m)" "isServer w = s" by (auto simp: data_msg_def)
  obtain fs c' where w: "WriteMessage env (fst m) (snd m) w = (None, c')" "idle c'"
      "isServer c' = isServer w" "fs \<noteq> []" "frag_bytes fs = snd m" "keys_ok fs"
      "concat (wire c') = concat (wire w) @ enc_msg (isServer w) (fst m) fs"
    using WriteMessage_frames [OF h(1-3), of "snd m"] .
  then have "ws_encodes s m (enc_msg s (fst m) fs)" by (auto simp: ws_encodes_def)
  with w h show ?case by (intro exI [of _ c'] exI [of _ "enc_msg s (fst m) fs"]) simp
next
  case (2 bs rest r m)
  then obtain fs where fs: "fs \<noteq> []" "keys_ok fs" "frag_bytes fs = snd m" "bs = enc_msg s (fst m) fs"
    by (auto simp: ws_encodes_def)
  have "in_limit (length (frag_bytes fs)) (r\<lparr>readLength := 0\<rparr>)"
    using 2 fs by (simp add: in_limit_def ws_ready_def data_msg_def)
  then obtain c' where "ReadMessage env' grow r = ((fst m, frag_bytes fs, None), c')" "between s rest c'"
      "readLimit c' = readLimit r"
    using ReadMessage_msg [of s "fst m" fs rest r env' grow] 2 fs by (metis data_msg_def ws_ready_def)
  with 2 fs show ?case by (auto simp: ws_ready_def)
qed

section \<open>What every operation keeps\<close>

text \<open>
  \<open>hush c c'\<close>: if a close frame was sent before, nothing more was written; and the
  write buffer keeps its room behind the header and its position within bounds, so
  that no index of \<open>flushFrame\<close> or of the copy loops is out of range. The ping handler
  stays.
\<close>

definition hush :: "ws_conn \<Rightarrow> ws_conn \<Rightarrow> bool" where
  "hush c c' \<longleftrightarrow> (closeSent c \<longrightarrow> closeSent c' \<and> wire c' = wire c) \<and> (ws_ok c \<longrightarrow> ws_ok c') \<and>
     handlePing c' = handlePing c"

named_theorems hush_rules \<open>operations that keep silent after a close frame and the buffer in bounds\<close>

lemma ws_ok_simps [simp]:
  "ws_ok (c\<lparr>closeSent := a1\<rparr>) = ws_ok c" "ws_ok (c\<lparr>wire := a2\<rparr>) = ws_ok c"
  "ws_ok (c\<lparr>netClosed := a3\<rparr>) = ws_ok c" "ws_ok (c\<lparr>tick := a4\<rparr>) = ws_ok c"
  "ws_ok (c\<lparr>writeErr := a5\<rparr>) = ws_ok c" "ws_ok (c\<lparr>writeFrameType := a6\<rparr>) = ws_ok c"
  "ws_ok (c\<lparr>writeSeq := a7\<rparr>) = ws_ok c" "ws_ok (c\<lparr>br := a8\<rparr>) = ws_ok c"
  "ws_ok (c\<lparr>readErr := a9\<rparr>) = ws_ok c" "ws_ok (c\<lparr>readRemaining := b1\<rparr>) = ws_ok c"
  "ws_ok (c\<lparr>readFinal := b2\<rparr>) = ws_ok c" "ws_ok (c\<lparr>readSeq := b3\<rparr>) = ws_ok c"
  "ws_ok (c\<lparr>readLength := b4\<rparr>) = ws_ok c" "ws_ok (c\<lparr>readLimit := b5\<rparr>) = ws_ok c"
  "ws_ok (c\<lparr>readMaskPos := b6\<rparr>) = ws_ok c" "ws_ok (c\<lparr>readMaskKey := b7\<rparr>) = ws_ok c"
  "ws_ok (c\<lparr>writeDeadline := b8\<rparr>) = ws_ok c" "ws_ok (ws_Close c) = ws_ok c"
  by (simp_all add: ws_ok_def ws_Close_def)

lemma ws_ok_core: "core c' = core c \<Longrightarrow> ws_ok c' = ws_ok c"
  using core_eqD(12,13) [of c' c] by (simp only: ws_ok_def)

lemma ws_ok_put:
  "ws_ok c \<Longrightarrow> length q \<le> length (writeBuf c) - writePos c \<Longrightarrow> n = length q \<Longrightarrow>
     ws_ok (c\<lparr>writeBuf := put_at (writeBuf c) (writePos c) q, writePos := writePos c + n\<rparr>)"
  using put_pending(1) [of c q] by simp

lemma hush_refl [hush_rules]: "hush c c"
  by (simp add: hush_def)

lemma hush_trans: "hush a b \<Longrightarrow> hush b c \<Longrightarrow> hush a c"
  by (auto simp: hush_def)

lemma hush_same: "wire c' = wire c \<Longrightarrow> closeSent c' = closeSent c \<Longrightarrow> ws_ok c' = ws_ok c \<Longrightarrow>
    handlePing c' = handlePing c \<Longrightarrow> hush c c'"
  by (simp add: hush_def)

lemma hush_bind:
  assumes "hush c (snd m)" and "\<And>x c1. m = (Inr x, c1) \<Longrightarrow> hush c1 (snd (f x c1))"
  shows "hush c (snd (ws_bind m f))"
proof (cases m)
  case (Pair r c1)
  with assms show ?thesis by (cases r) (auto intro: hush_trans)
qed

lemma snd_ws_lift [simp]: "snd (ws_lift m) = snd m"
  by (cases m) (simp add: ws_lift_def split: option.split)

lemma hush_WriteControl [hush_rules]: "hush c (snd (WriteControl env mt data deadline c))"
proof -
  define P where "P x \<longleftrightarrow> closeSent x \<and> wire x = wire c" for x :: ws_conn
  obtain buf c1 where f: "control_frame env mt data c = (buf, c1)" by (metis surj_pair)
  obtain d c2 where t: "timer_for env deadline c1 = (d, c2)" by (metis surj_pair)
  have "wire c1 = wire c" "closeSent c1 = closeSent c"
    using f by (auto simp: control_frame_def newMaskKey_def Let_def split: if_splits)
  moreover have "wire c2 = wire c1" "closeSent c2 = closeSent c1"
    using t by (auto simp: timer_for_def Now_def split: option.splits)
  ultimately have "closeSent c \<longrightarrow> P (snd (WriteControl env mt data deadline c))"
    by (simp add: WriteControl_def f t Let_def P_def)
  then show ?thesis
    using ws_ok_core [OF core_WriteControl [of env mt data deadline c]] core_eqD(16) [OF core_WriteControl [of env mt data deadline c]]
    by (simp add: hush_def P_def)
qed

lemma hush_control_soon [hush_rules]: "hush c (control_soon env mt data c)"
  using hush_WriteControl [of "snd (Now env c)"]
  by (auto simp: control_soon_def Now_def hush_def)

lemma conn_write_closed: "closeSent c \<Longrightarrow> conn_write env t bufs c = (Some ErrCloseSent, c)"
  by (simp add: conn_write_def)

lemma writeBuf_conn_write:
  "writeBuf (snd (conn_write env t bufs c)) = writeBuf c \<and> handlePing (snd (conn_write env t bufs c)) = handlePing c"
proof -
  have "writeBuf (snd (write_bufs env bufs d)) = writeBuf d \<and> handlePing (snd (write_bufs env bufs d)) = handlePing d" for d
    by (induction bufs arbitrary: d) (auto simp: net_Write_def ws_Close_def Let_def split: prod.splits)
  then show ?thesis by (simp add: conn_write_def Let_def)
qed

lemma hush_flushFrame [hush_rules]: "hush c (snd (flushFrame env final extra c))"
proof -
  define b0 :: byte where
    "b0 = (if final then word_of_int (writeFrameType c) OR finalBit else word_of_int (writeFrameType c))"
  define n where "n = writePos c - 14 + length extra"
  obtain fp c1 where b: "built env b0 n c = (fp, c1)" by (metis surj_pair)
  have c1: "wire c1 = wire c" "closeSent c1 = closeSent c" "writePos c1 = writePos c" "handlePing c1 = handlePing c"
    using b by (auto simp: built_def mask_frame_def newMaskKey_def Let_def split: prod.splits if_splits)
  have len: "length (writeBuf c1) = length (writeBuf c)" if "ws_ok c"
    using built_frame(3) [OF that b] .
  obtain err c2 where cw: "conn_write env (writeFrameType c1)
      [take (writePos c1 - fp) (drop fp (writeBuf c1)), extra] c1 = (err, c2)" by (metis surj_pair)
  have c2: "closeSent c \<Longrightarrow> c2 = c1" "writeBuf c2 = writeBuf c1" "handlePing c2 = handlePing c1"
    using cw c1 conn_write_closed [of c1] writeBuf_conn_write by (auto, (metis snd_conv)+)
  show ?thesis
    unfolding flushFrame_built b0_def [symmetric] n_def [symmetric] Let_def b prod.case cw
    using c1 c2 len by (auto simp: hush_def ws_ok_def)
qed

lemma hush_NextWriter [hush_rules]: "hush c (snd (NextWriter env mt c))"
  using hush_flushFrame [of c env True "[]"]
  by (auto simp: NextWriter_def hush_def split: option.splits prod.splits)

lemma hush_mw_ncopy: "hush c (snd (mw_ncopy env m c))"
  using hush_flushFrame [of c env False "[]"]
  by (auto simp: mw_ncopy_def hush_def Let_def split: option.splits prod.splits)

lemma mw_ncopy_room:
  "mw_ncopy env m c = (Inr n, c') \<Longrightarrow> n \<le> m \<and> n \<le> length (writeBuf c') - writePos c'"
  by (auto simp: mw_ncopy_def Let_def split: if_splits prod.splits option.splits)

lemma hush_copy_loop: "hush c (snd (copy_loop env p c))"
proof (induction env p c rule: copy_loop.induct)
  case (1 env p c)
  obtain r c1 where m: "mw_ncopy env (length p) c = (r, c1)" by (metis surj_pair)
  have h: "hush c c1" using hush_mw_ncopy [of c env "length p"] by (simp add: m)
  show ?case
  proof (cases "p = [] \<or> (\<exists>e. r = Inl e) \<or> r = Inr 0")
    case True
    with h m hush_refl show ?thesis by (auto simp: copy_loop.simps [of env p c])
  next
    case False
    then obtain n where n: "p \<noteq> []" "r = Inr n" "n \<noteq> 0" by (cases r) auto
    let ?c2 = "c1\<lparr>writeBuf := put_at (writeBuf c1) (writePos c1) (take n p), writePos := writePos c1 + n\<rparr>"
    have "ws_ok c1 \<Longrightarrow> ws_ok ?c2"
      using mw_ncopy_room [of env "length p" c n c1] m n by (intro ws_ok_put) auto
    then have "hush c1 ?c2" by (simp add: hush_def)
    moreover have "hush ?c2 (snd (copy_loop env (drop n p) ?c2))"
      using 1 [OF n(1) m [symmetric] n(2,3)] .
    ultimately have "hush c (snd (copy_loop env (drop n p) ?c2))" using h by (blast intro: hush_trans)
    with n m show ?thesis by (simp add: copy_loop.simps [of env p c])
  qed
qed

lemma hush_copy_from: "hush c (snd (copy_from env r nn c))"
proof (induction env r nn c rule: copy_from.induct)
  case (1 env r nn c)
  let ?f = "if writePos c = length (writeBuf c) then flushFrame env False [] c else (None, c)"
  obtain e c1 where f: "?f = (e, c1)" by (metis surj_pair)
  have h: "hush c c1" using hush_flushFrame [of c env False "[]"] hush_refl [of c] f
    by (auto split: if_splits)
  obtain bs err r' where s: "src_Read (length (writeBuf c1) - writePos c1) r = ((bs, err), r')"
    by (metis surj_pair)
  let ?c2 = "c1\<lparr>writeBuf := put_at (writeBuf c1) (writePos c1) bs, writePos := writePos c1 + length bs\<rparr>"
  have "ws_ok c1 \<Longrightarrow> ws_ok ?c2" using src_Read_size [OF s] by (intro ws_ok_put) auto
  then have h2: "hush c ?c2" using h by (auto simp: hush_def)
  show ?case
  proof (cases "e = None \<and> length (writeBuf c1) - writePos c1 \<noteq> 0 \<and> err = None")
    case True
    have "hush ?c2 (snd (copy_from env r' (nn + length bs) ?c2))"
      using 1 [of e c1 "(bs, err)" r' bs err] f s True by simp
    with h2 have "hush c (snd (copy_from env r' (nn + length bs) ?c2))" by (rule hush_trans)
    with True f s show ?thesis by (simp add: copy_from.simps [of env r nn c])
  next
    case False
    with f s h h2 show ?thesis
      by (cases e) (auto simp: copy_from.simps [of env r nn c])
  qed
qed

lemma hush_mw_write [hush_rules]: "hush c (snd (mw_write env sq final p c))"
  using hush_flushFrame [of c env final p] hush_copy_loop [of c env p]
  by (auto simp: mw_write_def hush_def split: option.splits prod.splits)

lemma hush_mw_WriteString [hush_rules]: "hush c (snd (mw_WriteString env sq p c))"
  using hush_copy_loop [of c env "str_bytes p"]
  by (auto simp: mw_WriteString_def hush_def split: option.splits prod.splits)

lemma hush_mw_ReadFrom [hush_rules]: "hush c (snd (mw_ReadFrom env sq r c))"
  using hush_copy_from [of c env r 0] by (auto simp: mw_ReadFrom_def hush_refl split: option.splits)

lemma hush_mw_Close [hush_rules]: "hush c (snd (mw_Close env sq c))"
  using hush_flushFrame [of c env True "[]"] by (auto simp: mw_Close_def hush_refl split: option.splits)

lemma hush_WriteMessage [hush_rules]: "hush c (snd (WriteMessage env mt data c))"
proof -
  obtain r c1 where n: "NextWriter env mt c = (r, c1)" by (metis surj_pair)
  have h1: "hush c c1" using hush_NextWriter [of c env mt] by (simp add: n)
  show ?thesis
  proof (cases r)
    case (Inl e)
    with n h1 show ?thesis by (simp add: WriteMessage_def)
  next
    case (Inr sq)
    obtain r2 c2 where w: "mw_write env sq True data c1 = (r2, c2)" by (metis surj_pair)
    have "hush c1 c2" using hush_mw_write [of c1 env sq True data] by (simp add: w)
    then have h2: "hush c c2" using h1 by (blast intro: hush_trans)
    then have "hush c (snd (flushFrame env True [] c2))" by (blast intro: hush_trans hush_flushFrame)
    with h2 Inr n w show ?thesis by (cases r2) (auto simp: WriteMessage_def)
  qed
qed

lemma hush_handleProtocolError [hush_rules]: "hush c (snd (handleProtocolError env msg c))"
  by (simp add: handleProtocolError_def hush_control_soon)

lemma hush_check_header: "hush c (snd (check_header env b0 b1 c))"
  using hush_handleProtocolError [of "c\<lparr>readRemaining := uint (b1 AND 0x7F)\<rparr>"]
  by (auto simp: check_header_def Let_def hush_def)

lemma hush_readFull: "conn_readFull k c = (b, e, c') \<Longrightarrow> hush c c'"
  by (auto simp: conn_readFull_def hush_def split: prod.splits)

lemma hush_skip_frame: "hush c (snd (skip_frame c))"
  by (auto simp: skip_frame_def discard_n_def hush_def split: prod.splits)

lemma hush_read_length: "hush c (snd (read_length c))"
  by (auto simp: read_length_def hush_def dest!: hush_readFull split: prod.splits option.splits)

lemma hush_read_mask: "hush c (snd (read_mask env b1 c))"
  using hush_handleProtocolError [of c env "''incorrect mask flag''"]
  by (auto simp: read_mask_def hush_def Let_def dest!: hush_readFull split: prod.splits option.splits)

lemma hush_enforce_limit: "hush c (snd (enforce_limit env ft c))"
  using hush_control_soon [of "c\<lparr>readLength := wrap64 (readLength c + readRemaining c)\<rparr>"]
  by (auto simp: enforce_limit_def hush_def Let_def)

lemma hush_read_payload: "hush c (snd (read_payload c))"
  by (auto simp: read_payload_def hush_def dest!: hush_readFull split: prod.splits option.splits)

lemma hush_process_control: "hush c (snd (process_control env ft payload c))"
  using hush_control_soon [of c env]
  by (auto simp: process_control_def run_ping_def hush_def split: option.splits)

lemma hush_advanceFrame [hush_rules]: "hush c (snd (advanceFrame env c))"
  unfolding advanceFrame_def
proof (rule hush_bind, goal_cases)
  case 1
  show ?case by (simp add: hush_skip_frame)
next
  case (2 u c1)
  obtain b e c2 where r: "conn_readFull 2 c1 = (b, e, c2)" by (metis surj_pair)
  note h = hush_readFull [OF r]
  show ?case
  proof (cases e)
    case (Some x)
    with r h show ?thesis by simp
  next
    case None
    have "hush c2 (snd (ws_bind (check_header env (b ! 0) (b ! 1) c2) (\<lambda>frameType c.
         ws_bind (ws_lift (read_length c)) (\<lambda>_ c.
         ws_bind (read_mask env (b ! 1) c) (\<lambda>_ c.
         if frameType = continuationFrame \<or> isData frameType then enforce_limit env frameType c
         else ws_bind (read_payload c) (\<lambda>payload c. process_control env frameType payload c))))))"
      by (intro hush_bind)
        (simp_all add: hush_check_header hush_read_length hush_read_mask hush_enforce_limit
          hush_bind hush_read_payload hush_process_control)
    with h None r show ?thesis by (auto intro: hush_trans)
  qed
qed

lemma hush_next_frame: "hush c (snd (next_frame env c))"
proof (induction env c rule: next_frame.induct)
  case (1 env c)
  obtain r c1 where a: "advanceFrame env c = (r, c1)" by (metis surj_pair)
  have h: "hush c c1" using hush_advanceFrame [of c env] by (simp add: a)
  show ?case
  proof (cases "readErr c")
    case (Some e)
    then show ?thesis by (simp add: next_frame.simps hush_refl)
  next
    case None
    show ?thesis
    proof (cases r)
      case (Inl e)
      let ?c = "c1\<lparr>readErr := hideTempErr (Some e)\<rparr>"
      have "hush c1 (snd (next_frame env ?c))" using "1.IH"(1) [OF None a [symmetric] Inl] by (simp add: hush_def)
      with h None a Inl show ?thesis by (auto simp: next_frame.simps [of env c] intro: hush_trans)
    next
      case (Inr ft)
      show ?thesis
      proof (cases "ft = TextMessage \<or> ft = BinaryMessage")
        case True
        with h None a Inr show ?thesis by (simp add: next_frame.simps [of env c])
      next
        case False
        with h None a Inr "1.IH"(2) [OF None a [symmetric] Inr False] show ?thesis
          by (auto simp: next_frame.simps [of env c] intro: hush_trans)
      qed
    qed
  qed
qed

lemma hush_NextReader [hush_rules]: "hush c (snd (NextReader env c))"
  using hush_next_frame [of "c\<lparr>readSeq := readSeq c + 1, readLength := 0\<rparr>" env]
  by (simp add: NextReader_def hush_def)

lemma hush_read_data: "hush c (snd (read_data n c))"
  by (auto simp: read_data_def hush_def Let_def split: prod.splits)

lemma hush_read_loop: "hush c (snd (read_loop env sq n c))"
proof (induction env sq n c rule: read_loop.induct)
  case (1 env sq n c)
  obtain r c1 where a: "advanceFrame env c = (r, c1)" by (metis surj_pair)
  have h: "hush c c1" using hush_advanceFrame [of c env] by (simp add: a)
  have stop: "hush c (snd (read_loop env sq n (c1\<lparr>readErr := Some e\<rparr>)))" for e
    using h by (simp add: read_loop.simps hush_def)
  show ?case
  proof (cases "readErr c = None \<and> \<not> 0 < readRemaining c \<and> \<not> readFinal c")
    case False
    then show ?thesis
      by (auto simp: read_loop.simps [of env sq n c] hush_read_data hush_refl hush_same split: option.split)
  next
    case True
    show ?thesis
    proof (cases r)
      case (Inl e)
      obtain e' where "hideTempErr (Some e) = Some e'" using hideTempErr_Some(1) by blast
      with True a Inl stop [of e'] show ?thesis by (simp add: read_loop.simps [of env sq n c])
    next
      case (Inr ft)
      show ?thesis
      proof (cases "ft = TextMessage \<or> ft = BinaryMessage")
        case True
        with \<open>readErr c = None \<and> _\<close> a Inr stop [of errUnexpectedData] show ?thesis
          by (simp add: read_loop.simps [of env sq n c])
      next
        case False
        with True a Inr h "1.IH"(3) [of r c1 ft] show ?thesis
          by (auto simp: read_loop.simps [of env sq n c] intro: hush_trans)
      qed
    qed
  qed
qed

lemma hush_mr_Read [hush_rules]: "hush c (snd (mr_Read env sq n c))"
  by (simp add: mr_Read_def hush_refl hush_read_loop)

lemma hush_ReadAll: "hush c (snd (ReadAll env grow sq acc c))"
proof (induction env grow sq acc c rule: ReadAll.induct)
  case (1 env grow sq acc c)
  obtain bs e c1 where r: "mr_Read env sq (512 + grow (length acc)) c = ((bs, e), c1)" by (metis surj_pair)
  have h: "hush c c1" using hush_mr_Read [of c env sq "512 + grow (length acc)"] by (simp add: r)
  show ?case
  proof (cases e)
    case None
    with 1 [OF r [symmetric] refl None] h r show ?thesis
      by (auto simp: ReadAll.simps [of env grow sq acc c] intro: hush_trans)
  next
    case (Some x)
    with h r show ?thesis by (simp add: ReadAll.simps [of env grow sq acc c])
  qed
qed

lemma hush_ReadMessage [hush_rules]: "hush c (snd (ReadMessage env grow c))"
proof -
  obtain r c1 where n: "NextReader env c = (r, c1)" by (metis surj_pair)
  have h: "hush c c1" using hush_NextReader [of c env] by (simp add: n)
  show ?thesis
  proof (cases r)
    case (Inr x)
    obtain mt sq where x: "x = (mt, sq)" by (metis surj_pair)
    have "hush c1 (snd (ReadAll env grow sq [] c1))" by (rule hush_ReadAll)
    with h Inr n x show ?thesis by (auto simp: ReadMessage_def split: prod.splits intro: hush_trans)
  qed (use h n in \<open>simp add: ReadMessage_def\<close>)
qed

text \<open>Everything an application can do with a connection, and any sequence of it.\<close>

datatype ws_op =
    DoWriteControl int bytes "int option"
  | DoNextWriter int
  | DoWrite int bytes
  | DoWriteString int string
  | DoReadFrom int src
  | DoCloseWriter int
  | DoWriteMessage int bytes
  | DoNextReader
  | DoRead int nat
  | DoReadMessage
  | DoSetReadLimit int
  | DoSetWriteDeadline "int option"
  | DoClose

fun ws_step :: "ws_env \<Rightarrow> (nat \<Rightarrow> nat) \<Rightarrow> ws_op \<Rightarrow> ws_conn \<Rightarrow> ws_conn" where
  "ws_step env grow (DoWriteControl mt data deadline) c = snd (WriteControl env mt data deadline c)"
| "ws_step env grow (DoNextWriter mt) c = snd (NextWriter env mt c)"
| "ws_step env grow (DoWrite sq p) c = snd (mw_Write env sq p c)"
| "ws_step env grow (DoWriteString sq p) c = snd (mw_WriteString env sq p c)"
| "ws_step env grow (DoReadFrom sq r) c = snd (mw_ReadFrom env sq r c)"
| "ws_step env grow (DoCloseWriter sq) c = snd (mw_Close env sq c)"
| "ws_step env grow (DoWriteMessage mt data) c = snd (WriteMessage env mt data c)"
| "ws_step env grow DoNextReader c = snd (NextReader env c)"
| "ws_step env grow (DoRead sq n) c = snd (mr_Read env sq n c)"
| "ws_step env grow DoReadMessage c = snd (ReadMessage env grow c)"
| "ws_step env grow (DoSetReadLimit n) c = SetReadLimit n c"
| "ws_step env grow (DoSetWriteDeadline t) c = SetWriteDeadline t c"
| "ws_step env grow DoClose c = ws_Close c"

definition ws_run :: "ws_env \<Rightarrow> (nat \<Rightarrow> nat) \<Rightarrow> ws_op list \<Rightarrow> ws_conn \<Rightarrow> ws_conn" where
  "ws_run env grow ops c = fold (ws_step env grow) ops c"

lemma hush_ws_step: "hush c (ws_step env grow op c)"
  by (cases op) (simp_all add: hush_rules mw_Write_def SetReadLimit_def SetWriteDeadline_def ws_Close_def hush_same)

lemma hush_ws_run: "hush c (ws_run env grow ops c)"
proof (induction ops arbitrary: c)
  case (Cons op ops)
  have "hush (ws_step env grow op c) (ws_run env grow ops (ws_step env grow op c))" by (rule Cons.IH)
  with hush_ws_step [of c env grow op] show ?case
    by (auto simp: ws_run_def intro: hush_trans)
qed (simp add: ws_run_def hush_refl)

section \<open>Control frames sent by the reader\<close>

text \<open>
  A clock and a mutex that let a control frame through: successive readings of the
  clock are less than \<open>writeWait\<close> apart and the mutex is free.
\<close>

definition prompt :: "ws_env \<Rightarrow> bool" where
  "prompt env \<longleftrightarrow> (\<forall>i d. we_mutex env i d) \<and>
     (\<forall>i. we_now env (Suc i) \<le> we_now env i + writeWait \<and> we_now env (Suc (Suc i)) \<le> we_now env i + writeWait)"

lemma control_soon_ok:
  assumes "net_ok env" and "prompt env" and "\<not> closeSent c" and "isControl mt" and "length data \<le> 125"
  shows "wire (control_soon env mt data c) =
      wire c @ [frame_bytes (isServer c) (next_key env (c\<lparr>tick := Suc (tick c)\<rparr>)) True mt data]"
    and "closeSent (control_soon env mt data c) \<longleftrightarrow> mt = CloseMessage"
proof -
  let ?c = "c\<lparr>tick := Suc (tick c)\<rparr>"
  let ?f = "frame_bytes (isServer c) (next_key env ?c) True mt data"
  obtain t where cf: "control_frame env mt data ?c = (?f, c\<lparr>tick := t\<rparr>)"
      and t: "t = Suc (tick c) \<or> t = Suc (Suc (tick c))"
    using assms(5)
    by (cases "isServer c")
      (auto simp: control_frame_def newMaskKey_eq frame_bytes_def len_code_def or.commute Let_def)
  have tm: "timer_for env (Some (we_now env (tick c) + writeWait)) (c\<lparr>tick := t\<rparr>) =
      (we_now env (tick c) + writeWait - we_now env t, c\<lparr>tick := Suc t\<rparr>)"
    by (simp add: timer_for_def Now_def)
  have d: "\<not> we_now env (tick c) + writeWait - we_now env t < 0"
    using assms(2) t unfolding prompt_def by (metis diff_ge_0_iff_ge not_less)
  have m: "we_mutex env i k" for i k using assms(2) by (simp add: prompt_def)
  have "WriteControl env mt data (Some (we_now env (tick c) + writeWait)) ?c =
      (None, c\<lparr>tick := Suc (Suc t), closeSent := (mt = CloseMessage), wire := wire c @ [?f]\<rparr>)"
    unfolding WriteControl_def cf tm Let_def prod.case
    using assms d m by (auto simp: net_Write_def net_ok_def)
  then show "wire (control_soon env mt data c) = wire c @ [?f]"
    and "closeSent (control_soon env mt data c) \<longleftrightarrow> mt = CloseMessage"
    by (simp_all add: control_soon_def Now_def)
qed

lemma length_FormatCloseMessage [simp]: "length (FormatCloseMessage code text) = 2 + length text"
  by (simp add: FormatCloseMessage_def str_bytes_def)

text \<open>The frame header of a control frame.\<close>

lemma check_header_control:
  assumes "isControl op" and "n \<le> 125"
  shows "check_header env (word_of_int op OR finalBit) ((if s then 0 else maskBit) OR word_of_nat n) c =
    (Inr op, c\<lparr>readRemaining := int n\<rparr>)"
proof -
  let ?b0 = "word_of_int op OR finalBit :: byte"
  have op: "op = 8 \<or> op = 9 \<or> op = 10" using assms(1) by (auto simp: isControl_def)
  have x: "((if s then 0 else maskBit) OR word_of_nat n) AND 0x7F = (word_of_nat n :: byte)"
    using low7 [of "word_of_nat n"] len_code_less [of n] assms(2) by (simp add: len_code_def)
  have u: "uint (word_of_nat n :: byte) = int n"
    using assms(2) by (simp add: unsigned_of_nat take_bit_nat_eq_self)
  have b0: "(?b0 AND finalBit \<noteq> 0) = True" "uint (?b0 AND 0xF) = op" "unat (drop_bit 4 ?b0 AND 0x7) = 0"
    using op by (elim disjE; simp)+
  show ?thesis unfolding check_header_def b0 Let_def x u using assms by simp
qed

text \<open>A control frame is read up to its payload.\<close>

lemma advanceFrame_control:
  assumes ok: "rd_ok s c" and rem: "readRemaining c \<le> 0" and op: "isControl op"
    and len: "length d \<le> 125" and key: "length key = 4"
    and str: "stream (br c) = frame_bytes s key True op d @ rest"
  obtains r where "advanceFrame env c = process_control env op d (c\<lparr>br := r, readRemaining := 0,
      readMaskPos := (if s then readMaskPos c else 0), readMaskKey := (if s then readMaskKey c else key)\<rparr>)"
    and "clean r" and "stream r = rest"
proof -
  let ?b0 = "word_of_int op OR finalBit :: byte"
  let ?b1 = "(if s then 0 else maskBit) OR word_of_nat (length d) :: byte"
  let ?data = "if s then d else fst (maskBytes key 0 d)"
  have x: "word_of_nat (length d) < (128 :: byte)" using len_code_less [of "length d"] len by (simp add: len_code_def)
  have "stream (br c) = [?b0, ?b1] @ (if s then [] else key) @ ?data @ rest"
    using str len by (cases s) (simp_all add: frame_bytes_def len_code_def)
  with conn_readFull_clean [of c "[?b0, ?b1]" _ 2] ok obtain r1 where
    r1: "conn_readFull 2 c = ([?b0, ?b1], None, c\<lparr>br := r1\<rparr>)" "clean r1"
      "stream r1 = (if s then [] else key) @ ?data @ rest"
    by (metis length_Cons list.size(3) numeral_2_eq_2 rd_ok_def)
  let ?c2 = "c\<lparr>br := r1, readRemaining := int (length d)\<rparr>"
  have 2: "check_header env ?b0 ?b1 (c\<lparr>br := r1\<rparr>) = (Inr op, ?c2)"
    using check_header_control [OF op len, of env s "c\<lparr>br := r1\<rparr>"] by simp
  have 3: "read_length ?c2 = (None, ?c2)" using len by (simp add: read_length_def)
  have p: "clean (br ?c2)" "isServer ?c2 = (\<not> s)" "length (readMaskKey ?c2) = 4"
    "stream (br ?c2) = (if s then ?data @ rest else key @ ?data @ rest)"
    using r1 ok by (auto simp: rd_ok_def)
  from read_mask_ok [OF p(1-3) key p(4) x]
  obtain r2 where r2: "read_mask env ?b1 ?c2 = (Inr (), ?c2\<lparr>br := r2,
        readMaskPos := (if s then readMaskPos ?c2 else 0), readMaskKey := (if s then readMaskKey ?c2 else key)\<rparr>)"
      "clean r2" "stream r2 = ?data @ rest"
    by blast
  let ?c3 = "?c2\<lparr>br := r2, readMaskPos := (if s then readMaskPos ?c2 else 0),
    readMaskKey := (if s then readMaskKey ?c2 else key)\<rparr>"
  have q: "clean (br (?c3\<lparr>readRemaining := 0\<rparr>))" "stream (br (?c3\<lparr>readRemaining := 0\<rparr>)) = ?data @ rest"
    "length ?data = length d"
    using r2 by simp_all
  from conn_readFull_clean [OF q]
  obtain r3 where r3: "conn_readFull (length d) (?c3\<lparr>readRemaining := 0\<rparr>) = (?data, None, ?c3\<lparr>readRemaining := 0, br := r3\<rparr>)"
      "clean r3" "stream r3 = rest"
    by blast
  have pl: "\<exists>r. read_payload ?c3 = (Inr d, c\<lparr>br := r, readRemaining := 0,
      readMaskPos := (if s then readMaskPos c else 0), readMaskKey := (if s then readMaskKey c else key)\<rparr>) \<and>
      clean r \<and> stream r = rest"
  proof (cases "d = []")
    case True
    with r2 show ?thesis by (intro exI [of _ r2]) (auto simp: read_payload_def)
  next
    case False
    with r3 p(2) show ?thesis
      by (intro exI [of _ r3]) (cases s; simp add: read_payload_def maskBytes_involution)
  qed
  have nd: "\<not> (op = 0 \<or> isData op)" using op by (auto simp: isControl_def isData_def)
  have "advanceFrame env c = ws_bind (read_payload ?c3) (process_control env op)"
    using rem r1(1) 2 3 r2(1) nd by (simp add: advanceFrame_def skip_frame_def)
  with pl that show ?thesis by auto
qed

end
