(* ===== verification/WsJson.thy ===== *)
theory WsJson
  imports WsProtocol
begin

text \<open>
  \<open>json.go\<close> of the WebSocket package: \<open>WriteJSON\<close> and \<open>ReadJSON\<close> over the message
  writer and the message reader. The conversion between Go values and JSON text is a
  parameter, the record \<open>json_lib\<close>; the buffering of \<open>json.Encoder.Encode\<close> and the loop of
  \<open>json.Decoder.Decode\<close>, which decide how much of a message is read, are written out.
\<close>

section \<open>The JSON library\<close>

text \<open>
  \<open>js_step\<close> is the scanner's transition: it consumes a byte and answers what happened.
  \<open>ScanOther\<close> stands for the answers the decoder does not distinguish.
\<close>

datatype scan_op = ScanEnd | ScanEndObject | ScanEndArray | ScanError | ScanOther

record ('s, 'v) json_lib =
  js_init :: 's
  js_step :: "'s \<Rightarrow> byte \<Rightarrow> scan_op \<times> 's"
  js_err :: "'s \<Rightarrow> string"
  Marshal :: "'v \<Rightarrow> string + bytes"
  Unmarshal :: "bytes \<Rightarrow> 'v \<Rightarrow> string option \<times> 'v"

datatype json_error = ConnError ws_error | ErrUnexpectedEOF | JsonError string

section \<open>Writing\<close>

definition json_Encode :: "('s, 'v) json_lib \<Rightarrow> ws_env \<Rightarrow> int \<Rightarrow> 'v \<Rightarrow> ws_conn \<Rightarrow> json_error option \<times> ws_conn" where
  "json_Encode lib env w v c =
     (case Marshal lib v of
        Inl e \<Rightarrow> (Some (JsonError e), c)
      | Inr bs \<Rightarrow>
          (case mw_Write env w (bs @ [0x0A]) c of
             (Inl e, c) \<Rightarrow> (Some (ConnError e), c)
           | (Inr n, c) \<Rightarrow> (None, c)))"

definition WriteJSON :: "('s, 'v) json_lib \<Rightarrow> ws_env \<Rightarrow> 'v \<Rightarrow> ws_conn \<Rightarrow> json_error option \<times> ws_conn" where
  "WriteJSON lib env v c =
     (case NextWriter env TextMessage c of
        (Inl e, c) \<Rightarrow> (Some (ConnError e), c)
      | (Inr w, c) \<Rightarrow>
          (let (err1, c) = json_Encode lib env w v c;
               (err2, c) = mw_Close env w c
           in (if err1 \<noteq> None then err1 else map_option ConnError err2, c)))"

section \<open>Reading\<close>

text \<open>
  The scan of the bytes of the buffer from position \<open>i\<close> on. The end of a value is
  answered one byte late; at the end of an object or an array the decoder invents a
  space, which the scanner consumes too.
\<close>

datatype 's scan_res = Found nat | Invalid string | Incomplete 's

fun scan_buf :: "('s, 'v) json_lib \<Rightarrow> 's \<Rightarrow> nat \<Rightarrow> bytes \<Rightarrow> 's scan_res" where
  "scan_buf lib st i [] = Incomplete st"
| "scan_buf lib st i (b # bs) =
     (let (v, st) = js_step lib st b
      in if v = ScanEnd then Found i
         else let (v', st) = (if v = ScanEndObject \<or> v = ScanEndArray then js_step lib st 0x20 else (v, st))
              in if v' = ScanEnd then Found (i + 1)
                 else if v = ScanError then Invalid (js_err lib st)
                 else scan_buf lib st (i + 1) bs)"

definition isSpace :: "byte \<Rightarrow> bool" where
  "isSpace b \<longleftrightarrow> b = 0x20 \<or> b = 0x09 \<or> b = 0x0D \<or> b = 0x0A"

definition nonSpace :: "bytes \<Rightarrow> bool" where
  "nonSpace bs \<longleftrightarrow> list_ex (\<lambda>b. \<not> isSpace b) bs"

definition scan_eof :: "('s, 'v) json_lib \<Rightarrow> 's \<Rightarrow> bytes \<Rightarrow> json_error + nat" where
  "scan_eof lib st buf =
     (if fst (js_step lib st 0x20) = ScanEnd then Inr (length buf)
      else if nonSpace buf then Inl ErrUnexpectedEOF
      else Inl (ConnError WsEOF))"

text \<open>
  The loop \<open>Input\<close> of \<open>readValue\<close>: scan what is new in the buffer, then act on the error
  of the last read, then read at least 512 bytes more; \<open>grow n\<close> is how much more than
  that is free behind \<open>n\<close> bytes. The result is the length of the value and the buffer.
\<close>

function readValue :: "('s, 'v) json_lib \<Rightarrow> ws_env \<Rightarrow> (nat \<Rightarrow> nat) \<Rightarrow> int \<Rightarrow> 's \<Rightarrow> nat \<Rightarrow> bytes \<Rightarrow>
    ws_error option \<Rightarrow> ws_conn \<Rightarrow> (json_error + nat \<times> bytes) \<times> ws_conn" where
  "readValue lib env grow r st scanp buf err c =
     (case scan_buf lib st scanp (drop scanp buf) of
        Found n \<Rightarrow> (Inr (n, buf), c)
      | Invalid e \<Rightarrow> (Inl (JsonError e), c)
      | Incomplete st \<Rightarrow>
          (case err of
             Some e \<Rightarrow>
               if e = WsEOF
               then (case scan_eof lib st buf of Inl e \<Rightarrow> (Inl e, c) | Inr n \<Rightarrow> (Inr (n, buf), c))
               else (Inl (ConnError e), c)
           | None \<Rightarrow>
               (case mr_Read env r (512 + grow (length buf)) c of
                  ((bs, err), c) \<Rightarrow> readValue lib env grow r st (length buf) (buf @ bs) err c)))"
  by pat_completeness auto
termination
  by (relation "measure (\<lambda>(lib, env, grow, r, st, scanp, buf, err, c).
        case err of None \<Rightarrow> Suc (rd_size (br c)) | Some e \<Rightarrow> 0)")
     (auto dest: mr_Read_size [OF sym] split: option.split)

declare readValue.simps [simp del]

definition json_Decode :: "('s, 'v) json_lib \<Rightarrow> ws_env \<Rightarrow> (nat \<Rightarrow> nat) \<Rightarrow> int \<Rightarrow> 'v \<Rightarrow> ws_conn \<Rightarrow>
    (json_error option \<times> 'v) \<times> ws_conn" where
  "json_Decode lib env grow r v c =
     (case readValue lib env grow r (js_init lib) 0 [] None c of
        (Inl e, c) \<Rightarrow> ((Some e, v), c)
      | (Inr (n, buf), c) \<Rightarrow>
          (case Unmarshal lib (take n buf) v of (err, v) \<Rightarrow> ((map_option JsonError err, v), c)))"

definition ReadJSON :: "('s, 'v) json_lib \<Rightarrow> ws_env \<Rightarrow> (nat \<Rightarrow> nat) \<Rightarrow> 'v \<Rightarrow> ws_conn \<Rightarrow>
    (json_error option \<times> 'v) \<times> ws_conn" where
  "ReadJSON lib env grow v c =
     (case NextReader env c of
        (Inl e, c) \<Rightarrow> ((Some (ConnError e), v), c)
      | (Inr (messageType, r), c) \<Rightarrow>
          (case json_Decode lib env grow r v c of
             ((err, v), c) \<Rightarrow>
               ((if err = Some (ConnError WsEOF) then Some ErrUnexpectedEOF else err, v), c)))"

section \<open>What is written\<close>

lemma mw_Write_frags:
  assumes "writing c" and "net_ok env"
  obtains fs n c' where "mw_Write env (writeSeq c) p c = (Inr n, c')" and "sent_frags c fs c'"
    and "concat (map snd fs) @ pending c' = pending c @ p"
proof -
  have e: "mw_err (writeSeq c) c = None" using assms(1) by (simp add: mw_err_def writing_def)
  show ?thesis
  proof (cases "length p > 2 * length (writeBuf c) \<and> isServer c")
    case True
    obtain c' where "flushFrame env False p c = (None, c')"
        "sent_frags c [(next_key env c, pending c @ p)] c'" "pending c' = []"
      using flush_frag [OF assms, of p] True by blast
    with True e that show ?thesis by (simp add: mw_Write_def mw_write_def)
  next
    case False
    obtain fs c' where "copy_loop env p c = (None, c')" "sent_frags c fs c'"
        "concat (map snd fs) @ pending c' = pending c @ p"
      using copy_loop_ok [OF assms, of p] by blast
    with False e that show ?thesis by (auto simp: mw_Write_def mw_write_def)
  qed
qed

lemma mw_Close_frags:
  assumes "sent_frags c0 fs c" and "net_ok env" and "pending c0 = []"
  obtains k c' where "mw_Close env (writeSeq c0) c = (None, c')" and "idle c'"
    and "isServer c' = isServer c0" and "keys_ok (fs @ [(k, pending c)])"
    and "concat (wire c') = concat (wire c0) @ enc_msg (isServer c0) (writeFrameType c0) (fs @ [(k, pending c)])"
proof -
  have w: "writing c" "writeSeq c = writeSeq c0" "isServer c = isServer c0"
    using assms(1) by (auto simp: sent_frags_def)
  obtain c' where "flushFrame env True [] c = (None, c')" "idle c'" "isServer c' = isServer c"
      "concat (wire c') = concat (wire c) @
        frame_bytes (isServer c) (next_key env c) True (writeFrameType c) (pending c @ [])"
    using flush_final [OF w(1) assms(2), of "[]"] by auto
  moreover have "mw_err (writeSeq c0) c = None" using w by (simp add: mw_err_def writing_def)
  moreover have "keys_ok (fs @ [(next_key env c, pending c)])"
    using assms(1) by (auto simp: sent_frags_def keys_ok_def)
  ultimately show ?thesis using w assms(1) that [of c' "next_key env c"]
    by (simp add: mw_Close_def enc_msg_snoc sent_frags_def)
qed

text \<open>The payload of the message \<open>WriteJSON\<close> sends, and its result, on a network that takes every write.\<close>

definition json_text :: "('s, 'v) json_lib \<Rightarrow> 'v \<Rightarrow> bytes" where
  "json_text lib v = (case Marshal lib v of Inl e \<Rightarrow> [] | Inr bs \<Rightarrow> bs @ [0x0A])"

definition json_written :: "('s, 'v) json_lib \<Rightarrow> 'v \<Rightarrow> json_error option" where
  "json_written lib v = (case Marshal lib v of Inl e \<Rightarrow> Some (JsonError e) | Inr bs \<Rightarrow> None)"

lemma json_Encode_frags:
  assumes "writing c" and "net_ok env" and "pending c = []"
  obtains fs c' where "json_Encode lib env (writeSeq c) v c = (json_written lib v, c')" and "sent_frags c fs c'"
    and "concat (map snd fs) @ pending c' = json_text lib v"
proof (cases "Marshal lib v")
  case (Inl e)
  have "sent_frags c [] c" using assms(1) by (simp add: sent_frags_def)
  with Inl assms that [of c "[]"] show ?thesis by (simp add: json_Encode_def json_written_def json_text_def)
next
  case (Inr bs)
  obtain fs n c' where "mw_Write env (writeSeq c) (bs @ [0x0A]) c = (Inr n, c')" "sent_frags c fs c'"
      "concat (map snd fs) @ pending c' = pending c @ bs @ [0x0A]"
    using mw_Write_frags [OF assms(1,2)] by blast
  with Inr assms that [of c' fs] show ?thesis by (simp add: json_Encode_def json_written_def json_text_def)
qed

lemma WriteJSON_frames:
  assumes "idle c" and "net_ok env"
  obtains fs c' where "WriteJSON lib env v c = (json_written lib v, c')"
    and "idle c'" and "isServer c' = isServer c" and "fs \<noteq> []" and "keys_ok fs"
    and "frag_bytes fs = json_text lib v"
    and "concat (wire c') = concat (wire c) @ enc_msg (isServer c) TextMessage fs"
proof -
  let ?c = "c\<lparr>writeFrameType := TextMessage\<rparr>"
  have w: "writing ?c" and p0: "pending ?c = []"
    using assms by (auto simp: idle_def writing_def ws_ok_def pending_def)
  have nw: "NextWriter env TextMessage c = (Inr (writeSeq ?c), ?c)"
    using NextWriter_idle [OF assms(1), of TextMessage env] by (simp add: isData_def)
  obtain fs c1 where e: "json_Encode lib env (writeSeq ?c) v ?c = (json_written lib v, c1)"
    and s: "sent_frags ?c fs c1" and d: "concat (map snd fs) @ pending c1 = json_text lib v"
    using json_Encode_frags [OF w assms(2) p0] .
  obtain k c' where cl: "mw_Close env (writeSeq ?c) c1 = (None, c')" and c': "idle c'"
      "isServer c' = isServer ?c" "keys_ok (fs @ [(k, pending c1)])"
      "concat (wire c') = concat (wire ?c) @
         enc_msg (isServer ?c) (writeFrameType ?c) (fs @ [(k, pending c1)])"
    using mw_Close_frags [OF s assms(2) p0] .
  have "WriteJSON lib env v c = (json_written lib v, c')"
    unfolding WriteJSON_def nw prod.case sum.case e cl Let_def by simp
  with c' d that [of c' "fs @ [(k, pending c1)]"] show ?thesis by (simp add: frag_bytes_def)
qed

section \<open>What is read\<close>

text \<open>The value of a message, found in its bytes at once: the reference for \<open>readValue\<close>.\<close>

definition value_from :: "('s, 'v) json_lib \<Rightarrow> 's \<Rightarrow> nat \<Rightarrow> bytes \<Rightarrow> json_error + bytes" where
  "value_from lib st i m =
     (case scan_buf lib st i (drop i m) of
        Found n \<Rightarrow> Inr (take n m)
      | Invalid e \<Rightarrow> Inl (JsonError e)
      | Incomplete st \<Rightarrow> (case scan_eof lib st m of Inl e \<Rightarrow> Inl e | Inr n \<Rightarrow> Inr (take n m)))"

definition message_value :: "('s, 'v) json_lib \<Rightarrow> bytes \<Rightarrow> json_error + bytes" where
  "message_value lib m = value_from lib (js_init lib) 0 m"

definition json_read :: "('s, 'v) json_lib \<Rightarrow> 'v \<Rightarrow> bytes \<Rightarrow> json_error option \<times> 'v" where
  "json_read lib v m =
     (case message_value lib m of
        Inl e \<Rightarrow> (Some (if e = ConnError WsEOF then ErrUnexpectedEOF else e), v)
      | Inr bs \<Rightarrow> (case Unmarshal lib bs v of (err, v) \<Rightarrow> (map_option JsonError err, v)))"

lemma scan_buf_append:
  "scan_buf lib st i (xs @ ys) =
     (case scan_buf lib st i xs of Incomplete st' \<Rightarrow> scan_buf lib st' (i + length xs) ys | r \<Rightarrow> r)"
  by (induction lib st i xs rule: scan_buf.induct) (auto simp: Let_def split: prod.splits scan_res.splits)

lemma scan_buf_le: "scan_buf lib st i xs = Found n \<Longrightarrow> n \<le> i + length xs"
  by (induction lib st i xs rule: scan_buf.induct) (fastforce simp: Let_def split: prod.splits if_splits)+

text \<open>
  A reader between two messages or still in one, whose rest the next \<open>NextReader\<close> skips.
\<close>

definition resting :: "bool \<Rightarrow> bytes \<Rightarrow> ws_conn \<Rightarrow> bool" where
  "resting s rest c \<longleftrightarrow> readLimit c = 0 \<and>
     (\<exists>d fs. length (frag_bytes fs) < 2 ^ 62 \<and> inside s d fs rest (c\<lparr>readLength := 0\<rparr>))"

lemma resting_inside:
  "inside s d fs rest c \<Longrightarrow> readLimit c = 0 \<Longrightarrow> length (d @ frag_bytes fs) < 2 ^ 62 \<Longrightarrow> resting s rest c"
  by (auto simp: resting_def inside_def rd_ok_def in_limit_def intro!: exI [of _ d] exI [of _ fs])

lemma resting_between: "between s rest c \<Longrightarrow> readLimit c = 0 \<Longrightarrow> resting s rest c"
  by (auto simp: resting_def inside_def between_def rd_ok_def in_limit_def keys_ok_def
      intro!: exI [of _ "[]"])

lemma enter_frame_length:
  assumes ok: "rd_ok s c" and rem: "readRemaining c \<le> 0" and op: "op \<in> {0, 1, 2}" "op = 0 \<longleftrightarrow> \<not> readFinal c"
    and lim: "in_limit (length (frag_bytes ((key, d) # fs))) c" and keys: "keys_ok ((key, d) # fs)"
    and str: "stream (br c) = enc_msg s op ((key, d) # fs) @ rest"
    and adv: "advanceFrame env c = (x, c')"
  shows "readLength c' = readLength c + int (length d)"
proof -
  have fr: "enc_msg s op ((key, d) # fs) = frame_bytes s key (fs = []) op d @ enc_msg s continuationFrame fs"
    by (cases fs) auto
  have a: "header_ok op (fs = []) (readFinal c)" "in_limit (length d) c" "length key = 4"
    "stream (br c) = frame_bytes s key (fs = []) op d @ enc_msg s continuationFrame fs @ rest"
    using op lim keys str fr by (auto simp: header_ok_def in_limit_def keys_ok_def)
  show ?thesis by (rule advanceFrame_data [OF ok rem a, of env]) (use adv in simp)
qed

lemma check_header_remaining:
  "check_header env b0 b1 (c\<lparr>readRemaining := k\<rparr>) = check_header env b0 b1 c"
  by (simp add: check_header_def Let_def)

lemma advanceFrame_skip:
  assumes i: "inside s d fs rest c" and len: "2 \<le> length (enc_msg s continuationFrame fs @ rest)"
  obtains r where "advanceFrame env c = advanceFrame env (c\<lparr>br := r, readRemaining := 0\<rparr>)"
    and "inside s [] fs rest (c\<lparr>br := r, readRemaining := 0\<rparr>)"
proof (cases "d = []")
  case True
  then have "c\<lparr>br := br c, readRemaining := 0\<rparr> = c" using i by (simp add: inside_def)
  with True i that [of "br c"] show ?thesis by simp
next
  case False
  define X where "X = (if s then d else fst (maskBytes (readMaskKey c) (readMaskPos c) d))"
  have X: "stream (br c) = X @ enc_msg s continuationFrame fs @ rest" "length X = length d"
    "clean (br c)" "readRemaining c = int (length d)"
    using i by (simp_all add: inside_def rd_ok_def X_def)
  obtain r where r: "read_n 8192 (length d) (br c) = (X, None, r)" "clean r"
      "stream r = enc_msg s continuationFrame fs @ rest"
    using read_n_clean [OF X(3,1,2), of 8192] by auto
  have sk: "skip_frame c = (None, c\<lparr>br := r\<rparr>)"
    using False X r(1) by (simp add: skip_frame_def discard_n_def)
  let ?h = "take 2 (stream r)"
  have l: "length ?h = 2" using len r(3) by simp
  obtain r1 where n: "read_n 2 2 r = (?h, None, r1)"
    using read_n_clean [OF r(2) _ l, of "drop 2 (stream r)" 2] by auto
  let ?c = "c\<lparr>br := r, readRemaining := 0\<rparr>"
  have 1: "conn_readFull 2 (c\<lparr>br := r\<rparr>) = (?h, None, c\<lparr>br := r1\<rparr>)"
    and 2: "conn_readFull 2 ?c = (?h, None, c\<lparr>br := r1\<rparr>\<lparr>readRemaining := 0\<rparr>)"
    using n l by (simp_all add: conn_readFull_def del: length_take)
  have sk0: "skip_frame ?c = (None, ?c)" by (simp add: skip_frame_def)
  have "advanceFrame env c = advanceFrame env ?c"
    by (simp only: advanceFrame_def sk sk0 ws_bind_simps 1 2 prod.case option.case check_header_remaining)
  moreover have "inside s [] fs rest (c\<lparr>br := r, readRemaining := 0\<rparr>)"
    using i r by (auto simp: inside_def rd_ok_def in_limit_def)
  ultimately show ?thesis by (rule that)
qed


lemma enc_msg_length: "fs \<noteq> [] \<Longrightarrow> 2 \<le> length (enc_msg s op fs)"
  by (cases "(s, op, fs)" rule: enc_msg.cases) (auto simp: frame_bytes_def)

text \<open>The rest of a message is skipped, its frames counted to the length of the next one.\<close>

lemma next_frame_skip:
  assumes "inside s d fs (enc_msg s mt ((key, e) # gs) @ rest) c" and mt: "isData mt"
    and "keys_ok ((key, e) # gs)" and "in_limit (length (frag_bytes fs) + length (e @ frag_bytes gs)) c"
  shows "\<exists>c'. next_frame env c = (Inr (mt, readSeq c), c') \<and> inside s e gs rest c' \<and>
    readSeq c' = readSeq c \<and> readLimit c' = readLimit c"
  using assms(1,3-)
proof (induction fs arbitrary: d c)
  case Nil
  have "2 \<le> length (enc_msg s continuationFrame [] @ enc_msg s mt ((key, e) # gs) @ rest)"
    using enc_msg_length [of "(key, e) # gs" s mt] by simp
  from advanceFrame_skip [OF Nil.prems(1) this] obtain r where
    a: "advanceFrame env c = advanceFrame env (c\<lparr>br := r, readRemaining := 0\<rparr>)"
    and i: "inside s [] [] (enc_msg s mt ((key, e) # gs) @ rest) (c\<lparr>br := r, readRemaining := 0\<rparr>)" .
  let ?c = "c\<lparr>br := r, readRemaining := 0\<rparr>"
  have c: "rd_ok s ?c" "readRemaining ?c \<le> 0" "mt \<in> {0, 1, 2}" "mt = 0 \<longleftrightarrow> \<not> readFinal ?c"
    "in_limit (length (frag_bytes ((key, e) # gs))) ?c"
    "stream (br ?c) = enc_msg s mt ((key, e) # gs) @ rest"
    using i mt Nil.prems by (auto simp: inside_def isData_def in_limit_def)
  obtain c' where "advanceFrame env ?c = (Inr mt, c')" "inside s e gs rest c'"
      "readSeq c' = readSeq ?c" "readLimit c' = readLimit ?c"
    using enter_frame [OF c(1-5) Nil.prems(2) c(6)] .
  with a mt Nil.prems(1) show ?case
    by (intro exI [of _ c']) (auto simp: next_frame.simps [of env c] inside_def rd_ok_def isData_def)
next
  case (Cons f fs)
  obtain k d1 where f: "f = (k, d1)" by (metis surj_pair)
  let ?rest = "enc_msg s mt ((key, e) # gs) @ rest"
  have "2 \<le> length (enc_msg s continuationFrame (f # fs) @ ?rest)"
    using enc_msg_length [of "f # fs" s continuationFrame] by simp
  from advanceFrame_skip [OF Cons.prems(1) this] obtain r where
    a: "advanceFrame env c = advanceFrame env (c\<lparr>br := r, readRemaining := 0\<rparr>)"
    and i: "inside s [] (f # fs) ?rest (c\<lparr>br := r, readRemaining := 0\<rparr>)" .
  let ?c = "c\<lparr>br := r, readRemaining := 0\<rparr>"
  have c: "rd_ok s ?c" "readRemaining ?c \<le> 0" "(0 :: int) \<in> {0, 1, 2}" "(0 :: int) = 0 \<longleftrightarrow> \<not> readFinal ?c"
    "in_limit (length (frag_bytes ((k, d1) # fs))) ?c" "keys_ok ((k, d1) # fs)"
    "stream (br ?c) = enc_msg s 0 ((k, d1) # fs) @ ?rest"
    using i f by (auto simp: inside_def)
  obtain c1 where b: "advanceFrame env ?c = (Inr 0, c1)" "inside s d1 fs ?rest c1"
      "readSeq c1 = readSeq ?c" "readLimit c1 = readLimit ?c"
    using enter_frame [OF c] .
  have "readLength c1 = readLength ?c + int (length d1)" by (rule enter_frame_length [OF c b(1)])
  then have "in_limit (length (frag_bytes fs) + length (e @ frag_bytes gs)) c1"
    using Cons.prems(3) b(4) f by (auto simp: in_limit_def)
  from Cons.IH [OF b(2) Cons.prems(2) this] b have "\<exists>c'. next_frame env c1 = (Inr (mt, readSeq c), c') \<and>
      inside s e gs rest c' \<and> readSeq c' = readSeq c \<and> readLimit c' = readLimit c" by simp
  moreover have "next_frame env c = next_frame env c1"
    using a b(1) Cons.prems(1) by (simp add: next_frame.simps [of env c] inside_def rd_ok_def)
  ultimately show ?case by simp
qed

lemma value_from_append:
  "i \<le> length buf \<Longrightarrow> value_from lib st i (buf @ m) =
     (case scan_buf lib st i (drop i buf) of
        Found n \<Rightarrow> Inr (take n buf)
      | Invalid e \<Rightarrow> Inl (JsonError e)
      | Incomplete st \<Rightarrow> value_from lib st (length buf) (buf @ m))"
  using scan_buf_le [of lib st i "drop i buf"]
  by (auto simp: value_from_def scan_buf_append split: scan_res.splits)

lemma readValue_inside:
  assumes "inside s d fs rest c" and "r = readSeq c" and "readLimit c = 0"
    and "length (d @ frag_bytes fs) < 2 ^ 62" and "scanp \<le> length buf"
  shows "\<exists>x c'. readValue lib env grow r st scanp buf None c = (x, c') \<and> resting s rest c' \<and>
    map_sum id (\<lambda>(n, b). take n b) x = value_from lib st scanp (buf @ d @ frag_bytes fs)"
  using assms
proof (induction "length (d @ frag_bytes fs)" arbitrary: d fs c st scanp buf rule: less_induct)
  case less
  let ?n = "512 + grow (length buf)"
  have m: "mr_Read env r ?n c = read_loop env r ?n c" using less.prems(2) by (simp add: mr_Read_def)
  note rest = resting_inside [OF less.prems(1,3,4)]
  note v = value_from_append [OF less.prems(5), of lib st "d @ frag_bytes fs"]
  show ?case
  proof (cases "scan_buf lib st scanp (drop scanp buf)")
    case (Incomplete st1)
    show ?thesis
    proof (cases "d @ frag_bytes fs = []")
      case True
      then obtain c' where "read_loop env r ?n c = (([], Some WsEOF), c')" "between s rest c'" "readLimit c' = 0"
        using read_loop_inside [OF less.prems(1), of ?n env r] less.prems(3) by auto
      with True Incomplete v m show ?thesis
        by (auto simp: readValue.simps [of lib env grow r st] readValue.simps [of lib env grow r st1]
            value_from_def resting_between split: sum.splits)
    next
      case False
      then obtain bs d' fs' c1 where r: "read_loop env r ?n c = ((bs, None), c1)" "bs \<noteq> []"
          "inside s d' fs' rest c1" "bs @ d' @ frag_bytes fs' = d @ frag_bytes fs"
          "readSeq c1 = readSeq c" "readLimit c1 = readLimit c"
        using read_loop_inside [OF less.prems(1), of ?n env r] by auto
      have "length (d' @ frag_bytes fs') < length (d @ frag_bytes fs)"
        using arg_cong [OF r(4), of length] r(2) by (cases bs) auto
      moreover have "readValue lib env grow r st scanp buf None c =
          readValue lib env grow r st1 (length buf) (buf @ bs) None c1"
        using Incomplete m r(1) by (simp add: readValue.simps [of lib env grow r st])
      ultimately show ?thesis
        using less.hyps [of d' fs' c1 "length buf" "buf @ bs" st1] r less.prems(2-4) Incomplete v by simp
    qed
  qed (use rest v in \<open>auto simp: readValue.simps [of lib env grow r st]\<close>)
qed

text \<open>However a message is cut into frames and reads, \<open>ReadJSON\<close> gives what its bytes give at once.\<close>

lemma ReadJSON_msg:
  assumes "resting s (enc_msg s mt fs @ rest) c" and "isData mt" and "fs \<noteq> []" and "keys_ok fs"
    and "length (frag_bytes fs) < 2 ^ 62"
  obtains c' where "ReadJSON lib env grow v c = (json_read lib v (frag_bytes fs), c')" and "resting s rest c'"
proof -
  obtain key e gs where f: "fs = (key, e) # gs" using assms(3) by (metis list.exhaust surj_pair)
  obtain d hs where i: "length (frag_bytes hs) < 2 ^ 62" "readLimit c = 0"
      "inside s d hs (enc_msg s mt ((key, e) # gs) @ rest) (c\<lparr>readLength := 0\<rparr>)"
    using assms(1) f by (auto simp: resting_def)
  let ?c = "c\<lparr>readSeq := readSeq c + 1, readLength := 0\<rparr>"
  have j: "inside s d hs (enc_msg s mt ((key, e) # gs) @ rest) ?c"
    using i(3) by (simp add: inside_def rd_ok_def in_limit_def)
  have l: "in_limit (length (frag_bytes hs) + length (e @ frag_bytes gs)) ?c"
    using i assms(5) f by (simp add: in_limit_def)
  obtain c1 where c1: "next_frame env ?c = (Inr (mt, readSeq ?c), c1)" "inside s e gs rest c1"
      "readSeq c1 = readSeq ?c" "readLimit c1 = readLimit ?c"
    using next_frame_skip [OF j assms(2) assms(4) [unfolded f] l, of env] by blast
  obtain x c' where x: "readValue lib env grow (readSeq c1) (js_init lib) 0 [] None c1 = (x, c')" "resting s rest c'"
      "map_sum id (\<lambda>(n, b). take n b) x = message_value lib (frag_bytes fs)"
    using readValue_inside [OF c1(2) refl, of 0 "[]" lib env grow "js_init lib"] c1(4) i assms(5) f
    by (auto simp: message_value_def)
  have "ReadJSON lib env grow v c = (json_read lib v (frag_bytes fs), c')"
    using c1 x by (cases x) (auto simp: ReadJSON_def NextReader_def json_Decode_def json_read_def
        x(3) [symmetric] split: prod.splits)
  with x(2) show ?thesis by (rule that [rotated])
qed

section \<open>A channel for values\<close>

text \<open>
  What \<open>encoding/json\<close> promises of a value: its text is scanned as one value that ends
  before the line feed \<open>Encode\<close> appends, and unmarshalling the text restores the value.
\<close>

definition json_faithful :: "('s, 'v) json_lib \<Rightarrow> 'v \<Rightarrow> 'v \<Rightarrow> bool" where
  "json_faithful lib zero v \<longleftrightarrow>
     (case Marshal lib v of
        Inl e \<Rightarrow> False
      | Inr bs \<Rightarrow> length bs + 1 < 2 ^ 62 \<and>
          scan_buf lib (js_init lib) 0 (bs @ [0x0A]) = Found (length bs) \<and>
          Unmarshal lib bs zero = (None, v))"

lemma json_faithful_read:
  assumes "json_faithful lib zero v"
  shows "json_written lib v = None" and "length (json_text lib v) < 2 ^ 62"
    and "json_read lib zero (json_text lib v) = (None, v)"
  using assms
  by (auto simp: json_faithful_def json_written_def json_text_def json_read_def message_value_def value_from_def
      split: sum.splits)

interpretation wsj: message_channel
  "WriteJSON lib env"
  "\<lambda>c. concat (wire c)"
  "\<lambda>c. net_ok env \<and> idle c \<and> isServer c = s"
  None
  "ReadJSON lib env' grow zero"
  "\<lambda>v. (None, v)"
  "resting s"
  "json_faithful lib zero"
  "\<lambda>v. ws_encodes s (TextMessage, json_text lib v)"
  for lib :: "('s, 'v) json_lib" and env env' :: ws_env and grow :: "nat \<Rightarrow> nat" and s :: bool and zero :: 'v
proof (unfold_locales, goal_cases)
  case (1 w v)
  then have h: "idle w" "net_ok env" by auto
  obtain fs c' where "WriteJSON lib env v w = (json_written lib v, c')" "idle c'" "isServer c' = isServer w"
      "fs \<noteq> []" "keys_ok fs" "frag_bytes fs = json_text lib v"
      "concat (wire c') = concat (wire w) @ enc_msg (isServer w) TextMessage fs"
    using WriteJSON_frames [OF h] .
  with 1 json_faithful_read(1) [of lib zero v] show ?case
    by (intro exI [of _ c'] exI [of _ "enc_msg s TextMessage fs"]) (auto simp: ws_encodes_def)
next
  case (2 bs rest r v)
  then obtain fs where fs: "fs \<noteq> []" "keys_ok fs" "frag_bytes fs = json_text lib v" "bs = enc_msg s TextMessage fs"
    by (auto simp: ws_encodes_def)
  have "resting s (enc_msg s TextMessage fs @ rest) r" "isData TextMessage"
      "length (frag_bytes fs) < 2 ^ 62"
    using 2 fs json_faithful_read(2) [of lib zero v] by (simp_all add: isData_def)
  from this(1,2) fs(1,2) this(3)
  obtain c' where "ReadJSON lib env' grow zero r = (json_read lib zero (frag_bytes fs), c')" "resting s rest c'"
    by (rule ReadJSON_msg)
  with 2 fs json_faithful_read(3) [of lib zero v] show ?case by auto
qed

text \<open>
  A value that cannot be encoded: the error is reported, but the message writer was
  opened and is closed, so an empty text message is sent.
\<close>

lemma WriteJSON_rejected:
  assumes "idle c" and "net_ok env" and "Marshal lib v = Inl e"
  obtains bs c' where "WriteJSON lib env v c = (Some (JsonError e), c')" and "idle c'"
    and "ws_encodes (isServer c) (TextMessage, []) bs" and "concat (wire c') = concat (wire c) @ bs"
proof -
  obtain fs c' where "WriteJSON lib env v c = (json_written lib v, c')" "idle c'" "isServer c' = isServer c"
      "fs \<noteq> []" "keys_ok fs" "frag_bytes fs = json_text lib v"
      "concat (wire c') = concat (wire c) @ enc_msg (isServer c) TextMessage fs"
    using WriteJSON_frames [OF assms(1,2)] .
  with assms(3) that [of c' "enc_msg (isServer c) TextMessage fs"] show ?thesis
    by (auto simp: json_written_def json_text_def ws_encodes_def)
qed

lemma ReadJSON_empty:
  assumes "resting s (bs @ rest) c" and "ws_encodes s (TextMessage, []) bs"
    and "fst (js_step lib (js_init lib) 0x20) \<noteq> ScanEnd"
  obtains c' where "ReadJSON lib env grow v c = ((Some ErrUnexpectedEOF, v), c')" and "resting s rest c'"
proof -
  obtain fs where fs: "fs \<noteq> []" "keys_ok fs" "frag_bytes fs = []" "bs = enc_msg s TextMessage fs"
    using assms(2) by (auto simp: ws_encodes_def)
  have "resting s (enc_msg s TextMessage fs @ rest) c" "isData TextMessage" "length (frag_bytes fs) < 2 ^ 62"
    using assms(1) fs by (simp_all add: isData_def)
  from this(1,2) fs(1,2) this(3)
  obtain c' where "ReadJSON lib env grow v c = (json_read lib v (frag_bytes fs), c')" "resting s rest c'"
    by (rule ReadJSON_msg)
  with fs(3) assms(3) that show ?thesis
    by (simp add: json_read_def message_value_def value_from_def scan_eof_def nonSpace_def)
qed

end
