(* ===== verification/WsHandshake.thy ===== *)
theory WsHandshake
  imports WsFrames
begin

text \<open>
  The opening handshake of \<open>gorilla/websocket\<close>: \<open>util.go\<close>, \<open>server.go\<close> and
  \<open>client.go\<close>.

  A header is an association list of canonical names and value lists, in the order in
  which Go's map iteration happens to visit it. Parameters, collected in \<open>hs_env\<close>:
  \<open>crypto/sha1\<close>, \<open>url.Parse\<close> (only the host is used), \<open>crypto/rand\<close>,
  \<open>http.ReadResponse\<close>, and the Unicode part of \<open>strings.TrimSpace\<close> and
  \<open>strings.EqualFold\<close>, which ASCII strings do not need.
\<close>

type_synonym header = "(string \<times> string list) list"

record response =
  rsStatus :: int
  rsHeader :: header

record hs_env =
  hs_sha1 :: "bytes \<Rightarrow> bytes"
  hs_urlHost :: "string \<Rightarrow> string option"
  hs_rand :: "ws_error + bytes"
  hs_readResponse :: "bufio \<Rightarrow> (ws_error + response) \<times> bufio"
  hs_trim :: "string \<Rightarrow> string"
  hs_fold :: "string \<Rightarrow> string \<Rightarrow> bool"

section \<open>Strings and headers\<close>

definition is_space :: "char \<Rightarrow> bool" where
  "is_space ch \<longleftrightarrow> of_char ch \<in> {9, 10, 11, 12, 13, 32 :: nat}"

definition TrimSpace :: "hs_env \<Rightarrow> string \<Rightarrow> string" where
  "TrimSpace env s =
     (if ascii s then rev (dropWhile is_space (rev (dropWhile is_space s))) else hs_trim env s)"

definition EqualFold :: "hs_env \<Rightarrow> string \<Rightarrow> string \<Rightarrow> bool" where
  "EqualFold env s t =
     (if ascii s \<and> ascii t then map lower_char s = map lower_char t else hs_fold env s t)"

definition header_values :: "header \<Rightarrow> string \<Rightarrow> string list" where
  "header_values h k = (case map_of h k of None \<Rightarrow> [] | Some vs \<Rightarrow> vs)"

definition header_Get :: "header \<Rightarrow> string \<Rightarrow> string" where
  "header_Get h k = (case header_values h k of [] \<Rightarrow> [] | v # _ \<Rightarrow> v)"

definition header_Set :: "header \<Rightarrow> string \<Rightarrow> string \<Rightarrow> header" where
  "header_Set h k v = AList.update k [v] h"

text \<open>\<open>strings.LastIndex\<close> of one character, and \<open>strings.Join\<close>.\<close>

definition LastIndex :: "string \<Rightarrow> char \<Rightarrow> int" where
  "LastIndex s ch =
     (case find_first (\<lambda>x. x = ch) (rev s) of None \<Rightarrow> -1 | Some i \<Rightarrow> int (length s) - 1 - int i)"

fun Join :: "string list \<Rightarrow> string \<Rightarrow> string" where
  "Join [] sep = []"
| "Join [s] sep = s"
| "Join (s # t # ts) sep = s @ sep @ Join (t # ts) sep"

text \<open>\<open>base64.StdEncoding.EncodeToString\<close>.\<close>

definition b64_alphabet :: string where
  "b64_alphabet = ''ABCDEFGHIJKLMNOPQRSTUVWXYZabcdefghijklmnopqrstuvwxyz0123456789+/''"

definition b64_char :: "byte \<Rightarrow> char" where
  "b64_char v = b64_alphabet ! unat (v AND 0x3F)"

fun base64 :: "bytes \<Rightarrow> string" where
  "base64 [] = []"
| "base64 [a] = [b64_char (drop_bit 2 a), b64_char (push_bit 4 a), CHR ''='', CHR ''='']"
| "base64 [a, b] =
     [b64_char (drop_bit 2 a), b64_char (push_bit 4 a OR drop_bit 4 b), b64_char (push_bit 2 b), CHR ''='']"
| "base64 (a # b # c # rest) =
     [b64_char (drop_bit 2 a), b64_char (push_bit 4 a OR drop_bit 4 b),
      b64_char (push_bit 2 b OR drop_bit 6 c), b64_char c] @ base64 rest"

section \<open>util.go\<close>

definition tokenListContainsValue :: "hs_env \<Rightarrow> header \<Rightarrow> string \<Rightarrow> string \<Rightarrow> bool" where
  "tokenListContainsValue env h name val =
     list_ex (\<lambda>v. list_ex (\<lambda>s. EqualFold env val (TrimSpace env s)) (Split CHR '','' v)) (header_values h name)"

definition keyGUID :: bytes where
  "keyGUID = str_bytes ''258EAFA5-E914-47DA-95CA-C5AB0DC85B11''"

definition computeAcceptKey :: "hs_env \<Rightarrow> string \<Rightarrow> string" where
  "computeAcceptKey env challengeKey = base64 (hs_sha1 env (str_bytes challengeKey @ keyGUID))"

definition generateChallengeKey :: "hs_env \<Rightarrow> ws_error + string" where
  "generateChallengeKey env = (case hs_rand env of Inl e \<Rightarrow> Inl e | Inr p \<Rightarrow> Inr (base64 p))"

section \<open>server.go\<close>

record request =
  rqHeader :: header
  rqHost :: string

text \<open>
  \<open>uError\<close> tells whether the application set its own error function. A nil slice of
  subprotocols is \<open>None\<close>.
\<close>

record Upgrader =
  HandshakeTimeout :: int
  uReadBufferSize :: nat
  uWriteBufferSize :: nat
  uSubprotocols :: "string list option"
  uError :: bool
  CheckOrigin :: "(request \<Rightarrow> bool) option"

text \<open>What happens to the HTTP response and to the hijacked connection.\<close>

datatype hs_effect =
    HttpError int
  | AppError int string
  | NetWritten bytes
  | NetCloses

datatype hijack = NotHijacker | HijackFails string | Hijacked src nat

definition returnError :: "Upgrader \<Rightarrow> int \<Rightarrow> string \<Rightarrow> (ws_error + 'a) \<times> hs_effect list" where
  "returnError u status reason =
     (Inl (ErrorString reason), [if uError u then AppError status reason else HttpError status])"

definition checkSameOrigin :: "hs_env \<Rightarrow> request \<Rightarrow> bool" where
  "checkSameOrigin env r =
     (case header_values (rqHeader r) ''Origin'' of
        [] \<Rightarrow> True
      | origin # _ \<Rightarrow> (case hs_urlHost env origin of None \<Rightarrow> False | Some host \<Rightarrow> host = rqHost r))"

definition Subprotocols :: "hs_env \<Rightarrow> request \<Rightarrow> string list" where
  "Subprotocols env r =
     (let h = TrimSpace env (header_Get (rqHeader r) ''Sec-Websocket-Protocol'')
      in if h = [] then [] else map (TrimSpace env) (Split CHR '','' h))"

definition selectSubprotocol :: "hs_env \<Rightarrow> Upgrader \<Rightarrow> request \<Rightarrow> header option \<Rightarrow> string" where
  "selectSubprotocol env u r responseHeader =
     (case uSubprotocols u of
        Some ps \<Rightarrow>
          (case filter (\<lambda>p. list_ex (\<lambda>q. q = p) (Subprotocols env r)) ps of [] \<Rightarrow> [] | p # _ \<Rightarrow> p)
      | None \<Rightarrow>
          (case responseHeader of None \<Rightarrow> [] | Some h \<Rightarrow> header_Get h ''Sec-Websocket-Protocol''))"

text \<open>
  \<open>p := c.writeBuf[:0]\<close> followed by appends: they land in \<open>writeBuf\<close> until one does
  not fit. The result is the buffer and the bytes appended.
\<close>

fun append_all :: "bytes \<Rightarrow> bytes \<Rightarrow> bytes list \<Rightarrow> bytes \<times> bytes" where
  "append_all buf p [] = (buf, p)"
| "append_all buf p (x # xs) =
     (if length p + length x \<le> length buf then append_all (put_at buf (length p) x) (p @ x) xs
      else (buf, p @ x @ concat xs))"

definition write_pieces :: "ws_env \<Rightarrow> string list \<Rightarrow> ws_conn \<Rightarrow> (bytes \<times> ws_error option) \<times> ws_conn" where
  "write_pieces net ps c =
     (let (buf, p) = append_all (writeBuf c) [] (map str_bytes ps);
          ((n, err), c) = net_Write net p (c\<lparr>writeBuf := buf\<rparr>)
      in ((take n p, err), c))"

definition crlf :: string where
  "crlf = [CHR 0x0D, CHR 0x0A]"

definition quoted :: "string \<Rightarrow> string" where
  "quoted s = [CHR 0x27] @ s @ [CHR 0x27]"

definition clean_char :: "char \<Rightarrow> char" where
  "clean_char ch = (if of_char ch \<le> (31 :: nat) then CHR '' '' else ch)"

definition response_header_pieces :: "header \<Rightarrow> string list" where
  "response_header_pieces h =
     concat (map (\<lambda>(k, vs).
       if k = ''Sec-Websocket-Protocol'' then []
       else concat (map (\<lambda>v. [k, '': ''] @ map (\<lambda>ch. [clean_char ch]) v @ [crlf]) vs)) h)"

definition response_pieces :: "string \<Rightarrow> string \<Rightarrow> header option \<Rightarrow> string list" where
  "response_pieces accept protocol responseHeader =
     [''HTTP/1.1 101 Switching Protocols'' @ crlf @ ''Upgrade: websocket'' @ crlf @
      ''Connection: Upgrade'' @ crlf @ ''Sec-WebSocket-Accept: '', accept, crlf] @
     (if protocol \<noteq> [] then [''Sec-Websocket-Protocol: '', protocol, crlf] else []) @
     response_header_pieces (case responseHeader of None \<Rightarrow> [] | Some h \<Rightarrow> h) @ [crlf]"

text \<open>\<open>Upgrade\<close>: the checks of the request, then the answer on the hijacked connection.\<close>

definition upgrade_checks :: "hs_env \<Rightarrow> Upgrader \<Rightarrow> request \<Rightarrow> (int \<times> string) option" where
  "upgrade_checks env u r =
     (if (case header_values (rqHeader r) ''Sec-Websocket-Version'' of [] \<Rightarrow> True | v # _ \<Rightarrow> v \<noteq> ''13'')
      then Some (400, ''websocket: version != 13'')
      else if \<not> tokenListContainsValue env (rqHeader r) ''Connection'' ''upgrade''
      then Some (400, ''websocket: could not find connection header with token '' @ quoted ''upgrade'')
      else if \<not> tokenListContainsValue env (rqHeader r) ''Upgrade'' ''websocket''
      then Some (400, ''websocket: could not find upgrade header with token '' @ quoted ''websocket'')
      else if \<not> (case CheckOrigin u of None \<Rightarrow> checkSameOrigin env r | Some f \<Rightarrow> f r)
      then Some (403, ''websocket: origin not allowed'')
      else if header_Get (rqHeader r) ''Sec-Websocket-Key'' = []
      then Some (400, ''websocket: key missing or blank'')
      else None)"

definition upgrade_answer ::
  "hs_env \<Rightarrow> ws_env \<Rightarrow> Upgrader \<Rightarrow> src \<Rightarrow> request \<Rightarrow> header option \<Rightarrow> (ws_error + ws_conn) \<times> hs_effect list" where
  "upgrade_answer env net u netConn r responseHeader =
     (let protocol = selectSubprotocol env u r responseHeader;
          accept = computeAcceptKey env (header_Get (rqHeader r) ''Sec-Websocket-Key'');
          c = (newConn netConn True (uReadBufferSize u) (uWriteBufferSize u))\<lparr>subprotocol := protocol\<rparr>;
          ((sent, err), c) = write_pieces net (response_pieces accept protocol responseHeader) c
      in case err of
           Some e \<Rightarrow> (Inl e, [NetWritten sent, NetCloses])
         | None \<Rightarrow> (Inr c, [NetWritten sent]))"

definition Upgrade ::
  "hs_env \<Rightarrow> ws_env \<Rightarrow> Upgrader \<Rightarrow> hijack \<Rightarrow> request \<Rightarrow> header option \<Rightarrow> (ws_error + ws_conn) \<times> hs_effect list" where
  "Upgrade env net u w r responseHeader =
     (case upgrade_checks env u r of
        Some (status, reason) \<Rightarrow> returnError u status reason
      | None \<Rightarrow>
          (case w of
             NotHijacker \<Rightarrow> returnError u 500 ''websocket: response does not implement http.Hijacker''
           | HijackFails e \<Rightarrow> returnError u 500 e
           | Hijacked netConn buffered \<Rightarrow>
               if 0 < buffered
               then (Inl (ErrorString ''websocket: client sent data before handshake is complete''), [NetCloses])
               else upgrade_answer env net u netConn r responseHeader))"

text \<open>The deprecated function \<open>Upgrade\<close>: no error responses and no check of the origin.\<close>

definition Upgrade_deprecated ::
  "hs_env \<Rightarrow> ws_env \<Rightarrow> hijack \<Rightarrow> request \<Rightarrow> header option \<Rightarrow> nat \<Rightarrow> nat \<Rightarrow> (ws_error + ws_conn) \<times> hs_effect list" where
  "Upgrade_deprecated env net w r responseHeader readBufSize writeBufSize =
     (let u = \<lparr>HandshakeTimeout = 0, uReadBufferSize = readBufSize, uWriteBufferSize = writeBufSize,
               uSubprotocols = None, uError = True, CheckOrigin = Some (\<lambda>r. True)\<rparr>
      in Upgrade env net u w r responseHeader)"

section \<open>client.go\<close>

record url =
  Scheme :: string
  Host :: string
  Opaque :: string

definition errMalformedURL :: ws_error where
  "errMalformedURL = ErrorString ''malformed ws or wss URL''"

definition ErrBadHandshake :: ws_error where
  "ErrBadHandshake = ErrorString ''websocket: bad handshake''"

definition parseURL :: "string \<Rightarrow> ws_error + url" where
  "parseURL s =
     (let rest = (\<lambda>scheme s.
        Inr (case find_first (\<lambda>ch. ch = CHR ''/'') s of
               None \<Rightarrow> \<lparr>Scheme = scheme, Host = s, Opaque = ''/''\<rparr>
             | Some i \<Rightarrow> \<lparr>Scheme = scheme, Host = take i s, Opaque = drop i s\<rparr>))
      in if HasPrefix s ''ws://'' then rest ''ws'' (drop 5 s)
         else if HasPrefix s ''wss://'' then rest ''wss'' (drop 6 s)
         else Inl errMalformedURL)"

definition hostPortNoPort :: "url \<Rightarrow> string \<times> string" where
  "hostPortNoPort u =
     (let i = LastIndex (Host u) CHR '':''
      in if i > LastIndex (Host u) CHR '']'' then (Host u, take (nat i) (Host u))
         else (Host u @ (if Scheme u = ''wss'' then '':443'' else '':80''), Host u))"

text \<open>\<open>URL.RequestURI\<close> of a URL with an opaque part and no query.\<close>

definition RequestURI :: "url \<Rightarrow> string" where
  "RequestURI u = (if HasPrefix (Opaque u) ''//'' then Scheme u @ '':'' @ Opaque u else Opaque u)"

definition request_pieces :: "url \<Rightarrow> string \<Rightarrow> header \<Rightarrow> string list" where
  "request_pieces u challengeKey requestHeader =
     [''GET '', RequestURI u, '' HTTP/1.1'' @ crlf @ ''Host: '', Host u,
      crlf @ ''Upgrade: websocket'' @ crlf @ ''Connection: Upgrade'' @ crlf @
      ''Sec-WebSocket-Version: 13'' @ crlf @ ''Sec-WebSocket-Key: '', challengeKey, crlf] @
     concat (map (\<lambda>(k, vs). concat (map (\<lambda>v. [k, '': '', v, crlf]) vs)) requestHeader) @ [crlf]"

text \<open>\<open>NewClient\<close> returns the connection or the error, and the response when there is one.\<close>

definition NewClient ::
  "hs_env \<Rightarrow> ws_env \<Rightarrow> src \<Rightarrow> url \<Rightarrow> header \<Rightarrow> nat \<Rightarrow> nat \<Rightarrow> (ws_error + ws_conn) \<times> response option \<times> hs_effect list" where
  "NewClient env net netConn u requestHeader readBufSize writeBufSize =
     (case generateChallengeKey env of
        Inl e \<Rightarrow> (Inl e, None, [])
      | Inr challengeKey \<Rightarrow>
          (let acceptKey = computeAcceptKey env challengeKey;
               c = newConn netConn False readBufSize writeBufSize;
               ((p, err), c) = write_pieces net (request_pieces u challengeKey requestHeader) c;
               sent = [NetWritten p]
           in case err of
                Some e \<Rightarrow> (Inl e, None, sent)
              | None \<Rightarrow>
                  (case hs_readResponse env (br c) of
                     (Inl e, r) \<Rightarrow> (Inl e, None, sent)
                   | (Inr resp, r) \<Rightarrow>
                       if rsStatus resp \<noteq> 101 \<or>
                          \<not> EqualFold env (header_Get (rsHeader resp) ''Upgrade'') ''websocket'' \<or>
                          \<not> EqualFold env (header_Get (rsHeader resp) ''Connection'') ''upgrade'' \<or>
                          header_Get (rsHeader resp) ''Sec-Websocket-Accept'' \<noteq> acceptKey
                       then (Inl ErrBadHandshake, Some resp, sent)
                       else (Inr (c\<lparr>br := r, subprotocol := header_Get (rsHeader resp) ''Sec-Websocket-Protocol''\<rparr>),
                             Some resp, sent))))"

text \<open>
  \<open>Dial\<close> opens the connection and closes it again when the handshake fails. Its
  environment: the dial function, the error of \<open>SetDeadline\<close>, and TLS, which turns a
  connection and a server name into a connection, and verifies the host name.
\<close>

record tls_config =
  ServerName :: string
  InsecureSkipVerify :: bool

record dial_env =
  de_dial :: "string \<Rightarrow> ws_error + src"
  de_setDeadline :: "ws_error option"
  de_tls :: "tls_config \<Rightarrow> src \<Rightarrow> ws_error + src"
  de_verify :: "string \<Rightarrow> ws_error option"

record Dialer =
  TLSClientConfig :: "tls_config option"
  dHandshakeTimeout :: int
  dReadBufferSize :: nat
  dWriteBufferSize :: nat
  dSubprotocols :: "string list"

definition tls_conn :: "dial_env \<Rightarrow> Dialer \<Rightarrow> url \<Rightarrow> string \<Rightarrow> src \<Rightarrow> ws_error + src" where
  "tls_conn de d u hostNoPort netConn =
     (if Scheme u = ''wss'' then
        (let cfg = (case TLSClientConfig d of
                      None \<Rightarrow> \<lparr>ServerName = hostNoPort, InsecureSkipVerify = False\<rparr>
                    | Some cfg \<Rightarrow> if ServerName cfg = [] then cfg\<lparr>ServerName := hostNoPort\<rparr> else cfg)
         in case de_tls de cfg netConn of
              Inl e \<Rightarrow> Inl e
            | Inr tlsConn \<Rightarrow>
                if InsecureSkipVerify cfg then Inr tlsConn
                else (case de_verify de (ServerName cfg) of Some e \<Rightarrow> Inl e | None \<Rightarrow> Inr tlsConn))
      else Inr netConn)"

definition dial_header :: "Dialer \<Rightarrow> header \<Rightarrow> header" where
  "dial_header d requestHeader =
     (if dSubprotocols d \<noteq> []
      then header_Set requestHeader ''Sec-Websocket-Protocol'' (Join (dSubprotocols d) '', '')
      else requestHeader)"

definition Dial ::
  "hs_env \<Rightarrow> ws_env \<Rightarrow> dial_env \<Rightarrow> Dialer option \<Rightarrow> string \<Rightarrow> header \<Rightarrow>
     (ws_error + ws_conn) \<times> response option \<times> hs_effect list" where
  "Dial env net de d urlStr requestHeader =
     (case parseURL urlStr of
        Inl e \<Rightarrow> (Inl e, None, [])
      | Inr u \<Rightarrow>
          (let (hostPort, hostNoPort) = hostPortNoPort u;
               d = (case d of Some d \<Rightarrow> d
                    | None \<Rightarrow> \<lparr>TLSClientConfig = None, dHandshakeTimeout = 0, dReadBufferSize = 0,
                              dWriteBufferSize = 0, dSubprotocols = []\<rparr>)
           in case de_dial de hostPort of
                Inl e \<Rightarrow> (Inl e, None, [])
              | Inr netConn \<Rightarrow>
                  (case de_setDeadline de of
                     Some e \<Rightarrow> (Inl e, None, [NetCloses])
                   | None \<Rightarrow>
                       (case tls_conn de d u hostNoPort netConn of
                          Inl e \<Rightarrow> (Inl e, None, [NetCloses])
                        | Inr netConn \<Rightarrow>
                            (case NewClient env net netConn u (dial_header d requestHeader)
                                    (dReadBufferSize d) (dWriteBufferSize d) of
                               (Inl e, resp, eff) \<Rightarrow> (Inl e, resp, eff @ [NetCloses])
                             | (Inr c, resp, eff) \<Rightarrow> (Inr c, resp, eff))))))"

section \<open>Lemmas\<close>

lemma append_all_eq: "snd (append_all buf p xs) = p @ concat xs \<and> length (fst (append_all buf p xs)) = length buf"
  by (induction buf p xs rule: append_all.induct) auto

lemma str_bytes_append [simp]: "str_bytes (s @ t) = str_bytes s @ str_bytes t"
  by (simp add: str_bytes_def)

lemma concat_str_bytes: "concat (map str_bytes xs) = str_bytes (concat xs)"
  by (induction xs) (auto simp: str_bytes_def)

lemma idle_writeBuf:
  "idle c \<Longrightarrow> length buf = length (writeBuf c) \<Longrightarrow> idle (c\<lparr>writeBuf := buf\<rparr>)"
  using writeBuf_split(2) [of c] by (auto simp: idle_def ws_ok_def pending_def)

lemma idle_upd [simp]:
  "idle (c\<lparr>subprotocol := sp\<rparr>) = idle c" "idle (c\<lparr>wire := w\<rparr>) = idle c" "idle (c\<lparr>br := r\<rparr>) = idle c"
  by (simp_all add: idle_def ws_ok_def pending_def)

lemma newConn_simps [simp]:
  "isServer (newConn src server rs ws) = server" "wire (newConn src server rs ws) = []"
  "readLimit (newConn src server rs ws) = 0" "closeSent (newConn src server rs ws) = False"
  by (simp_all add: newConn_def SetPingHandler_def SetPongHandler_def Let_def)

lemma write_pieces_eq:
  assumes "write_pieces net ps c = ((w, err), c')" and "idle c"
  shows "idle c'" and "wire c' = wire c @ [w]" and "isServer c' = isServer c" and "br c' = br c"
    and "subprotocol c' = subprotocol c" and "net_ok net \<Longrightarrow> w = str_bytes (concat ps) \<and> err = None"
proof -
  obtain buf q where a: "append_all (writeBuf c) [] (map str_bytes ps) = (buf, q)" by (metis surj_pair)
  have q: "q = str_bytes (concat ps)" "length buf = length (writeBuf c)"
    using append_all_eq [of "writeBuf c" "[]" "map str_bytes ps"] unfolding a
    by (simp_all add: concat_str_bytes)
  obtain n e where w: "we_write net (netClosed c) (wire c) q = (n, e)" by (metis surj_pair)
  have c': "c' = c\<lparr>writeBuf := buf, wire := wire c @ [take n q]\<rparr>" "w = take n q" "err = e"
    using assms(1) w by (auto simp: write_pieces_def a net_Write_def)
  then show "idle c'" "wire c' = wire c @ [w]" "isServer c' = isServer c" "br c' = br c"
    "subprotocol c' = subprotocol c"
    using idle_writeBuf [OF assms(2) q(2)] by simp_all
  show "net_ok net \<Longrightarrow> w = str_bytes (concat ps) \<and> err = None"
    using c' w q by (auto simp: net_ok_def)
qed

text \<open>The answer of the server on a connection it may use.\<close>

lemma upgrade_answer_Inr:
  assumes "upgrade_answer env net u netConn r h = (Inr c, eff)"
  defines "pr \<equiv> selectSubprotocol env u r h"
  defines "ps \<equiv> response_pieces (computeAcceptKey env (header_Get (rqHeader r) ''Sec-Websocket-Key'')) pr h"
  shows "idle c \<and> isServer c \<and> subprotocol c = pr \<and> eff = map NetWritten (wire c) \<and>
    (net_ok net \<longrightarrow> wire c = [str_bytes (concat ps)])"
proof -
  let ?c = "(newConn netConn True (uReadBufferSize u) (uWriteBufferSize u))\<lparr>subprotocol := pr\<rparr>"
  obtain w err c1 where p: "write_pieces net ps ?c = ((w, err), c1)" by (metis surj_pair)
  have i: "idle ?c" by (simp add: idle_newConn)
  have "c = c1" "eff = [NetWritten w]"
    using assms(1) p unfolding upgrade_answer_def Let_def pr_def [symmetric] ps_def [symmetric]
    by (auto split: option.splits)
  with write_pieces_eq [OF p i] show ?thesis by simp
qed

lemma upgrade_answer_ok:
  assumes "net_ok net"
  obtains c where "upgrade_answer env net u netConn r h = (Inr c, map NetWritten (wire c))"
proof -
  define pr where "pr = selectSubprotocol env u r h"
  define ps where "ps = response_pieces (computeAcceptKey env (header_Get (rqHeader r) ''Sec-Websocket-Key'')) pr h"
  let ?c = "(newConn netConn True (uReadBufferSize u) (uWriteBufferSize u))\<lparr>subprotocol := pr\<rparr>"
  obtain w err c1 where p: "write_pieces net ps ?c = ((w, err), c1)" by (metis surj_pair)
  have i: "idle ?c" by (simp add: idle_newConn)
  note e = write_pieces_eq [OF p i]
  have "upgrade_answer env net u netConn r h = (Inr c1, [NetWritten w])"
    using e(6) [OF assms] p unfolding upgrade_answer_def Let_def pr_def [symmetric] ps_def [symmetric] by simp
  with e(2) that show ?thesis by simp
qed

text \<open>The client's side.\<close>

lemma NewClient_ok:
  assumes "net_ok net" and "generateChallengeKey env = Inr k"
    and "hs_readResponse env (br (newConn netConn False rs ws)) = (Inr resp, r)"
    and "rsStatus resp = 101" and "EqualFold env (header_Get (rsHeader resp) ''Upgrade'') ''websocket''"
    and "EqualFold env (header_Get (rsHeader resp) ''Connection'') ''upgrade''"
    and "header_Get (rsHeader resp) ''Sec-Websocket-Accept'' = computeAcceptKey env k"
  obtains c where "NewClient env net netConn u h rs ws = (Inr c, Some resp, map NetWritten (wire c))"
    and "idle c" and "\<not> isServer c" and "br c = r"
    and "subprotocol c = header_Get (rsHeader resp) ''Sec-Websocket-Protocol''"
    and "wire c = [str_bytes (concat (request_pieces u k h))]"
proof -
  define ps where "ps = request_pieces u k h"
  let ?c = "newConn netConn False rs ws"
  obtain w err c1 where p: "write_pieces net ps ?c = ((w, err), c1)" by (metis surj_pair)
  note e = write_pieces_eq [OF p idle_newConn]
  let ?c2 = "c1\<lparr>br := r, subprotocol := header_Get (rsHeader resp) ''Sec-Websocket-Protocol''\<rparr>"
  have "NewClient env net netConn u h rs ws = (Inr ?c2, Some resp, [NetWritten w])"
    using e(4) e(6) [OF assms(1)] p [unfolded ps_def] assms unfolding NewClient_def Let_def by simp
  with e e(6) [OF assms(1)] that [of ?c2] show ?thesis by (simp add: ps_def)
qed

text \<open>A header that passes the five checks.\<close>

lemma upgrade_checks_None:
  "upgrade_checks env u r = None \<longleftrightarrow>
     (\<exists>vs. header_values (rqHeader r) ''Sec-Websocket-Version'' = ''13'' # vs) \<and>
     tokenListContainsValue env (rqHeader r) ''Connection'' ''upgrade'' \<and>
     tokenListContainsValue env (rqHeader r) ''Upgrade'' ''websocket'' \<and>
     (case CheckOrigin u of None \<Rightarrow> checkSameOrigin env r | Some f \<Rightarrow> f r) \<and>
     header_Get (rqHeader r) ''Sec-Websocket-Key'' \<noteq> []"
  unfolding upgrade_checks_def by (auto split: list.splits)

lemma Upgrade_Inr:
  assumes "Upgrade env net u w r h = (Inr c, eff)"
  obtains netConn where "upgrade_checks env u r = None" and "w = Hijacked netConn 0"
    and "upgrade_answer env net u netConn r h = (Inr c, eff)"
  using assms
  by (auto simp: Upgrade_def returnError_def split: option.splits prod.splits hijack.splits if_splits)

text \<open>No value of the response header can end a line.\<close>

lemma count_list_concat: "count_list (concat xss) x = sum_list (map (\<lambda>xs. count_list xs x) xss)"
  by (induction xss) auto

lemma count_clean [simp]: "count_list (map clean_char v) CHR 0x0A = 0"
proof -
  have "clean_char ch \<noteq> CHR 0x0A" for ch by (auto simp: clean_char_def)
  then show ?thesis by (induction v) auto
qed

definition printed_values :: "header \<Rightarrow> nat" where
  "printed_values h = sum_list (map (\<lambda>(k, vs). if k = ''Sec-Websocket-Protocol'' then 0 else length vs) h)"

lemma count_values:
  "CHR 0x0A \<notin> set k \<Longrightarrow>
   count_list (concat (concat (map (\<lambda>v. [k, '': ''] @ map (\<lambda>ch. [clean_char ch]) v @ [crlf]) vs))) CHR 0x0A = length vs"
  by (induction vs) (auto simp: crlf_def count_notin)

lemma count_response_header:
  "list_all (\<lambda>(k, vs). CHR 0x0A \<notin> set k) h \<Longrightarrow>
   count_list (concat (response_header_pieces h)) CHR 0x0A = printed_values h"
proof (induction h)
  case (Cons x h)
  obtain k vs where x: "x = (k, vs)" by (metis surj_pair)
  have "count_list (concat (response_header_pieces (x # h))) CHR 0x0A =
      (if k = ''Sec-Websocket-Protocol'' then 0
       else count_list (concat (concat (map (\<lambda>v. [k, '': ''] @ map (\<lambda>ch. [clean_char ch]) v @ [crlf]) vs))) CHR 0x0A) +
      count_list (concat (response_header_pieces h)) CHR 0x0A"
    unfolding response_header_pieces_def x by simp
  with Cons count_values [of k vs] show ?case by (simp add: x printed_values_def)
qed (simp add: response_header_pieces_def printed_values_def)

end
