(* ===== verification/Ws_Properties.thy ===== *)
theory Ws_Properties
  imports WsProtocol WsJson WsHandshake
begin

text \<open>
  The properties of the WebSocket connection. The witnesses use \<open>ws_sample_env\<close>: a
  network that takes every write, a clock that stands still and a free mutex.
\<close>

definition ws_sample_env :: ws_env where
  "ws_sample_env = \<lparr>we_rand = (\<lambda>n. word_of_nat (17 * n + 3)), we_now = (\<lambda>_. 0),
     we_mutex = (\<lambda>_ _. True), we_write = (\<lambda>_ _ buf. (length buf, None))\<rparr>"

lemma net_ok_sample: "net_ok ws_sample_env" and prompt_sample: "prompt ws_sample_env"
  by (simp_all add: net_ok_def prompt_def ws_sample_env_def)

lemma byte_reads:
  "ok_src (map (\<lambda>b. ([b], None)) xs)" "concat (map fst (map (\<lambda>b. ([b], None)) xs)) = xs"
  by (simp add: ok_src_def list_all_iff, induction xs) auto

section \<open>Messages\<close>

lemma between_newConn:
  "ok_src src \<Longrightarrow> ws_ready s (concat (map fst src)) (newConn src (\<not> s) rs ws)"
  by (simp add: ws_ready_def between_def rd_ok_def newConn_def SetPingHandler_def SetPongHandler_def
      Let_def clean_def stream_def)

fun send_messages :: "ws_env \<Rightarrow> (int \<times> bytes) list \<Rightarrow> ws_conn \<Rightarrow> ws_error option list \<times> ws_conn" where
  "send_messages env [] c = ([], c)"
| "send_messages env (m # ms) c =
     (let (e, c) = WriteMessage env (fst m) (snd m) c; (es, c) = send_messages env ms c in (e # es, c))"

fun read_messages :: "ws_env \<Rightarrow> (nat \<Rightarrow> nat) \<Rightarrow> nat \<Rightarrow> ws_conn \<Rightarrow> (int \<times> bytes \<times> ws_error option) list" where
  "read_messages env grow 0 c = []"
| "read_messages env grow (Suc n) c =
     (let (x, c) = ReadMessage env grow c in x # read_messages env grow n c)"

lemma send_messages_eq: "send_messages env ms c = ws.send_each env ms c"
  by (induction ms arbitrary: c) (auto split: prod.splits)

lemma read_messages_eq: "read_messages env grow n c = fst (ws.recv_all env grow n c)"
  by (induction n arbitrary: c) (auto split: prod.splits)

text \<open>C14: Messages written with WriteMessage by a client or by a server, on a network that
  takes every write, all succeed; and the other end, given the bytes on the wire cut
  into reads in any way, reads exactly these messages, types and payloads in order,
  whatever its buffer sizes and however its result buffer grows.\<close>

theorem ws_roundtrip:
  assumes "net_ok env" and "list_all data_msg ms"
    and "send_messages env ms (newConn src server rs ws) = (errs, c)"
    and "ok_src src'" and "concat (map fst src') = concat (wire c)"
  shows "errs = replicate (length ms) None \<and>
    read_messages env' grow (length ms) (newConn src' (\<not> server) rs' ws') = map (\<lambda>(mt, d). (mt, d, None)) ms"
proof -
  have w: "net_ok env \<and> idle (newConn src server rs ws) \<and> isServer (newConn src server rs ws) = server"
    using assms(1) idle_newConn
    by (simp add: newConn_def SetPingHandler_def SetPongHandler_def Let_def)
  have o: "concat (wire (newConn src server rs ws)) = []"
    by (simp add: newConn_def SetPingHandler_def SetPongHandler_def Let_def)
  from ws.roundtrip [OF w assms(2) assms(3) [unfolded send_messages_eq] o]
    between_newConn [OF assms(4), of server rs' ws'] assms(5)
  show ?thesis by (simp add: read_messages_eq split_def)
qed

theorem ws_roundtrip_witness:
  "read_messages ws_sample_env (\<lambda>_. 0) 2
     (newConn (map (\<lambda>b. ([b], None))
        (concat (wire (snd (send_messages ws_sample_env [(1, [104, 105]), (2, [])] (newConn [] False 0 7))))))
       True 0 0) = [(1, [104, 105], None), (2, [], None)]"
proof -
  let ?ms = "[(1, [104, 105]), (2, [])] :: (int \<times> bytes) list"
  define w where "w = send_messages ws_sample_env ?ms (newConn [] False 0 7)"
  have m: "list_all data_msg ?ms" by (simp add: data_msg_def isData_def)
  have w: "send_messages ws_sample_env ?ms (newConn [] False 0 7) = (fst w, snd w)" by (simp add: w_def)
  have "read_messages ws_sample_env (\<lambda>_. 0) (length ?ms)
      (newConn (map (\<lambda>b. ([b], None)) (concat (wire (snd w)))) (\<not> False) 0 0) = map (\<lambda>(mt, d). (mt, d, None)) ?ms"
    using ws_roundtrip [OF net_ok_sample m w byte_reads] by (rule conjunct2)
  then show ?thesis by (simp add: w_def numeral_2_eq_2 del: send_messages.simps read_messages.simps)
qed

section \<open>JSON values\<close>

fun send_values :: "('s, 'v) json_lib \<Rightarrow> ws_env \<Rightarrow> 'v list \<Rightarrow> ws_conn \<Rightarrow> json_error option list \<times> ws_conn" where
  "send_values lib env [] c = ([], c)"
| "send_values lib env (v # vs) c =
     (let (e, c) = WriteJSON lib env v c; (es, c) = send_values lib env vs c in (e # es, c))"

fun read_values :: "('s, 'v) json_lib \<Rightarrow> ws_env \<Rightarrow> (nat \<Rightarrow> nat) \<Rightarrow> 'v \<Rightarrow> nat \<Rightarrow> ws_conn \<Rightarrow>
    (json_error option \<times> 'v) list" where
  "read_values lib env grow zero 0 c = []"
| "read_values lib env grow zero (Suc n) c =
     (let (x, c) = ReadJSON lib env grow zero c in x # read_values lib env grow zero n c)"

lemma send_values_eq: "send_values lib env vs c = message_channel.send_each (WriteJSON lib env) vs c"
  by (induction vs arbitrary: c) (auto split: prod.splits)

lemma read_values_eq: "read_values lib env grow zero n c = fst (message_channel.recv_all (ReadJSON lib env grow zero) n c)"
  by (induction n arbitrary: c) (auto split: prod.splits)

lemma resting_newConn:
  "ok_src src \<Longrightarrow> resting s (concat (map fst src)) (newConn src (\<not> s) rs ws)"
  using between_newConn [of src s rs ws] by (auto simp: ws_ready_def intro: resting_between)

lemma newConn_start:
  "isServer (newConn src server rs ws) = server" "wire (newConn src server rs ws) = []"
  by (simp_all add: newConn_def SetPingHandler_def SetPongHandler_def Let_def)

text \<open>C15: Values sent with WriteJSON by a client or by a server, on a network that takes every
  write, are all sent; and the other end, given the bytes on the wire cut into reads in any
  way, reads with ReadJSON exactly these values in order, although the decoder stops at
  the end of a value and leaves the rest of the message, the line feed or whole frames, to
  be skipped by the next call.\<close>

theorem json_roundtrip:
  assumes "net_ok env" and "list_all (json_faithful lib zero) vs"
    and "send_values lib env vs (newConn src server rs ws) = (errs, c)"
    and "ok_src src'" and "concat (map fst src') = concat (wire c)"
  shows "errs = replicate (length vs) None \<and>
    read_values lib env' grow zero (length vs) (newConn src' (\<not> server) rs' ws') = map (Pair None) vs"
proof -
  have w: "net_ok env \<and> idle (newConn src server rs ws) \<and> isServer (newConn src server rs ws) = server"
    using assms(1) idle_newConn by (simp add: newConn_start)
  have o: "concat (wire (newConn src server rs ws)) = []" by (simp add: newConn_start)
  from wsj.roundtrip [OF w assms(2) assms(3) [unfolded send_values_eq] o]
    resting_newConn [OF assms(4), of server rs' ws'] assms(5)
  show ?thesis by (simp add: read_values_eq)
qed

text \<open>The JSON library on natural numbers: the scanner skips spaces and then takes digits.\<close>

definition nat_json :: "(nat, nat) json_lib" where
  "nat_json = \<lparr>js_init = 0,
     js_step = (\<lambda>st b. if 48 \<le> b \<and> b \<le> 57 then (ScanOther, 1)
                        else if st = 1 then (ScanEnd, 1)
                        else if isSpace b then (ScanOther, 0) else (ScanError, 0)),
     js_err = (\<lambda>_. ''invalid character looking for beginning of value''),
     Marshal = (\<lambda>n. Inr (str_bytes (decimal n))),
     Unmarshal = (\<lambda>bs _. (None, foldl (\<lambda>a b. 10 * a + (unat b - 48)) 0 bs))\<rparr>"

theorem json_roundtrip_witness:
  "read_values nat_json ws_sample_env (\<lambda>_. 0) 0 2
     (newConn (map (\<lambda>b. ([b], None))
        (concat (wire (snd (send_values nat_json ws_sample_env [42, 5] (newConn [] False 0 7))))))
       True 0 0) = [(None, 42), (None, 5)]"
proof -
  define w where "w = send_values nat_json ws_sample_env [42, 5] (newConn [] False 0 7)"
  have "str_bytes (decimal 42) = [52, 50]" "str_bytes (decimal 5) = [53]"
    by (simp_all add: str_bytes_def decimal.simps)
  then have m: "list_all (json_faithful nat_json 0) [42, 5]" by (simp add: json_faithful_def nat_json_def)
  have w: "send_values nat_json ws_sample_env [42, 5] (newConn [] False 0 7) = (fst w, snd w)" by (simp add: w_def)
  have "read_values nat_json ws_sample_env (\<lambda>_. 0) 0 (length [42 :: nat, 5])
      (newConn (map (\<lambda>b. ([b], None)) (concat (wire (snd w)))) (\<not> False) 0 0) = map (Pair None) [42, 5]"
    using json_roundtrip [OF net_ok_sample m w byte_reads] by (rule conjunct2)
  then show ?thesis by (simp add: w_def numeral_2_eq_2 del: send_values.simps read_values.simps)
qed

text \<open>
  A value the encoder rejects is reported to the caller of WriteJSON, but the peer gets an
  empty message for it: its ReadJSON fails with io.ErrUnexpectedEOF, and the values behind
  it are read as if it had not been there.
\<close>

theorem json_rejected_value:
  assumes "net_ok env" and "Marshal lib v = Inl e" and "fst (js_step lib (js_init lib) 0x20) \<noteq> ScanEnd"
    and "WriteJSON lib env v (newConn src server rs ws) = (err, c)"
    and "ok_src src'" and "concat (map fst src') = concat (wire c) @ rest"
  shows "err = Some (JsonError e) \<and>
    (\<exists>c'. ReadJSON lib env' grow zero (newConn src' (\<not> server) rs' ws') = ((Some ErrUnexpectedEOF, zero), c') \<and>
      resting server rest c')"
proof -
  let ?c = "newConn src server rs ws"
  obtain bs where b: "err = Some (JsonError e)" "ws_encodes (isServer ?c) (TextMessage, []) bs"
      "concat (wire c) = concat (wire ?c) @ bs"
    by (rule WriteJSON_rejected [OF idle_newConn assms(1,2), of src server rs ws]) (use assms(4) in simp)
  have r: "resting server (bs @ rest) (newConn src' (\<not> server) rs' ws')"
    using resting_newConn [OF assms(5), of server rs' ws'] assms(6) b(3) by (simp add: newConn_start)
  have "ws_encodes server (TextMessage, []) bs" using b(2) by (simp add: newConn_start)
  from ReadJSON_empty [OF r this assms(3), of env' grow zero] b(1) show ?thesis by blast
qed

section \<open>Close frames\<close>



section \<open>Control frames and protocol errors\<close>

text \<open>A ping of at most 125 bytes is answered at once with one pong frame that carries
  the same payload, and the reader goes on with the bytes behind the ping.\<close>

theorem ping_answered:
  assumes "rd_ok s c" and "readRemaining c \<le> 0" and "handlePing c = None" and "\<not> closeSent c"
    and "net_ok env" and "prompt env" and "length d \<le> 125" and "length key = 4"
    and "stream (br c) = frame_bytes s key True PingMessage d @ rest"
  shows "\<exists>key' c'. advanceFrame env c = (Inr PingMessage, c') \<and> stream (br c') = rest \<and>
    wire c' = wire c @ [frame_bytes (isServer c) key' True PongMessage d]"
proof -
  have p: "isControl PingMessage" "isControl PongMessage" by (simp_all add: isControl_def)
  obtain r where a: "advanceFrame env c = process_control env PingMessage d (c\<lparr>br := r, readRemaining := 0,
      readMaskPos := (if s then readMaskPos c else 0), readMaskKey := (if s then readMaskKey c else key)\<rparr>)"
    and r: "stream r = rest"
    using advanceFrame_control [OF assms(1,2) p(1) assms(7,8,9)] by metis
  let ?c = "c\<lparr>br := r, readRemaining := 0, readMaskPos := (if s then readMaskPos c else 0),
    readMaskKey := (if s then readMaskKey c else key)\<rparr>"
  have "wire (control_soon env PongMessage d ?c) =
      wire ?c @ [frame_bytes (isServer ?c) (next_key env (?c\<lparr>tick := Suc (tick ?c)\<rparr>)) True PongMessage d]"
    using control_soon_ok(1) [OF assms(5,6) _ p(2) assms(7), of ?c] assms(4) by simp
  moreover have "advanceFrame env c = (Inr PingMessage, control_soon env PongMessage d ?c)"
    using a assms(3) by (simp add: process_control_def run_ping_def)
  ultimately show ?thesis using r by auto
qed

theorem ping_answered_witness:
  "\<exists>key' c'. advanceFrame ws_sample_env (newConn [([0x89, 0x81, 1, 2, 3, 4, 0x40], None)] True 0 0) =
     (Inr 9, c') \<and> stream (br c') = [] \<and> wire c' = [frame_bytes True key' True 10 [0x41]]"
proof -
  let ?c = "newConn [([0x89, 0x81, 1, 2, 3, 4, 0x40], None)] True 0 0"
  have "rd_ok False ?c" "readRemaining ?c \<le> 0" "handlePing ?c = None" "\<not> closeSent ?c"
    "stream (br ?c) = frame_bytes False [1, 2, 3, 4] True 9 [0x41] @ []" "isServer ?c" "wire ?c = []"
    by (simp_all add: rd_ok_def newConn_def SetPingHandler_def SetPongHandler_def Let_def clean_def ok_src_def
        stream_def frame_bytes_def len_code_def)
  with ping_answered [of False ?c ws_sample_env "[0x41]" "[1, 2, 3, 4]" "[]"] net_ok_sample prompt_sample
  show ?thesis by simp
qed

text \<open>A data frame whose mask flag does not fit the role of its sender (a client frame
  must be masked, a server frame must not) is refused: the reader sends a close frame
  with code 1002 and reports the error.\<close>

theorem wrong_mask_refused:
  assumes "clean (br c)" and "readRemaining c \<le> 0" and "header_ok op fin (readFinal c)"
    and "\<not> closeSent c" and "net_ok env" and "prompt env" and "length d \<le> 125"
    and "stream (br c) = frame_bytes (isServer c) key fin op d @ rest"
  shows "\<exists>key' c'. advanceFrame env c = (Inl (ErrorString ''websocket: incorrect mask flag''), c') \<and>
    closeSent c' \<and> wire c' = wire c @ [frame_bytes (isServer c) key' True CloseMessage
      (FormatCloseMessage CloseProtocolError ''incorrect mask flag'')]"
proof -
  let ?s = "isServer c"
  let ?b0 = "if fin then word_of_int op OR finalBit else word_of_int op :: byte"
  let ?x = "word_of_nat (length d) :: byte"
  let ?b1 = "(if ?s then 0 else maskBit) OR ?x"
  have x: "?x < 128" "uint ?x \<le> 125"
    using len_code_less [of "length d"] assms(7)
    by (simp_all add: len_code_def unsigned_of_nat take_bit_nat_eq_self)
  obtain ys where "stream (br c) = [?b0, ?b1] @ ys"
    using assms(7,8) by (simp add: frame_bytes_def len_code_def)
  with conn_readFull_clean [OF assms(1), of "[?b0, ?b1]" ys 2] obtain r1 where
    r1: "conn_readFull 2 c = ([?b0, ?b1], None, c\<lparr>br := r1\<rparr>)" by (auto simp: numeral_2_eq_2)
  let ?c2 = "c\<lparr>br := r1, readRemaining := uint ?x, readFinal := fin\<rparr>"
  have 2: "check_header env ?b0 ?b1 (c\<lparr>br := r1\<rparr>) = (Inr op, ?c2)"
    using check_header_data [of op fin "c\<lparr>br := r1\<rparr>" ?x env ?s] assms(3) x by simp
  have 3: "read_length ?c2 = (None, ?c2)" using x by (simp add: read_length_def)
  have 4: "read_mask env ?b1 ?c2 = handleProtocolError env ''incorrect mask flag'' ?c2"
    using low7 [OF x(1)] by (simp add: read_mask_def)
  have "advanceFrame env c = handleProtocolError env ''incorrect mask flag'' ?c2"
    using assms(2) r1 2 3 4 by (simp add: advanceFrame_def skip_frame_def handleProtocolError_def)
  moreover have "isControl CloseMessage" by (simp add: isControl_def)
  note control_soon_ok [OF assms(5,6) _ this, of ?c2 "FormatCloseMessage CloseProtocolError ''incorrect mask flag''"]
  ultimately show ?thesis using assms(4) by (auto simp: handleProtocolError_def)
qed

theorem wrong_mask_refused_witness:
  "\<exists>key' c'. advanceFrame ws_sample_env (newConn [([0x81, 0x01, 0x41], None)] True 0 0) =
     (Inl (ErrorString ''websocket: incorrect mask flag''), c') \<and> closeSent c' \<and>
     wire c' = [frame_bytes True key' True 8 (FormatCloseMessage 1002 ''incorrect mask flag'')]"
proof -
  let ?c = "newConn [([0x81, 0x01, 0x41], None)] True 0 0"
  have "clean (br ?c)" "readRemaining ?c \<le> 0" "header_ok 1 True (readFinal ?c)" "\<not> closeSent ?c"
    "stream (br ?c) = frame_bytes (isServer ?c) [] True 1 [0x41] @ []" "isServer ?c" "wire ?c = []"
    by (simp_all add: newConn_def SetPingHandler_def SetPongHandler_def Let_def clean_def ok_src_def
        stream_def frame_bytes_def len_code_def header_ok_def)
  with wrong_mask_refused [of ?c 1 True ws_sample_env "[0x41]" "[]" "[]"] net_ok_sample prompt_sample
  show ?thesis by simp
qed

section \<open>The read limit\<close>

text \<open>C27: With a positive read limit, a frame that would make the message larger than the
  limit is refused: the reader sends a close frame with code 1009 and reports
  ErrReadLimit.\<close>

theorem read_limit_enforced:
  assumes "rd_ok s c" and "readRemaining c \<le> 0" and "header_ok op fin (readFinal c)"
    and "length d < 2 ^ 63" and "length key = 4" and "stream (br c) = frame_bytes s key fin op d @ rest"
    and "0 < readLimit c" and "readLimit c < readLength c + int (length d)" and "readLength c + int (length d) < 2 ^ 63"
    and "\<not> closeSent c" and "net_ok env" and "prompt env"
  shows "\<exists>key' c'. advanceFrame env c = (Inl ErrReadLimit, c') \<and> closeSent c' \<and>
    wire c' = wire c @ [frame_bytes (isServer c) key' True CloseMessage (FormatCloseMessage CloseMessageTooBig [])]"
proof -
  from advanceFrame_header [OF assms(1-6)]
  obtain r where r: "advanceFrame env c = enforce_limit env op (c\<lparr>br := r, readRemaining := int (length d),
      readFinal := fin, readMaskPos := (if s then readMaskPos c else 0),
      readMaskKey := (if s then readMaskKey c else key)\<rparr>)" by blast
  let ?c = "c\<lparr>br := r, readRemaining := int (length d), readFinal := fin,
    readMaskPos := (if s then readMaskPos c else 0), readMaskKey := (if s then readMaskKey c else key),
    readLength := readLength c + int (length d)\<rparr>"
  have "wrap64 (readLength c + int (length d)) = readLength c + int (length d)"
    using assms(1,9) by (intro wrap64_id) (simp_all add: rd_ok_def)
  with r assms(7,8) have a: "advanceFrame env c =
      (Inl ErrReadLimit, control_soon env CloseMessage (FormatCloseMessage CloseMessageTooBig []) ?c)"
    by (simp add: enforce_limit_def Let_def)
  have "isControl CloseMessage" by (simp add: isControl_def)
  note k = control_soon_ok [OF assms(11,12) _ this, of ?c "FormatCloseMessage CloseMessageTooBig []"]
  show ?thesis
    by (intro exI conjI, rule a) (use k assms(10) in auto)
qed

theorem read_limit_enforced_witness:
  "\<exists>key' c'. advanceFrame ws_sample_env (SetReadLimit 1 (newConn [([0x82, 0x02, 1, 2], None)] False 0 0)) =
     (Inl ErrReadLimit, c') \<and> closeSent c' \<and>
     wire c' = [frame_bytes False key' True 8 (FormatCloseMessage 1009 [])]"
proof -
  let ?c = "SetReadLimit 1 (newConn [([0x82, 0x02, 1, 2], None)] False 0 0)"
  have "rd_ok True ?c" "readRemaining ?c \<le> 0" "header_ok 2 True (readFinal ?c)" "\<not> closeSent ?c"
    "stream (br ?c) = frame_bytes True [0, 0, 0, 0] True 2 [1, 2] @ []" "\<not> isServer ?c" "wire ?c = []"
    "readLimit ?c = 1" "readLength ?c = 0"
    by (simp_all add: newConn_def SetPingHandler_def SetPongHandler_def SetReadLimit_def Let_def clean_def ok_src_def
        rd_ok_def stream_def frame_bytes_def len_code_def header_ok_def)
  with read_limit_enforced [of True ?c 2 True "[1, 2]" "[0, 0, 0, 0]" "[]" ws_sample_env] net_ok_sample prompt_sample
  show ?thesis by simp
qed

text \<open>
  The rest of a message that the application did not read to its end is counted to the
  next message: a message within the limit is refused when the frames skipped before it
  and it are together larger than the limit.
\<close>

theorem skipped_frames_count:
  assumes i: "inside s d [(k, e)] (frame_bytes s key True mt g @ rest) c" and mt: "isData mt" and "length key = 4"
    and lim: "int (length e) \<le> readLimit c" "int (length g) \<le> readLimit c"
      "readLimit c < int (length e) + int (length g)" "readLimit c < 2 ^ 62"
  shows "fst (NextReader env c) = Inl ErrReadLimit"
proof -
  let ?rest = "frame_bytes s key True mt g @ rest"
  let ?c = "c\<lparr>readSeq := readSeq c + 1, readLength := 0\<rparr>"
  have i0: "inside s d [(k, e)] ?rest ?c" using i lim by (simp add: inside_def rd_ok_def in_limit_def)
  have two: "2 \<le> length (frame_bytes s key True mt g)" "2 \<le> length (enc_msg s continuationFrame [(k, e)])"
    by (simp_all add: frame_bytes_def)
  then have "2 \<le> length (enc_msg s continuationFrame [(k, e)] @ ?rest)" by simp
  from advanceFrame_skip [OF i0 this] obtain r where
    a: "advanceFrame env ?c = advanceFrame env (?c\<lparr>br := r, readRemaining := 0\<rparr>)"
    and i1: "inside s [] [(k, e)] ?rest (?c\<lparr>br := r, readRemaining := 0\<rparr>)" .
  let ?c1 = "?c\<lparr>br := r, readRemaining := 0\<rparr>"
  have c: "rd_ok s ?c1" "readRemaining ?c1 \<le> 0" "(0 :: int) \<in> {0, 1, 2}" "(0 :: int) = 0 \<longleftrightarrow> \<not> readFinal ?c1"
    "in_limit (length (frag_bytes [(k, e)])) ?c1" "keys_ok [(k, e)]" "stream (br ?c1) = enc_msg s 0 [(k, e)] @ ?rest"
    using i1 by (auto simp: inside_def)
  obtain c2 where b: "advanceFrame env ?c1 = (Inr 0, c2)" "inside s e [] ?rest c2" "readLimit c2 = readLimit ?c1"
    using enter_frame [OF c] by metis
  have l: "readLength c2 = int (length e)" using enter_frame_length [OF c b(1)] by simp
  have "2 \<le> length (enc_msg s continuationFrame [] @ ?rest)" using two by simp
  from advanceFrame_skip [OF b(2) this] obtain r2 where
    a2: "advanceFrame env c2 = advanceFrame env (c2\<lparr>br := r2, readRemaining := 0\<rparr>)"
    and i2: "inside s [] [] ?rest (c2\<lparr>br := r2, readRemaining := 0\<rparr>)" .
  let ?c3 = "c2\<lparr>br := r2, readRemaining := 0\<rparr>"
  have c3: "rd_ok s ?c3" "readRemaining ?c3 \<le> 0" "header_ok mt True (readFinal ?c3)" "length g < 2 ^ 63"
    "stream (br ?c3) = ?rest"
    using i2 mt lim by (auto simp: inside_def header_ok_def isData_def)
  have "wrap64 (int (length e) + int (length g)) = int (length e) + int (length g)"
    using lim by (intro wrap64_id) simp_all
  then have "fst (advanceFrame env c2) = Inl ErrReadLimit"
    by (subst a2) (rule advanceFrame_header [OF c3(1-4) assms(3) c3(5), of env],
        use l lim b(3) in \<open>simp add: enforce_limit_def Let_def\<close>)
  then obtain c4 where c4: "advanceFrame env c2 = (Inl ErrReadLimit, c4)" by (metis prod.collapse)
  have "readErr ?c = None" "readErr c2 = None" using i0 b(2) by (simp_all add: inside_def rd_ok_def)
  with a b(1) c4 show ?thesis
    by (simp add: NextReader_def next_frame.simps [of env ?c] next_frame.simps [of env c2] next_frame.simps ErrReadLimit_def)
qed

text \<open>
  A frame whose 64-bit length has its highest bit set, with the length written out:
  \<open>advanceFrame\<close> takes the length for a negative number of bytes.
\<close>

definition negative_frame :: "bool \<Rightarrow> bytes \<Rightarrow> bytes" where
  "negative_frame s key =
     [2, (if s then 0 else maskBit) OR 127] @ put_be 8 (0x8000000000000000 :: 64 word) @ (if s then [] else key)"

lemma advanceFrame_negative:
  assumes ok: "rd_ok s c" and rem: "readRemaining c \<le> 0" and fin: "readFinal c"
    and len: "readLength c = 0" and lim: "0 \<le> readLimit c" and key: "length key = 4"
    and str: "stream (br c) = negative_frame s key @ rest"
  obtains r where "advanceFrame env c = (Inr BinaryMessage, c\<lparr>br := r, readRemaining := - (2 ^ 63), readFinal := False,
      readLength := - (2 ^ 63), readMaskPos := (if s then readMaskPos c else 0),
      readMaskKey := (if s then readMaskKey c else key)\<rparr>)"
    and "clean r" and "stream r = rest"
proof -
  let ?b1 = "(if s then 0 else maskBit) OR 127 :: byte"
  let ?w = "0x8000000000000000 :: 64 word"
  have cl: "clean (br c)" using ok by (simp add: rd_ok_def)
  obtain r1 where r1: "conn_readFull 2 c = ([2, ?b1], None, c\<lparr>br := r1\<rparr>)" "clean r1"
      "stream r1 = put_be 8 ?w @ (if s then [] else key) @ rest"
    using conn_readFull_clean [OF cl, of "[2, ?b1]" _ 2] str by (auto simp: negative_frame_def numeral_2_eq_2)
  have "header_ok 2 False (readFinal (c\<lparr>br := r1\<rparr>))" using fin by (simp add: header_ok_def)
  from check_header_data [OF this, of 127 env s]
  have 2: "check_header env 2 ?b1 (c\<lparr>br := r1\<rparr>) = (Inr 2, c\<lparr>br := r1, readRemaining := 127, readFinal := False\<rparr>)"
    by simp
  let ?c2 = "c\<lparr>br := r1, readRemaining := 127, readFinal := False\<rparr>"
  obtain r2 where r2: "conn_readFull 8 ?c2 = (put_be 8 ?w, None, ?c2\<lparr>br := r2\<rparr>)" "clean r2"
      "stream r2 = (if s then [] else key) @ rest"
    using conn_readFull_clean [of ?c2 "put_be 8 ?w" _ 8] r1 by (auto simp del: put_be_def)
  have 3: "read_length ?c2 = (None, ?c2\<lparr>br := r2, readRemaining := - (2 ^ 63)\<rparr>)"
    using r2(1) by (simp add: read_length_def)
  let ?c3 = "?c2\<lparr>br := r2, readRemaining := - (2 ^ 63)\<rparr>"
  have p: "clean (br ?c3)" "isServer ?c3 = (\<not> s)" "length (readMaskKey ?c3) = 4"
    "stream (br ?c3) = (if s then rest else key @ rest)"
    using r2 ok by (auto simp: rd_ok_def)
  from read_mask_ok [OF p(1-3) key p(4), of 127]
  obtain r3 where r3: "read_mask env ?b1 ?c3 = (Inr (), ?c3\<lparr>br := r3,
        readMaskPos := (if s then readMaskPos ?c3 else 0), readMaskKey := (if s then readMaskKey ?c3 else key)\<rparr>)"
      "clean r3" "stream r3 = rest"
    by auto
  have "wrap64 (- (2 ^ 63)) = - (2 ^ 63)" by (rule wrap64_id) simp_all
  then have "advanceFrame env c = (Inr BinaryMessage, c\<lparr>br := r3, readRemaining := - (2 ^ 63), readFinal := False,
      readLength := - (2 ^ 63), readMaskPos := (if s then readMaskPos c else 0),
      readMaskKey := (if s then readMaskKey c else key)\<rparr>)"
    using rem r1(1) 2 3 r3(1) len lim
    by (auto simp: advanceFrame_def skip_frame_def enforce_limit_def isData_def Let_def)
  with r3 that show ?thesis by blast
qed

text \<open>C40: The read limit can be evaded. Behind a first frame with a negative length, a
  continuation frame of any size is delivered without an error, whatever limit was set
  with SetReadLimit, because the negative length is added to the message size.\<close>

theorem read_limit_evaded:
  assumes "between s (negative_frame s key @ frame_bytes s key' True 0 d @ rest) c" and "0 \<le> readLimit c"
    and "length key = 4" and "length key' = 4" and "length d < 2 ^ 63"
  shows "\<exists>c'. ReadMessage env grow c = ((BinaryMessage, d, None), c') \<and> between s rest c'"
proof -
  let ?c = "c\<lparr>readSeq := readSeq c + 1, readLength := 0\<rparr>"
  have c: "rd_ok s ?c" "readRemaining ?c \<le> 0" "readFinal ?c" "readLength ?c = 0" "0 \<le> readLimit ?c"
    "stream (br ?c) = negative_frame s key @ frame_bytes s key' True 0 d @ rest"
    using assms by (auto simp: between_def rd_ok_def)
  from advanceFrame_negative [OF c(1-5) assms(3) c(6)]
  obtain r where r: "advanceFrame env ?c = (Inr BinaryMessage, ?c\<lparr>br := r, readRemaining := - (2 ^ 63),
      readFinal := False, readLength := - (2 ^ 63), readMaskPos := (if s then readMaskPos ?c else 0),
      readMaskKey := (if s then readMaskKey ?c else key)\<rparr>)" "clean r"
      "stream r = frame_bytes s key' True 0 d @ rest" by blast
  define c1 where "c1 = ?c\<lparr>br := r, readRemaining := - (2 ^ 63), readFinal := False, readLength := - (2 ^ 63),
      readMaskPos := (if s then readMaskPos ?c else 0), readMaskKey := (if s then readMaskKey ?c else key)\<rparr>"
  have nr: "NextReader env c = (Inr (2, readSeq c + 1), c1)"
    using r(1) c(1) by (simp add: NextReader_def next_frame.simps [of env ?c] rd_ok_def c1_def)
  have k: "rd_ok s c1" "readRemaining c1 \<le> 0" "0 \<in> {0, 1, 2 :: int}" "(0 :: int) = 0 \<longleftrightarrow> \<not> readFinal c1"
    "in_limit (length (frag_bytes [(key', d)])) c1" "keys_ok [(key', d)]"
    "stream (br c1) = enc_msg s 0 [(key', d)] @ rest"
    using c assms r by (auto simp: rd_ok_def in_limit_def keys_ok_def c1_def)
  from enter_frame [OF k, of env] obtain c2 where a: "advanceFrame env c1 = (Inr 0, c2)"
    and i: "inside s d [] rest c2" and q: "readSeq c2 = readSeq c1" by blast
  have sq: "readSeq c1 = readSeq c + 1" by (simp add: c1_def)
  have "read_loop env sq n c1 = read_loop env sq n c2" for sq n
    using k a by (simp add: read_loop.simps [of env sq n c1] rd_ok_def)
  then have "ReadAll env grow (readSeq c + 1) [] c1 = ReadAll env grow (readSeq c + 1) [] c2"
    using q sq by (simp add: ReadAll.simps [of env grow _ "[]"] mr_Read_def)
  with ReadAll_inside [OF i, of "readSeq c + 1" env grow "[]"] q sq nr show ?thesis
    by (auto simp: ReadMessage_def)
qed

theorem read_limit_evaded_witness:
  "\<exists>c'. ReadMessage ws_sample_env id
     (SetReadLimit 1 (newConn [(negative_frame False [1, 2, 3, 4] @ [0x80, 0x83, 1, 2, 3, 4, 0x40, 0x40, 0x40], None)] True 0 0)) =
     ((2, [0x41, 0x42, 0x43], None), c')"
proof -
  let ?c = "SetReadLimit 1 (newConn [(negative_frame False [1, 2, 3, 4] @ [0x80, 0x83, 1, 2, 3, 4, 0x40, 0x40, 0x40], None)] True 0 0)"
  have "between False (negative_frame False [1, 2, 3, 4] @ frame_bytes False [1, 2, 3, 4] True 0 [0x41, 0x42, 0x43] @ []) ?c"
    by (simp add: between_def rd_ok_def newConn_def SetPingHandler_def SetPongHandler_def Let_def clean_def ok_src_def
        stream_def frame_bytes_def len_code_def negative_frame_def SetReadLimit_def)
  moreover have "0 \<le> readLimit ?c" by (simp add: SetReadLimit_def)
  ultimately show ?thesis using read_limit_evaded [of False "[1, 2, 3, 4]" "[1, 2, 3, 4]" "[0x41, 0x42, 0x43]" "[]" ?c] by simp blast
qed

section \<open>The handshake\<close>


definition hs_sample :: hs_env where
  "hs_sample = \<lparr>hs_sha1 = (\<lambda>bs. take 20 (rev bs)), hs_urlHost = (\<lambda>s. None), hs_rand = Inr (replicate 16 7),
     hs_readResponse = (\<lambda>r. (Inr \<lparr>rsStatus = 101, rsHeader = [(''Upgrade'', [''websocket'']), (''Connection'', [''Upgrade'']),
       (''Sec-Websocket-Accept'', [base64 (take 20 (rev (str_bytes (base64 (replicate 16 7)) @ keyGUID)))])]\<rparr>, r)),
     hs_trim = (\<lambda>s. s), hs_fold = (\<lambda>s t. False)\<rparr>"

definition sample_upgrader :: Upgrader where
  "sample_upgrader = \<lparr>HandshakeTimeout = 0, uReadBufferSize = 0, uWriteBufferSize = 0, uSubprotocols = None,
     uError = False, CheckOrigin = None\<rparr>"

definition sample_request :: request where
  "sample_request = \<lparr>rqHeader = [(''Upgrade'', [''websocket'']), (''Connection'', [''keep-alive, Upgrade'']),
     (''Sec-Websocket-Version'', [''13'']), (''Sec-Websocket-Key'', [base64 (replicate 16 7)])], rqHost = ''h''\<rparr>"

lemma sample_checks: "upgrade_checks hs_sample sample_upgrader sample_request = None"
  by code_simp

lemma sample_upgrade:
  obtains c where "Upgrade hs_sample ws_sample_env sample_upgrader (Hijacked [] 0) sample_request None =
    (Inr c, map NetWritten (wire c))"
  using upgrade_answer_ok [OF net_ok_sample, of hs_sample sample_upgrader "[]" sample_request None]
  by (auto simp: Upgrade_def sample_checks)


lemma lower_U: "lower_char CHR ''U'' = lower_char CHR ''u''"
  by code_simp





end
