(* ===== verification/WsSides.thy ===== *)
theory WsSides
  imports WsJson
begin

text \<open>
  Reader and writer of one connection: what an application reads leaves the writing half
  alone as long as data frames arrive, and what it writes leaves the reading half alone.
  This is what lets a program read from and write to the same connection in turn.
\<close>

section \<open>Writing\<close>

definition rside :: "ws_conn \<Rightarrow> bool \<times> bufio \<times> ws_error option \<times> int \<times> bool \<times> int \<times> int \<times> int \<times> nat \<times> bytes" where
  "rside c = (isServer c, br c, readErr c, readRemaining c, readFinal c, readSeq c, readLength c,
     readLimit c, readMaskPos c, readMaskKey c)"

lemma rsideD:
  assumes "rside c' = rside c"
  shows "isServer c' = isServer c" "br c' = br c" "readErr c' = readErr c" "readRemaining c' = readRemaining c"
    "readFinal c' = readFinal c" "readSeq c' = readSeq c" "readLength c' = readLength c"
    "readLimit c' = readLimit c" "readMaskPos c' = readMaskPos c" "readMaskKey c' = readMaskKey c"
  using assms by (auto simp: rside_def)

lemma rside_upd [simp]:
  "rside (c\<lparr>writeBuf := b\<rparr>) = rside c" "rside (c\<lparr>writePos := n\<rparr>) = rside c" "rside (c\<lparr>writeErr := e\<rparr>) = rside c"
  "rside (c\<lparr>writeFrameType := t\<rparr>) = rside c" "rside (c\<lparr>writeSeq := q\<rparr>) = rside c" "rside (c\<lparr>closeSent := s\<rparr>) = rside c"
  "rside (c\<lparr>wire := w\<rparr>) = rside c" "rside (c\<lparr>netClosed := d\<rparr>) = rside c" "rside (c\<lparr>tick := k\<rparr>) = rside c"
  by (simp_all add: rside_def)

lemma rside_write_bufs: "rside (snd (write_bufs env bufs c)) = rside c"
  by (induction env bufs c rule: write_bufs.induct)
    (auto simp: net_Write_def ws_Close_def Let_def split: prod.splits)

lemma rside_conn_write: "rside (snd (conn_write env ft bufs c)) = rside c"
  using rside_write_bufs [of env bufs] by (simp add: conn_write_def Let_def)

lemma rside_mask_frame [simp]: "rside (mask_frame env c) = rside c"
  by (simp add: mask_frame_def newMaskKey_def Let_def)

lemma rside_flushFrame: "rside (snd (flushFrame env final extra c)) = rside c"
proof -
  have b: "rside c1 = rside c" if "built env b0 n c = (fp, c1)" for b0 n fp c1
    using that by (auto simp: built_def Let_def split: prod.splits if_splits)
  have w: "rside c2 = rside c1" if "conn_write env ft bufs c1 = (e, c2)" for ft bufs c1 e c2
    using rside_conn_write [of env ft bufs c1] that by simp
  show ?thesis
    by (auto simp: flushFrame_built Let_def dest!: b w split: prod.splits)
qed

lemma rside_flush: "flushFrame env final extra c = (e, c') \<Longrightarrow> rside c' = rside c"
  using rside_flushFrame [of env final extra c] by simp

lemma rside_NextWriter: "NextWriter env mt c = (r, c') \<Longrightarrow> rside c' = rside c"
  by (auto simp: NextWriter_def Let_def dest!: rside_flush split: option.splits if_splits prod.splits)

lemma rside_ncopy: "mw_ncopy env m c = (r, c') \<Longrightarrow> rside c' = rside c"
  by (auto simp: mw_ncopy_def Let_def dest!: rside_flush split: option.splits if_splits prod.splits)

lemma rside_copy_loop: "copy_loop env p c = (e, c') \<Longrightarrow> rside c' = rside c"
proof (induction env p c rule: copy_loop.induct)
  case (1 env p c)
  show ?case
  proof (cases "p = []")
    case True
    with "1.prems" show ?thesis by (simp add: copy_loop.simps)
  next
    case False
    obtain r c1 where m: "mw_ncopy env (length p) c = (r, c1)" by (metis surj_pair)
    show ?thesis
    proof (cases "\<exists>n. r = Inr n \<and> n \<noteq> 0")
      case True
      then obtain n where n: "r = Inr n" "n \<noteq> 0" by blast
      with "1.prems" False m "1.IH" [OF False m [symmetric] n] rside_ncopy [OF m] show ?thesis
        by (simp add: copy_loop.simps [of env p c])
    next
      case no: False
      with "1.prems" False m rside_ncopy [OF m] show ?thesis
        by (auto simp: copy_loop.simps [of env p c] split: sum.splits)
    qed
  qed
qed

lemma rside_mw_write: "mw_write env sq final p c = (r, c') \<Longrightarrow> rside c' = rside c"
  by (auto simp: mw_write_def dest!: rside_flush rside_copy_loop split: option.splits if_splits prod.splits)

lemma rside_mw_Write: "mw_Write env sq p c = (r, c') \<Longrightarrow> rside c' = rside c"
  by (simp add: mw_Write_def rside_mw_write)

lemma rside_mw_Close: "mw_Close env sq c = (e, c') \<Longrightarrow> rside c' = rside c"
  by (auto simp: mw_Close_def dest!: rside_flush split: option.splits)

lemma rside_WriteMessage: "WriteMessage env mt data c = (e, c') \<Longrightarrow> rside c' = rside c"
  by (auto simp: WriteMessage_def dest!: rside_NextWriter rside_mw_write rside_flush
      split: prod.splits sum.splits if_splits)

lemmas rside_rules = rside_flush rside_NextWriter rside_mw_Write rside_mw_Close rside_WriteMessage

lemma rside_inside: "rside c' = rside c \<Longrightarrow> inside s d fs rest c' = inside s d fs rest c"
  by (simp add: rside_def inside_def rd_ok_def in_limit_def)

lemma rside_between: "rside c' = rside c \<Longrightarrow> between s rest c' = between s rest c"
  by (simp add: rside_def between_def rd_ok_def)

section \<open>Reading\<close>

definition wside :: "ws_conn \<Rightarrow> bool \<times> bool \<times> ws_error option \<times> bytes \<times> nat \<times> int \<times> int \<times> bytes list" where
  "wside c = (isServer c, closeSent c, writeErr c, writeBuf c, writePos c, writeFrameType c, writeSeq c, wire c)"

lemma wsideD:
  assumes "wside c' = wside c"
  shows "isServer c' = isServer c" "closeSent c' = closeSent c" "writeErr c' = writeErr c" "writeBuf c' = writeBuf c"
    "writePos c' = writePos c" "writeFrameType c' = writeFrameType c" "writeSeq c' = writeSeq c" "wire c' = wire c"
  using assms by (auto simp: wside_def)

lemma wside_upd [simp]:
  "wside (c\<lparr>br := r\<rparr>) = wside c" "wside (c\<lparr>readErr := e\<rparr>) = wside c" "wside (c\<lparr>readRemaining := n\<rparr>) = wside c"
  "wside (c\<lparr>readFinal := f\<rparr>) = wside c" "wside (c\<lparr>readSeq := q\<rparr>) = wside c" "wside (c\<lparr>readLength := l\<rparr>) = wside c"
  "wside (c\<lparr>readMaskPos := p\<rparr>) = wside c" "wside (c\<lparr>readMaskKey := k\<rparr>) = wside c"
  by (simp_all add: wside_def)

lemma wside_idle: "wside c' = wside c \<Longrightarrow> idle c' = idle c"
  by (simp add: wside_def idle_def ws_ok_def pending_def)

lemma wside_writing: "wside c' = wside c \<Longrightarrow> writing c' = writing c"
  by (simp add: wside_def writing_def ws_ok_def)

lemma wside_pending: "wside c' = wside c \<Longrightarrow> pending c' = pending c"
  by (simp add: wside_def pending_def)

lemma wside_sent_frags: "wside c' = wside c \<Longrightarrow> sent_frags c0 fs c' = sent_frags c0 fs c"
  using wside_writing [of c' c] by (simp add: wside_def sent_frags_def)

lemma wside_read_data: "read_data n c = (x, c') \<Longrightarrow> wside c' = wside c"
  by (auto simp: read_data_def Let_def split: prod.splits if_splits)

lemma wside_enter_frame:
  assumes ok: "rd_ok s c" and rem: "readRemaining c \<le> 0" and op: "op \<in> {0, 1, 2}" "op = 0 \<longleftrightarrow> \<not> readFinal c"
    and lim: "in_limit (length (frag_bytes ((key, d) # fs))) c" and keys: "keys_ok ((key, d) # fs)"
    and str: "stream (br c) = enc_msg s op ((key, d) # fs) @ rest"
    and adv: "advanceFrame env c = (x, c')"
  shows "wside c' = wside c"
proof -
  have fr: "enc_msg s op ((key, d) # fs) = frame_bytes s key (fs = []) op d @ enc_msg s continuationFrame fs"
    by (cases fs) auto
  have a: "header_ok op (fs = []) (readFinal c)" "in_limit (length d) c" "length key = 4"
    "stream (br c) = frame_bytes s key (fs = []) op d @ enc_msg s continuationFrame fs @ rest"
    using op lim keys str fr by (auto simp: header_ok_def in_limit_def keys_ok_def)
  show ?thesis by (rule advanceFrame_data [OF ok rem a, of env]) (use adv in simp)
qed

lemma wside_read_loop:
  assumes "inside s d fs rest c" and "read_loop env sq n c = (x, c')"
  shows "wside c' = wside c"
  using assms
proof (induction fs arbitrary: c d)
  case Nil
  then show ?case
    by (cases "d = []") (auto simp: read_loop.simps [of env sq n c] inside_def rd_ok_def dest: wside_read_data)
next
  case (Cons f fs)
  obtain key d1 where f: "f = (key, d1)" by (metis surj_pair)
  show ?case
  proof (cases "d = []")
    case True
    have c: "rd_ok s c" "readRemaining c \<le> 0" "0 \<in> {0, 1, 2 :: int}" "(0 :: int) = 0 \<longleftrightarrow> \<not> readFinal c"
      "in_limit (length (frag_bytes ((key, d1) # fs))) c" "keys_ok ((key, d1) # fs)"
      "stream (br c) = enc_msg s 0 ((key, d1) # fs) @ rest"
      using Cons.prems True f by (auto simp: inside_def)
    obtain c1 where a: "advanceFrame env c = (Inr 0, c1)" and i: "inside s d1 fs rest c1"
      using enter_frame [OF c] by metis
    have "read_loop env sq n c = read_loop env sq n c1"
      using c a by (simp add: read_loop.simps [of env sq n c] rd_ok_def)
    with Cons.IH [OF i] Cons.prems(2) wside_enter_frame [OF c a] show ?thesis by simp
  next
    case False
    with Cons.prems show ?thesis
      by (auto simp: read_loop.simps [of env sq n c] inside_def rd_ok_def dest: wside_read_data)
  qed
qed

lemma wside_mr_Read: "inside s d fs rest c \<Longrightarrow> mr_Read env sq n c = (x, c') \<Longrightarrow> wside c' = wside c"
  by (auto simp: mr_Read_def dest: wside_read_loop split: if_splits)

text \<open>One read inside a message: some of its data, or its end.\<close>

lemma mr_Read_inside:
  assumes "inside s d fs rest c" and "sq = readSeq c" and "0 < n"
  obtains (eof) c' where "d @ frag_bytes fs = []" and "mr_Read env sq n c = (([], Some WsEOF), c')" and "between s rest c'"
    and "wside c' = wside c" and "readLimit c' = readLimit c"
  | (data) bs d' fs' c' where "mr_Read env sq n c = ((bs, None), c')" and "bs \<noteq> []" and "inside s d' fs' rest c'"
    and "bs @ d' @ frag_bytes fs' = d @ frag_bytes fs" and "readSeq c' = readSeq c" and "wside c' = wside c"
    and "readLimit c' = readLimit c"
proof (cases "d @ frag_bytes fs = []")
  case True
  with read_loop_inside [OF assms(1,3), of env sq] obtain c' where
    r: "read_loop env sq n c = (([], Some WsEOF), c')" "between s rest c'" "readLimit c' = readLimit c" by blast
  with wside_read_loop [OF assms(1) r(1)] True assms(2) eof show ?thesis by (simp add: mr_Read_def)
next
  case False
  with read_loop_inside [OF assms(1,3), of env sq] obtain bs d' fs' c' where
    r: "read_loop env sq n c = ((bs, None), c')" "bs \<noteq> []" "inside s d' fs' rest c'"
      "bs @ d' @ frag_bytes fs' = d @ frag_bytes fs" "readSeq c' = readSeq c" "readLimit c' = readLimit c" by blast
  with wside_read_loop [OF assms(1) r(1)] assms(2) data show ?thesis by (simp add: mr_Read_def)
qed

lemma wside_ReadAll:
  assumes "inside s d fs rest c" and "sq = readSeq c" and "ReadAll env grow sq acc c = (x, c')"
  shows "wside c' = wside c"
  using assms
proof (induction "length (d @ frag_bytes fs)" arbitrary: d fs c acc rule: less_induct)
  case less
  have "0 < 512 + grow (length acc)" by simp
  from less.prems(1,2) this show ?case
  proof (cases rule: mr_Read_inside [where env = env])
    case (eof c1)
    with less.prems(3) show ?thesis by (simp add: ReadAll.simps [of env grow sq acc c])
  next
    case (data bs d' fs' c1)
    have "length (d' @ frag_bytes fs') < length (d @ frag_bytes fs)"
      using arg_cong [OF data(4), of length] data(2) by (cases bs) auto
    moreover have "ReadAll env grow sq (acc @ bs) c1 = (x, c')"
      using less.prems(3) data(1) by (simp add: ReadAll.simps [of env grow sq acc c])
    ultimately show ?thesis using less.hyps [of d' fs' c1 "acc @ bs"] data less.prems(2) by simp
  qed
qed

lemma NextReader_msg:
  assumes b: "between s (enc_msg s mt fs @ rest) c" and mt: "isData mt" and fs: "fs \<noteq> []" "keys_ok fs"
    and lim: "in_limit (length (frag_bytes fs)) (c\<lparr>readLength := 0\<rparr>)"
  obtains d gs c' where "NextReader env c = (Inr (mt, readSeq c'), c')" and "inside s d gs rest c'"
    and "d @ frag_bytes gs = frag_bytes fs" and "wside c' = wside c" and "readLimit c' = readLimit c"
proof -
  obtain key d gs where f: "fs = (key, d) # gs" using fs(1) by (metis list.exhaust surj_pair)
  let ?c = "c\<lparr>readSeq := readSeq c + 1, readLength := 0\<rparr>"
  have c: "rd_ok s ?c" "readRemaining ?c \<le> 0" "mt \<in> {0, 1, 2}" "mt = 0 \<longleftrightarrow> \<not> readFinal ?c"
    "in_limit (length (frag_bytes ((key, d) # gs))) ?c" "keys_ok ((key, d) # gs)"
    "stream (br ?c) = enc_msg s mt ((key, d) # gs) @ rest"
    using b mt fs lim f by (auto simp: between_def rd_ok_def in_limit_def isData_def)
  obtain c1 where a: "advanceFrame env ?c = (Inr mt, c1)" and i: "inside s d gs rest c1"
    and q: "readSeq c1 = readSeq ?c" "readLimit c1 = readLimit ?c"
    using enter_frame [OF c] .
  have "NextReader env c = (Inr (mt, readSeq c1), c1)"
    using a mt c(1) by (simp add: NextReader_def next_frame.simps [of env ?c] isData_def rd_ok_def)
  with i q wside_enter_frame [OF c a] f that show ?thesis by simp
qed

text \<open>At the end of the stream \<open>NextReader\<close> fails and nothing is written.\<close>

lemma NextReader_end:
  assumes "between s [] c"
  obtains c' where "NextReader env c = (Inl errUnexpectedEOF, c')" and "wside c' = wside c"
proof -
  let ?c = "c\<lparr>readSeq := readSeq c + 1, readLength := 0\<rparr>"
  have b: "clean (br c)" "stream (br c) = []" "readRemaining c = 0" "readErr c = None"
    using assms by (auto simp: between_def rd_ok_def)
  then have e: "bfBuf (br c) = []" "bfSrc (br c) = []" "bfErr (br c) = None"
    by (cases "bfSrc (br c)", auto simp: stream_def clean_def ok_src_def)+
  then have "\<exists>r. br_Read 2 (br c) = ([], Some WsEOF, r)"
    by (simp add: br_Read_def br_readErr_def fill_def numeral_eq_Suc Let_def)
  then obtain r where "br_Read 2 (br c) = ([], Some WsEOF, r)" by blast
  then have "conn_readFull 2 ?c = ([], Some errUnexpectedEOF, ?c\<lparr>br := r\<rparr>)"
    by (simp add: conn_readFull_def read_n.simps [of 2 2])
  then have "advanceFrame env ?c = (Inl errUnexpectedEOF, ?c\<lparr>br := r\<rparr>)"
    using b(3) by (simp add: advanceFrame_def skip_frame_def)
  then have "NextReader env c = (Inl errUnexpectedEOF, ?c\<lparr>br := r, readErr := Some errUnexpectedEOF\<rparr>)"
    using b(4) by (simp add: NextReader_def next_frame.simps errUnexpectedEOF_def)
  then show ?thesis by (rule that) simp
qed

section \<open>Reads shrink what is left to read\<close>

definition shrinks :: "ws_conn \<Rightarrow> ws_conn \<Rightarrow> bool" where
  "shrinks c c' \<longleftrightarrow> rd_size (br c') \<le> rd_size (br c)"

lemma shrinks_refl [simp]: "shrinks c c"
  by (simp add: shrinks_def)

lemma shrinks_trans: "shrinks c c1 \<Longrightarrow> shrinks c1 c2 \<Longrightarrow> shrinks c c2"
  by (simp add: shrinks_def)

lemma shrinks_rside: "rside c' = rside c \<Longrightarrow> shrinks c c'"
  by (simp add: shrinks_def rside_def)

lemma shrinks_bind:
  assumes "shrinks c (snd m)" and "\<And>x c1. shrinks c1 (snd (f x c1))"
  shows "shrinks c (snd (ws_bind m f))"
  using assms shrinks_trans by (cases m) (auto simp: ws_bind_def split: sum.splits)

lemma shrinks_lift: "shrinks c (snd m) \<Longrightarrow> shrinks c (snd (ws_lift m))"
  by (cases m) (simp add: ws_lift_def split: option.splits)

lemma shrinks_advanceFrame: "shrinks c (snd (advanceFrame env c))"
proof -
  have h: "shrinks c2 (snd (ws_bind (check_header env b0 b1 c2) (\<lambda>frameType c.
         ws_bind (ws_lift (read_length c)) (\<lambda>_ c.
         ws_bind (read_mask env b1 c) (\<lambda>_ c.
         if frameType = continuationFrame \<or> isData frameType then enforce_limit env frameType c
         else ws_bind (read_payload c) (\<lambda>payload c. process_control env frameType payload c))))))" for b0 b1 c2
    by (intro shrinks_bind shrinks_lift)
      (auto simp: shrinks_def br_read_length br_read_mask intro!: shrinks_bind [unfolded shrinks_def] br_read_payload)
  show ?thesis unfolding advanceFrame_def
  proof (intro shrinks_bind shrinks_lift, goal_cases)
    case 1
    show ?case by (simp add: shrinks_def br_skip_frame)
  next
    case (2 x c1)
    obtain b e c2 where r: "conn_readFull 2 c1 = (b, e, c2)" by (metis surj_pair)
    have "shrinks c1 c2" using conn_readFull_size(1) [OF r] by (simp add: shrinks_def)
    with r h [of c2] shrinks_trans [of c1 c2] show ?case by (cases e) simp_all
  qed
qed

lemma shrinks_read_loop: "shrinks c (snd (read_loop env sq n c))"
proof (induction env sq n c rule: read_loop.induct)
  case (1 env sq n c)
  have d: "shrinks c (snd (read_data n c))"
  proof -
    let ?m = "if int n > readRemaining c then nat (readRemaining c) else n"
    obtain bs e r where b: "br_Read ?m (br c) = (bs, e, r)" by (metis surj_pair)
    from br_Read_size [OF b] show ?thesis by (simp add: read_data_def b shrinks_def Let_def split_def)
  qed
  show ?case
  proof (cases "readErr c = None \<and> readRemaining c \<le> 0 \<and> \<not> readFinal c")
    case False
    then show ?thesis using d
      by (subst read_loop.simps) (auto simp: shrinks_def split: option.splits)
  next
    case True
    obtain x c1 where a: "advanceFrame env c = (x, c1)" by (metis surj_pair)
    have c1: "shrinks c c1" using shrinks_advanceFrame [of c env] a by simp
    then have t: "shrinks c1 c2 \<Longrightarrow> shrinks c c2" for c2 by (rule shrinks_trans)
    have u: "shrinks (c1\<lparr>readErr := e\<rparr>) c2 = shrinks c1 c2" for e c2 by (simp add: shrinks_def)
    have n: "readErr c = None" "\<not> 0 < readRemaining c" "\<not> readFinal c" using True by auto
    show ?thesis
      using "1.IH" [OF n a [symmetric]] n a t
      by (cases x) (simp_all add: read_loop.simps [of env sq n c] u)
  qed
qed

lemma shrinks_mr_Read: "shrinks c (snd (mr_Read env sq n c))"
  by (simp add: mr_Read_def shrinks_read_loop)

lemma next_frame_size: "next_frame env c = (Inr x, c') \<Longrightarrow> rd_size (br c') < rd_size (br c)"
proof (induction env c rule: next_frame.induct)
  case (1 env c)
  show ?case
  proof (cases "readErr c")
    case None
    obtain y c1 where a: "advanceFrame env c = (y, c1)" by (metis surj_pair)
    show ?thesis
    proof (cases y)
      case (Inl e)
      obtain e' where "hideTempErr (Some e) = Some e'" using hideTempErr_Some(1) by blast
      with Inl a None "1.prems" show ?thesis
        by (simp add: next_frame.simps [of env c] next_frame.simps [of env "c1\<lparr>readErr := Some e'\<rparr>"])
    next
      case (Inr ft)
      with a advanceFrame_size [of env c ft c1] have "rd_size (br c1) < rd_size (br c)" by simp
      with Inr a None "1.prems" "1.IH"(2) [OF None a [symmetric] Inr] show ?thesis
        by (auto simp: next_frame.simps [of env c] split: if_splits)
    qed
  next
    case (Some e)
    with "1.prems" show ?thesis by (simp add: next_frame.simps)
  qed
qed

lemma NextReader_size: "NextReader env c = (Inr x, c') \<Longrightarrow> rd_size (br c') < rd_size (br c)"
  using next_frame_size [of env "c\<lparr>readSeq := readSeq c + 1, readLength := 0\<rparr>" x c'] by (simp add: NextReader_def)

lemma shrinks_ReadAll: "ReadAll env grow sq acc c = (x, c') \<Longrightarrow> shrinks c c'"
proof (induction env grow sq acc c rule: ReadAll.induct)
  case (1 env grow sq acc c)
  obtain bs e c1 where r: "mr_Read env sq (512 + grow (length acc)) c = ((bs, e), c1)" by (metis surj_pair)
  have "shrinks c c1" using shrinks_mr_Read [of c env sq "512 + grow (length acc)"] r by simp
  with "1.IH" [OF r [symmetric] refl] "1.prems" r show ?case
    by (cases e) (auto simp: ReadAll.simps [of env grow sq acc c] intro: shrinks_trans)
qed

lemma ReadMessage_size:
  assumes "ReadMessage env grow c = ((mt, b, None), c')"
  shows "rd_size (br c') < rd_size (br c)"
proof -
  obtain r c1 where n: "NextReader env c = (Inr (mt, r), c1)"
    and a: "ReadAll env grow r [] c1 = ((b, None), c')"
    using assms by (auto simp: ReadMessage_def split: prod.splits sum.splits)
  from NextReader_size [OF n] shrinks_ReadAll [OF a] show ?thesis by (simp add: shrinks_def)
qed

end
