(* ===== verification/Utf8Dfa.thy ===== *)
theory Utf8Dfa
  imports Wchar
begin

text \<open>
  The UTF-8 decoder of the Autobahn echo server (\<open>websocket/examples/autobahn/server.go\<close>): a
  table of 256 character classes followed by the transitions of nine states, and the loop
  of \<open>validator.Read\<close> that drives it. The reference is \<open>utf8.Valid\<close> of Go's library; the
  automaton accepts the same byte strings, and after a character its register holds
  the code point.
\<close>

section \<open>The decoder\<close>

definition utf8d :: bytes where
  "utf8d =
    [0, 0, 0, 0, 0, 0, 0, 0, 0, 0, 0, 0, 0, 0, 0, 0, 0, 0, 0, 0, 0, 0, 0, 0, 0, 0, 0, 0, 0, 0, 0, 0,
     0, 0, 0, 0, 0, 0, 0, 0, 0, 0, 0, 0, 0, 0, 0, 0, 0, 0, 0, 0, 0, 0, 0, 0, 0, 0, 0, 0, 0, 0, 0, 0,
     0, 0, 0, 0, 0, 0, 0, 0, 0, 0, 0, 0, 0, 0, 0, 0, 0, 0, 0, 0, 0, 0, 0, 0, 0, 0, 0, 0, 0, 0, 0, 0,
     0, 0, 0, 0, 0, 0, 0, 0, 0, 0, 0, 0, 0, 0, 0, 0, 0, 0, 0, 0, 0, 0, 0, 0, 0, 0, 0, 0, 0, 0, 0, 0,
     1, 1, 1, 1, 1, 1, 1, 1, 1, 1, 1, 1, 1, 1, 1, 1, 9, 9, 9, 9, 9, 9, 9, 9, 9, 9, 9, 9, 9, 9, 9, 9,
     7, 7, 7, 7, 7, 7, 7, 7, 7, 7, 7, 7, 7, 7, 7, 7, 7, 7, 7, 7, 7, 7, 7, 7, 7, 7, 7, 7, 7, 7, 7, 7,
     8, 8, 2, 2, 2, 2, 2, 2, 2, 2, 2, 2, 2, 2, 2, 2, 2, 2, 2, 2, 2, 2, 2, 2, 2, 2, 2, 2, 2, 2, 2, 2,
     10, 3, 3, 3, 3, 3, 3, 3, 3, 3, 3, 3, 3, 4, 3, 3,
     11, 6, 6, 6, 5, 8, 8, 8, 8, 8, 8, 8, 8, 8, 8, 8,
     0, 1, 2, 3, 5, 8, 7, 1, 1, 1, 4, 6, 1, 1, 1, 1,
     1, 1, 1, 1, 1, 1, 1, 1, 1, 1, 1, 1, 1, 1, 1, 1, 1, 0, 1, 1, 1, 1, 1, 0, 1, 0, 1, 1, 1, 1, 1, 1,
     1, 2, 1, 1, 1, 1, 1, 2, 1, 2, 1, 1, 1, 1, 1, 1, 1, 1, 1, 1, 1, 1, 1, 2, 1, 1, 1, 1, 1, 1, 1, 1,
     1, 2, 1, 1, 1, 1, 1, 1, 1, 2, 1, 1, 1, 1, 1, 1, 1, 1, 1, 1, 1, 1, 1, 3, 1, 3, 1, 1, 1, 1, 1, 1,
     1, 3, 1, 1, 1, 1, 1, 3, 1, 3, 1, 1, 1, 1, 1, 1, 1, 3, 1, 1, 1, 1, 1, 1, 1, 1, 1, 1, 1, 1, 1, 1]"

abbreviation utf8Accept :: nat where "utf8Accept \<equiv> 0"
abbreviation utf8Reject :: nat where "utf8Reject \<equiv> 1"

type_synonym rune32 = "32 word"

definition utf8_decode :: "nat \<Rightarrow> rune32 \<Rightarrow> byte \<Rightarrow> nat \<times> rune32" where
  "utf8_decode state x b =
     (let t = utf8d ! unat b;
          x = (if state \<noteq> utf8Accept then ucast (b AND 0x3F) OR push_bit 6 x
               else ucast (drop_bit (unat t) 0xFF AND b));
          state = unat (utf8d ! (256 + state * 16 + unat t))
      in (state, x))"

text \<open>The loop of \<open>validator.Read\<close>, which breaks off at a byte that is not accepted.\<close>

fun decode_all :: "nat \<Rightarrow> rune32 \<Rightarrow> bytes \<Rightarrow> nat \<times> rune32" where
  "decode_all state x [] = (state, x)"
| "decode_all state x (b # bs) =
     (let (state, x) = utf8_decode state x b
      in if state = utf8Reject then (state, x) else decode_all state x bs)"

section \<open>The reference\<close>

text \<open>\<open>utf8.Valid\<close>.\<close>

function utf8_Valid :: "bytes \<Rightarrow> bool" where
  "utf8_Valid [] = True"
| "utf8_Valid (b # bs) =
     (if b < 0x80 then utf8_Valid bs
      else (let size = fst (snd (decodeRune (b # bs)))
            in if size = 1 then False else utf8_Valid (drop size (b # bs))))"
  by pat_completeness auto
termination
proof (relation "measure length")
  fix b :: byte and bs :: bytes and x
  assume "x = fst (snd (decodeRune (b # bs)))"
  with decodeRune_width [of "b # bs"] show "(drop x (b # bs), b # bs) \<in> measure length" by simp
qed simp_all

declare utf8_Valid.simps(2) [simp del]

section \<open>The table\<close>

definition class_of :: "nat \<Rightarrow> nat" where
  "class_of n =
     (if n < 0x80 then 0 else if n < 0x90 then 1 else if n < 0xA0 then 9 else if n < 0xC0 then 7
      else if n < 0xC2 then 8 else if n < 0xE0 then 2 else if n = 0xE0 then 10 else if n = 0xED then 4
      else if n < 0xF0 then 3 else if n = 0xF0 then 11 else if n < 0xF4 then 6 else if n = 0xF4 then 5 else 8)"

definition next_state :: "nat \<Rightarrow> nat \<Rightarrow> nat" where
  "next_state s t =
     (if s = 0 then (if t = 0 then 0 else if t = 2 then 2 else if t = 3 then 3 else if t = 10 then 4
                     else if t = 4 then 5 else if t = 11 then 6 else if t = 6 then 7 else if t = 5 then 8 else 1)
      else if s = 2 \<and> t \<in> {1, 7, 9} then 0
      else if s = 3 \<and> t \<in> {1, 7, 9} \<or> s = 4 \<and> t = 7 \<or> s = 5 \<and> t \<in> {1, 9} then 2
      else if s = 6 \<and> t \<in> {7, 9} \<or> s = 7 \<and> t \<in> {1, 7, 9} \<or> s = 8 \<and> t = 1 then 3
      else 1)"

lemma length_utf8d: "length utf8d = 400"
  by (simp add: utf8d_def)

lemma utf8d_classes: "map unat (take 256 utf8d) = map class_of [0..<256]"
  by code_simp

lemma utf8d_states: "list_all (\<lambda>s. list_all (\<lambda>t. unat (utf8d ! (256 + s * 16 + t)) = next_state s t) [0..<12]) [0..<9]"
  by code_simp

lemma utf8d_class: "unat (utf8d ! unat b) = class_of (unat b)" for b :: byte
proof -
  have b: "unat b < 256" using unsigned_less [of b, where 'a = nat] by simp
  then have "unat (utf8d ! unat b) = map unat (take 256 utf8d) ! unat b" by (simp add: length_utf8d)
  also have "\<dots> = class_of (unat b)" using b by (simp only: utf8d_classes) (simp del: upt_Suc)
  finally show ?thesis .
qed

lemma class_of_less: "class_of n < 12"
  by (simp add: class_of_def)

lemma utf8d_next: "s < 9 \<Longrightarrow> t < 12 \<Longrightarrow> unat (utf8d ! (256 + s * 16 + t)) = next_state s t"
  using utf8d_states by (simp add: list_all_iff del: upt_Suc)

text \<open>The state after a byte does not depend on the register.\<close>

definition step8 :: "nat \<Rightarrow> byte \<Rightarrow> nat" where
  "step8 s b = next_state s (class_of (unat b))"

lemma utf8_decode_state: "s < 9 \<Longrightarrow> fst (utf8_decode s x b) = step8 s b"
  by (simp add: utf8_decode_def Let_def utf8d_class utf8d_next class_of_less step8_def)

lemma next_state_less: "next_state s t < 9"
  by (simp add: next_state_def)

lemma step8_less [simp]: "step8 s b < 9"
  by (simp add: step8_def next_state_less)

lemma step8_reject [simp]: "step8 (Suc 0) b = Suc 0"
  by (simp add: step8_def next_state_def)

fun run8 :: "nat \<Rightarrow> bytes \<Rightarrow> nat" where
  "run8 s [] = s"
| "run8 s (b # bs) = run8 (step8 s b) bs"

lemma run8_reject [simp]: "run8 (Suc 0) bs = Suc 0"
  by (induction bs) simp_all

lemma run8_append: "run8 s (xs @ ys) = run8 (run8 s xs) ys"
  by (induction xs arbitrary: s) auto

lemma run8_less: "s < 9 \<Longrightarrow> run8 s bs < 9"
  by (induction bs arbitrary: s) auto

lemma decode_all_state: "s < 9 \<Longrightarrow> fst (decode_all s x bs) = run8 s bs"
proof (induction bs arbitrary: s x)
  case (Cons b bs)
  obtain s1 x1 where d: "utf8_decode s x b = (s1, x1)" by (metis surj_pair)
  have "s1 = step8 s b" using utf8_decode_state [OF Cons.prems, of x b] d by simp
  with Cons d show ?case by simp
qed simp

section \<open>Equivalence\<close>

lemma unat_mask: "unat (b AND mask k) = unat b mod 2 ^ k" for b :: byte
  by (simp only: flip: take_bit_eq_mask) (simp only: unsigned_take_bit_eq, simp add: take_bit_eq_mod)

lemma low_bits: "unat (b AND 0x3F) = unat b mod 64" "unat (b AND 0x1F) = unat b mod 32"
  "unat (b AND 0x0F) = unat b mod 16" "unat (b AND 0x07) = unat b mod 8" for b :: byte
  using unat_mask [of b 6] unat_mask [of b 5] unat_mask [of b 4] unat_mask [of b 3]
  by (simp_all add: mask_eq_exp_minus_1)

lemma unat_byte: "unat b < 256" for b :: byte
  using unsigned_less [of b, where 'a = nat] by simp

lemma cont_nat: "cont b \<longleftrightarrow> 128 \<le> unat b \<and> unat b < 192"
  by (simp add: cont_def word_less_nat_alt word_le_nat_alt)

lemma mod_from: "a mod m = 0 \<Longrightarrow> a \<le> n \<Longrightarrow> n < a + m \<Longrightarrow> n mod m = n - a" for a n m :: nat
  by (metis add_0 add_diff_inverse_nat add_less_cancel_left mod_add_left_eq mod_less not_le)

lemma byte_range: "128 \<le> n \<Longrightarrow> n < 192 \<Longrightarrow> n mod 64 = n - 128" "192 \<le> n \<Longrightarrow> n < 224 \<Longrightarrow> n mod 32 = n - 192"
  "224 \<le> n \<Longrightarrow> n < 240 \<Longrightarrow> n mod 16 = n - 224" "240 \<le> n \<Longrightarrow> n < 248 \<Longrightarrow> n mod 8 = n - 240" for n :: nat
  using mod_from [of 128 64 n] mod_from [of 192 32 n] mod_from [of 224 16 n] mod_from [of 240 8 n] by simp_all

lemma step8_lead:
  "unat b < 128 \<Longrightarrow> step8 0 b = 0"
  "128 \<le> unat b \<Longrightarrow> unat b < 194 \<Longrightarrow> step8 0 b = 1"
  "194 \<le> unat b \<Longrightarrow> unat b < 224 \<Longrightarrow> step8 0 b = 2"
  "224 \<le> unat b \<Longrightarrow> unat b < 240 \<Longrightarrow> step8 0 b = (if unat b = 224 then 4 else if unat b = 237 then 5 else 3)"
  "240 \<le> unat b \<Longrightarrow> unat b < 245 \<Longrightarrow> step8 0 b = (if unat b = 240 then 6 else if unat b = 244 then 8 else 7)"
  "245 \<le> unat b \<Longrightarrow> step8 0 b = 1"
  by (auto simp: step8_def class_of_def next_state_def)

lemma step8_cont:
  "step8 2 b = (if cont b then 0 else 1)"
  "step8 3 b = (if cont b then 2 else 1)"
  "step8 4 b = (if cont b \<and> 160 \<le> unat b then 2 else 1)"
  "step8 5 b = (if cont b \<and> unat b < 160 then 2 else 1)"
  "step8 6 b = (if cont b \<and> 144 \<le> unat b then 3 else 1)"
  "step8 7 b = (if cont b then 3 else 1)"
  "step8 8 b = (if cont b \<and> unat b < 144 then 3 else 1)"
  by (auto simp: step8_def class_of_def next_state_def cont_nat)

text \<open>The checks of \<open>decodeRune\<close> against overlong forms, surrogates and too large values.\<close>

lemma range_3:
  fixes n m1 m2 :: nat
  assumes "224 \<le> n" "n < 240" "128 \<le> m1" "m1 < 192" "128 \<le> m2" "m2 < 192"
  defines "r \<equiv> (n - 224) * 4096 + (m1 - 128) * 64 + (m2 - 128)"
  shows "r \<le> 0x7FF \<longleftrightarrow> n = 224 \<and> m1 < 160" and "0xD800 \<le> r \<and> r \<le> 0xDFFF \<longleftrightarrow> n = 237 \<and> 160 \<le> m1"
proof -
  obtain k k1 k2 where k: "n = 224 + k" "m1 = 128 + k1" "m2 = 128 + k2"
    using assms(1,3,5) by (metis le_Suc_ex)
  have l: "k1 < 64" "k2 < 64" using assms k by simp_all
  consider "k \<le> 12" | "k = 13" | "14 \<le> k" by linarith
  then show "0xD800 \<le> r \<and> r \<le> 0xDFFF \<longleftrightarrow> n = 237 \<and> 160 \<le> m1"
    by cases (use l in \<open>auto simp: r_def k\<close>)
  from l show "r \<le> 0x7FF \<longleftrightarrow> n = 224 \<and> m1 < 160"
    unfolding r_def k by auto
qed

lemma range_4:
  fixes n m1 m2 m3 :: nat
  assumes "240 \<le> n" "n < 248" "128 \<le> m1" "m1 < 192" "128 \<le> m2" "m2 < 192" "128 \<le> m3" "m3 < 192"
  defines "r \<equiv> (n - 240) * 262144 + (m1 - 128) * 4096 + (m2 - 128) * 64 + (m3 - 128)"
  shows "r \<le> 0xFFFF \<longleftrightarrow> n = 240 \<and> m1 < 144" and "0x10FFFF < r \<longleftrightarrow> 245 \<le> n \<or> n = 244 \<and> 144 \<le> m1"
proof -
  obtain k k1 k2 k3 where k: "n = 240 + k" "m1 = 128 + k1" "m2 = 128 + k2" "m3 = 128 + k3"
    using assms(1,3,5,7) by (metis le_Suc_ex)
  have "k1 < 64" "k2 < 64" "k3 < 64" using assms k by simp_all
  then show "r \<le> 0xFFFF \<longleftrightarrow> n = 240 \<and> m1 < 144" "0x10FFFF < r \<longleftrightarrow> 245 \<le> n \<or> n = 244 \<and> 144 \<le> m1"
    unfolding r_def k by auto
qed

lemma lead_nat: "b < 0x80 \<longleftrightarrow> unat b < 128" "b < 0xC0 \<longleftrightarrow> unat b < 192" "b < 0xE0 \<longleftrightarrow> unat b < 224"
  "b < 0xF0 \<longleftrightarrow> unat b < 240" "b < 0xF8 \<longleftrightarrow> unat b < 248" for b :: byte
  by (simp_all add: word_less_nat_alt)

lemma decodeRune_2:
  assumes "194 \<le> unat b" "unat b < 224"
  shows "fst (snd (decodeRune (b # p))) = (case p of c1 # _ \<Rightarrow> if cont c1 then 2 else 1 | _ \<Rightarrow> 1)"
proof -
  have "2 \<le> unat b mod 32" using assms byte_range(2) [of "unat b"] by simp
  then have "\<not> unat b mod 32 * 64 + k \<le> 127" for k by simp
  with assms show ?thesis by (simp add: decodeRune_def lead_nat low_bits Let_def split: list.split)
qed

lemma decodeRune_3:
  assumes "224 \<le> unat b" "unat b < 240"
  shows "fst (snd (decodeRune (b # p))) =
     (case p of c1 # c2 # _ \<Rightarrow>
        if cont c1 \<and> cont c2 \<and> \<not> (unat b = 224 \<and> unat c1 < 160) \<and> \<not> (unat b = 237 \<and> 160 \<le> unat c1) then 3 else 1
      | _ \<Rightarrow> 1)"
proof (cases "\<exists>c1 c2 q. p = c1 # c2 # q \<and> cont c1 \<and> cont c2")
  case True
  then obtain c1 c2 q where p: "p = c1 # c2 # q" "cont c1" "cont c2" by blast
  then have "128 \<le> unat c1" "unat c1 < 192" "128 \<le> unat c2" "unat c2 < 192" by (simp_all add: cont_nat)
  note range_3 [OF assms this]
  with p assms byte_range(3) [OF assms] byte_range(1) [OF \<open>128 \<le> unat c1\<close>] byte_range(1) [OF \<open>128 \<le> unat c2\<close>]
    \<open>unat c1 < 192\<close> \<open>unat c2 < 192\<close>
  show ?thesis by (simp add: decodeRune_def lead_nat low_bits Let_def)
next
  case False
  with assms show ?thesis by (auto simp: decodeRune_def lead_nat split: list.split)
qed

lemma decodeRune_4:
  assumes "240 \<le> unat b"
  shows "fst (snd (decodeRune (b # p))) =
     (case p of c1 # c2 # c3 # _ \<Rightarrow>
        if cont c1 \<and> cont c2 \<and> cont c3 \<and> unat b < 245 \<and> \<not> (unat b = 240 \<and> unat c1 < 144) \<and>
          \<not> (unat b = 244 \<and> 144 \<le> unat c1) then 4 else 1
      | _ \<Rightarrow> 1)"
proof (cases "unat b < 248 \<and> (\<exists>c1 c2 c3 q. p = c1 # c2 # c3 # q \<and> cont c1 \<and> cont c2 \<and> cont c3)")
  case True
  then obtain c1 c2 c3 q where p: "p = c1 # c2 # c3 # q" "cont c1" "cont c2" "cont c3" and b: "unat b < 248" by blast
  then have c: "128 \<le> unat c1" "unat c1 < 192" "128 \<le> unat c2" "unat c2 < 192" "128 \<le> unat c3" "unat c3 < 192"
    by (simp_all add: cont_nat)
  note range_4 [OF assms b c]
  with p assms b byte_range(4) [OF assms b] byte_range(1) [OF c(1,2)] byte_range(1) [OF c(3,4)] byte_range(1) [OF c(5,6)]
  show ?thesis by (auto simp: decodeRune_def lead_nat low_bits Let_def)
next
  case False
  with assms show ?thesis by (auto simp: decodeRune_def lead_nat split: list.split)
qed

lemma decodeRune_1:
  assumes "128 \<le> unat b" "unat b < 194"
  shows "fst (snd (decodeRune (b # p))) = 1"
proof (cases "192 \<le> unat b \<and> (\<exists>c1 q. p = c1 # q \<and> cont c1)")
  case True
  then obtain c1 q where p: "p = c1 # q" "cont c1" by blast
  then have c: "128 \<le> unat c1" "unat c1 < 192" by (simp_all add: cont_nat)
  from True assms have "unat b mod 32 = unat b - 192" by (intro byte_range(2)) simp_all
  with p True assms byte_range(1) [OF c] c show ?thesis by (simp add: decodeRune_def lead_nat low_bits Let_def)
next
  case False
  with assms show ?thesis by (auto simp: decodeRune_def lead_nat split: list.split)
qed

lemma run8_Valid: "run8 0 p = 0 \<longleftrightarrow> utf8_Valid p"
proof (induction p rule: utf8_Valid.induct)
  case (2 b bs)
  consider "unat b < 128" | "128 \<le> unat b" "unat b < 194" | "194 \<le> unat b" "unat b < 224"
    | "224 \<le> unat b" "unat b < 240" | "240 \<le> unat b" "unat b < 245" | "245 \<le> unat b" by linarith
  then show ?case
  proof cases
    case 1
    with "2.IH"(1) show ?thesis by (simp add: utf8_Valid.simps lead_nat step8_lead)
  next
    case 2
    then show ?thesis by (simp add: utf8_Valid.simps lead_nat step8_lead decodeRune_1)
  next
    case 3
    have "\<not> b < 0x80" using 3 by (simp add: lead_nat)
    from "2.IH"(2) [OF this refl] 3 show ?thesis
      by (cases bs) (auto simp: utf8_Valid.simps lead_nat step8_lead step8_cont decodeRune_2)
  next
    case 4
    have "\<not> b < 0x80" using 4 by (simp add: lead_nat)
    from "2.IH"(2) [OF this refl] 4 show ?thesis
      by (auto simp: utf8_Valid.simps lead_nat step8_lead step8_cont decodeRune_3 split: list.splits)
  next
    case 5
    have "\<not> b < 0x80" using 5 by (simp add: lead_nat)
    from "2.IH"(2) [OF this refl] 5 show ?thesis
      by (auto simp: utf8_Valid.simps lead_nat step8_lead step8_cont decodeRune_4 split: list.splits)
  next
    case 6
    then show ?thesis by (auto simp: utf8_Valid.simps lead_nat step8_lead decodeRune_4 split: list.splits)
  qed
qed simp

text \<open>What the validator accepts.\<close>

lemma decode_all_Valid: "fst (decode_all utf8Accept x bs) = utf8Accept \<longleftrightarrow> utf8_Valid bs"
  by (simp add: decode_all_state run8_Valid)

lemma encodeRune_nat:
  "code_point c \<Longrightarrow> encodeRune (int c) =
     (if c \<le> 0x7F then [word_of_nat c]
      else if c \<le> 0x7FF then [word_of_nat (0xC0 + c div 64), cont_byte c]
      else if c \<le> 0xFFFF then [word_of_nat (0xE0 + c div 4096), cont_byte (c div 64), cont_byte c]
      else [word_of_nat (0xF0 + c div 262144), cont_byte (c div 4096), cont_byte (c div 64), cont_byte c])"
  by (auto simp: encodeRune_def Let_def code_point_def nat_mod_distrib)

lemma utf8_Valid_text: "list_all code_point cs \<Longrightarrow> utf8_Valid (utf8_text cs)"
proof (induction cs)
  case (Cons c cs)
  let ?e = "encodeRune (int c)"
  have d: "decodeRune (?e @ utf8_text cs) = (c, length ?e, False)"
    using decodeRune_encodeRune [of c] Cons.prems by simp
  obtain b bs where e: "?e = b # bs" using encodeRune_length(1) [of "int c"] by (cases ?e) auto
  have "b < 0x80" if "length ?e = 1"
    using that e Cons.prems lead_order [of 128 c] by (auto simp: encodeRune_nat split: if_splits)
  moreover have "bs = []" if "b < 0x80"
    using that d e by (cases bs) (auto simp: decodeRune_def)
  ultimately show ?case using Cons d e by (auto simp: utf8_text_def utf8_Valid.simps)
qed (simp add: utf8_text_def)

text \<open>The encoding of the code point that is read is what was read.\<close>

lemma lead_inv: "k \<le> unat b \<Longrightarrow> word_of_nat (k + (unat b - k)) = b" for b :: byte
  by (simp only: le_add_diff_inverse) simp

lemma cont_byte_inv: "cont b \<Longrightarrow> n mod 64 = unat b - 128 \<Longrightarrow> cont_byte n = b"
  using lead_inv [of 128 b] by (simp only: cont_byte_def cont_nat)

lemma cont_digit:
  assumes "cont b"
  shows "(a * 64 + (unat b - 128)) div 64 = a" and "(a * 64 + (unat b - 128)) mod 64 = unat b - 128"
proof -
  have "unat b - 128 < 64" using assms by (auto simp: cont_nat)
  then show "(a * 64 + (unat b - 128)) div 64 = a" "(a * 64 + (unat b - 128)) mod 64 = unat b - 128"
    by (simp_all only: mult.commute [of _ 64]) simp_all
qed

lemma encode_2:
  assumes "194 \<le> unat b" "unat b < 224" "cont c1"
  defines "c \<equiv> (unat b - 192) * 64 + (unat c1 - 128)"
  shows "code_point c \<and> encodeRune (int c) = [b, c1]"
proof -
  have m: "128 \<le> unat c1" "unat c1 < 192" using assms by (simp_all add: cont_nat)
  have c: "c div 64 = unat b - 192" "c mod 64 = unat c1 - 128"
    unfolding c_def by (rule cont_digit [OF assms(3)])+
  have "0x7F < c" "c \<le> 0x7FF" using assms(1,2) m by (simp_all add: c_def)
  note c = c this
  then have "code_point c" by (simp add: code_point_def)
  with c cont_byte_inv [OF assms(3), of c] lead_inv [of 192 b] assms(1) show ?thesis
    by (simp add: encodeRune_nat del: of_nat_add)
qed

lemma encode_3:
  assumes "224 \<le> unat b" "unat b < 240" "cont c1" "cont c2"
    and "\<not> (unat b = 224 \<and> unat c1 < 160)" "\<not> (unat b = 237 \<and> 160 \<le> unat c1)"
  defines "c \<equiv> (unat b - 224) * 4096 + (unat c1 - 128) * 64 + (unat c2 - 128)"
  shows "code_point c \<and> encodeRune (int c) = [b, c1, c2]"
proof -
  have m: "128 \<le> unat c1" "unat c1 < 192" "128 \<le> unat c2" "unat c2 < 192" using assms by (simp_all add: cont_nat)
  note r = range_3 [OF assms(1,2) m]
  have e: "c = ((unat b - 224) * 64 + (unat c1 - 128)) * 64 + (unat c2 - 128)" by (simp add: c_def)
  have c: "c div 64 = (unat b - 224) * 64 + (unat c1 - 128)" "c mod 64 = unat c2 - 128"
    unfolding e by (rule cont_digit [OF assms(4)])+
  then have d: "c div 4096 = unat b - 224" "c div 64 mod 64 = unat c1 - 128"
    using cont_digit [OF assms(3), of "unat b - 224"] div_mult2_eq [of c 64 64] by (simp_all only:) simp
  have "0x7FF < c" "\<not> (0xD800 \<le> c \<and> c \<le> 0xDFFF)" using r assms(5,6) by (simp_all add: c_def)
  moreover have "c \<le> 0xFFFF" using assms(2) m by (simp add: c_def)
  ultimately show ?thesis
    using c d cont_byte_inv [OF assms(3), of "c div 64"] cont_byte_inv [OF assms(4), of c] lead_inv [of 224 b] assms(1)
    by (auto simp: encodeRune_nat code_point_def simp del: of_nat_add)
qed

lemma encode_4:
  assumes "240 \<le> unat b" "unat b < 245" "cont c1" "cont c2" "cont c3"
    and "\<not> (unat b = 240 \<and> unat c1 < 144)" "\<not> (unat b = 244 \<and> 144 \<le> unat c1)"
  defines "c \<equiv> (unat b - 240) * 262144 + (unat c1 - 128) * 4096 + (unat c2 - 128) * 64 + (unat c3 - 128)"
  shows "code_point c \<and> encodeRune (int c) = [b, c1, c2, c3]"
proof -
  have m: "128 \<le> unat c1" "unat c1 < 192" "128 \<le> unat c2" "unat c2 < 192" "128 \<le> unat c3" "unat c3 < 192"
    using assms by (simp_all add: cont_nat)
  have "unat b < 248" using assms(2) by simp
  note r = range_4 [OF assms(1) this m]
  have e: "c = (((unat b - 240) * 64 + (unat c1 - 128)) * 64 + (unat c2 - 128)) * 64 + (unat c3 - 128)"
    by (simp add: c_def)
  have c: "c div 64 = ((unat b - 240) * 64 + (unat c1 - 128)) * 64 + (unat c2 - 128)" "c mod 64 = unat c3 - 128"
    unfolding e by (rule cont_digit [OF assms(5)])+
  then have d: "c div 4096 = (unat b - 240) * 64 + (unat c1 - 128)" "c div 64 mod 64 = unat c2 - 128"
    using cont_digit [OF assms(4), of "(unat b - 240) * 64 + (unat c1 - 128)"] div_mult2_eq [of c 64 64]
    by (simp_all only:) simp
  then have f: "c div 262144 = unat b - 240" "c div 4096 mod 64 = unat c1 - 128"
    using cont_digit [OF assms(3), of "unat b - 240"] div_mult2_eq [of c 4096 64] by (simp_all only:) simp
  have "0xFFFF < c" "c \<le> 0x10FFFF" using r assms(2,6,7) by (simp_all add: c_def)
  then show ?thesis
    using c d f cont_byte_inv [OF assms(3), of "c div 4096"] cont_byte_inv [OF assms(4), of "c div 64"]
      cont_byte_inv [OF assms(5), of c] lead_inv [of 240 b] assms(1)
    by (auto simp: encodeRune_nat code_point_def simp del: of_nat_add)
qed

lemma Valid_text: "utf8_Valid p \<Longrightarrow> \<exists>cs. list_all code_point cs \<and> p = utf8_text cs"
proof (induction p rule: utf8_Valid.induct)
  case 1
  show ?case by (intro exI [of _ "[]"]) (simp add: utf8_text_def)
next
  case (2 b bs)
  have step: ?case if "code_point c" "encodeRune (int c) = take k (b # bs)"
      "\<exists>cs. list_all code_point cs \<and> drop k (b # bs) = utf8_text cs" for c k
  proof -
    from that(3) obtain cs where cs: "list_all code_point cs" "drop k (b # bs) = utf8_text cs" by blast
    have "b # bs = take k (b # bs) @ drop k (b # bs)" by simp
    also have "\<dots> = utf8_text (c # cs)" using that(2) cs(2) by (simp add: utf8_text_def)
    finally show ?thesis using that(1) cs(1) by (intro exI [of _ "c # cs"]) simp
  qed
  show ?case
  proof (cases "b < 0x80")
    case True
    then have u: "unat b < 128" by (simp add: lead_nat)
    then have "code_point (unat b)" by (simp add: code_point_def)
    with u encodeRune_nat [of "unat b"] have "encodeRune (int (unat b)) = take 1 (b # bs)" "code_point (unat b)"
      by simp_all
    moreover have "\<exists>cs. list_all code_point cs \<and> drop 1 (b # bs) = utf8_text cs"
      using "2.IH"(1) [OF True] "2.prems" True by (simp add: utf8_Valid.simps)
    ultimately show ?thesis using step by blast
  next
    case False
    define k where "k = fst (snd (decodeRune (b # bs)))"
    have v: "k \<noteq> 1" "utf8_Valid (drop k (b # bs))"
      using "2.prems" False by (auto simp: utf8_Valid.simps k_def Let_def split: if_splits)
    from "2.IH"(2) [OF False k_def v] have ex: "\<exists>cs. list_all code_point cs \<and> drop k (b # bs) = utf8_text cs" .
    consider "unat b < 194" | "194 \<le> unat b" "unat b < 224" | "224 \<le> unat b" "unat b < 240" | "240 \<le> unat b"
      by linarith
    then have "\<exists>c. code_point c \<and> encodeRune (int c) = take k (b # bs)"
    proof cases
      case 1
      with False decodeRune_1 [of b bs] v(1) show ?thesis by (simp add: k_def lead_nat)
    next
      case 2
      with v(1) obtain c1 q where "bs = c1 # q" "cont c1" "k = 2"
        by (auto simp: k_def decodeRune_2 split: list.splits if_splits)
      with encode_2 [OF 2, of c1] show ?thesis by auto
    next
      case 3
      with v(1) obtain c1 c2 q where "bs = c1 # c2 # q" "cont c1" "cont c2" "k = 3"
          "\<not> (unat b = 224 \<and> unat c1 < 160)" "\<not> (unat b = 237 \<and> 160 \<le> unat c1)"
        by (auto simp: k_def decodeRune_3 split: list.splits if_splits)
      with encode_3 [OF 3, of c1 c2] show ?thesis by (simp only: take_Cons_numeral) auto
    next
      case 4
      with v(1) obtain c1 c2 c3 q where "bs = c1 # c2 # c3 # q" "cont c1" "cont c2" "cont c3" "k = 4" "unat b < 245"
          "\<not> (unat b = 240 \<and> unat c1 < 144)" "\<not> (unat b = 244 \<and> 144 \<le> unat c1)"
        by (auto simp: k_def decodeRune_4 split: list.splits if_splits)
      with encode_4 [OF 4, of c1 c2 c3] show ?thesis by (simp only: take_Cons_numeral) auto
    qed
    with step ex show ?thesis by blast
  qed
qed

lemma utf8_Valid_iff: "utf8_Valid p \<longleftrightarrow> (\<exists>cs. list_all code_point cs \<and> p = utf8_text cs)"
  using Valid_text utf8_Valid_text by blast

section \<open>The register\<close>

lemma register_shift:
  fixes b :: byte and x :: rune32
  assumes "unat x < 2 ^ 26"
  shows "unat (ucast (b AND 0x3F) OR push_bit 6 x :: rune32) = unat x * 64 + unat b mod 64"
proof -
  let ?y = "ucast (b AND 0x3F) :: rune32"
  have y: "unat ?y = unat b mod 64" using low_bits(1) [of b] by (simp add: unsigned_ucast_eq take_bit_nat_eq_self)
  have m: "(0x3F :: byte) = mask 6" by (simp add: mask_eq_exp_minus_1)
  have "?y AND push_bit 6 x = 0" unfolding m by (rule bit_eqI) (auto simp: bit_simps)
  then have "?y OR push_bit 6 x = ?y + push_bit 6 x" by (simp add: disjunctive_add_eq_or)
  moreover have "unat (push_bit 6 x) = unat x * 64"
    using assms by (simp add: push_bit_eq_mult unat_word_ariths)
  ultimately show ?thesis using y assms by (simp add: unat_word_ariths)
qed

lemma register_lead:
  fixes b :: byte
  defines "r \<equiv> unat (ucast (drop_bit (class_of (unat b)) 0xFF AND b) :: rune32)"
  shows "unat b < 128 \<Longrightarrow> r = unat b" and "194 \<le> unat b \<Longrightarrow> unat b < 224 \<Longrightarrow> r = unat b - 192"
    and "224 \<le> unat b \<Longrightarrow> unat b < 240 \<Longrightarrow> r = unat b - 224" and "240 \<le> unat b \<Longrightarrow> unat b < 245 \<Longrightarrow> r = unat b - 240"
proof -
  have f: "(0xFF :: byte) = mask 8" by (simp add: mask_eq_exp_minus_1)
  have m: "drop_bit k (0xFF :: byte) = mask (8 - k)" for k
    unfolding f by (rule bit_eqI) (auto simp: bit_simps)
  have "unat b mod 2 ^ (8 - class_of (unat b)) < 256"
    by (rule le_less_trans [OF mod_less_eq_dividend unat_byte])
  then have r: "r = unat b mod 2 ^ (8 - class_of (unat b))"
    by (simp add: r_def m and.commute [of "mask _"] unat_mask unsigned_ucast_eq take_bit_nat_eq_self)
  show "unat b < 128 \<Longrightarrow> r = unat b" "194 \<le> unat b \<Longrightarrow> unat b < 224 \<Longrightarrow> r = unat b - 192"
    "224 \<le> unat b \<Longrightarrow> unat b < 240 \<Longrightarrow> r = unat b - 224" "240 \<le> unat b \<Longrightarrow> unat b < 245 \<Longrightarrow> r = unat b - 240"
    using mod_from [of 192 64 "unat b"] mod_from [of 224 32 "unat b"] mod_from [of 224 16 "unat b"]
      mod_from [of 240 4 "unat b"] mod_from [of 240 8 "unat b"]
    by (auto simp: r class_of_def)
qed

lemma utf8_decode_lead:
  "utf8_decode 0 x b = (step8 0 b, ucast (drop_bit (class_of (unat b)) 0xFF AND b))"
  using utf8_decode_state [of 0 x b] by (simp add: utf8_decode_def Let_def utf8d_class)

lemma utf8_decode_cont:
  "s < 9 \<Longrightarrow> s \<noteq> 0 \<Longrightarrow> utf8_decode s x b = (step8 s b, ucast (b AND 0x3F) OR push_bit 6 x)"
  using utf8_decode_state [of s x b] by (simp add: utf8_decode_def Let_def)

text \<open>The bytes behind the first: as long as no byte is rejected each shifts six bits in.\<close>

lemma decode_all_conts:
  assumes "s < 9" and "s \<noteq> 0" and "run8 s bs = 0" and "\<And>k. k < length bs \<Longrightarrow> run8 s (take k bs) \<noteq> 0"
    and "(unat x + 1) * 64 ^ length bs \<le> 2 ^ 32"
  shows "\<exists>y. decode_all s x bs = (0, y) \<and> unat y = foldl (\<lambda>a b. a * 64 + unat b mod 64) (unat x) bs"
  using assms
proof (induction bs arbitrary: s x)
  case (Cons b bs)
  let ?y = "ucast (b AND 0x3F) OR push_bit 6 x :: rune32"
  have p: "(1 :: nat) \<le> 64 ^ length bs" by simp
  have "(unat x + 1) * 64 * 64 ^ length bs \<le> 2 ^ 32" using Cons.prems(5) by (simp add: algebra_simps)
  moreover from this have "(unat x + 1) * 64 * 1 \<le> 2 ^ 32" using p by (meson le_trans mult_le_mono2)
  then have u: "unat x < 2 ^ 26" by simp
  moreover have y: "unat ?y = unat x * 64 + unat b mod 64" by (rule register_shift [OF u])
  moreover have "unat b mod 64 < 64" by simp
  then have "unat x * 64 + unat b mod 64 + 1 \<le> (unat x + 1) * 64" by (simp add: algebra_simps)
  then have "unat ?y + 1 \<le> (unat x + 1) * 64" by (simp only: y)
  ultimately have small: "(unat ?y + 1) * 64 ^ length bs \<le> 2 ^ 32" by (meson le_trans mult_le_mono1)
  have ne: "step8 s b \<noteq> 1" using Cons.prems(3) by (cases "step8 s b = 1") auto
  show ?case
  proof (cases bs)
    case Nil
    with Cons.prems ne y show ?thesis by (simp add: utf8_decode_cont)
  next
    case (Cons b' bs')
    have "step8 s b \<noteq> 0" using Cons.prems(4) [of 1] Cons by simp
    moreover have "run8 (step8 s b) (take k bs) \<noteq> 0" if "k < length bs" for k
      using Cons.prems(4) [of "Suc k"] that by simp
    ultimately show ?thesis
      using Cons.IH [of "step8 s b" ?y] Cons.prems small ne y by (simp add: utf8_decode_cont)
  qed
qed simp

lemma cont_byte_mod [simp]: "unat (cont_byte n) mod 64 = n mod 64"
  using cont_byte_ok(2) [of n] low_bits(1) [of "cont_byte n"] by simp

lemma step8_second:
  "224 \<le> unat b \<Longrightarrow> unat b < 240 \<Longrightarrow> step8 0 b \<noteq> 0 \<and> step8 (step8 0 b) c \<noteq> 0"
  "240 \<le> unat b \<Longrightarrow> unat b < 245 \<Longrightarrow>
     step8 0 b \<noteq> 0 \<and> step8 (step8 0 b) c \<noteq> 0 \<and> step8 (step8 (step8 0 b) c) d \<noteq> 0"
  by (auto simp: step8_lead step8_cont)

lemma decode_all_char:
  assumes "code_point c"
  shows "decode_all utf8Accept x (encodeRune (int c)) = (utf8Accept, word_of_nat c)"
proof -
  obtain b bs where e: "encodeRune (int c) = b # bs"
    using encodeRune_length(1) [of "int c"] by (cases "encodeRune (int c)") auto
  have "run8 0 (encodeRune (int c)) = 0"
    using utf8_Valid_text [of "[c]"] assms by (simp add: run8_Valid utf8_text_def)
  then have r: "run8 (step8 0 b) bs = 0" and ne: "step8 0 b \<noteq> 1" using e by (auto intro: ccontr)
  let ?x = "ucast (drop_bit (class_of (unat b)) 0xFF AND b) :: rune32"
  have unat_c: "unat (word_of_nat c :: rune32) = c"
    using assms by (simp add: code_point_def unsigned_of_nat take_bit_nat_eq_self)
  have last: ?thesis if "unat y = c" "decode_all (step8 0 b) ?x bs = (0, y)" for y
    using that ne unat_c e by (auto simp: utf8_decode_lead intro: unsigned_word_eqI [where 'a = nat])
  consider "c \<le> 0x7F" | "0x7F < c" "c \<le> 0x7FF" | "0x7FF < c" "c \<le> 0xFFFF" | "0xFFFF < c" by linarith
  then show ?thesis
  proof cases
    case 1
    then have "b = word_of_nat c" "bs = []" using e assms by (auto simp: encodeRune_nat)
    moreover from this have u: "unat b = c" using 1 by (simp add: unat_lead)
    ultimately show ?thesis using register_lead(1) [of b] 1 last [of ?x] step8_lead(1) [of b] by simp
  next
    case 2
    have d: "c div 64 < 32" using 2 by (simp add: less_mult_imp_div_less)
    have d2: "2 \<le> c div 64" using 2 by simp
    have b: "b = word_of_nat (0xC0 + c div 64)" "bs = [cont_byte c]" using 2 e assms by (auto simp: encodeRune_nat)
    have u: "unat b = 192 + c div 64" using d by (simp add: b(1) unat_lead del: of_nat_add)
    have s: "step8 0 b = 2" using u d d2 by (intro step8_lead) simp_all
    have x: "unat ?x = c div 64" using register_lead(2) [of b] u d d2 by simp
    have "\<exists>y. decode_all 2 ?x bs = (0, y) \<and> unat y = foldl (\<lambda>a b. a * 64 + unat b mod 64) (unat ?x) bs"
      by (rule decode_all_conts) (use r s x d b in auto)
    then obtain y where "decode_all 2 ?x bs = (0, y)" "unat y = c" using x b(2) digits64(1) [of c] by auto
    with s last show ?thesis by simp
  next
    case 3
    have d: "c div 4096 < 16" using 3 by (simp add: less_mult_imp_div_less)
    have b: "b = word_of_nat (0xE0 + c div 4096)" "bs = [cont_byte (c div 64), cont_byte c]"
      using 3 e assms by (auto simp: encodeRune_nat)
    have u: "unat b = 224 + c div 4096" using d by (simp add: b(1) unat_lead del: of_nat_add)
    have x: "unat ?x = c div 4096" using register_lead(3) [of b] u d by simp
    have s: "step8 0 b \<noteq> 0 \<and> step8 (step8 0 b) k \<noteq> 0" for k using u d by (intro step8_second) simp_all
    have "run8 (step8 0 b) (take k bs) \<noteq> 0" if "k < length bs" for k
      using that s by (auto simp: b(2) less_Suc_eq)
    then have "\<exists>y. decode_all (step8 0 b) ?x bs = (0, y) \<and> unat y = foldl (\<lambda>a b. a * 64 + unat b mod 64) (unat ?x) bs"
      by (intro decode_all_conts) (use r s x d b(2) in simp_all)
    then obtain y where "decode_all (step8 0 b) ?x bs = (0, y)" "unat y = c"
      using x b(2) digits64(2) [of c] by (auto simp: algebra_simps)
    with last show ?thesis by simp
  next
    case 4
    have d: "c div 262144 < 5" using assms by (simp add: code_point_def less_mult_imp_div_less)
    have b: "b = word_of_nat (0xF0 + c div 262144)" "bs = [cont_byte (c div 4096), cont_byte (c div 64), cont_byte c]"
      using 4 e assms by (auto simp: encodeRune_nat)
    have u: "unat b = 240 + c div 262144" using d by (simp add: b(1) unat_lead del: of_nat_add)
    have x: "unat ?x = c div 262144" using register_lead(4) [of b] u d by simp
    have s: "step8 0 b \<noteq> 0 \<and> step8 (step8 0 b) k \<noteq> 0 \<and> step8 (step8 (step8 0 b) k) l \<noteq> 0" for k l
      using u d by (intro step8_second) simp_all
    have "run8 (step8 0 b) (take k bs) \<noteq> 0" if "k < length bs" for k
      using that s by (auto simp: b(2) less_Suc_eq)
    then have "\<exists>y. decode_all (step8 0 b) ?x bs = (0, y) \<and> unat y = foldl (\<lambda>a b. a * 64 + unat b mod 64) (unat ?x) bs"
      by (intro decode_all_conts) (use r s x d b(2) in simp_all)
    then obtain y where "decode_all (step8 0 b) ?x bs = (0, y)" "unat y = c"
      using x b(2) digits64(3) [of c] by (auto simp: algebra_simps)
    with last show ?thesis by simp
  qed
qed

end
