(* ===== verification/Autobahn.thy ===== *)
theory Autobahn
  imports WsSides WsHandshake Utf8Dfa
begin

text \<open>
  The echo server for the Autobahn test suite (\<open>websocket/examples/autobahn/server.go\<close>): its four
  handlers, which send every message back to the client, by copying from the message reader to
  the message writer or by reading the whole message first. Text is checked to be UTF-8,
  by the reader \<open>validator\<close> while it is copied or by \<open>utf8.Valid\<close> once it is read.
\<close>

section \<open>The validator\<close>

record validator =
  vState :: nat
  vX :: rune32

definition errInvalidUTF8 :: ws_error where
  "errInvalidUTF8 = ErrorString ''invalid utf8''"

text \<open>\<open>validator.Read\<close>, given what the reader below answered.\<close>

definition validator_Read :: "validator \<Rightarrow> bytes \<Rightarrow> ws_error option \<Rightarrow> ws_error option \<times> validator" where
  "validator_Read v bs err =
     (let (state, x) = decode_all (vState v) (vX v) bs;
          v = v\<lparr>vState := state, vX := x\<rparr>
      in if state = utf8Reject \<or> (err = Some WsEOF \<and> state \<noteq> utf8Accept)
         then (Some errInvalidUTF8, v) else (err, v))"

text \<open>A reader is a message reader under a stack of validators.\<close>

fun stack_Read :: "ws_env \<Rightarrow> int \<Rightarrow> nat \<Rightarrow> validator list \<Rightarrow> ws_conn \<Rightarrow>
    (bytes \<times> ws_error option) \<times> validator list \<times> ws_conn" where
  "stack_Read env r n [] c = (case mr_Read env r n c of (res, c) \<Rightarrow> (res, [], c))"
| "stack_Read env r n (v # vs) c =
     (case stack_Read env r n vs c of
        ((bs, err), vs, c) \<Rightarrow> (case validator_Read v bs err of (err, v) \<Rightarrow> ((bs, err), v # vs, c)))"

lemma stack_Read_size:
  "stack_Read env r n vs c = ((bs, err), vs', c') \<Longrightarrow>
     shrinks c c' \<and> (err = None \<longrightarrow> 0 < n \<longrightarrow> rd_size (br c') < rd_size (br c))"
proof (induction vs arbitrary: bs err vs')
  case Nil
  then obtain "mr_Read env r n c = ((bs, err), c')" by (auto split: prod.splits)
  with mr_Read_size [of env r n c bs c'] shrinks_mr_Read [of c env r n] show ?case by auto
next
  case (Cons v vs)
  then show ?case by (fastforce simp: validator_Read_def Let_def split: prod.splits if_splits)
qed

section \<open>Copying\<close>

text \<open>
  \<open>io.Copy(w, r)\<close> with a writer that has \<open>ReadFrom\<close>: one turn of the loop of
  \<open>messageWriter.ReadFrom\<close>, which reads from the stack into the free part of the write buffer.
  \<open>Inl\<close> ends the loop. A turn without free room, which \<open>flushFrame\<close> never leaves, would
  read nothing for ever.
\<close>

definition ReadFrom_turn :: "ws_env \<Rightarrow> int \<Rightarrow> validator list \<Rightarrow> ws_conn \<Rightarrow>
    (ws_error option + validator list) \<times> ws_conn" where
  "ReadFrom_turn env r vs c =
     (case (if writePos c = length (writeBuf c) then flushFrame env False [] c else (None, c)) of
        (Some e, c) \<Rightarrow> (Inl (Some e), c)
      | (None, c) \<Rightarrow>
          if length (writeBuf c) - writePos c = 0 then (Inl (Some WsDiverges), c)
          else (case stack_Read env r (length (writeBuf c) - writePos c) vs c of
                  ((bs, err), vs, c) \<Rightarrow>
                    (let c = c\<lparr>writeBuf := put_at (writeBuf c) (writePos c) bs, writePos := writePos c + length bs\<rparr>
                     in case err of
                          Some e \<Rightarrow> (Inl (if e = WsEOF then None else Some e), c)
                        | None \<Rightarrow> (Inr vs, c))))"

lemma ReadFrom_turn_size:
  assumes "ReadFrom_turn env r vs c = (x, c')"
  shows "shrinks c c' \<and> (\<forall>vs'. x = Inr vs' \<longrightarrow> rd_size (br c') < rd_size (br c))"
proof -
  obtain e c1 where f: "(if writePos c = length (writeBuf c) then flushFrame env False [] c else (None, c)) = (e, c1)"
    by (metis surj_pair)
  then have "rside c1 = rside c" by (auto dest: rside_flush split: if_splits)
  moreover obtain bs err vs' c2 where
    s: "stack_Read env r (length (writeBuf c1) - writePos c1) vs c1 = ((bs, err), vs', c2)" by (metis surj_pair)
  ultimately show ?thesis
    using assms stack_Read_size [OF s] unfolding ReadFrom_turn_def f Let_def
    by (auto simp: s shrinks_def rside_def split: option.splits if_splits)
qed

function ReadFrom_loop :: "ws_env \<Rightarrow> int \<Rightarrow> validator list \<Rightarrow> ws_conn \<Rightarrow> ws_error option \<times> ws_conn" where
  "ReadFrom_loop env r vs c =
     (case ReadFrom_turn env r vs c of (Inl err, c) \<Rightarrow> (err, c) | (Inr vs, c) \<Rightarrow> ReadFrom_loop env r vs c)"
  by pat_completeness auto
termination
  by (relation "measure (\<lambda>(env, r, vs, c). rd_size (br c))") (auto dest: ReadFrom_turn_size [OF sym])

declare ReadFrom_loop.simps [simp del]

lemma shrinks_ReadFrom_loop: "ReadFrom_loop env r vs c = (e, c') \<Longrightarrow> shrinks c c'"
proof (induction env r vs c rule: ReadFrom_loop.induct)
  case (1 env r vs c)
  obtain x c1 where t: "ReadFrom_turn env r vs c = (x, c1)" by (metis surj_pair)
  with "1.IH" [OF t [symmetric]] "1.prems" ReadFrom_turn_size [OF t] show ?case
    by (cases x) (auto simp: ReadFrom_loop.simps [of env r vs c] intro: shrinks_trans)
qed

definition copy_ReadFrom :: "ws_env \<Rightarrow> int \<Rightarrow> int \<Rightarrow> validator list \<Rightarrow> ws_conn \<Rightarrow> ws_error option \<times> ws_conn" where
  "copy_ReadFrom env w r vs c =
     (case mw_err w c of Some e \<Rightarrow> (Some e, c) | None \<Rightarrow> ReadFrom_loop env r vs c)"

text \<open>\<open>io.Copy\<close> with a plain writer: a turn of its loop with the buffer of 32 KB.\<close>

definition Copy_turn :: "ws_env \<Rightarrow> int \<Rightarrow> int \<Rightarrow> validator list \<Rightarrow> ws_conn \<Rightarrow>
    (ws_error option + validator list) \<times> ws_conn" where
  "Copy_turn env w r vs c =
     (case stack_Read env r 32768 vs c of
        ((bs, er), vs, c) \<Rightarrow>
          (let (ew, c) = (if bs = [] then (None, c)
                          else (case mw_Write env w bs c of (Inl e, c) \<Rightarrow> (Some e, c) | (Inr n, c) \<Rightarrow> (None, c)))
           in if ew \<noteq> None then (Inl ew, c)
              else (case er of
                      Some e \<Rightarrow> (Inl (if e = WsEOF then None else Some e), c)
                    | None \<Rightarrow> (Inr vs, c))))"

lemma Copy_turn_size:
  assumes "Copy_turn env w r vs c = (x, c')"
  shows "shrinks c c' \<and> (\<forall>vs'. x = Inr vs' \<longrightarrow> rd_size (br c') < rd_size (br c))"
proof -
  obtain bs er vs1 c1 where s: "stack_Read env r 32768 vs c = ((bs, er), vs1, c1)" by (metis surj_pair)
  obtain y c2 where w: "mw_Write env w bs c1 = (y, c2)" by (metis surj_pair)
  have "br c2 = br c1" using rside_mw_Write [OF w] by (rule rsideD)
  with assms stack_Read_size [OF s] show ?thesis unfolding Copy_turn_def
    by (auto simp: s w shrinks_def split: option.splits if_splits sum.splits)
qed

function Copy_loop :: "ws_env \<Rightarrow> int \<Rightarrow> int \<Rightarrow> validator list \<Rightarrow> ws_conn \<Rightarrow> ws_error option \<times> ws_conn" where
  "Copy_loop env w r vs c =
     (case Copy_turn env w r vs c of (Inl err, c) \<Rightarrow> (err, c) | (Inr vs, c) \<Rightarrow> Copy_loop env w r vs c)"
  by pat_completeness auto
termination
  by (relation "measure (\<lambda>(env, w, r, vs, c). rd_size (br c))") (auto dest: Copy_turn_size [OF sym])

declare Copy_loop.simps [simp del]

section \<open>The handlers\<close>

text \<open>
  A log entry is the text and the error. A turn of a handler's loop answers whether the
  loop goes on.
\<close>

type_synonym echo_log = "string \<times> ws_error option"

definition invalid_close :: "ws_env \<Rightarrow> ws_conn \<Rightarrow> ws_conn" where
  "invalid_close env c = snd (WriteControl env CloseMessage (FormatCloseMessage 1007 []) None c)"

definition echoCopy_turn :: "ws_env \<Rightarrow> bool \<Rightarrow> ws_conn \<Rightarrow> (echo_log list \<times> bool) \<times> ws_conn" where
  "echoCopy_turn env writerOnly c =
     (case NextReader env c of
        (Inl err, c) \<Rightarrow> ((if err \<noteq> WsEOF then [(''NextReader:'', Some err)] else [], False), c)
      | (Inr (mt, r), c) \<Rightarrow>
          (let vs = (if mt = TextMessage then [\<lparr>vState = 0, vX = 0\<rparr>] else [])
           in case NextWriter env mt c of
                (Inl err, c) \<Rightarrow> (([(''NextWriter:'', Some err)], False), c)
              | (Inr w, c) \<Rightarrow>
                  (let vs = (if mt = TextMessage then \<lparr>vState = 0, vX = 0\<rparr> # vs else vs)
                   in case (if writerOnly then Copy_loop env w r vs c else copy_ReadFrom env w r vs c) of
                        (Some err, c) \<Rightarrow>
                          (([(''Copy:'', Some err)], False),
                           if err = errInvalidUTF8 then invalid_close env c else c)
                      | (None, c) \<Rightarrow>
                          (case mw_Close env w c of
                             (Some err, c) \<Rightarrow> (([(''Close:'', Some err)], False), c)
                           | (None, c) \<Rightarrow> (([], True), c)))))"

definition echoReadAll_turn ::
  "ws_env \<Rightarrow> (nat \<Rightarrow> nat) \<Rightarrow> bool \<Rightarrow> ws_conn \<Rightarrow> (echo_log list \<times> bool) \<times> ws_conn" where
  "echoReadAll_turn env grow writeMessage c =
     (case ReadMessage env grow c of
        ((mt, b, Some err), c) \<Rightarrow> ((if err \<noteq> WsEOF then [(''NextReader:'', Some err)] else [], False), c)
      | ((mt, b, None), c) \<Rightarrow>
          (let invalid = (mt = TextMessage \<and> \<not> utf8_Valid b);
               c = (if invalid then invalid_close env c else c);
               logs = (if invalid then [(''ReadAll: invalid utf8'', None)] else [])
           in if writeMessage then
                (case WriteMessage env mt b c of
                   (Some err, c) \<Rightarrow> ((logs @ [(''WriteMessage:'', Some err)], True), c)
                 | (None, c) \<Rightarrow> ((logs, True), c))
              else
                (case NextWriter env mt c of
                   (Inl err, c) \<Rightarrow> ((logs @ [(''NextWriter:'', Some err)], False), c)
                 | (Inr w, c) \<Rightarrow>
                     (case mw_Write env w b c of
                        (Inl err, c) \<Rightarrow> ((logs @ [(''Writer:'', Some err)], False), c)
                      | (Inr n, c) \<Rightarrow>
                          (case mw_Close env w c of
                             (Some err, c) \<Rightarrow> ((logs @ [(''Close:'', Some err)], False), c)
                           | (None, c) \<Rightarrow> ((logs, True), c))))))"

lemma shrinks_Copy_loop: "Copy_loop env w r vs c = (e, c') \<Longrightarrow> shrinks c c'"
proof (induction env w r vs c rule: Copy_loop.induct)
  case (1 env w r vs c)
  obtain x c1 where t: "Copy_turn env w r vs c = (x, c1)" by (metis surj_pair)
  with "1.IH" [OF t [symmetric]] "1.prems" Copy_turn_size [OF t] show ?case
    by (cases x) (auto simp: Copy_loop.simps [of env w r vs c] intro: shrinks_trans)
qed

lemma shrinks_copy_ReadFrom: "copy_ReadFrom env w r vs c = (e, c') \<Longrightarrow> shrinks c c'"
  by (auto simp: copy_ReadFrom_def intro: shrinks_ReadFrom_loop split: option.splits)

lemma echoCopy_turn_size:
  assumes "echoCopy_turn env writerOnly c = ((logs, True), c')"
  shows "rd_size (br c') < rd_size (br c)"
proof -
  obtain mt r c1 where 1: "NextReader env c = (Inr (mt, r), c1)"
    using assms by (auto simp: echoCopy_turn_def split: prod.splits sum.splits)
  then obtain w c2 where 2: "NextWriter env mt c1 = (Inr w, c2)"
    using assms by (auto simp: echoCopy_turn_def Let_def split: prod.splits sum.splits)
  define vs where "vs = (if mt = TextMessage then [\<lparr>vState = 0, vX = 0\<rparr>, \<lparr>vState = 0, vX = 0 :: rune32\<rparr>] else [])"
  obtain e c3 where 3: "(if writerOnly then Copy_loop env w r vs c2 else copy_ReadFrom env w r vs c2) = (e, c3)"
    by (metis surj_pair)
  have "mw_Close env w c3 = (None, c')"
    using assms 1 2 3 by (auto simp: echoCopy_turn_def vs_def Let_def split: prod.splits option.splits if_splits)
  then have "br c' = br c3" "br c2 = br c1"
    using rside_mw_Close rside_NextWriter [OF 2] rsideD(2) by blast+
  moreover have "shrinks c2 c3"
    using 3 shrinks_Copy_loop [of env w r vs c2] shrinks_copy_ReadFrom [of env w r vs c2] by (auto split: if_splits)
  ultimately show ?thesis using NextReader_size [OF 1] by (simp add: shrinks_def)
qed

lemma br_invalid_close [simp]: "br (invalid_close env c) = br c"
  unfolding invalid_close_def using core_WriteControl by (rule core_eqD)

lemma echoReadAll_turn_size:
  assumes "echoReadAll_turn env grow writeMessage c = ((logs, True), c')"
  shows "rd_size (br c') < rd_size (br c)"
proof -
  obtain mt b c1 where 1: "ReadMessage env grow c = ((mt, b, None), c1)"
    using assms by (auto simp: echoReadAll_turn_def split: prod.splits option.splits)
  define c2 where "c2 = (if mt = TextMessage \<and> \<not> utf8_Valid b then invalid_close env c1 else c1)"
  have b: "br c2 = br c1" by (simp add: c2_def)
  have "rside c' = rside c2"
    using assms 1 unfolding echoReadAll_turn_def
    by (auto simp: Let_def dest!: rside_rules simp flip: c2_def split: prod.splits option.splits sum.splits if_splits)
  with b ReadMessage_size [OF 1] show ?thesis by (simp add: rside_def)
qed

function echoCopy_loop :: "ws_env \<Rightarrow> bool \<Rightarrow> ws_conn \<Rightarrow> echo_log list \<times> ws_conn" where
  "echoCopy_loop env writerOnly c =
     (case echoCopy_turn env writerOnly c of
        ((logs, False), c) \<Rightarrow> (logs, c)
      | ((logs, True), c) \<Rightarrow> (case echoCopy_loop env writerOnly c of (logs', c) \<Rightarrow> (logs @ logs', c)))"
  by pat_completeness auto
termination
  by (relation "measure (\<lambda>(env, wo, c). rd_size (br c))") (auto dest: echoCopy_turn_size [OF sym])

function echoReadAll_loop :: "ws_env \<Rightarrow> (nat \<Rightarrow> nat) \<Rightarrow> bool \<Rightarrow> ws_conn \<Rightarrow> echo_log list \<times> ws_conn" where
  "echoReadAll_loop env grow writeMessage c =
     (case echoReadAll_turn env grow writeMessage c of
        ((logs, False), c) \<Rightarrow> (logs, c)
      | ((logs, True), c) \<Rightarrow> (case echoReadAll_loop env grow writeMessage c of (logs', c) \<Rightarrow> (logs @ logs', c)))"
  by pat_completeness auto
termination
  by (relation "measure (\<lambda>(env, grow, wm, c). rd_size (br c))") (auto dest: echoReadAll_turn_size [OF sym])

declare echoCopy_loop.simps [simp del] echoReadAll_loop.simps [simp del]

text \<open>
  The handlers with the upgrade in front and the deferred \<open>Close\<close> behind: what is done to
  the HTTP response, what is logged and the connection that is left.
\<close>

definition upgrader :: Upgrader where
  "upgrader = \<lparr>HandshakeTimeout = 0, uReadBufferSize = 4096, uWriteBufferSize = 4096, uSubprotocols = None,
     uError = False, CheckOrigin = Some (\<lambda>r. True)\<rparr>"

type_synonym echo_result = "hs_effect list \<times> echo_log list \<times> ws_conn option"

definition with_upgrade :: "hs_env \<Rightarrow> ws_env \<Rightarrow> (ws_conn \<Rightarrow> echo_log list \<times> ws_conn) \<Rightarrow> hijack \<Rightarrow> request \<Rightarrow> echo_result" where
  "with_upgrade hs net loop w r =
     (case Upgrade hs net upgrader w r None of
        (Inl err, eff) \<Rightarrow> (eff, [(''Upgrade:'', Some err)], None)
      | (Inr conn, eff) \<Rightarrow> (case loop conn of (logs, conn) \<Rightarrow> (eff, logs, Some (ws_Close conn))))"

definition echoCopy :: "hs_env \<Rightarrow> ws_env \<Rightarrow> hijack \<Rightarrow> request \<Rightarrow> bool \<Rightarrow> echo_result" where
  "echoCopy hs net w r writerOnly = with_upgrade hs net (echoCopy_loop net writerOnly) w r"

definition echoReadAll :: "hs_env \<Rightarrow> ws_env \<Rightarrow> (nat \<Rightarrow> nat) \<Rightarrow> hijack \<Rightarrow> request \<Rightarrow> bool \<Rightarrow> echo_result" where
  "echoReadAll hs net grow w r writeMessage = with_upgrade hs net (echoReadAll_loop net grow writeMessage) w r"

definition echoCopyWriterOnly :: "hs_env \<Rightarrow> ws_env \<Rightarrow> hijack \<Rightarrow> request \<Rightarrow> echo_result" where
  "echoCopyWriterOnly hs net w r = echoCopy hs net w r True"

definition echoCopyFull :: "hs_env \<Rightarrow> ws_env \<Rightarrow> hijack \<Rightarrow> request \<Rightarrow> echo_result" where
  "echoCopyFull hs net w r = echoCopy hs net w r False"

definition echoReadAllWriter :: "hs_env \<Rightarrow> ws_env \<Rightarrow> (nat \<Rightarrow> nat) \<Rightarrow> hijack \<Rightarrow> request \<Rightarrow> echo_result" where
  "echoReadAllWriter hs net grow w r = echoReadAll hs net grow w r False"

definition echoReadAllWriteMessage :: "hs_env \<Rightarrow> ws_env \<Rightarrow> (nat \<Rightarrow> nat) \<Rightarrow> hijack \<Rightarrow> request \<Rightarrow> echo_result" where
  "echoReadAllWriteMessage hs net grow w r = echoReadAll hs net grow w r True"

text \<open>The routes \<open>main\<close> registers for the echo handlers; every other path goes to \<open>serveHome\<close>.\<close>

definition echo_route :: "string \<Rightarrow> (hs_env \<Rightarrow> ws_env \<Rightarrow> (nat \<Rightarrow> nat) \<Rightarrow> hijack \<Rightarrow> request \<Rightarrow> echo_result) option" where
  "echo_route path =
     (if path = ''/c'' then Some (\<lambda>hs net grow. echoCopyWriterOnly hs net)
      else if path = ''/f'' then Some (\<lambda>hs net grow. echoCopyFull hs net)
      else if path = ''/r'' then Some echoReadAllWriter
      else if path = ''/m'' then Some echoReadAllWriteMessage
      else None)"

definition serveHome :: "string \<Rightarrow> string \<Rightarrow> int \<times> string" where
  "serveHome path meth =
     (if path \<noteq> ''/'' then (404, ''Not found.'')
      else if meth \<noteq> ''GET'' then (405, ''Method not allowed'')
      else (200, ''<html><body>Echo Server</body></html>''))"

end
