(* ===== verification/AutobahnEcho.thy ===== *)
theory AutobahnEcho
  imports Autobahn
begin

text \<open>
  The echo server returns every message. A turn of each handler answers a message that is
  allowed with the same message; the locale \<open>echo_turns\<close> carries this from a turn to the whole
  conversation and is interpreted on both loops.
\<close>

section \<open>Validators\<close>

definition vs_ok :: "bytes \<Rightarrow> validator list \<Rightarrow> bool" where
  "vs_ok p vs \<longleftrightarrow> (\<forall>v\<in>set vs. vState v = run8 0 p)"

text \<open>What the stack makes of the error of a read that completes the bytes \<open>p\<close>.\<close>

definition verdict :: "bool \<Rightarrow> bytes \<Rightarrow> ws_error option \<Rightarrow> ws_error option" where
  "verdict check p err =
     (if check \<and> (run8 0 p = 1 \<or> (err = Some WsEOF \<and> run8 0 p \<noteq> 0)) then Some errInvalidUTF8 else err)"

lemma stack_Read_run:
  assumes "mr_Read env r n c = ((bs, err), c')" and "vs_ok p vs"
  obtains vs' where "stack_Read env r n vs c = ((bs, verdict (vs \<noteq> []) (p @ bs) err), vs', c')"
    and "vs_ok (p @ bs) vs'" and "vs' = [] \<longleftrightarrow> vs = []"
proof -
  have "\<exists>vs'. stack_Read env r n vs c = ((bs, verdict (vs \<noteq> []) (p @ bs) err), vs', c') \<and>
      vs_ok (p @ bs) vs' \<and> (vs' = [] \<longleftrightarrow> vs = [])"
    using assms(2)
  proof (induction vs)
    case Nil
    with assms(1) show ?case by (simp add: vs_ok_def verdict_def)
  next
    case (Cons v vs)
    obtain vs' where s: "stack_Read env r n vs c = ((bs, verdict (vs \<noteq> []) (p @ bs) err), vs', c')" "vs_ok (p @ bs) vs'"
      using Cons by (auto simp: vs_ok_def)
    have "vState v = run8 0 p" using Cons.prems by (simp add: vs_ok_def)
    then have "fst (decode_all (vState v) (vX v) bs) = run8 0 (p @ bs)"
      by (simp add: decode_all_state run8_less run8_append)
    then obtain x where "decode_all (vState v) (vX v) bs = (run8 0 (p @ bs), x)" by (metis prod.collapse)
    with s Cons.prems show ?case by (auto simp: validator_Read_def vs_ok_def verdict_def errInvalidUTF8_def)
  qed
  with that show ?thesis by blast
qed

lemma run8_prefix: "run8 0 p = Suc 0 \<Longrightarrow> run8 0 (p @ q) = Suc 0"
  by (simp add: run8_append)

section \<open>Copying a message\<close>

lemma read_data_length: "read_data n c = ((bs, e), c') \<Longrightarrow> length bs \<le> n"
proof -
  let ?m = "if int n > readRemaining c then nat (readRemaining c) else n"
  assume a: "read_data n c = ((bs, e), c')"
  obtain b e1 r where b: "br_Read ?m (br c) = (b, e1, r)" by (metis surj_pair)
  obtain out pos where m: "maskBytes (readMaskKey c) (readMaskPos c) b = (out, pos)" by (metis surj_pair)
  have "length out = length b" using length_maskBytes [of "readMaskKey c" "readMaskPos c" b] by (simp add: m)
  then have "length bs = length b" using a by (auto simp: read_data_def b m Let_def split: if_splits)
  moreover have "?m \<le> n" by auto
  ultimately show ?thesis using br_Read_size [OF b] by simp
qed

lemma mr_Read_length: "mr_Read env sq n c = ((bs, e), c') \<Longrightarrow> length bs \<le> n"
proof -
  have "read_loop env sq n c = ((bs, e), c') \<Longrightarrow> length bs \<le> n"
    by (induction env sq n c rule: read_loop.induct)
      (subst (asm) (3) read_loop.simps, auto dest: read_data_length split: option.splits prod.splits sum.splits if_splits)
  then show "mr_Read env sq n c = ((bs, e), c') \<Longrightarrow> ?thesis" by (auto simp: mr_Read_def split: if_splits)
qed

lemma make_room:
  assumes "writing c" and "net_ok env"
  obtains gs c' where
    "(if writePos c = length (writeBuf c) then flushFrame env False [] c else (None, c)) = (None, c')"
    and "sent_frags c gs c'" and "concat (map snd gs) @ pending c' = pending c"
    and "0 < length (writeBuf c') - writePos c'" and "rside c' = rside c"
proof (cases "writePos c = length (writeBuf c)")
  case True
  obtain c' where f: "flushFrame env False [] c = (None, c')"
    and s: "sent_frags c [(next_key env c, pending c @ [])] c'" and p: "pending c' = []"
    using flush_frag [OF assms, of "[]"] by auto
  have "ws_ok c'" using s by (simp add: sent_frags_def writing_def)
  then have "0 < length (writeBuf c') - writePos c'"
    using writeBuf_split(2) [of c'] p by (simp add: ws_ok_def)
  with True f s p rside_flush [OF f] that show ?thesis by simp
next
  case False
  have "sent_frags c [] c" using assms(1) by (simp add: sent_frags_def)
  moreover have "0 < length (writeBuf c) - writePos c" using False assms(1) by (simp add: writing_def ws_ok_def)
  ultimately show ?thesis using False that [of c "[]"] by simp
qed

text \<open>
  \<open>copied c0 gs msg c\<close>: the writer that started in \<open>c0\<close> has sent the fragments \<open>gs\<close> and holds the
  rest of the bytes \<open>p\<close> it was given.
\<close>

definition copied :: "ws_conn \<Rightarrow> (bytes \<times> bytes) list \<Rightarrow> bytes \<Rightarrow> ws_conn \<Rightarrow> bool" where
  "copied c0 gs p c \<longleftrightarrow> sent_frags c0 gs c \<and> concat (map snd gs) @ pending c = p"

lemma copied_more:
  assumes "copied c0 gs p c" and "sent_frags c hs c'" and "concat (map snd hs) @ pending c' = pending c @ q"
  shows "copied c0 (gs @ hs) (p @ q) c'"
  using assms sent_frags_trans [of c0 gs c hs c'] by (auto simp: copied_def)

lemma copied_wside: "wside c' = wside c \<Longrightarrow> copied c0 gs p c' = copied c0 gs p c"
  using wside_sent_frags [of c' c] wside_pending [of c' c] by (simp add: copied_def)

lemma copied_writing: "copied c0 gs p c \<Longrightarrow> writing c \<and> writeSeq c = writeSeq c0"
  by (simp add: copied_def sent_frags_def)

text \<open>The bytes of a message are rejected when there are validators and they are not UTF-8.\<close>

definition rejected :: "validator list \<Rightarrow> bytes \<Rightarrow> bool" where
  "rejected vs msg \<longleftrightarrow> vs \<noteq> [] \<and> run8 0 msg \<noteq> 0"

definition copy_result :: "validator list \<Rightarrow> bytes \<Rightarrow> ws_error option" where
  "copy_result vs msg = (if rejected vs msg then Some errInvalidUTF8 else None)"

lemma ReadFrom_loop_run:
  assumes "inside s d fs rest c" and "r = readSeq c" and "net_ok env" and "copied c0 gs p c" and "vs_ok p vs"
    and "msg = p @ d @ frag_bytes fs"
  shows "\<exists>gs' q c'. ReadFrom_loop env r vs c = (copy_result vs msg, c') \<and> copied c0 gs' q c' \<and>
    (\<not> rejected vs msg \<longrightarrow> q = msg \<and> between s rest c' \<and> readLimit c' = readLimit c)"
  using assms(1,2,4-)
proof (induction "length (d @ frag_bytes fs)" arbitrary: d fs c gs p vs rule: less_induct)
  case less
  have wr: "writing c" using copied_writing [OF less.prems(3)] by simp
  obtain hs c1 where 1: "(if writePos c = length (writeBuf c) then flushFrame env False [] c else (None, c)) = (None, c1)"
    and hs: "sent_frags c hs c1" "concat (map snd hs) @ pending c1 = pending c"
    and room: "0 < length (writeBuf c1) - writePos c1" and rs: "rside c1 = rside c"
    using make_room [OF wr assms(3)] .
  have cp1: "copied c0 (gs @ hs) p c1" using copied_more [OF less.prems(3) hs(1), of "[]"] hs(2) by simp
  have i1: "inside s d fs rest c1" and q1: "r = readSeq c1" "readLimit c1 = readLimit c"
    using less.prems(1,2) rside_inside [OF rs] rsideD [OF rs] by simp_all
  from i1 q1(1) room show ?case
  proof (cases rule: mr_Read_inside [where env = env])
    case (eof c2)
    obtain vs' where s: "stack_Read env r (length (writeBuf c1) - writePos c1) vs c1 =
        (([], verdict (vs \<noteq> []) (p @ []) (Some WsEOF)), vs', c2)"
      using stack_Read_run [OF eof(2) less.prems(4)] .
    have "msg = p" using eof(1) less.prems(5) by simp
    with 1 room s have "ReadFrom_turn env r vs c = (Inl (copy_result vs msg), c2)"
      by (auto simp: ReadFrom_turn_def put_at_def verdict_def copy_result_def rejected_def errInvalidUTF8_def)
    with eof cp1 q1(2) \<open>msg = p\<close> show ?thesis
      by (intro exI [of _ "gs @ hs"] exI [of _ p] exI [of _ c2])
        (simp add: ReadFrom_loop.simps [of env r vs c] copied_wside [OF eof(4)])
  next
    case (data bs d' fs' c2)
    obtain vs' where s: "stack_Read env r (length (writeBuf c1) - writePos c1) vs c1 =
        ((bs, verdict (vs \<noteq> []) (p @ bs) None), vs', c2)" and vs': "vs_ok (p @ bs) vs'" "vs' = [] \<longleftrightarrow> vs = []"
      using stack_Read_run [OF data(1) less.prems(4)] .
    let ?c3 = "c2\<lparr>writeBuf := put_at (writeBuf c2) (writePos c2) bs, writePos := writePos c2 + length bs\<rparr>"
    have cp2: "copied c0 (gs @ hs) p c2" using cp1 by (simp add: copied_wside [OF data(6)])
    then have w2: "ws_ok c2" by (simp add: copied_def sent_frags_def writing_def)
    have len: "length bs \<le> length (writeBuf c2) - writePos c2"
      using mr_Read_length [OF data(1)] by (simp add: wsideD [OF data(6)])
    have cp3: "copied c0 (gs @ hs) (p @ bs) ?c3"
      using cp2 sent_frags_put [of c0 "gs @ hs" c2 bs] put_pending(2) [OF w2 len] len by (auto simp: copied_def)
    have msg: "msg = (p @ bs) @ d' @ frag_bytes fs'" using data(4) less.prems(5) by simp
    show ?thesis
    proof (cases "vs \<noteq> [] \<and> run8 0 (p @ bs) = 1")
      case True
      then have "rejected vs msg" using run8_prefix [of "p @ bs"] by (simp add: rejected_def msg)
      with True 1 room s cp3 show ?thesis
        by (auto simp: ReadFrom_loop.simps [of env r vs c] ReadFrom_turn_def verdict_def copy_result_def errInvalidUTF8_def)
    next
      case False
      then have t: "ReadFrom_turn env r vs c = (Inr vs', ?c3)"
        using 1 room s by (auto simp: ReadFrom_turn_def verdict_def)
      have i3: "inside s d' fs' rest ?c3" and q3: "r = readSeq ?c3"
        using data(3,5) q1(1) by (simp_all add: rside_inside [of ?c3 c2])
      have "length (d' @ frag_bytes fs') < length (d @ frag_bytes fs)"
        using arg_cong [OF data(4), of length] data(2) by (cases bs) auto
      from less.hyps [OF this i3 q3 cp3 vs'(1) msg] data(7) q1(2) vs'(2) show ?thesis
        by (simp add: ReadFrom_loop.simps [of env r vs c] t copy_result_def rejected_def)
    qed
  qed
qed

lemma Copy_loop_run:
  assumes "inside s d fs rest c" and "r = readSeq c" and "net_ok env" and "copied c0 gs p c" and "vs_ok p vs"
    and "msg = p @ d @ frag_bytes fs"
  shows "\<exists>gs' q c'. Copy_loop env (writeSeq c0) r vs c = (copy_result vs msg, c') \<and> copied c0 gs' q c' \<and>
    (\<not> rejected vs msg \<longrightarrow> q = msg \<and> between s rest c' \<and> readLimit c' = readLimit c)"
  using assms(1,2,4-)
proof (induction "length (d @ frag_bytes fs)" arbitrary: d fs c gs p vs rule: less_induct)
  case less
  have "(0 :: nat) < 32768" by simp
  from less.prems(1,2) this show ?case
  proof (cases rule: mr_Read_inside [where env = env])
    case (eof c2)
    obtain vs' where s: "stack_Read env r 32768 vs c = (([], verdict (vs \<noteq> []) (p @ []) (Some WsEOF)), vs', c2)"
      using stack_Read_run [OF eof(2) less.prems(4)] .
    have "msg = p" using eof(1) less.prems(5) by simp
    with s have "Copy_turn env (writeSeq c0) r vs c = (Inl (copy_result vs msg), c2)"
      by (auto simp: Copy_turn_def verdict_def copy_result_def rejected_def errInvalidUTF8_def)
    with eof less.prems(3) \<open>msg = p\<close> show ?thesis
      by (intro exI [of _ gs] exI [of _ p] exI [of _ c2])
        (simp add: Copy_loop.simps [of env _ r vs c] copied_wside [OF eof(4)])
  next
    case (data bs d' fs' c2)
    obtain vs' where s: "stack_Read env r 32768 vs c = ((bs, verdict (vs \<noteq> []) (p @ bs) None), vs', c2)"
      and vs': "vs_ok (p @ bs) vs'" "vs' = [] \<longleftrightarrow> vs = []"
      using stack_Read_run [OF data(1) less.prems(4)] .
    have cp2: "copied c0 gs p c2" using less.prems(3) by (simp add: copied_wside [OF data(6)])
    have wr: "writing c2" "writeSeq c2 = writeSeq c0" using copied_writing [OF cp2] by simp_all
    obtain hs k c3 where w: "mw_Write env (writeSeq c2) bs c2 = (Inr k, c3)" and hs: "sent_frags c2 hs c3"
        "concat (map snd hs) @ pending c3 = pending c2 @ bs"
      using mw_Write_frags [OF wr(1) assms(3)] .
    note rs = rside_mw_Write [OF w]
    have cp3: "copied c0 (gs @ hs) (p @ bs) c3" by (rule copied_more [OF cp2 hs])
    have msg: "msg = (p @ bs) @ d' @ frag_bytes fs'" using data(4) less.prems(5) by simp
    show ?thesis
    proof (cases "vs \<noteq> [] \<and> run8 0 (p @ bs) = 1")
      case True
      then have "rejected vs msg" using run8_prefix [of "p @ bs"] by (simp add: rejected_def msg)
      with True s w data(2) cp3 show ?thesis
        by (auto simp: Copy_loop.simps [of env _ r vs c] Copy_turn_def wr(2) verdict_def copy_result_def errInvalidUTF8_def)
    next
      case False
      then have t: "Copy_turn env (writeSeq c0) r vs c = (Inr vs', c3)"
        using s w data(2) by (auto simp: Copy_turn_def wr(2) verdict_def)
      have i3: "inside s d' fs' rest c3" and q3: "r = readSeq c3"
        using data(3,5) less.prems(2) rside_inside [OF rs] rsideD [OF rs] by simp_all
      have "length (d' @ frag_bytes fs') < length (d @ frag_bytes fs)"
        using arg_cong [OF data(4), of length] data(2) by (cases bs) auto
      from less.hyps [OF this i3 q3 cp3 vs'(1) msg] data(7) rsideD [OF rs] vs'(2) show ?thesis
        by (simp add: Copy_loop.simps [of env _ r vs c] t copy_result_def rejected_def)
    qed
  qed
qed

section \<open>A turn\<close>

definition echo_good :: "int \<times> bytes \<Rightarrow> bool" where
  "echo_good m \<longleftrightarrow> data_msg m \<and> (fst m = TextMessage \<longrightarrow> utf8_Valid (snd m))"

definition echo_ok :: "ws_env \<Rightarrow> ws_conn \<Rightarrow> bool" where
  "echo_ok env c \<longleftrightarrow> net_ok env \<and> idle c \<and> isServer c"

text \<open>A message to be echoed: its frames, and the connection when they arrive.\<close>

lemma echo_arrives:
  assumes "echo_ok env c" and "ws_ready False (bs @ rest) c" and "data_msg (mt, msg)" and "ws_encodes False (mt, msg) bs"
  obtains fs where "fs \<noteq> []" and "keys_ok fs" and "frag_bytes fs = msg" and "isData mt"
    and "between False (enc_msg False mt fs @ rest) c"
    and "in_limit (length (frag_bytes fs)) (c\<lparr>readLength := 0\<rparr>)"
proof -
  obtain fs where "fs \<noteq> []" "keys_ok fs" "frag_bytes fs = msg" "bs = enc_msg False mt fs"
    using assms(4) by (auto simp: ws_encodes_def)
  with assms that [of fs] show ?thesis
    by (auto simp: data_msg_def ws_ready_def in_limit_def)
qed

lemma copy_run:
  assumes i: "inside False d gs rest c" and q: "r = readSeq c" and net: "net_ok env" and w: "writing c" "pending c = []"
    and v: "vs_ok [] vs" and msg: "d @ frag_bytes gs = msg"
  obtains hs q c' where
    "(if wo then Copy_loop env (writeSeq c) r vs c else copy_ReadFrom env (writeSeq c) r vs c) = (copy_result vs msg, c')"
    and "copied c hs q c'"
    and "\<not> rejected vs msg \<longrightarrow> q = msg \<and> between False rest c' \<and> readLimit c' = readLimit c"
proof -
  have cp: "copied c [] [] c" using w by (simp add: copied_def sent_frags_def)
  have m: "msg = [] @ d @ frag_bytes gs" using msg by simp
  have "mw_err (writeSeq c) c = None" using w(1) by (simp add: mw_err_def writing_def)
  with ReadFrom_loop_run [OF i q net cp v m] Copy_loop_run [OF i q net cp v m] that show ?thesis
    by (cases wo) (auto simp: copy_ReadFrom_def)
qed

text \<open>The start of a turn of \<open>echoCopy\<close>: reader, writer and validators, and what the copy gives.\<close>

lemma echoCopy_starts:
  assumes "echo_ok env c" and "ws_ready False (bs @ rest) c" and "data_msg (mt, msg)" and "ws_encodes False (mt, msg) bs"
  defines "vs \<equiv> (if mt = TextMessage then [\<lparr>vState = 0, vX = 0\<rparr>, \<lparr>vState = 0, vX = 0 :: rune32\<rparr>] else [])"
  obtains r c1 c2 hs q where "NextReader env c = (Inr (mt, r), c1)" and "wside c1 = wside c"
    and "NextWriter env mt c1 = (Inr (writeSeq c1), c1\<lparr>writeFrameType := mt\<rparr>)"
    and "(if wo then Copy_loop env (writeSeq c1) r vs (c1\<lparr>writeFrameType := mt\<rparr>)
      else copy_ReadFrom env (writeSeq c1) r vs (c1\<lparr>writeFrameType := mt\<rparr>)) = (copy_result vs msg, c2)"
    and "copied (c1\<lparr>writeFrameType := mt\<rparr>) hs q c2" and "pending (c1\<lparr>writeFrameType := mt\<rparr>) = []"
    and "\<not> rejected vs msg \<longrightarrow> q = msg \<and> ws_ready False rest c2"
proof -
  obtain fs where fs: "fs \<noteq> []" "keys_ok fs" "frag_bytes fs = msg" and mt: "isData mt"
    and b: "between False (enc_msg False mt fs @ rest) c" and lim: "in_limit (length (frag_bytes fs)) (c\<lparr>readLength := 0\<rparr>)"
    using echo_arrives [OF assms(1-4)] .
  obtain d gs c1 where nr: "NextReader env c = (Inr (mt, readSeq c1), c1)" and i1: "inside False d gs rest c1"
    and d: "d @ frag_bytes gs = msg" and w1: "wside c1 = wside c" and l1: "readLimit c1 = readLimit c"
    using NextReader_msg [OF b mt fs(1,2) lim, of env] fs(3) by metis
  have idle1: "idle c1" using assms(1) wside_idle [OF w1] by (simp add: echo_ok_def)
  let ?c2 = "c1\<lparr>writeFrameType := mt\<rparr>"
  have wr: "writing ?c2" "pending ?c2 = []"
    using idle1 mt by (auto simp: idle_def writing_def isData_def ws_ok_def pending_def)
  have i2: "inside False d gs rest ?c2" and q2: "readSeq c1 = readSeq ?c2"
    using i1 by (simp_all add: rside_inside [of ?c2 c1])
  have v: "vs_ok [] vs" and net: "net_ok env" using assms(1) by (auto simp: vs_def vs_ok_def echo_ok_def)
  obtain hs q c3 where c3: "(if wo then Copy_loop env (writeSeq ?c2) (readSeq c1) vs ?c2
      else copy_ReadFrom env (writeSeq ?c2) (readSeq c1) vs ?c2) = (copy_result vs msg, c3)"
    and cp: "copied ?c2 hs q c3" "\<not> rejected vs msg \<longrightarrow> q = msg \<and> between False rest c3 \<and> readLimit c3 = readLimit ?c2"
    using copy_run [OF i2 q2 net wr v d] .
  show ?thesis
    by (rule that [OF nr w1 NextWriter_idle [OF idle1 mt] _ cp(1) wr(2)])
      (use c3 cp(2) l1 assms(2) in \<open>auto simp: ws_ready_def\<close>)
qed

lemma echoCopy_turn_ok:
  assumes "echo_ok env c" and "ws_ready False (bs @ rest) c" and "echo_good m" and "ws_encodes False m bs"
  shows "\<exists>c' bs'. echoCopy_turn env wo c = (([], True), c') \<and> echo_ok env c' \<and> ws_ready False rest c' \<and>
    ws_encodes True m bs' \<and> concat (wire c') = concat (wire c) @ bs'"
proof -
  obtain mt msg where m: "m = (mt, msg)" by (metis surj_pair)
  have g: "data_msg (mt, msg)" using assms(3) m by (simp add: echo_good_def)
  define vs where "vs = (if mt = TextMessage then [\<lparr>vState = 0, vX = 0\<rparr>, \<lparr>vState = 0, vX = 0 :: rune32\<rparr>] else [])"
  obtain r c1 c2 hs q where nr: "NextReader env c = (Inr (mt, r), c1)" and w1: "wside c1 = wside c"
    and nw: "NextWriter env mt c1 = (Inr (writeSeq c1), c1\<lparr>writeFrameType := mt\<rparr>)"
    and cp: "(if wo then Copy_loop env (writeSeq c1) r vs (c1\<lparr>writeFrameType := mt\<rparr>)
      else copy_ReadFrom env (writeSeq c1) r vs (c1\<lparr>writeFrameType := mt\<rparr>)) = (copy_result vs msg, c2)"
    and cpd: "copied (c1\<lparr>writeFrameType := mt\<rparr>) hs q c2" and p0: "pending (c1\<lparr>writeFrameType := mt\<rparr>) = []"
    and ok: "\<not> rejected vs msg \<longrightarrow> q = msg \<and> ws_ready False rest c2"
    using echoCopy_starts [OF assms(1,2) g, of wo] assms(4) m unfolding vs_def by metis
  have nrej: "\<not> rejected vs msg" using assms(3) m by (auto simp: vs_def rejected_def echo_good_def run8_Valid)
  have net: "net_ok env" and srv: "isServer c" using assms(1) by (simp_all add: echo_ok_def)
  let ?c = "c1\<lparr>writeFrameType := mt\<rparr>"
  have s: "sent_frags ?c hs c2" using cpd by (simp add: copied_def)
  obtain k c4 where cl: "mw_Close env (writeSeq ?c) c2 = (None, c4)" and c4: "idle c4" "isServer c4 = isServer ?c"
      "keys_ok (hs @ [(k, pending c2)])"
      "concat (wire c4) = concat (wire ?c) @ enc_msg (isServer ?c) (writeFrameType ?c) (hs @ [(k, pending c2)])"
    using mw_Close_frags [OF s net p0] .
  note rs = rside_mw_Close [OF cl]
  have "echoCopy_turn env wo c = (([], True), c4)"
    using nr nw cp cl nrej by (simp add: echoCopy_turn_def vs_def [symmetric] copy_result_def cong: if_cong)
  moreover have "ws_encodes True m (enc_msg True mt (hs @ [(k, pending c2)]))"
    using c4(3) cpd ok [THEN mp, OF nrej] m by (auto simp: ws_encodes_def copied_def frag_bytes_def)
  moreover have "concat (wire c4) = concat (wire c) @ enc_msg True mt (hs @ [(k, pending c2)])"
    using c4(4) wsideD [OF w1] srv by simp
  moreover have "echo_ok env c4" "ws_ready False rest c4"
    using net c4(1,2) wsideD [OF w1] srv ok [THEN mp, OF nrej] rside_between [OF rs] rsideD [OF rs]
    by (simp_all add: echo_ok_def ws_ready_def)
  ultimately show ?thesis by blast
qed

lemma ReadMessage_wside:
  assumes "between s (enc_msg s mt fs @ rest) c" and "isData mt" and "fs \<noteq> []" and "keys_ok fs"
    and "in_limit (length (frag_bytes fs)) (c\<lparr>readLength := 0\<rparr>)"
  obtains c' where "ReadMessage env grow c = ((mt, frag_bytes fs, None), c')" and "between s rest c'"
    and "readLimit c' = readLimit c" and "wside c' = wside c"
proof -
  obtain c' where r: "ReadMessage env grow c = ((mt, frag_bytes fs, None), c')" "between s rest c'" "readLimit c' = readLimit c"
    using ReadMessage_msg [OF assms] .
  obtain d gs c1 where n: "NextReader env c = (Inr (mt, readSeq c1), c1)" and i: "inside s d gs rest c1"
    and w: "wside c1 = wside c"
    using NextReader_msg [OF assms, of env] by metis
  have "ReadAll env grow (readSeq c1) [] c1 = ((frag_bytes fs, None), c')"
    using r(1) n by (auto simp: ReadMessage_def split: prod.splits)
  from wside_ReadAll [OF i refl this] w r that show ?thesis by simp
qed

text \<open>The message writer given a whole message at once.\<close>

lemma write_whole:
  assumes "idle c" and "net_ok env" and "isData mt"
  obtains w k c1 c2 fs where "NextWriter env mt c = (Inr w, c\<lparr>writeFrameType := mt\<rparr>)"
    and "mw_Write env w data (c\<lparr>writeFrameType := mt\<rparr>) = (Inr k, c1)" and "mw_Close env w c1 = (None, c2)"
    and "idle c2" and "isServer c2 = isServer c" and "fs \<noteq> []" and "keys_ok fs" and "frag_bytes fs = data"
    and "concat (wire c2) = concat (wire c) @ enc_msg (isServer c) mt fs"
proof -
  let ?c = "c\<lparr>writeFrameType := mt\<rparr>"
  have wr: "writing ?c" and p0: "pending ?c = []"
    using assms by (auto simp: idle_def writing_def isData_def ws_ok_def pending_def)
  obtain gs k c1 where w: "mw_Write env (writeSeq ?c) data ?c = (Inr k, c1)" and s: "sent_frags ?c gs c1"
      "concat (map snd gs) @ pending c1 = pending ?c @ data"
    using mw_Write_frags [OF wr assms(2)] .
  obtain j c2 where cl: "mw_Close env (writeSeq ?c) c1 = (None, c2)" "idle c2" "isServer c2 = isServer ?c"
      "keys_ok (gs @ [(j, pending c1)])"
      "concat (wire c2) = concat (wire ?c) @ enc_msg (isServer ?c) (writeFrameType ?c) (gs @ [(j, pending c1)])"
    using mw_Close_frags [OF s(1) assms(2) p0] .
  show ?thesis
    by (rule that [OF NextWriter_idle [OF assms(1,3)], of k c1 c2 "gs @ [(j, pending c1)]"])
      (use w s cl p0 in \<open>simp_all add: frag_bytes_def\<close>)
qed

lemma echoReadAll_turn_ok:
  assumes "echo_ok env c" and "ws_ready False (bs @ rest) c" and "echo_good m" and "ws_encodes False m bs"
  shows "\<exists>c' bs'. echoReadAll_turn env grow wm c = (([], True), c') \<and> echo_ok env c' \<and> ws_ready False rest c' \<and>
    ws_encodes True m bs' \<and> concat (wire c') = concat (wire c) @ bs'"
proof -
  obtain mt msg where m: "m = (mt, msg)" by (metis surj_pair)
  obtain fs where fs: "fs \<noteq> []" "keys_ok fs" "frag_bytes fs = msg" and mt: "isData mt"
    and b: "between False (enc_msg False mt fs @ rest) c" and lim: "in_limit (length (frag_bytes fs)) (c\<lparr>readLength := 0\<rparr>)"
    using echo_arrives [OF assms(1,2), of mt msg] assms(3,4) m by (auto simp: echo_good_def)
  have net: "net_ok env" and srv: "isServer c" and idle: "idle c" using assms(1) by (simp_all add: echo_ok_def)
  have valid: "\<not> (mt = TextMessage \<and> \<not> utf8_Valid msg)" using assms(3) m by (simp add: echo_good_def)
  obtain c1 where r: "ReadMessage env grow c = ((mt, msg, None), c1)" "between False rest c1"
      "readLimit c1 = readLimit c" "wside c1 = wside c"
    using ReadMessage_wside [OF b mt fs(1,2) lim] fs(3) by metis
  have idle1: "idle c1" using idle wside_idle [OF r(4)] by simp
  have "\<exists>c2 gs. echoReadAll_turn env grow wm c = (([], True), c2) \<and> rside c2 = rside c1 \<and> idle c2 \<and>
      gs \<noteq> [] \<and> keys_ok gs \<and> frag_bytes gs = msg \<and> concat (wire c2) = concat (wire c1) @ enc_msg (isServer c1) mt gs"
  proof (cases wm)
    case True
    obtain gs c2 where "WriteMessage env mt msg c1 = (None, c2)" "idle c2" "gs \<noteq> []" "frag_bytes gs = msg"
        "keys_ok gs" "concat (wire c2) = concat (wire c1) @ enc_msg (isServer c1) mt gs"
      using WriteMessage_frames [OF idle1 net mt, of msg] by metis
    with True r(1) valid show ?thesis
      by (auto simp: echoReadAll_turn_def dest: rside_WriteMessage)
  next
    case False
    obtain w k c1' c2 gs where w: "NextWriter env mt c1 = (Inr w, c1\<lparr>writeFrameType := mt\<rparr>)"
      "mw_Write env w msg (c1\<lparr>writeFrameType := mt\<rparr>) = (Inr k, c1')" "mw_Close env w c1' = (None, c2)"
      "idle c2" "gs \<noteq> []" "keys_ok gs" "frag_bytes gs = msg"
      "concat (wire c2) = concat (wire c1) @ enc_msg (isServer c1) mt gs"
      using write_whole [OF idle1 net mt, of msg] by metis
    have "rside c2 = rside c1" using rside_mw_Close [OF w(3)] rside_mw_Write [OF w(2)] by simp
    with False r(1) valid w show ?thesis by (auto simp: echoReadAll_turn_def)
  qed
  then obtain c2 gs where t: "echoReadAll_turn env grow wm c = (([], True), c2)" and rs: "rside c2 = rside c1"
    and gs: "idle c2" "gs \<noteq> []" "keys_ok gs" "frag_bytes gs = msg"
      "concat (wire c2) = concat (wire c1) @ enc_msg (isServer c1) mt gs" by blast
  have "ws_encodes True m (enc_msg True mt gs)" using gs m by (auto simp: ws_encodes_def)
  moreover have "concat (wire c2) = concat (wire c) @ enc_msg True mt gs"
    using gs(5) wsideD [OF r(4)] srv by simp
  moreover have "echo_ok env c2" "ws_ready False rest c2"
    using net gs(1) wsideD [OF r(4)] srv r(2,3) assms(2) rside_between [OF rs] rsideD [OF rs]
    by (simp_all add: echo_ok_def ws_ready_def)
  ultimately show ?thesis using t by blast
qed

section \<open>Text that is not UTF-8\<close>

lemma invalid_close_ok:
  assumes "isServer c" and "net_ok env" and "prompt env" and "\<not> closeSent c"
  shows "wire (invalid_close env c) = wire c @ [frame_bytes True [] True CloseMessage (FormatCloseMessage 1007 [])]"
    and "closeSent (invalid_close env c)"
proof -
  have m: "we_mutex env i k" for i k using assms(3) by (simp add: prompt_def)
  have "isControl CloseMessage" by (simp add: isControl_def)
  with assms m show "wire (invalid_close env c) = wire c @ [frame_bytes True [] True CloseMessage (FormatCloseMessage 1007 [])]"
    "closeSent (invalid_close env c)"
    by (simp_all add: invalid_close_def WriteControl_def control_frame_def timer_for_def net_Write_def net_ok_def
        frame_bytes_def len_code_def Let_def or.commute)
qed

lemma echoCopy_turn_invalid:
  assumes "echo_ok env c" and "ws_ready False (bs @ rest) c" and "data_msg (TextMessage, msg)"
    and "ws_encodes False (TextMessage, msg) bs" and "\<not> utf8_Valid msg" and "prompt env"
  shows "\<exists>gs c'. echoCopy_turn env wo c = (([(''Copy:'', Some errInvalidUTF8)], False), c') \<and> closeSent c' \<and>
    concat (wire c') = concat (wire c) @ enc_frags True TextMessage gs @
      frame_bytes True [] True CloseMessage (FormatCloseMessage 1007 [])"
proof -
  define vs where "vs = [\<lparr>vState = 0, vX = 0\<rparr>, \<lparr>vState = 0, vX = 0 :: rune32\<rparr>]"
  obtain r c1 c2 hs q where nr: "NextReader env c = (Inr (TextMessage, r), c1)" and w1: "wside c1 = wside c"
    and nw: "NextWriter env TextMessage c1 = (Inr (writeSeq c1), c1\<lparr>writeFrameType := TextMessage\<rparr>)"
    and cp: "(if wo then Copy_loop env (writeSeq c1) r vs (c1\<lparr>writeFrameType := TextMessage\<rparr>)
      else copy_ReadFrom env (writeSeq c1) r vs (c1\<lparr>writeFrameType := TextMessage\<rparr>)) = (copy_result vs msg, c2)"
    and cpd: "copied (c1\<lparr>writeFrameType := TextMessage\<rparr>) hs q c2"
    using echoCopy_starts [OF assms(1-4), of wo] unfolding vs_def if_P [OF refl] by metis
  have rej: "copy_result vs msg = Some errInvalidUTF8"
    using assms(5) by (simp add: copy_result_def rejected_def vs_def run8_Valid)
  have "isServer c2" and c2: "\<not> closeSent c2"
    "concat (wire c2) = concat (wire c) @ enc_frags True TextMessage hs"
    using cpd wsideD [OF w1] assms(1) by (auto simp: copied_def sent_frags_def writing_def echo_ok_def)
  note close = invalid_close_ok [OF this(1) _ assms(6) c2(1)]
  have "echoCopy_turn env wo c = (([(''Copy:'', Some errInvalidUTF8)], False), invalid_close env c2)"
    using nr nw cp rej by (simp add: echoCopy_turn_def vs_def [symmetric] cong: if_cong)
  with close c2(2) assms(1) show ?thesis by (auto simp: echo_ok_def)
qed

section \<open>Whole conversations\<close>

locale echo_turns =
  fixes turn :: "ws_conn \<Rightarrow> (echo_log list \<times> bool) \<times> ws_conn"
    and loop :: "ws_conn \<Rightarrow> echo_log list \<times> ws_conn"
    and wok :: "ws_conn \<Rightarrow> bool"
  assumes loop_unfold: "loop c = (case turn c of
        ((logs, False), c) \<Rightarrow> (logs, c)
      | ((logs, True), c) \<Rightarrow> (case loop c of (logs', c) \<Rightarrow> (logs @ logs', c)))"
    and turn_echo: "wok c \<Longrightarrow> ws_ready False (bs @ rest) c \<Longrightarrow> echo_good m \<Longrightarrow> ws_encodes False m bs \<Longrightarrow>
      \<exists>c' bs'. turn c = (([], True), c') \<and> wok c' \<and> ws_ready False rest c' \<and> ws_encodes True m bs' \<and>
        concat (wire c') = concat (wire c) @ bs'"
    and turn_end: "ws_ready False [] c \<Longrightarrow>
      \<exists>c'. turn c = (([(''NextReader:'', Some errUnexpectedEOF)], False), c') \<and> wire c' = wire c"
begin

lemma loop_echo:
  "wok c \<Longrightarrow> list_all echo_good ms \<Longrightarrow> list_all2 (ws_encodes False) ms bss \<Longrightarrow> ws_ready False (concat bss) c \<Longrightarrow>
     \<exists>c' bss'. loop c = ([(''NextReader:'', Some errUnexpectedEOF)], c') \<and> list_all2 (ws_encodes True) ms bss' \<and>
       concat (wire c') = concat (wire c) @ concat bss'"
proof (induction ms arbitrary: bss c)
  case Nil
  then have "ws_ready False [] c" by simp
  from turn_end [OF this] show ?case by (subst loop_unfold) auto
next
  case (Cons m ms)
  then obtain bs bss1 where b: "bss = bs # bss1" "ws_encodes False m bs" "list_all2 (ws_encodes False) ms bss1"
    by (auto simp: list_all2_Cons1)
  obtain c1 bs' where t: "turn c = (([], True), c1)" "wok c1" "ws_ready False (concat bss1) c1"
      "ws_encodes True m bs'" "concat (wire c1) = concat (wire c) @ bs'"
    using turn_echo [of c bs "concat bss1" m] Cons.prems b by auto
  obtain c2 bss' where "loop c1 = ([(''NextReader:'', Some errUnexpectedEOF)], c2)"
      "list_all2 (ws_encodes True) ms bss'" "concat (wire c2) = concat (wire c1) @ concat bss'"
    using Cons.IH [OF t(2) _ b(3) t(3)] Cons.prems by auto
  with t show ?case
    by (intro exI [of _ c2] exI [of _ "bs' # bss'"]) (simp add: loop_unfold [of c])
qed

end

lemma ready_end:
  "ws_ready False [] c \<Longrightarrow> \<exists>c'. NextReader env c = (Inl errUnexpectedEOF, c') \<and> wire c' = wire c"
  by (rule NextReader_end [of False c env]) (auto simp: ws_ready_def dest: wsideD)

interpretation copy: echo_turns "echoCopy_turn env wo" "echoCopy_loop env wo" "echo_ok env" for env wo
proof unfold_locales
  show "echoCopy_loop env wo c = (case echoCopy_turn env wo c of
        ((logs, False), c) \<Rightarrow> (logs, c)
      | ((logs, True), c) \<Rightarrow> (case echoCopy_loop env wo c of (logs', c) \<Rightarrow> (logs @ logs', c)))" for c
    by (rule echoCopy_loop.simps)
  show "ws_ready False [] c \<Longrightarrow> \<exists>c'. echoCopy_turn env wo c =
      (([(''NextReader:'', Some errUnexpectedEOF)], False), c') \<and> wire c' = wire c" for c
    using ready_end [of c env] by (auto simp: echoCopy_turn_def errUnexpectedEOF_def)
qed (rule echoCopy_turn_ok)

interpretation whole: echo_turns "echoReadAll_turn env grow wm" "echoReadAll_loop env grow wm" "echo_ok env" for env grow wm
proof unfold_locales
  show "echoReadAll_loop env grow wm c = (case echoReadAll_turn env grow wm c of
        ((logs, False), c) \<Rightarrow> (logs, c)
      | ((logs, True), c) \<Rightarrow> (case echoReadAll_loop env grow wm c of (logs', c) \<Rightarrow> (logs @ logs', c)))" for c
    by (rule echoReadAll_loop.simps)
  show "ws_ready False [] c \<Longrightarrow> \<exists>c'. echoReadAll_turn env grow wm c =
      (([(''NextReader:'', Some errUnexpectedEOF)], False), c') \<and> wire c' = wire c" for c
    using ready_end [of c env] by (auto simp: echoReadAll_turn_def ReadMessage_def errUnexpectedEOF_def)
qed (rule echoReadAll_turn_ok)

section \<open>From the upgrade to the end\<close>

lemma rside_write_pieces: "write_pieces net ps c = (x, c') \<Longrightarrow> rside c' = rside c"
  by (auto simp: write_pieces_def net_Write_def Let_def split: prod.splits)

lemma ready_newConn: "ok_src src \<Longrightarrow> ws_ready s (concat (map fst src)) (newConn src (\<not> s) rs ws)"
  by (simp add: ws_ready_def between_def rd_ok_def newConn_def SetPingHandler_def SetPongHandler_def
      Let_def clean_def stream_def)

lemma upgrade_answer_ready:
  assumes "net_ok net" and "ok_src src"
  obtains w c where "upgrade_answer hs net u src r h = (Inr c, [NetWritten w])" and "echo_ok net c"
    and "ws_ready False (concat (map fst src)) c" and "wire c = [w]"
proof -
  define pr where "pr = selectSubprotocol hs u r h"
  define ps where "ps = response_pieces (computeAcceptKey hs (header_Get (rqHeader r) ''Sec-Websocket-Key'')) pr h"
  let ?c = "(newConn src True (uReadBufferSize u) (uWriteBufferSize u))\<lparr>subprotocol := pr\<rparr>"
  obtain w err c1 where p: "write_pieces net ps ?c = ((w, err), c1)" by (metis surj_pair)
  have i: "idle ?c" by (simp add: idle_newConn)
  note e = write_pieces_eq [OF p i]
  have "upgrade_answer hs net u src r h = (Inr c1, [NetWritten w])"
    using e(6) [OF assms(1)] p unfolding upgrade_answer_def Let_def pr_def [symmetric] ps_def [symmetric] by simp
  moreover have rs: "rside c1 = rside (newConn src (\<not> False) (uReadBufferSize u) (uWriteBufferSize u))"
    using rside_write_pieces [OF p] by (simp add: rside_def)
  have "ws_ready False (concat (map fst src)) c1"
    using ready_newConn [OF assms(2), of False "uReadBufferSize u" "uWriteBufferSize u"] rside_between [OF rs]
      rsideD(8) [OF rs] by (simp only: ws_ready_def)
  ultimately show ?thesis using that [of c1 w] e(1-3) assms(1) by (simp add: echo_ok_def)
qed

lemma echo_route_loop:
  assumes "echo_route path = Some h" and "upgrade_checks hs upgrader r = None" and "net_ok net" and "ok_src src"
  obtains w c loop where "h hs net grow (Hijacked src 0) r =
      (case loop c of (logs, c) \<Rightarrow> ([NetWritten w], logs, Some (ws_Close c)))"
    and "(\<exists>wo. loop = echoCopy_loop net wo) \<or> (\<exists>wm. loop = echoReadAll_loop net grow wm)"
    and "echo_ok net c" and "ws_ready False (concat (map fst src)) c" and "wire c = [w]"
proof -
  obtain w c where c: "upgrade_answer hs net upgrader src r None = (Inr c, [NetWritten w])" "echo_ok net c"
      "ws_ready False (concat (map fst src)) c" "wire c = [w]"
    using upgrade_answer_ready [OF assms(3,4)] .
  then have u: "with_upgrade hs net loop (Hijacked src 0) r =
      (case loop c of (logs, c) \<Rightarrow> ([NetWritten w], logs, Some (ws_Close c)))" for loop
    using assms(2) by (simp add: with_upgrade_def Upgrade_def)
  have "\<exists>loop. h hs net grow (Hijacked src 0) r = with_upgrade hs net loop (Hijacked src 0) r \<and>
      ((\<exists>wo. loop = echoCopy_loop net wo) \<or> (\<exists>wm. loop = echoReadAll_loop net grow wm))"
    using assms(1)
    by (auto simp: echo_route_def echoCopyWriterOnly_def echoCopyFull_def echoReadAllWriter_def
        echoReadAllWriteMessage_def echoCopy_def echoReadAll_def split: if_splits)
  then obtain loop where h: "h hs net grow (Hijacked src 0) r = with_upgrade hs net loop (Hijacked src 0) r"
      "(\<exists>wo. loop = echoCopy_loop net wo) \<or> (\<exists>wm. loop = echoReadAll_loop net grow wm)" by blast
  show ?thesis by (rule that [OF h(1) [unfolded u] h(2) c(2-4)])
qed

end
