(* ===== verification/Autobahn_Properties.thy ===== *)
theory Autobahn_Properties
  imports AutobahnEcho Ws_Properties
begin

text \<open>The properties of the UTF-8 decoder and of the echo server.\<close>

section \<open>The decoder\<close>

text \<open>C20: The table-driven decoder accepts a byte string exactly if it is the UTF-8 encoding of
  some sequence of code points, so neither overlong forms nor surrogates nor values above
  U+10FFFF; and this is also what utf8.Valid of the other two handlers decides.\<close>

theorem utf8_decoder_exact:
  "(fst (decode_all utf8Accept x bs) = utf8Accept) = (\<exists>cs. list_all code_point cs \<and> bs = utf8_text cs) \<and>
   (fst (decode_all utf8Accept x bs) = utf8Accept) = utf8_Valid bs"
  by (simp add: decode_all_Valid utf8_Valid_iff)

text \<open>Behind the bytes of a character the register of the decoder holds its code point.\<close>

theorem utf8_decoder_register:
  "code_point c \<Longrightarrow> decode_all utf8Accept x (encodeRune (int c)) = (utf8Accept, word_of_nat c)"
  by (rule decode_all_char)

section \<open>The echo\<close>

lemma ws_send_each_enc:
  assumes "net_ok env" and "list_all data_msg ms" and "send_messages env ms (newConn src False rs ws) = (errs, c)"
  obtains bss where "list_all2 (ws_encodes False) ms bss" and "concat (wire c) = concat bss"
proof -
  have w: "net_ok env \<and> idle (newConn src False rs ws) \<and> isServer (newConn src False rs ws) = False"
    using assms(1) idle_newConn by (simp add: newConn_start)
  from ws.send_each_enc [OF w assms(2)] assms(3) that show ?thesis
    by (auto simp: send_messages_eq newConn_start)
qed

lemma ws_recv_all_enc:
  assumes "list_all data_msg ms" and "list_all2 (ws_encodes True) ms bss" and "ok_src src" and "concat (map fst src) = concat bss"
  shows "read_messages env grow (length ms) (newConn src False rs ws) = map (\<lambda>(mt, d). (mt, d, None)) ms"
proof -
  have "ws_ready True (concat bss @ []) (newConn src (\<not> True) rs ws)"
    using between_newConn [OF assms(3), of True rs ws] assms(4) by simp
  from ws.recv_all_enc [OF this assms(1,2), of env grow] show ?thesis
    by (auto simp: read_messages_eq split_def)
qed

text \<open>C21: Whatever a client sends to any of the four routes of the echo server comes back. For
  every sequence of messages, text being UTF-8, written by a client and delivered in any
  pieces behind a handshake that the server accepts: the handler answers the handshake,
  reports nothing but the end of the stream, closes, and what it wrote behind the
  response, read by the client in any pieces, is the same sequence of messages.\<close>

theorem echo_roundtrip:
  assumes "net_ok env" and "net_ok net" and "list_all echo_good ms"
    and "send_messages env ms (newConn src False rs ws) = (errs, cl)"
    and "echo_route path = Some h" and "upgrade_checks hs upgrader r = None"
    and "ok_src src1" and "concat (map fst src1) = concat (wire cl)"
  shows "\<exists>w sv out. h hs net grow (Hijacked src1 0) r =
      ([NetWritten w], [(''NextReader:'', Some errUnexpectedEOF)], Some sv) \<and> netClosed sv \<and>
    concat (wire sv) = w @ out \<and>
    (\<forall>src2. ok_src src2 \<longrightarrow> concat (map fst src2) = out \<longrightarrow>
      read_messages env' grow' (length ms) (newConn src2 False rs' ws') = map (\<lambda>(mt, d). (mt, d, None)) ms)"
proof -
  have data: "list_all data_msg ms" using assms(3) by (simp add: list_all_iff echo_good_def)
  obtain bss where b: "list_all2 (ws_encodes False) ms bss" "concat (wire cl) = concat bss"
    using ws_send_each_enc [OF assms(1) data assms(4)] .
  obtain w c loop where h: "h hs net grow (Hijacked src1 0) r =
      (case loop c of (logs, c) \<Rightarrow> ([NetWritten w], logs, Some (ws_Close c)))"
    and loop: "(\<exists>wo. loop = echoCopy_loop net wo) \<or> (\<exists>wm. loop = echoReadAll_loop net grow wm)"
    and c: "echo_ok net c" "ws_ready False (concat (map fst src1)) c" "wire c = [w]"
    using echo_route_loop [OF assms(5,6,2,7)] .
  have ready: "ws_ready False (concat bss) c" using c(2) assms(8) b(2) by simp
  obtain sv bss' where sv: "loop c = ([(''NextReader:'', Some errUnexpectedEOF)], sv)"
      "list_all2 (ws_encodes True) ms bss'" "concat (wire sv) = concat (wire c) @ concat bss'"
    using loop copy.loop_echo [OF c(1) assms(3) b(1) ready] whole.loop_echo [OF c(1) assms(3) b(1) ready] by blast
  show ?thesis
  proof (intro exI conjI allI impI)
    show "h hs net grow (Hijacked src1 0) r =
      ([NetWritten w], [(''NextReader:'', Some errUnexpectedEOF)], Some (ws_Close sv))" by (simp add: h sv(1))
    show "netClosed (ws_Close sv)" "concat (wire (ws_Close sv)) = w @ concat bss'"
      using sv(3) c(3) by (simp_all add: ws_Close_def)
  qed (rule ws_recv_all_enc [OF data sv(2)])
qed

theorem echo_roundtrip_witness:
  "\<exists>w sv out. echoCopyFull hs_sample ws_sample_env
      (Hijacked (map (\<lambda>b. ([b], None)) (concat (wire (snd (send_messages ws_sample_env [(1, [104, 105]), (2, [255])]
        (newConn [] False 0 7)))))) 0) sample_request =
      ([NetWritten w], [(''NextReader:'', Some errUnexpectedEOF)], Some sv) \<and> concat (wire sv) = w @ out \<and>
    read_messages ws_sample_env id 2 (newConn (map (\<lambda>b. ([b], None)) out) False 0 0) =
      [(1, [104, 105], None), (2, [255], None)]"
proof -
  let ?ms = "[(1, [104, 105]), (2, [255])] :: (int \<times> bytes) list"
  define cl where "cl = send_messages ws_sample_env ?ms (newConn [] False 0 7)"
  have s: "send_messages ws_sample_env ?ms (newConn [] False 0 7) = (fst cl, snd cl)" by (simp add: cl_def)
  have m: "list_all echo_good ?ms" by (simp add: echo_good_def data_msg_def isData_def utf8_Valid.simps)
  have p: "echo_route ''/f'' = Some (\<lambda>hs net grow. echoCopyFull hs net)" by (simp add: echo_route_def)
  have u: "upgrade_checks hs_sample upgrader sample_request = None"
    using sample_checks by (simp add: upgrade_checks_None upgrader_def)
  note e = echo_roundtrip [OF net_ok_sample net_ok_sample m s p u byte_reads, of ws_sample_env id 0 0]
  then obtain w sv out where "echoCopyFull hs_sample ws_sample_env
        (Hijacked (map (\<lambda>b. ([b], None)) (concat (wire (snd cl)))) 0) sample_request =
      ([NetWritten w], [(''NextReader:'', Some errUnexpectedEOF)], Some sv)" "concat (wire sv) = w @ out"
      "read_messages ws_sample_env id (length ?ms) (newConn (map (\<lambda>b. ([b], None)) out) False 0 0) =
        map (\<lambda>(mt, d). (mt, d, None)) ?ms"
    using byte_reads by blast
  moreover have "length ?ms = 2" by simp
  ultimately show ?thesis unfolding cl_def
    by (intro exI [of _ w] exI [of _ sv] exI [of _ out]) (simp only: list.map prod.case)
qed

text \<open>C22: Text that is not UTF-8 is never echoed as a message: the handlers that copy break
  off, having written no more than unfinished fragments of it, send a close frame with
  code 1007 and log the error.\<close>

theorem echo_invalid_closed:
  assumes "echo_ok env c" and "prompt env" and "ws_ready False (bs @ rest) c"
    and "data_msg (TextMessage, msg)" and "ws_encodes False (TextMessage, msg) bs" and "\<not> utf8_Valid msg"
  shows "\<exists>gs c'. echoCopy_loop env wo c = ([(''Copy:'', Some errInvalidUTF8)], c') \<and> closeSent c' \<and>
    concat (wire c') = concat (wire c) @ enc_frags True TextMessage gs @
      frame_bytes True [] True CloseMessage (FormatCloseMessage 1007 [])"
  using echoCopy_turn_invalid [OF assms(1,3-6,2), of wo]
  by (auto simp: echoCopy_loop.simps [of env wo c])

theorem echo_invalid_closed_witness:
  "\<exists>gs c'. echoCopy_loop ws_sample_env True
       (newConn [(frame_bytes False [1, 2, 3, 4] True TextMessage [0x48, 0xFF], None)] True 0 0) =
     ([(''Copy:'', Some errInvalidUTF8)], c') \<and> closeSent c' \<and>
     concat (wire c') = enc_frags True TextMessage gs @ frame_bytes True [] True CloseMessage [3, 239]"
proof -
  let ?f = "frame_bytes False [1, 2, 3, 4] True TextMessage [0x48, 0xFF]"
  let ?c = "newConn [(?f, None)] True 0 0"
  have "ok_src [(?f, None)]" by (simp add: ok_src_def frame_bytes_def)
  then have r: "ws_ready False (?f @ []) ?c" using ready_newConn [of "[(?f, None)]" False 0 0] by simp
  have c: "echo_ok ws_sample_env ?c" using net_ok_sample idle_newConn by (simp add: echo_ok_def newConn_start)
  have d: "data_msg (TextMessage, [0x48, 0xFF])" by (simp add: data_msg_def isData_def)
  have e: "ws_encodes False (TextMessage, [0x48, 0xFF]) ?f"
    by (auto simp: ws_encodes_def keys_ok_def intro!: exI [of _ "[([1, 2, 3, 4], [0x48, 0xFF])]"])
  have v: "\<not> utf8_Valid [0x48, 0xFF]" by (simp add: utf8_Valid.simps decodeRune_def)
  have "FormatCloseMessage 1007 [] = [3, 239]" by code_simp
  with echo_invalid_closed [OF c prompt_sample r d e v, of True] show ?thesis by (simp add: newConn_start)
qed

end
