(* ===== verification/Chat.thy ===== *)
theory Chat
  imports WsHandshake "HOL-Library.Sublist"
begin

text \<open>
  The chat server (\<open>websocket/examples/chat/conn.go\<close> and \<open>hub.go\<close>): the hub goroutine, and for every
  connection the goroutines \<open>readPump\<close> and \<open>writePump\<close>, as one step relation. The channels
  \<open>register\<close>, \<open>unregister\<close> and \<open>broadcast\<close> have no buffer: a send is one step together with its
  receipt by the hub. The channel \<open>send\<close> of a connection holds 256 messages. What the
  network delivers and whether a write succeeds is left open. A connection is a number.
\<close>

section \<open>State\<close>

text \<open>
  Where the goroutines are: \<open>serveWs\<close> and the \<open>readPump\<close> it ends in, and \<open>writePump\<close>, which waits in
  its \<open>select\<close>. \<open>hubLoop\<close> is the message being broadcast with the connections the \<open>range\<close>
  loop has still to visit. The last five fields record what happened.
\<close>

datatype rpc = RIdle | RRegister | RRead | RSend bytes | RUnregister | RDone
datatype wpc = WIdle | WSelect | WDone

record chat =
  connections :: "nat set"
  hubLoop :: "(bytes \<times> nat set) option"
  sendQ :: "nat \<Rightarrow> bytes list"
  sendClosed :: "nat \<Rightarrow> bool"
  panicked :: bool
  rdr :: "nat \<Rightarrow> rpc"
  wtr :: "nat \<Rightarrow> wpc"
  bcast :: "(nat \<times> bytes) list"
  joined :: "nat \<Rightarrow> nat"
  taken :: "nat \<Rightarrow> bytes list"
  sent :: "nat \<Rightarrow> (int \<times> bytes) list"
  heard :: "nat \<Rightarrow> bytes list"

definition chat_start :: chat where
  "chat_start = \<lparr>connections = {}, hubLoop = None, sendQ = (\<lambda>_. []), sendClosed = (\<lambda>_. False), panicked = False,
     rdr = (\<lambda>_. RIdle), wtr = (\<lambda>_. WIdle), bcast = [], joined = (\<lambda>_. 0), taken = (\<lambda>_. []), sent = (\<lambda>_. []),
     heard = (\<lambda>_. [])\<rparr>"

section \<open>The hub\<close>

text \<open>\<open>close(c.send)\<close> and \<open>c.send <- m\<close> panic on a closed channel.\<close>

definition close_send :: "nat \<Rightarrow> chat \<Rightarrow> chat" where
  "close_send c s =
     (if sendClosed s c then s\<lparr>panicked := True\<rparr> else s\<lparr>sendClosed := (sendClosed s)(c := True)\<rparr>)"

definition hub_register :: "nat \<Rightarrow> chat \<Rightarrow> chat" where
  "hub_register c s = s\<lparr>connections := insert c (connections s), joined := (joined s)(c := length (bcast s))\<rparr>"

definition hub_unregister :: "nat \<Rightarrow> chat \<Rightarrow> chat" where
  "hub_unregister c s =
     (if c \<in> connections s then close_send c (s\<lparr>connections := connections s - {c}\<rparr>) else s)"

text \<open>One turn of the loop over the connections: the \<open>select\<close> with a \<open>default\<close>.\<close>

definition hub_deliver :: "bytes \<Rightarrow> nat \<Rightarrow> chat \<Rightarrow> chat" where
  "hub_deliver m c s =
     (if sendClosed s c then s\<lparr>panicked := True\<rparr>
      else if length (sendQ s c) < 256 then s\<lparr>sendQ := (sendQ s)(c := sendQ s c @ [m])\<rparr>
      else (let s = close_send c s in s\<lparr>connections := connections s - {c}\<rparr>))"

section \<open>The pumps\<close>

text \<open>\<open>connection.write\<close>: when it fails \<open>writePump\<close> returns.\<close>

definition conn_wrote :: "nat \<Rightarrow> int \<Rightarrow> bytes \<Rightarrow> bool \<Rightarrow> chat \<Rightarrow> chat" where
  "conn_wrote c mt payload ok s =
     (if ok then s\<lparr>sent := (sent s)(c := sent s c @ [(mt, payload)])\<rparr>
      else s\<lparr>wtr := (wtr s)(c := WDone)\<rparr>)"

text \<open>
  \<open>serveWs\<close>: what it does to the HTTP response, the connection it made, and the new state. The WebSocket
  connection is set up by \<open>readPump\<close>; deadlines of reads belong to the network.
\<close>

definition chat_upgrader :: Upgrader where
  "chat_upgrader = \<lparr>HandshakeTimeout = 0, uReadBufferSize = 1024, uWriteBufferSize = 1024, uSubprotocols = None,
     uError = False, CheckOrigin = None\<rparr>"

definition maxMessageSize :: int where
  "maxMessageSize = 512"

definition readPump_setup :: "ws_conn \<Rightarrow> ws_conn" where
  "readPump_setup ws = SetPongHandler (Some (\<lambda>_. None)) (SetReadLimit maxMessageSize ws)"

definition new_connection :: "nat \<Rightarrow> chat \<Rightarrow> chat" where
  "new_connection c s = s\<lparr>rdr := (rdr s)(c := RRegister)\<rparr>"

definition serveWs :: "hs_env \<Rightarrow> ws_env \<Rightarrow> hijack \<Rightarrow> string \<Rightarrow> request \<Rightarrow> nat \<Rightarrow> chat \<Rightarrow>
    hs_effect list \<times> ws_conn option \<times> chat" where
  "serveWs hs net w meth r c s =
     (if meth \<noteq> ''GET'' then ([HttpError 405], None, s)
      else (case Upgrade hs net chat_upgrader w r None of
              (Inl err, eff) \<Rightarrow> (eff, None, s)
            | (Inr ws, eff) \<Rightarrow> (eff, Some (readPump_setup ws), new_connection c s)))"

inductive hub_step :: "chat \<Rightarrow> chat \<Rightarrow> bool" where
  register: "hubLoop s = None \<Longrightarrow> rdr s c = RRegister \<Longrightarrow>
    hub_step s ((hub_register c s)\<lparr>rdr := (rdr s)(c := RRead), wtr := (wtr s)(c := WSelect)\<rparr>)"
| unregister: "hubLoop s = None \<Longrightarrow> rdr s c = RUnregister \<Longrightarrow>
    hub_step s ((hub_unregister c s)\<lparr>rdr := (rdr s)(c := RDone)\<rparr>)"
| broadcast: "hubLoop s = None \<Longrightarrow> rdr s c = RSend m \<Longrightarrow>
    hub_step s (s\<lparr>hubLoop := Some (m, connections s), bcast := bcast s @ [(c, m)], rdr := (rdr s)(c := RRead)\<rparr>)"
| deliver: "hubLoop s = Some (m, C) \<Longrightarrow> c \<in> C \<Longrightarrow>
    hub_step s ((hub_deliver m c s)\<lparr>hubLoop := Some (m, C - {c})\<rparr>)"
| loop_end: "hubLoop s = Some (m, {}) \<Longrightarrow> hub_step s (s\<lparr>hubLoop := None\<rparr>)"

text \<open>
  The step \<open>serve\<close> is a request that \<open>serveWs\<close> accepts; the others leave the state as it was
  (\<open>serveWs_steps\<close>). A message may have any size here; \<open>readPump_setup\<close> bounds it by 512 bytes.
\<close>

inductive pump_step :: "chat \<Rightarrow> chat \<Rightarrow> bool" where
  serve: "rdr s c = RIdle \<Longrightarrow> pump_step s (new_connection c s)"
| read: "rdr s c = RRead \<Longrightarrow>
    pump_step s (s\<lparr>rdr := (rdr s)(c := RSend m), heard := (heard s)(c := heard s c @ [m])\<rparr>)"
| read_fails: "rdr s c = RRead \<Longrightarrow> pump_step s (s\<lparr>rdr := (rdr s)(c := RUnregister)\<rparr>)"
| take_message: "wtr s c = WSelect \<Longrightarrow> sendQ s c = m # q \<Longrightarrow>
    pump_step s (conn_wrote c 1 m ok (s\<lparr>sendQ := (sendQ s)(c := q), taken := (taken s)(c := taken s c @ [m])\<rparr>))"
| take_closed: "wtr s c = WSelect \<Longrightarrow> sendQ s c = [] \<Longrightarrow> sendClosed s c \<Longrightarrow>
    pump_step s ((conn_wrote c 8 [] ok s)\<lparr>wtr := (wtr s)(c := WDone)\<rparr>)"
| tick_ping: "wtr s c = WSelect \<Longrightarrow> pump_step s (conn_wrote c 9 [] ok s)"

inductive chat_reach :: "chat \<Rightarrow> bool" where
  start: "chat_reach chat_start"
| hub: "chat_reach s \<Longrightarrow> hub_step s s' \<Longrightarrow> chat_reach s'"
| pump: "chat_reach s \<Longrightarrow> pump_step s s' \<Longrightarrow> chat_reach s'"

lemma serveWs_steps:
  "rdr s c = RIdle \<Longrightarrow> serveWs hs net w meth r c s = (eff, ws, s') \<Longrightarrow>
     (if ws = None then s' = s else pump_step s s' \<and> meth = ''GET'' \<and> readLimit (the ws) = 512)"
  by (auto simp: serveWs_def readPump_setup_def SetPongHandler_def SetReadLimit_def maxMessageSize_def serve
      split: prod.splits sum.splits if_splits)

section \<open>Invariant\<close>

definition texts :: "(int \<times> bytes) list \<Rightarrow> bytes list" where
  "texts ws = map snd (filter (\<lambda>w. fst w = 1) ws)"

definition awaited :: "chat \<Rightarrow> nat \<Rightarrow> bytes list" where
  "awaited s c = (case hubLoop s of Some (m, C) \<Rightarrow> if c \<in> C then [m] else [] | None \<Rightarrow> [])"

definition offered :: "chat \<Rightarrow> nat \<Rightarrow> bytes list" where
  "offered s c = map snd (drop (joined s c) (bcast s))"

definition unsent :: "rpc \<Rightarrow> bytes list" where
  "unsent r = (case r of RSend m \<Rightarrow> [m] | _ \<Rightarrow> [])"

text \<open>The hub: whom it serves, and the channels it may still use.\<close>

definition hub_inv :: "chat \<Rightarrow> bool" where
  "hub_inv s \<longleftrightarrow> \<not> panicked s \<and> finite (connections s) \<and>
     (\<forall>c\<in>connections s. \<not> sendClosed s c \<and> rdr s c \<notin> {RIdle, RRegister, RDone}) \<and>
     (\<forall>m C. hubLoop s = Some (m, C) \<longrightarrow> C \<subseteq> connections s) \<and>
     (\<forall>c. rdr s c \<in> {RIdle, RRegister} \<longrightarrow> \<not> sendClosed s c) \<and>
     (\<forall>c. length (sendQ s c) \<le> 256)"

text \<open>One connection: fresh, or with the messages that were offered to it in order.\<close>

definition conn_inv :: "chat \<Rightarrow> nat \<Rightarrow> bool" where
  "conn_inv s c \<longleftrightarrow>
     (rdr s c \<in> {RIdle, RRegister} \<longrightarrow> wtr s c = WIdle \<and> sendQ s c = [] \<and> taken s c = [] \<and> sent s c = []) \<and>
     (c \<in> connections s \<longrightarrow> taken s c @ sendQ s c @ awaited s c = offered s c) \<and>
     prefix (taken s c @ sendQ s c) (offered s c) \<and> joined s c \<le> length (bcast s) \<and>
     (if wtr s c = WDone then prefix (texts (sent s c)) (taken s c) else texts (sent s c) = taken s c) \<and>
     map snd (filter (\<lambda>x. fst x = c) (bcast s)) @ unsent (rdr s c) = heard s c"

lemmas hub_defs = hub_register_def hub_unregister_def hub_deliver_def close_send_def Let_def

lemma hub_inv_start: "hub_inv chat_start"
  by (simp add: hub_inv_def chat_start_def)

lemma hub_inv_hub: "hub_step s s' \<Longrightarrow> hub_inv s \<Longrightarrow> hub_inv s'"
  by (induction rule: hub_step.induct) (auto simp: hub_inv_def hub_defs)

lemma hub_inv_pump: "pump_step s s' \<Longrightarrow> hub_inv s \<Longrightarrow> hub_inv s'"
proof (induction rule: pump_step.induct)
  case (take_message s c m q ok)
  then have "length q \<le> 256" unfolding hub_inv_def by (metis Suc_leD length_Cons)
  with take_message show ?case by (auto simp: hub_inv_def conn_wrote_def)
qed (auto simp: hub_inv_def conn_wrote_def new_connection_def)

lemma texts_simps [simp]: "texts [] = []" "texts (ws @ [(mt, m)]) = (if mt = 1 then texts ws @ [m] else texts ws)"
  by (simp_all add: texts_def)

lemma conn_inv_start: "conn_inv chat_start c"
  by (simp add: conn_inv_def chat_start_def awaited_def offered_def unsent_def)

lemma conn_inv_pump: "pump_step s s' \<Longrightarrow> conn_inv s x \<Longrightarrow> conn_inv s' x"
proof (induction rule: pump_step.induct)
  case (take_message s c m q ok)
  then show ?case
    by (cases "x = c") (auto simp: conn_inv_def conn_wrote_def new_connection_def awaited_def offered_def intro: prefix_prefix)
qed (auto simp: conn_inv_def conn_wrote_def new_connection_def awaited_def offered_def unsent_def split: if_splits)

lemma conn_inv_hub: "hub_step s s' \<Longrightarrow> hub_inv s \<Longrightarrow> conn_inv s x \<Longrightarrow> conn_inv s' x"
proof (induction rule: hub_step.induct)
  case (register s c)
  then show ?case by (cases "x = c") (auto simp: conn_inv_def hub_defs awaited_def offered_def unsent_def)
next
  case (unregister s c)
  then show ?case by (cases "x = c") (auto simp: conn_inv_def hub_defs awaited_def offered_def unsent_def hub_inv_def)
next
  case (broadcast s c m)
  then show ?case by (cases "x = c") (auto simp: conn_inv_def awaited_def offered_def unsent_def intro: prefix_prefix)
next
  case (deliver s m C c)
  then show ?case by (cases "x = c") (auto simp: conn_inv_def hub_defs awaited_def offered_def unsent_def hub_inv_def)
next
  case (loop_end s m)
  then show ?case by (auto simp: conn_inv_def awaited_def offered_def unsent_def)
qed


lemma chat_reach_inv: "chat_reach s \<Longrightarrow> hub_inv s \<and> (\<forall>c. conn_inv s c)"
  by (induction rule: chat_reach.induct)
    (blast intro: hub_inv_start hub_inv_hub hub_inv_pump conn_inv_start conn_inv_hub conn_inv_pump)+

lemma conn_inv_texts: "conn_inv s c \<Longrightarrow> prefix (texts (sent s c)) (taken s c)"
  by (auto simp: conn_inv_def split: if_splits)

lemma conn_inv_offered: "conn_inv s c \<Longrightarrow> prefix (texts (sent s c)) (offered s c)"
  using conn_inv_texts [of s c] unfolding conn_inv_def by (meson prefix_order.trans prefixI)

lemma conn_inv_caught_up:
  assumes "conn_inv s c" and "c \<in> connections s" and "hubLoop s = None" and "sendQ s c = []" and "wtr s c \<noteq> WDone"
  shows "texts (sent s c) = offered s c"
  using assms by (auto simp: conn_inv_def awaited_def)

section \<open>The loop of the hub ends\<close>

definition serving :: "chat \<Rightarrow> nat" where
  "serving s = (case hubLoop s of Some (m, C) \<Rightarrow> Suc (card C) | None \<Rightarrow> 0)"

lemma hub_deliver_keeps: "rdr (hub_deliver m c s) = rdr s" "bcast (hub_deliver m c s) = bcast s"
  by (simp_all add: hub_deliver_def close_send_def Let_def)

lemma hub_turn:
  assumes "hub_inv s" and "hubLoop s = Some (m, C)"
  obtains s' where "hub_step s s'" and "rdr s' = rdr s" and "bcast s' = bcast s" and "serving s' < serving s"
proof (cases "C = {}")
  case True
  with assms have "hub_step s (s\<lparr>hubLoop := None\<rparr>)" by (simp add: loop_end)
  then show ?thesis by (rule that) (use assms in \<open>simp_all add: serving_def\<close>)
next
  case False
  then obtain c where c: "c \<in> C" by blast
  have "finite C" using assms finite_subset by (auto simp: hub_inv_def)
  with c have less: "card (C - {c}) < card C" by (rule card_Diff1_less [rotated])
  from deliver [OF assms(2) c] show ?thesis
    by (rule that) (use less assms(2) in \<open>simp_all add: hub_deliver_keeps serving_def\<close>)
qed

lemma hub_finishes:
  assumes "hub_inv s"
  shows "\<exists>s'. hub_step\<^sup>*\<^sup>* s s' \<and> hubLoop s' = None \<and> rdr s' = rdr s \<and> bcast s' = bcast s"
  using assms
proof (induction "serving s" arbitrary: s rule: less_induct)
  case less
  show ?case
  proof (cases "hubLoop s")
    case (Some mC)
    then obtain m C where "hubLoop s = Some (m, C)" by (cases mC) auto
    from hub_turn [OF less.prems this] obtain s1
      where s1: "hub_step s s1" "rdr s1 = rdr s" "bcast s1 = bcast s" "serving s1 < serving s" .
    with less.hyps [OF s1(4) hub_inv_hub [OF s1(1) less.prems]] show ?thesis
      by (metis converse_rtranclp_into_rtranclp)
  qed auto
qed

text \<open>Whoever waits for the hub is received.\<close>

lemma hub_unregister_gone: "c \<notin> connections (hub_unregister c s)"
  by (simp add: hub_unregister_def close_send_def)

lemma hub_receives:
  assumes "hubLoop s = None" and "rdr s c \<in> {RRegister, RUnregister} \<or> (\<exists>m. rdr s c = RSend m)"
  shows "\<exists>s'. hub_step s s' \<and>
    (case rdr s c of RSend m \<Rightarrow> rdr s' c = RRead \<and> bcast s' = bcast s @ [(c, m)]
     | RRegister \<Rightarrow> rdr s' c = RRead \<and> c \<in> connections s' | _ \<Rightarrow> rdr s' c = RDone \<and> c \<notin> connections s')"
proof (cases "rdr s c")
  case RRegister
  with register [OF assms(1) RRegister] show ?thesis by (intro exI conjI) (auto simp: hub_register_def)
next
  case (RSend m)
  with broadcast [OF assms(1) RSend] show ?thesis by (intro exI conjI) auto
next
  case RUnregister
  with unregister [OF assms(1) RUnregister] show ?thesis
    by (intro exI conjI) (auto simp: hub_unregister_gone)
qed (use assms in auto)

section \<open>A run\<close>

text \<open>One connection joins, says \<open>A\<close> and hears it.\<close>

definition chat_spoken :: chat where
  "chat_spoken = chat_start\<lparr>connections := {0}, rdr := (\<lambda>_. RIdle)(0 := RRead), wtr := (\<lambda>_. WIdle)(0 := WSelect),
     bcast := [(0, [65])], taken := (\<lambda>_. [])(0 := [[65]]), sent := (\<lambda>_. [])(0 := [(1, [65])]),
     heard := (\<lambda>_. [])(0 := [[65]]), sendQ := (\<lambda>_. [])(0 := []), joined := (\<lambda>_. 0)(0 := 0)\<rparr>"

lemma chat_spoken_reach: "chat_reach chat_spoken"
proof -
  note run = chat_start_def hub_register_def hub_deliver_def
  have "chat_reach (chat_start\<lparr>rdr := (\<lambda>_. RIdle)(0 := RRegister)\<rparr>)"
    using pump [OF start serve [of chat_start 0]] by (simp add: run new_connection_def)
  from hub [OF this register [of _ 0]]
  have "chat_reach (chat_start\<lparr>connections := {0}, joined := (\<lambda>_. 0)(0 := 0), rdr := (\<lambda>_. RIdle)(0 := RRead),
     wtr := (\<lambda>_. WIdle)(0 := WSelect)\<rparr>)"
    by (simp add: run)
  from pump [OF this read [of _ 0 "[65]"]]
  have "chat_reach (chat_start\<lparr>connections := {0}, joined := (\<lambda>_. 0)(0 := 0), rdr := (\<lambda>_. RIdle)(0 := RSend [65]),
     wtr := (\<lambda>_. WIdle)(0 := WSelect), heard := (\<lambda>_. [])(0 := [[65]])\<rparr>)"
    by (simp add: run)
  from hub [OF this broadcast [of _ 0 "[65]"]]
  have "chat_reach (chat_start\<lparr>connections := {0}, joined := (\<lambda>_. 0)(0 := 0), rdr := (\<lambda>_. RIdle)(0 := RRead),
     wtr := (\<lambda>_. WIdle)(0 := WSelect), heard := (\<lambda>_. [])(0 := [[65]]), bcast := [(0, [65])],
     hubLoop := Some ([65], {0})\<rparr>)"
    by (simp add: run)
  from hub [OF this deliver [of _ "[65]" "{0}" 0]]
  have "chat_reach (chat_start\<lparr>connections := {0}, joined := (\<lambda>_. 0)(0 := 0), rdr := (\<lambda>_. RIdle)(0 := RRead),
     wtr := (\<lambda>_. WIdle)(0 := WSelect), heard := (\<lambda>_. [])(0 := [[65]]), bcast := [(0, [65])],
     sendQ := (\<lambda>_. [])(0 := [[65]]), hubLoop := Some ([65], {})\<rparr>)"
    by (simp add: run)
  from hub [OF this loop_end [of _ "[65]"]]
  have "chat_reach (chat_start\<lparr>connections := {0}, joined := (\<lambda>_. 0)(0 := 0), rdr := (\<lambda>_. RIdle)(0 := RRead),
     wtr := (\<lambda>_. WIdle)(0 := WSelect), heard := (\<lambda>_. [])(0 := [[65]]), bcast := [(0, [65])],
     sendQ := (\<lambda>_. [])(0 := [[65]])\<rparr>)"
    by (simp add: run)
  from pump [OF this take_message [of _ 0 "[65]" "[]" True]] show ?thesis
    by (simp add: run conn_wrote_def chat_spoken_def)
qed

end
