(* ===== verification/Chat_Properties.thy ===== *)
theory Chat_Properties
  imports Chat
begin

text \<open>What the chat server promises of every state its goroutines can reach, in whatever order they run.\<close>

text \<open>C23: In every reachable state the hub has not panicked (no channel is closed twice and nothing is sent
  on a closed one), no send queue holds more than 256 messages, the text messages written to a connection
  are the first messages that were broadcast since it joined, in that order and with none left out, a
  registered connection with an empty queue and a live writer has been sent all of them as soon as the hub
  is idle, and the messages of each client are broadcast in the order it sent them, each exactly
  once (the last one may still wait for the hub).\<close>

theorem chat_delivery:
  assumes "chat_reach s"
  shows "\<not> panicked s \<and> length (sendQ s c) \<le> 256 \<and> prefix (texts (sent s c)) (offered s c) \<and>
    (c \<in> connections s \<and> hubLoop s = None \<and> sendQ s c = [] \<and> wtr s c \<noteq> WDone \<longrightarrow> texts (sent s c) = offered s c) \<and>
    map snd (filter (\<lambda>x. fst x = c) (bcast s)) @ unsent (rdr s c) = heard s c"
proof -
  from chat_reach_inv [OF assms] have hub: "hub_inv s" and conn: "conn_inv s c" by blast+
  from hub have "\<not> panicked s" "length (sendQ s c) \<le> 256" by (simp_all add: hub_inv_def)
  moreover from conn have "map snd (filter (\<lambda>x. fst x = c) (bcast s)) @ unsent (rdr s c) = heard s c"
    by (simp add: conn_inv_def)
  ultimately show ?thesis using conn_inv_offered [OF conn] conn_inv_caught_up [OF conn] by blast
qed

theorem chat_delivery_witness:
  "chat_reach chat_spoken \<and> \<not> panicked chat_spoken \<and> texts (sent chat_spoken 0) = offered chat_spoken 0 \<and>
     offered chat_spoken 0 = [[65]] \<and> heard chat_spoken 0 = [[65]]"
  using chat_delivery [OF chat_spoken_reach, of 0] chat_spoken_reach
  by (simp add: chat_spoken_def chat_start_def offered_def unsent_def)

text \<open>C24: A goroutine that waits for the hub is never held up by the other connections, not even by
  one whose peer does not read: from every reachable state the hub alone, by a finite number of its own steps,
  comes to receive the request, and then a new connection is registered, a message is broadcast, and a
  connection that leaves is no longer served.\<close>

theorem chat_hub_answers:
  assumes "chat_reach s" and "rdr s c \<in> {RRegister, RUnregister} \<or> (\<exists>m. rdr s c = RSend m)"
  shows "\<exists>s'. hub_step\<^sup>*\<^sup>* s s' \<and>
    (case rdr s c of RSend m \<Rightarrow> rdr s' c = RRead \<and> bcast s' = bcast s @ [(c, m)]
     | RRegister \<Rightarrow> rdr s' c = RRead \<and> c \<in> connections s' | _ \<Rightarrow> rdr s' c = RDone \<and> c \<notin> connections s')"
proof -
  from chat_reach_inv [OF assms(1)] have "hub_inv s" by blast
  from hub_finishes [OF this] obtain s1
    where s1: "hub_step\<^sup>*\<^sup>* s s1" "hubLoop s1 = None" "rdr s1 = rdr s" "bcast s1 = bcast s" by blast
  from hub_receives [of s1 c] s1 assms(2) obtain s2 where "hub_step s1 s2"
    "case rdr s c of RSend m \<Rightarrow> rdr s2 c = RRead \<and> bcast s2 = bcast s @ [(c, m)]
     | RRegister \<Rightarrow> rdr s2 c = RRead \<and> c \<in> connections s2 | _ \<Rightarrow> rdr s2 c = RDone \<and> c \<notin> connections s2"
    by auto
  with s1(1) show ?thesis by (meson rtranclp.rtrancl_into_rtrancl)
qed

theorem chat_hub_answers_witness:
  "\<exists>s'. hub_step\<^sup>*\<^sup>* (chat_spoken\<lparr>rdr := (rdr chat_spoken)(0 := RUnregister)\<rparr>) s' \<and> rdr s' 0 = RDone \<and> 0 \<notin> connections s'"
proof -
  have "rdr chat_spoken 0 = RRead" by (simp add: chat_spoken_def)
  from pump [OF chat_spoken_reach read_fails [OF this]] show ?thesis
    using chat_hub_answers [of "chat_spoken\<lparr>rdr := (rdr chat_spoken)(0 := RUnregister)\<rparr>" 0] by simp
qed

end
