(* ===== verification/WsPing.thy ===== *)
theory WsPing
  imports WsSides
begin

text \<open>
  Pings between messages: a server sends them with \<open>WriteMessage\<close>, and the other end, as long as it
  keeps the default ping handler, answers them while it waits for the next message and
  reads the same messages as without them.
\<close>

text \<open>What is sent: a message, or \<open>None\<close> for a ping without payload.\<close>

type_synonym ws_item = "(int \<times> bytes) option"

definition item_encodes :: "bool \<Rightarrow> ws_item \<Rightarrow> bytes \<Rightarrow> bool" where
  "item_encodes s it bs =
     (case it of
        None \<Rightarrow> \<exists>key. length key = 4 \<and> bs = frame_bytes s key True PingMessage []
      | Some m \<Rightarrow> data_msg m \<and> ws_encodes s m bs)"

lemma WriteMessage_ping:
  assumes "idle c" and "net_ok env"
  obtains bs c' where "WriteMessage env PingMessage [] c = (None, c')" and "idle c'" and "isServer c' = isServer c"
    and "item_encodes (isServer c) None bs" and "concat (wire c') = concat (wire c) @ bs"
proof -
  let ?c = "c\<lparr>writeFrameType := PingMessage\<rparr>"
  have c: "ws_ok ?c" "\<not> closeSent ?c" "pending ?c = []" "writeErr c = None" "writeFrameType c = noFrame"
    using assms(1) by (simp_all add: idle_def pending_def)
  obtain c' where f: "flushFrame env True [] ?c = (None, c')" and l: "flushed True ?c c'"
    and w: "concat (wire c') = concat (wire ?c) @ frame_bytes (isServer ?c) (next_key env ?c) True PingMessage []"
    using flushFrame_ok [OF c(1) assms(2) c(2), of "[]" True] c(3) by auto
  have "WriteMessage env PingMessage [] c = (None, c')"
    using f c by (simp add: WriteMessage_def NextWriter_def mw_write_def mw_err_def copy_loop.simps isControl_def)
  moreover have "idle c'" "isServer c' = isServer c" using l by (auto simp: flushed_def idle_def)
  moreover have "item_encodes (isServer c) None (frame_bytes (isServer c) (next_key env ?c) True PingMessage [])"
    unfolding item_encodes_def option.case by (intro exI [of _ "next_key env ?c"]) simp
  ultimately show ?thesis using that w by simp
qed

lemma ReadMessage_ping:
  assumes "between s (bs @ rest) c" and "item_encodes s None bs" and "handlePing c = None"
  obtains c' where "ReadMessage env grow c = ReadMessage env grow c'" and "between s rest c'"
    and "handlePing c' = None" and "readLimit c' = readLimit c"
proof -
  let ?c = "c\<lparr>readSeq := readSeq c + 1, readLength := 0\<rparr>"
  obtain key where key: "length key = 4" "bs = frame_bytes s key True PingMessage []"
    using assms(2) by (auto simp: item_encodes_def)
  have ok: "rd_ok s ?c" "readRemaining ?c \<le> 0" "stream (br ?c) = frame_bytes s key True PingMessage [] @ rest"
    using assms(1) key by (auto simp: between_def rd_ok_def)
  obtain r where a: "advanceFrame env ?c = process_control env PingMessage [] (?c\<lparr>br := r, readRemaining := 0,
      readMaskPos := (if s then readMaskPos ?c else 0), readMaskKey := (if s then readMaskKey ?c else key)\<rparr>)"
    and r: "clean r" "stream r = rest"
    using advanceFrame_control [OF ok(1,2) _ _ key(1) ok(3)] by (auto simp: isControl_def)
  define c1 where "c1 = control_soon env PongMessage (str_bytes (bytes_str [])) (?c\<lparr>br := r, readRemaining := 0,
      readMaskPos := (if s then readMaskPos ?c else 0), readMaskKey := (if s then readMaskKey ?c else key)\<rparr>)"
  let ?c2 = "c1\<lparr>readSeq := readSeq c\<rparr>"
  have "NextReader env c = next_frame env c1"
    using ok a assms(3) by (simp add: NextReader_def next_frame.simps [of env ?c] rd_ok_def process_control_def
        run_ping_def c1_def)
  moreover have "?c2\<lparr>readSeq := readSeq ?c2 + 1, readLength := 0\<rparr> = c1"
    by (simp add: c1_def)
  ultimately have "ReadMessage env grow c = ReadMessage env grow ?c2"
    by (simp add: ReadMessage_def NextReader_def)
  moreover have "between s rest ?c2" "handlePing ?c2 = None" "readLimit ?c2 = readLimit c"
    using assms ok r key by (simp_all add: c1_def between_def rd_ok_def)
  ultimately show ?thesis by (rule that)
qed


text \<open>The messages among what is sent are what the other end reads.\<close>

fun item_messages :: "ws_item list \<Rightarrow> (int \<times> bytes) list" where
  "item_messages [] = []"
| "item_messages (None # its) = item_messages its"
| "item_messages (Some m # its) = m # item_messages its"

lemma item_messages_append [simp]: "item_messages (its @ its') = item_messages its @ item_messages its'"
  by (induction its rule: item_messages.induct) auto

lemma recv_items:
  "list_all2 (item_encodes s) its bss \<Longrightarrow> ws_ready s (concat bss) c \<Longrightarrow> handlePing c = None \<Longrightarrow>
     fst (ws.recv_all env grow (length (item_messages its)) c) = map (\<lambda>(mt, d). (mt, d, None)) (item_messages its)"
proof (induction its arbitrary: bss c rule: item_messages.induct)
  case (2 its)
  then obtain bs bss' where b: "bss = bs # bss'" "item_encodes s None bs" "list_all2 (item_encodes s) its bss'"
    by (auto simp: list_all2_Cons1)
  obtain c' where c': "ReadMessage env grow c = ReadMessage env grow c'" "between s (concat bss') c'"
      "handlePing c' = None" "readLimit c' = readLimit c"
    using ReadMessage_ping [of s bs "concat bss'" c env grow] 2 b by (auto simp: ws_ready_def)
  have "ws_ready s (concat bss') c'" using c' "2.prems"(2) by (simp add: ws_ready_def)
  note IH = "2.IH" [OF b(3) this c'(3)]
  show ?case
  proof (cases "item_messages its")
    case (Cons m ms)
    with IH c'(1) show ?thesis by simp
  qed simp
next
  case (3 m its)
  then obtain bs bss' where b: "bss = bs # bss'" "item_encodes s (Some m) bs" "list_all2 (item_encodes s) its bss'"
    by (auto simp: list_all2_Cons1)
  then have m: "data_msg m" "ws_encodes s m bs" by (simp_all add: item_encodes_def)
  obtain c' where c': "ReadMessage env grow c = ((fst m, snd m, None), c')" "ws_ready s (concat bss') c'"
    using ws.recv_enc [of s bs "concat bss'" c m env grow] "3.prems" b(1) m by auto
  have "handlePing c' = None" using hush_ReadMessage [of c env grow] c'(1) "3.prems"(3) by (simp add: hush_def)
  from "3.IH" [OF b(3) c'(2) this] c'(1) show ?case by (auto simp: split_def)
qed simp

end
