(* ===== verification/Filewatch.thy ===== *)
theory Filewatch
  imports WsPing WsHandshake
begin

text \<open>
  The file watcher (\<open>websocket/examples/filewatch/main.go\<close>): a page with the content of a file, and a
  WebSocket over which the goroutine \<open>writer\<close> sends the content again whenever a poll finds a newer
  modification time. The file system is a list of polls: what \<open>os.Stat\<close> and \<open>ioutil.ReadFile\<close> answer at
  each. Times are nanoseconds since 1970.
\<close>

section \<open>Polling\<close>

definition zeroTime :: int where
  "zeroTime = - 62135596800 * 10 ^ 9"

record poll =
  pStat :: "string + int"
  pFile :: "string + bytes"

definition readFileIfModified :: "poll \<Rightarrow> int \<Rightarrow> bytes option \<times> int \<times> string option" where
  "readFileIfModified p lastMod =
     (case pStat p of
        Inl err \<Rightarrow> (None, lastMod, Some err)
      | Inr modTime \<Rightarrow>
          if \<not> lastMod < modTime then (None, lastMod, None)
          else (case pFile p of
                  Inl err \<Rightarrow> (None, modTime, Some err)
                | Inr content \<Rightarrow> (Some content, modTime, None)))"

section \<open>The goroutines of a connection\<close>

definition watch_setup :: "ws_conn \<Rightarrow> ws_conn" where
  "watch_setup ws = SetPongHandler (Some (\<lambda>_. None)) (SetReadLimit 512 ws)"

function watch_read_loop :: "ws_env \<Rightarrow> (nat \<Rightarrow> nat) \<Rightarrow> ws_conn \<Rightarrow> ws_conn" where
  "watch_read_loop env grow ws =
     (case ReadMessage env grow ws of
        ((_, _, Some err), ws) \<Rightarrow> ws
      | ((_, _, None), ws) \<Rightarrow> watch_read_loop env grow ws)"
  by pat_completeness auto
termination
  by (relation "measure (\<lambda>(env, grow, ws). rd_size (br ws))") (auto dest: ReadMessage_size [OF sym])

declare watch_read_loop.simps [simp del]

definition watch_reader :: "ws_env \<Rightarrow> (nat \<Rightarrow> nat) \<Rightarrow> ws_conn \<Rightarrow> ws_conn" where
  "watch_reader env grow ws = ws_Close (watch_read_loop env grow (watch_setup ws))"

text \<open>The variables of \<open>writer\<close>, and what its \<open>select\<close> receives, with the time of the clock.\<close>

record watch =
  wConn :: ws_conn
  wLastMod :: int
  wLastError :: string

datatype watch_tick = FileTick int poll | PingTick int

definition watch_write :: "ws_env \<Rightarrow> int \<Rightarrow> int \<Rightarrow> bytes \<Rightarrow> watch \<Rightarrow> bool \<times> watch" where
  "watch_write env now mt p w =
     (case WriteMessage env mt p (SetWriteDeadline (Some (now + 10 * 10 ^ 9)) (wConn w)) of
        (err, ws) \<Rightarrow> (err = None, w\<lparr>wConn := ws\<rparr>))"

definition poll_file :: "poll \<Rightarrow> int \<Rightarrow> string \<Rightarrow> bytes option \<times> int \<times> string" where
  "poll_file f lastMod lastError =
     (case readFileIfModified f lastMod of
        (p, lastMod, Some s) \<Rightarrow>
          if s \<noteq> lastError then (Some (str_bytes s), lastMod, s) else (p, lastMod, lastError)
      | (p, lastMod, None) \<Rightarrow> (p, lastMod, []))"

fun watch_turn :: "ws_env \<Rightarrow> watch_tick \<Rightarrow> watch \<Rightarrow> bool \<times> watch" where
  "watch_turn env (FileTick now f) w =
     (case poll_file f (wLastMod w) (wLastError w) of
        (p, lastMod, lastError) \<Rightarrow>
          (let w = w\<lparr>wLastMod := lastMod, wLastError := lastError\<rparr>
           in case p of None \<Rightarrow> (True, w) | Some p \<Rightarrow> watch_write env now TextMessage p w))"
| "watch_turn env (PingTick now) w = watch_write env now PingMessage [] w"

fun watch_writer :: "ws_env \<Rightarrow> watch_tick list \<Rightarrow> watch \<Rightarrow> bool \<times> watch" where
  "watch_writer env [] w = (True, w)"
| "watch_writer env (t # ts) w =
     (case watch_turn env t w of
        (True, w) \<Rightarrow> watch_writer env ts w
      | (False, w) \<Rightarrow> (False, w\<lparr>wConn := ws_Close (wConn w)\<rparr>))"

section \<open>The page and its connection\<close>

text \<open>
  \<open>strconv.FormatInt(i, 16)\<close> and \<open>strconv.ParseInt(s, 16, 64)\<close>. The second returns the number and
  whether there was an error: 0 when the syntax is wrong, the nearest value when it is out of range.
\<close>

definition hex_char :: "nat \<Rightarrow> char" where
  "hex_char d = ''0123456789abcdef'' ! d"

fun FormatUint16 :: "nat \<Rightarrow> string" where
  "FormatUint16 n = (if n < 16 then [hex_char n] else FormatUint16 (n div 16) @ [hex_char (n mod 16)])"

declare FormatUint16.simps [simp del]

definition FormatInt16 :: "int \<Rightarrow> string" where
  "FormatInt16 i = (if i < 0 then CHR ''-'' # FormatUint16 (nat (- i)) else FormatUint16 (nat i))"

definition hex_value :: "char \<Rightarrow> nat option" where
  "hex_value ch =
     (let k = of_char ch in
      if 48 \<le> k \<and> k \<le> 57 then Some (k - 48)
      else if 97 \<le> k \<and> k \<le> 102 then Some (k - 87)
      else if 65 \<le> k \<and> k \<le> 70 then Some (k - 55)
      else None)"

datatype num_error = ErrSyntax | ErrRange

fun parse_digits :: "string \<Rightarrow> nat \<Rightarrow> num_error + nat" where
  "parse_digits [] n = Inr n"
| "parse_digits (ch # s) n =
     (case hex_value ch of
        None \<Rightarrow> Inl ErrSyntax
      | Some v \<Rightarrow> if n * 16 + v \<ge> 2 ^ 64 then Inl ErrRange else parse_digits s (n * 16 + v))"

definition ParseUint16 :: "string \<Rightarrow> num_error + nat" where
  "ParseUint16 s = (if s = [] then Inl ErrSyntax else parse_digits s 0)"

definition ParseInt16 :: "string \<Rightarrow> int \<times> bool" where
  "ParseInt16 s =
     (let neg = (s \<noteq> [] \<and> hd s = CHR ''-'');
          digits = (if s \<noteq> [] \<and> hd s \<in> {CHR ''+'', CHR ''-''} then tl s else s)
      in case ParseUint16 digits of
           Inl ErrSyntax \<Rightarrow> (0, True)
         | Inl ErrRange \<Rightarrow> (if neg then (- (2 ^ 63), True) else (2 ^ 63 - 1, True))
         | Inr un \<Rightarrow>
             if \<not> neg \<and> un \<ge> 2 ^ 63 then (2 ^ 63 - 1, True)
             else if neg \<and> un > 2 ^ 63 then (- (2 ^ 63), True)
             else (if neg then - int un else int un, False))"

text \<open>What \<open>serveHome\<close> gives to the template.\<close>

record watch_page =
  pgHost :: string
  pgData :: bytes
  pgLastMod :: string

definition watch_serveHome :: "string \<Rightarrow> string \<Rightarrow> string \<Rightarrow> poll \<Rightarrow> int + watch_page" where
  "watch_serveHome path meth host f =
     (if path \<noteq> ''/'' then Inl 404
      else if meth \<noteq> ''GET'' then Inl 405
      else (let (p, lastMod) =
                  (case readFileIfModified f zeroTime of
                     (p, lastMod, Some err) \<Rightarrow> (str_bytes err, 0)
                   | (p, lastMod, None) \<Rightarrow> (case p of None \<Rightarrow> [] | Some p \<Rightarrow> p, lastMod))
            in Inr \<lparr>pgHost = host, pgData = p, pgLastMod = FormatInt16 (wrap64 lastMod)\<rparr>))"

text \<open>
  \<open>serveWs\<close>: the state in which \<open>writer\<close> starts. It takes the time from the form when parsing it
  failed.
\<close>

definition watch_upgrader :: Upgrader where
  "watch_upgrader = \<lparr>HandshakeTimeout = 0, uReadBufferSize = 1024, uWriteBufferSize = 1024, uSubprotocols = None,
     uError = False, CheckOrigin = None\<rparr>"

definition watch_since :: "string \<Rightarrow> int" where
  "watch_since form = (case ParseInt16 form of (n, err) \<Rightarrow> if err then n else zeroTime)"

definition watch_serveWs :: "hs_env \<Rightarrow> ws_env \<Rightarrow> hijack \<Rightarrow> request \<Rightarrow> string \<Rightarrow> hs_effect list \<times> watch option" where
  "watch_serveWs hs net w r form =
     (case Upgrade hs net watch_upgrader w r None of
        (Inl err, eff) \<Rightarrow> (eff, None)
      | (Inr ws, eff) \<Rightarrow> (eff, Some \<lparr>wConn = ws, wLastMod = watch_since form, wLastError = []\<rparr>))"

end
