(* ===== verification/FilewatchLaws.thy ===== *)
theory FilewatchLaws
  imports Filewatch
begin

text \<open>
  The writer of the file watcher against the specification \<open>watch_texts\<close> of what a list of polls
  makes it send, and the round trip of the modification time through the page.
\<close>

section \<open>Hexadecimal numbers\<close>

lemma hex_value_char: "d < 16 \<Longrightarrow> hex_value (hex_char d) = Some d"
proof -
  have "list_all (\<lambda>d. hex_value (hex_char d) = Some d) [0..<16]" by code_simp
  then show "d < 16 \<Longrightarrow> ?thesis" by (simp add: list_all_iff)
qed

lemma parse_digits_append:
  "parse_digits (s @ t) n = (case parse_digits s n of Inl e \<Rightarrow> Inl e | Inr m \<Rightarrow> parse_digits t m)"
  by (induction s n rule: parse_digits.induct) (auto split: option.split)

lemma parse_format: "n < 2 ^ 64 \<Longrightarrow> parse_digits (FormatUint16 n) 0 = Inr n"
proof (induction n rule: FormatUint16.induct)
  case (1 n)
  show ?case
  proof (cases "n < 16")
    case True
    then show ?thesis by (simp add: FormatUint16.simps [of n] hex_value_char)
  next
    case False
    then have "parse_digits (FormatUint16 (n div 16)) 0 = Inr (n div 16)" using 1 by simp
    moreover have "n div 16 * 16 + n mod 16 = n" by simp
    ultimately show ?thesis using False "1.prems"
      by (simp add: FormatUint16.simps [of n] parse_digits_append hex_value_char)
  qed
qed

lemma FormatUint16_digits: "FormatUint16 n \<noteq> [] \<and> hex_value (hd (FormatUint16 n)) \<noteq> None"
proof (induction n rule: FormatUint16.induct)
  case (1 n)
  then show ?case by (cases "n < 16") (auto simp: FormatUint16.simps [of n] hex_value_char)
qed

lemma sign_no_digit: "hex_value CHR ''+'' = None" "hex_value CHR ''-'' = None"
  by (simp_all add: hex_value_def)

lemma ParseInt16_FormatInt16:
  assumes "- (2 ^ 63) \<le> i" and "i < 2 ^ 63"
  shows "ParseInt16 (FormatInt16 i) = (i, False)"
proof (cases "i < 0")
  case True
  then have "parse_digits (FormatUint16 (nat (- i))) 0 = Inr (nat (- i))" using assms by (intro parse_format) auto
  with True assms FormatUint16_digits [of "nat (- i)"] show ?thesis
    by (simp add: ParseInt16_def FormatInt16_def ParseUint16_def Let_def)
next
  case False
  then have "parse_digits (FormatUint16 (nat i)) 0 = Inr (nat i)" using assms by (intro parse_format) auto
  moreover have "hd (FormatUint16 (nat i)) \<notin> {CHR ''+'', CHR ''-''}"
    using FormatUint16_digits [of "nat i"] sign_no_digit by auto
  ultimately show ?thesis using False assms FormatUint16_digits [of "nat i"]
    by (auto simp: ParseInt16_def FormatInt16_def ParseUint16_def Let_def nat_le_iff)
qed

section \<open>What is sent\<close>

text \<open>The texts that polls make the writer send, and with the pings all that is sent.\<close>

fun watch_items :: "int \<Rightarrow> string \<Rightarrow> watch_tick list \<Rightarrow> ws_item list" where
  "watch_items lastMod lastError [] = []"
| "watch_items lastMod lastError (PingTick now # ts) = None # watch_items lastMod lastError ts"
| "watch_items lastMod lastError (FileTick now f # ts) =
     (case poll_file f lastMod lastError of
        (p, lastMod, lastError) \<Rightarrow>
          (case p of None \<Rightarrow> [] | Some p \<Rightarrow> [Some (TextMessage, p)]) @ watch_items lastMod lastError ts)"

definition watch_texts :: "int \<Rightarrow> string \<Rightarrow> watch_tick list \<Rightarrow> bytes list" where
  "watch_texts lastMod lastError ts = map snd (item_messages (watch_items lastMod lastError ts))"

lemma item_messages_watch:
  "item_messages (watch_items lastMod lastError ts) = map (Pair TextMessage) (watch_texts lastMod lastError ts)"
  by (induction lastMod lastError ts rule: watch_items.induct)
    (auto simp: watch_texts_def split: prod.splits option.splits)

lemma idle_SetWriteDeadline [simp]:
  "idle (SetWriteDeadline d c) = idle c" "isServer (SetWriteDeadline d c) = isServer c"
  "wire (SetWriteDeadline d c) = wire c"
  by (simp_all add: SetWriteDeadline_def idle_def pending_def)

text \<open>The connection on which the writer can go on.\<close>

definition watch_ok :: "watch \<Rightarrow> bool" where
  "watch_ok w \<longleftrightarrow> idle (wConn w) \<and> isServer (wConn w)"

definition watch_sent :: "ws_item list \<Rightarrow> watch \<Rightarrow> watch \<Rightarrow> bool" where
  "watch_sent its w w' \<longleftrightarrow> watch_ok w' \<and>
     (\<exists>bss. list_all2 (item_encodes True) its bss \<and>
        concat (wire (wConn w')) = concat (wire (wConn w)) @ concat bss)"

lemma watch_sent_trans: "watch_sent its w w1 \<Longrightarrow> watch_sent its' w1 w2 \<Longrightarrow> watch_sent (its @ its') w w2"
  unfolding watch_sent_def by (metis append_assoc concat_append list_all2_appendI)

lemma watch_sent_none: "watch_ok w \<Longrightarrow> wConn w' = wConn w \<Longrightarrow> watch_sent [] w w'"
  by (simp add: watch_sent_def watch_ok_def)

lemma watch_write_text:
  assumes "watch_ok w" and "net_ok env" and "length p < 2 ^ 63"
  obtains w' where "watch_write env now TextMessage p w = (True, w')" and "watch_sent [Some (TextMessage, p)] w w'"
    and "wLastMod w' = wLastMod w" and "wLastError w' = wLastError w"
proof -
  let ?c = "SetWriteDeadline (Some (now + 10 * 10 ^ 9)) (wConn w)"
  have m: "data_msg (TextMessage, p)" using assms(3) by (simp add: data_msg_def isData_def)
  have w: "net_ok env \<and> idle ?c \<and> isServer ?c = True" using assms(1,2) by (simp add: watch_ok_def)
  from ws.send_enc [OF w m] obtain c' bs where c': "WriteMessage env TextMessage p ?c = (None, c')" "idle c'"
      "isServer c'" "ws_encodes True (TextMessage, p) bs" "concat (wire c') = concat (wire ?c) @ bs" by auto
  have "watch_sent [Some (TextMessage, p)] w (w\<lparr>wConn := c'\<rparr>)"
    unfolding watch_sent_def using c' m by (auto simp: watch_ok_def item_encodes_def intro!: exI [of _ "[bs]"])
  with that [of "w\<lparr>wConn := c'\<rparr>"] c'(1) show ?thesis by (simp add: watch_write_def)
qed

lemma watch_write_ping:
  assumes "watch_ok w" and "net_ok env"
  obtains w' where "watch_write env now PingMessage [] w = (True, w')" and "watch_sent [None] w w'"
    and "wLastMod w' = wLastMod w" and "wLastError w' = wLastError w"
proof -
  let ?c = "SetWriteDeadline (Some (now + 10 * 10 ^ 9)) (wConn w)"
  have w: "idle ?c" "isServer ?c" using assms(1) by (simp_all add: watch_ok_def)
  obtain bs c' where c': "WriteMessage env PingMessage [] ?c = (None, c')" "idle c'" "isServer c' = isServer ?c"
      "item_encodes (isServer ?c) None bs" "concat (wire c') = concat (wire ?c) @ bs"
    by (rule WriteMessage_ping [OF w(1) assms(2)])
  have "watch_sent [None] w (w\<lparr>wConn := c'\<rparr>)"
    unfolding watch_sent_def using c' w by (auto simp: watch_ok_def intro!: exI [of _ "[bs]"])
  with that [of "w\<lparr>wConn := c'\<rparr>"] c'(1) show ?thesis by (simp add: watch_write_def)
qed

lemma watch_turn_sends:
  assumes "watch_ok w" and "net_ok env"
    and "list_all (\<lambda>p. length p < 2 ^ 63) (watch_texts (wLastMod w) (wLastError w) [t])"
  obtains w' where "watch_turn env t w = (True, w')"
    and "watch_sent (watch_items (wLastMod w) (wLastError w) [t]) w w'"
    and "watch_items (wLastMod w) (wLastError w) (t # ts) =
      watch_items (wLastMod w) (wLastError w) [t] @ watch_items (wLastMod w') (wLastError w') ts"
proof (cases t)
  case (FileTick now f)
  obtain p lm le where f: "poll_file f (wLastMod w) (wLastError w) = (p, lm, le)" by (metis surj_pair)
  let ?w = "w\<lparr>wLastMod := lm, wLastError := le\<rparr>"
  have ok: "watch_ok ?w" using assms(1) by (simp add: watch_ok_def)
  show ?thesis
  proof (cases p)
    case None
    with that [of ?w] f FileTick assms(1) show ?thesis by (simp add: watch_sent_none)
  next
    case (Some bs)
    then have "length bs < 2 ^ 63" using assms(3) f FileTick by (simp add: watch_texts_def)
    from watch_write_text [OF ok assms(2) this, of now] obtain w' where
      w': "watch_write env now TextMessage bs ?w = (True, w')" "watch_sent [Some (TextMessage, bs)] ?w w'"
        "wLastMod w' = lm" "wLastError w' = le" by auto
    have "watch_sent [Some (TextMessage, bs)] w w'" using w'(2) by (simp add: watch_sent_def)
    with that [of w'] w' f FileTick Some show ?thesis by simp
  qed
next
  case (PingTick now)
  obtain w' where w': "watch_write env now PingMessage [] w = (True, w')" "watch_sent [None] w w'"
      "wLastMod w' = wLastMod w" "wLastError w' = wLastError w"
    by (rule watch_write_ping [OF assms(1,2)])
  with that [of w'] PingTick show ?thesis by simp
qed

lemma watch_writer_sends:
  assumes "watch_ok w" and "net_ok env"
    and "list_all (\<lambda>p. length p < 2 ^ 63) (watch_texts (wLastMod w) (wLastError w) ts)"
  shows "\<exists>w'. watch_writer env ts w = (True, w') \<and> watch_sent (watch_items (wLastMod w) (wLastError w) ts) w w'"
  using assms
proof (induction ts arbitrary: w)
  case (Cons t ts)
  have "list_all (\<lambda>p. length p < 2 ^ 63) (watch_texts (wLastMod w) (wLastError w) [t])"
    using Cons.prems(3) by (cases t) (auto simp: watch_texts_def split: prod.splits)
  from watch_turn_sends [OF Cons.prems(1,2) this] obtain w1 where
    w1: "watch_turn env t w = (True, w1)" "watch_sent (watch_items (wLastMod w) (wLastError w) [t]) w w1"
      "watch_items (wLastMod w) (wLastError w) (t # ts) =
        watch_items (wLastMod w) (wLastError w) [t] @ watch_items (wLastMod w1) (wLastError w1) ts"
    by (metis (no_types))
  have "watch_ok w1" using w1(2) by (simp add: watch_sent_def)
  moreover have "list_all (\<lambda>p. length p < 2 ^ 63) (watch_texts (wLastMod w1) (wLastError w1) ts)"
    using Cons.prems(3) unfolding watch_texts_def w1(3) by simp
  ultimately obtain w2 where "watch_writer env ts w1 = (True, w2)"
      "watch_sent (watch_items (wLastMod w1) (wLastError w1) ts) w1 w2"
    using Cons.IH [OF _ Cons.prems(2)] by blast
  moreover from this w1(2) have "watch_sent (watch_items (wLastMod w) (wLastError w) (t # ts)) w w2"
    unfolding w1(3) by (blast intro: watch_sent_trans)
  ultimately show ?case using w1(1) by simp
qed (simp add: watch_sent_none)

section \<open>A file that can be read\<close>

text \<open>The polls of a file whose content is a function of its modification time.\<close>

fun tick_times :: "watch_tick list \<Rightarrow> int list" where
  "tick_times [] = []"
| "tick_times (PingTick now # ts) = tick_times ts"
| "tick_times (FileTick now f # ts) = (case pStat f of Inl e \<Rightarrow> [] | Inr t \<Rightarrow> [t]) @ tick_times ts"

fun shows_file :: "(int \<Rightarrow> bytes) \<Rightarrow> watch_tick \<Rightarrow> bool" where
  "shows_file content (PingTick now) = True"
| "shows_file content (FileTick now f) = (case pStat f of Inl e \<Rightarrow> False | Inr t \<Rightarrow> pFile f = Inr (content t))"

lemma watch_texts_file:
  "list_all (shows_file content) ts \<Longrightarrow> sorted (lastMod # tick_times ts) \<Longrightarrow>
     watch_texts lastMod lastError ts = map content (tl (remdups_adj (lastMod # tick_times ts)))"
proof (induction lastMod lastError ts rule: watch_items.induct)
  case (3 lastMod lastError now f ts)
  then obtain t where t: "pStat f = Inr t" "pFile f = Inr (content t)" by (auto split: sum.splits)
  then have "lastMod \<le> t" using "3.prems"(2) by simp
  moreover have "map content (remdups_adj (t # tick_times ts)) =
      content t # map content (tl (remdups_adj (t # tick_times ts)))"
    by (metis list.map(2) remdups_adj_Cons_alt)
  ultimately show ?case using t 3
    by (cases "lastMod = t") (auto simp: watch_texts_def poll_file_def readFileIfModified_def)
qed (auto simp: watch_texts_def)

end
