(* ===== verification/Filewatch_Properties.thy ===== *)
theory Filewatch_Properties
  imports FilewatchLaws AutobahnEcho Ws_Properties
begin

text \<open>The properties of the file watcher.\<close>

lemma watch_serveWs_starts:
  assumes "net_ok env" and "upgrade_checks hs watch_upgrader r = None" and "ok_src src"
  obtains resp w0 where "watch_serveWs hs env (Hijacked src 0) r form = ([NetWritten resp], Some w0)" and "watch_ok w0"
    and "wire (wConn w0) = [resp]" and "wLastMod w0 = watch_since form" and "wLastError w0 = []"
proof -
  obtain resp c where c: "upgrade_answer hs env watch_upgrader src r None = (Inr c, [NetWritten resp])" "echo_ok env c"
      "wire c = [resp]"
    using upgrade_answer_ready [OF assms(1,3)] by metis
  then show ?thesis
    using that [of resp "\<lparr>wConn = c, wLastMod = watch_since form, wLastError = []\<rparr>"] assms(2)
    by (simp add: watch_serveWs_def Upgrade_def watch_ok_def echo_ok_def)
qed

text \<open>C25: The client of the file watcher is sent every version of the file that a poll found, once and in order.
  For every accepted handshake and every sequence of polls of a file whose modification time does not
  go back and determines its content, with pings in between: the writer sends without an
  error, and the client, given what was written behind the response in any pieces, reads exactly the
  contents at the different modification times newer than the one it started from; the pings do not
  disturb it.\<close>

theorem watch_delivers:
  assumes "net_ok env" and "upgrade_checks hs watch_upgrader r = None" and "ok_src src"
    and "list_all (shows_file content) ts" and "sorted (watch_since form # tick_times ts)"
    and "\<forall>t. length (content t) < 2 ^ 63" and "versions = tl (remdups_adj (watch_since form # tick_times ts))"
  shows "\<exists>resp w0 w out. watch_serveWs hs env (Hijacked src 0) r form = ([NetWritten resp], Some w0) \<and>
    watch_writer env ts w0 = (True, w) \<and> concat (wire (wConn w)) = resp @ out \<and>
    (\<forall>src'. ok_src src' \<longrightarrow> concat (map fst src') = out \<longrightarrow>
      read_messages env' grow (length versions) (newConn src' False rs ws) =
        map (\<lambda>t. (TextMessage, content t, None)) versions)"
proof -
  obtain resp w0 where w0: "watch_serveWs hs env (Hijacked src 0) r form = ([NetWritten resp], Some w0)" "watch_ok w0"
      "wire (wConn w0) = [resp]" "wLastMod w0 = watch_since form" "wLastError w0 = []"
    by (rule watch_serveWs_starts [OF assms(1-3)])
  have texts: "watch_texts (wLastMod w0) (wLastError w0) ts = map content versions"
    unfolding w0(4,5) assms(7) by (rule watch_texts_file [OF assms(4,5)])
  then have "list_all (\<lambda>p. length p < 2 ^ 63) (watch_texts (wLastMod w0) (wLastError w0) ts)"
    using assms(6) by (simp add: list_all_iff)
  from watch_writer_sends [OF w0(2) assms(1) this] obtain w bss where w: "watch_writer env ts w0 = (True, w)"
      "list_all2 (item_encodes True) (watch_items (wLastMod w0) (wLastError w0) ts) bss"
      "concat (wire (wConn w)) = resp @ concat bss"
    by (auto simp: watch_sent_def w0(3))
  have "read_messages env' grow (length versions) (newConn src' False rs ws) =
      map (\<lambda>t. (TextMessage, content t, None)) versions"
    if "ok_src src'" and "concat (map fst src') = concat bss" for src'
  proof -
    have "ws_ready True (concat bss) (newConn src' False rs ws)"
      using between_newConn [OF that(1), of True rs ws] that(2) by simp
    moreover have "handlePing (newConn src' False rs ws) = None"
      by (simp add: newConn_def SetPingHandler_def SetPongHandler_def Let_def)
    ultimately show ?thesis
      using recv_items [OF w(2), of "newConn src' False rs ws" env' grow]
      by (simp add: item_messages_watch texts read_messages_eq comp_def)
  qed
  with w0(1) w show ?thesis by blast
qed

definition sample_poll :: "int \<Rightarrow> bytes \<Rightarrow> watch_tick" where
  "sample_poll t bs = FileTick t \<lparr>pStat = Inr t, pFile = Inr bs\<rparr>"

theorem watch_delivers_witness:
  "\<exists>resp w0 w out. watch_serveWs hs_sample ws_sample_env (Hijacked [] 0) sample_request '''' =
      ([NetWritten resp], Some w0) \<and>
    watch_writer ws_sample_env [sample_poll 5 [104], PingTick 6, sample_poll 5 [104], sample_poll 7 [105]] w0 = (True, w) \<and>
    concat (wire (wConn w)) = resp @ out \<and>
    read_messages ws_sample_env id 2 (newConn (map (\<lambda>b. ([b], None)) out) False 0 0) =
      [(1, [104], None), (1, [105], None)]"
proof -
  let ?content = "\<lambda>t :: int. if t = 5 then [104 :: byte] else [105]"
  have u: "upgrade_checks hs_sample watch_upgrader sample_request = None"
    using sample_checks by (simp add: upgrade_checks_None watch_upgrader_def sample_upgrader_def)
  have s: "watch_since '''' = 0" by (simp add: watch_since_def ParseInt16_def ParseUint16_def)
  have o: "ok_src []" by (simp add: ok_src_def)
  let ?ts = "[sample_poll 5 [104], PingTick 6, sample_poll 5 [104], sample_poll 7 [105]]"
  have f: "list_all (shows_file ?content) ?ts" and l: "sorted (watch_since '''' # tick_times ?ts)"
    and b: "\<forall>t. length (?content t) < 2 ^ 63" and v: "[5, 7] = tl (remdups_adj (watch_since '''' # tick_times ?ts))"
    by (simp_all add: sample_poll_def s)
  obtain resp w0 w out where w: "watch_serveWs hs_sample ws_sample_env (Hijacked [] 0) sample_request '''' =
      ([NetWritten resp], Some w0)" "watch_writer ws_sample_env ?ts w0 = (True, w)"
      "concat (wire (wConn w)) = resp @ out"
      "\<forall>src'. ok_src src' \<longrightarrow> concat (map fst src') = out \<longrightarrow>
        read_messages ws_sample_env id (length [5 :: int, 7]) (newConn src' False 0 0) =
          map (\<lambda>t. (TextMessage, ?content t, None)) [5, 7]"
    using watch_delivers [OF net_ok_sample u o f l b v, of ws_sample_env id 0 0] by blast
  moreover have "length [5 :: int, 7] = 2" "map (\<lambda>t. (1 :: int, ?content t, None :: ws_error option)) [5, 7] =
      [(1, [104], None), (1, [105], None)]" by simp_all
  ultimately show ?thesis using byte_reads [of out] by metis
qed

section \<open>What the client does not see\<close>

lemma parse_wrap64: "ParseInt16 (FormatInt16 (wrap64 t)) = (wrap64 t, False)"
  using sint_range_size [of "word_of_int t :: 64 word"]
  by (intro ParseInt16_FormatInt16) (simp_all add: wrap64_def word_size)

text \<open>The modification time of the page is lost: for every page that is served the connection it opens
  starts at the zero time, and the first poll sends the file that the page already shows.\<close>

theorem watch_forgets_page:
  "watch_serveHome path meth host f = Inr page \<Longrightarrow> watch_since (pgLastMod page) = zeroTime"
  by (auto simp: watch_serveHome_def watch_since_def parse_wrap64 Let_def split: if_splits prod.splits option.splits)

text \<open>When a poll fails, the client is sent the text of the error in place of the content, and does not get the
  content back as long as the file is not modified again, however many polls succeed.\<close>

theorem watch_error_stays:
  assumes "lastMod < t" and "e \<noteq> []" and "list_all (shows_file content) ts" and "set (tick_times ts) \<subseteq> {t}"
  shows "watch_texts lastMod [] (sample_poll t bs # FileTick now \<lparr>pStat = Inl e, pFile = f\<rparr> # ts) = [bs, str_bytes e]"
proof -
  have "sorted (t # tick_times ts)" using assms(4) by (induction ts rule: tick_times.induct) (auto split: sum.splits)
  moreover have "tl (remdups_adj (t # tick_times ts)) = []"
    using assms(4) by (induction ts rule: tick_times.induct) (auto split: sum.splits)
  ultimately have "watch_texts t e ts = []" using watch_texts_file [OF assms(3), of t e] by simp
  with assms(1,2) show ?thesis
    by (simp add: watch_texts_def sample_poll_def poll_file_def readFileIfModified_def)
qed

end
