(* ===== verification/Mapstructure.thy ===== *)
theory Mapstructure
  imports GoFloat "HOL-Library.Char_ord" "HOL-Library.List_Lexorder"
begin

text \<open>
  \<open>mitchellh/mapstructure\<close>, with which the rotonde client turns the decoded JSON of a
  message into Go structures: \<open>mapstructure.go\<close>, \<open>decode_hooks.go\<close> and
  \<open>error.go\<close>.

  What the package sees through \<open>reflect\<close> is modelled by \<open>gtype\<close> (types are finite
  trees, so recursive types are left out) and \<open>gvalue\<close>. A slot of type \<open>interface{}\<close>
  holds its dynamic value or \<open>VNil\<close>. Width 0 stands for \<open>int\<close> and \<open>uint\<close>, which have
  64 bits. A map is the
  list of its entries in the order in which the runtime iterates over it; the fields of a
  structure are visited in their declared order.

  A decoder for a type takes the name, the data and the old value of the slot and
  returns the new value of the slot and an error, because the code leaves partial
  results behind when it reports errors. \<open>Inl\<close> is a decoder that does not return: a
  panic, or the endless loop \<open>collectFields\<close> can run into.
\<close>

section \<open>Types and values\<close>

datatype gtype =
    TBool
  | TString
  | TInt nat
  | TUint nat
  | TF32
  | TF64
  | TIface
  | TSlice gtype
  | TArray nat gtype
  | TMap gtype gtype
  | TPtr gtype
  | TStruct string "sfield list"
  | TOther string
and sfield = SField (sfName: string) (sfAnonymous: bool) (sfTag: "(string \<times> string) list")
                    (sfExported: bool) (sfType: gtype)

datatype gvalue =
    VNil
  | VBool bool
  | VString string
  | VInt nat int
  | VUint nat int
  | VF32 "32 word"
  | VF64 "64 word"
  | VSlice gtype "gvalue list"
  | VArray gtype "gvalue list"
  | VMap gtype gtype "(gvalue \<times> gvalue) list option"
  | VPtr gtype "gvalue option"
  | VStruct string "sfield list" "gvalue list"
  | VOther string

datatype gkind = KInvalid | KBool | KInt nat | KUint nat | KFloat nat | KString | KInterface
  | KSlice | KArray | KMap | KPtr | KStruct | KOther string

fun type_kind :: "gtype \<Rightarrow> gkind" where
  "type_kind TBool = KBool" | "type_kind TString = KString"
| "type_kind (TInt b) = KInt b" | "type_kind (TUint b) = KUint b"
| "type_kind TF32 = KFloat 32" | "type_kind TF64 = KFloat 64" | "type_kind TIface = KInterface"
| "type_kind (TSlice t) = KSlice" | "type_kind (TArray n t) = KArray" | "type_kind (TMap k e) = KMap"
| "type_kind (TPtr t) = KPtr" | "type_kind (TStruct n fs) = KStruct" | "type_kind (TOther s) = KOther s"

fun typeOf :: "gvalue \<Rightarrow> gtype" where
  "typeOf VNil = TIface" | "typeOf (VBool b) = TBool" | "typeOf (VString s) = TString"
| "typeOf (VInt b i) = TInt b" | "typeOf (VUint b i) = TUint b" | "typeOf (VF32 w) = TF32"
| "typeOf (VF64 w) = TF64" | "typeOf (VSlice t vs) = TSlice t" | "typeOf (VArray t vs) = TArray (length vs) t"
| "typeOf (VMap k e m) = TMap k e" | "typeOf (VPtr t p) = TPtr t"
| "typeOf (VStruct n fs vs) = TStruct n fs" | "typeOf (VOther s) = TOther s"

fun getKind :: "gkind \<Rightarrow> gkind" where
  "getKind (KInt b) = KInt 0" | "getKind (KUint b) = KUint 0" | "getKind (KFloat b) = KFloat 32"
| "getKind k = k"

definition width :: "nat \<Rightarrow> nat" where
  "width b = (if b = 0 then 64 else b)"

definition value_kind :: "gvalue option \<Rightarrow> gkind" where
  "value_kind v = (case v of None \<Rightarrow> KInvalid | Some v \<Rightarrow> type_kind (typeOf v))"

text \<open>\<open>reflect.Zero\<close>, \<open>reflect.Indirect\<close> (\<open>None\<close> is the invalid value) and \<open>Len\<close>.\<close>

lemma sfType_size [termination_simp]: "f \<in> set fs \<Longrightarrow> size (sfType f) < Suc (size_list size fs)"
proof (induction fs)
  case (Cons a fs)
  then show ?case by (cases a) auto
qed simp

fun zero :: "gtype \<Rightarrow> gvalue" where
  "zero TBool = VBool False" | "zero TString = VString []" | "zero (TInt b) = VInt b 0"
| "zero (TUint b) = VUint b 0" | "zero TF32 = VF32 0" | "zero TF64 = VF64 0" | "zero TIface = VNil"
| "zero (TSlice t) = VSlice t []" | "zero (TArray n t) = VArray t (replicate n (zero t))"
| "zero (TMap k e) = VMap k e None" | "zero (TPtr t) = VPtr t None"
| "zero (TStruct n fs) = VStruct n fs (map (\<lambda>f. zero (sfType f)) fs)" | "zero (TOther s) = VOther s"

fun Indirect :: "gvalue \<Rightarrow> gvalue option" where
  "Indirect (VPtr t p) = p"
| "Indirect VNil = None"
| "Indirect v = Some v"

fun value_Len :: "gvalue \<Rightarrow> nat" where
  "value_Len (VSlice t vs) = length vs" | "value_Len (VArray t vs) = length vs"
| "value_Len (VMap k e m) = (case m of None \<Rightarrow> 0 | Some xs \<Rightarrow> length xs)" | "value_Len v = 0"

text \<open>\<open>has_type v t\<close>: \<open>v\<close> can be held by a slot of type \<open>t\<close>.\<close>

definition int_range :: "nat \<Rightarrow> int \<Rightarrow> bool" where
  "int_range b i \<longleftrightarrow> - (2 ^ (width b - 1)) \<le> i \<and> i < 2 ^ (width b - 1)"

definition uint_range :: "nat \<Rightarrow> int \<Rightarrow> bool" where
  "uint_range b i \<longleftrightarrow> 0 \<le> i \<and> i < 2 ^ width b"

definition fits :: "gvalue \<Rightarrow> gtype \<Rightarrow> bool" where
  "fits v t \<longleftrightarrow> t = TIface \<or> typeOf v = t \<and> v \<noteq> VNil"

fun gvalue_ok :: "gvalue \<Rightarrow> bool" where
  "gvalue_ok (VInt b i) = int_range b i"
| "gvalue_ok (VUint b i) = uint_range b i"
| "gvalue_ok (VSlice t vs) = (list_all gvalue_ok vs \<and> list_all (\<lambda>v. fits v t) vs)"
| "gvalue_ok (VArray t vs) = (list_all gvalue_ok vs \<and> list_all (\<lambda>v. fits v t) vs)"
| "gvalue_ok (VMap k e m) =
     (case m of None \<Rightarrow> True
      | Some xs \<Rightarrow> list_all (\<lambda>x. gvalue_ok (fst x) \<and> gvalue_ok (snd x)) xs \<and>
                  list_all (\<lambda>x. fits (fst x) k \<and> fits (snd x) e) xs)"
| "gvalue_ok (VPtr t p) = (case p of None \<Rightarrow> True | Some v \<Rightarrow> gvalue_ok v \<and> fits v t)"
| "gvalue_ok (VStruct n fs vs) = (list_all gvalue_ok vs \<and> list_all2 (\<lambda>f v. fits v (sfType f)) fs vs)"
| "gvalue_ok v = True"

definition has_type :: "gvalue \<Rightarrow> gtype \<Rightarrow> bool" where
  "has_type v t \<longleftrightarrow> gvalue_ok v \<and> fits v t"

section \<open>Conversions of the standard library\<close>

text \<open>\<open>SetInt\<close> and \<open>SetUint\<close> store the low bits of their argument.\<close>

definition wrap_int :: "nat \<Rightarrow> int \<Rightarrow> int" where
  "wrap_int b x = (x + 2 ^ (width b - 1)) mod 2 ^ width b - 2 ^ (width b - 1)"

definition wrap_uint :: "nat \<Rightarrow> int \<Rightarrow> int" where
  "wrap_uint b x = x mod 2 ^ width b"

text \<open>\<open>float64(n)\<close> of an integer and \<open>float64(f)\<close> of a \<open>float32\<close>, on the bits.\<close>

definition f64_of_nat :: "nat \<Rightarrow> nat" where
  "f64_of_nat n =
     (if n = 0 then 0
      else let p = msb_index n
           in (p + 1023) * 2 ^ 52 +
              ((if p \<le> 52 then n * 2 ^ (52 - p) else round_even n (p - 52)) - 2 ^ 52))"

definition f64_of_int :: "int \<Rightarrow> 64 word" where
  "f64_of_int i = word_of_nat (f64_of_nat (nat \<bar>i\<bar>) + (if i < 0 then 2 ^ 63 else 0))"

definition f64_of_f32 :: "32 word \<Rightarrow> 64 word" where
  "f64_of_f32 w =
     (let n = unat w; sign = n div 2 ^ 31; e = n div 2 ^ 23 mod 256; m = n mod 2 ^ 23
      in word_of_nat (sign * 2 ^ 63 +
           (if e = 255 then 2047 * 2 ^ 52 + m * 2 ^ 29
            else if e = 0 then
              (if m = 0 then 0
               else let p = msb_index m in (p + 874) * 2 ^ 52 + (m * 2 ^ (52 - p) - 2 ^ 52))
            else (e + 896) * 2 ^ 52 + m * 2 ^ 29)))"

definition f64_nonzero :: "64 word \<Rightarrow> bool" where
  "f64_nonzero f \<longleftrightarrow> unat f mod 2 ^ 63 \<noteq> 0"

definition f64_negative :: "64 word \<Rightarrow> bool" where
  "f64_negative f \<longleftrightarrow> f64_neg f \<and> f64_nonzero f \<and> \<not> (f64_exp f = 2047 \<and> f64_man f \<noteq> 0)"

text \<open>\<open>strconv.ParseUint\<close> and \<open>ParseInt\<close> with base 0, and \<open>ParseBool\<close>.\<close>

definition digit_val :: "char \<Rightarrow> nat option" where
  "digit_val ch =
     (let n = of_char ch :: nat
      in if 48 \<le> n \<and> n \<le> 57 then Some (n - 48)
         else if 97 \<le> n \<and> n \<le> 122 then Some (n - 87)
         else if 65 \<le> n \<and> n \<le> 90 then Some (n - 55) else None)"

fun parse_digits :: "nat \<Rightarrow> string \<Rightarrow> nat \<Rightarrow> nat option" where
  "parse_digits base [] acc = Some acc"
| "parse_digits base (ch # s) acc =
     (case digit_val ch of
        Some v \<Rightarrow> if v < base then parse_digits base s (acc * base + v) else None
      | None \<Rightarrow> None)"

definition ParseUint :: "string \<Rightarrow> nat \<Rightarrow> nat option" where
  "ParseUint s bits =
     (let (base, digits) =
            (if HasPrefix s ''0x'' \<or> HasPrefix s ''0X'' then (16, drop 2 s)
             else if HasPrefix s ''0'' then (8, s) else (10, s))
      in if digits = [] then None
         else (case parse_digits base digits 0 of
                 None \<Rightarrow> None
               | Some n \<Rightarrow> if n < 2 ^ bits then Some n else None))"

definition ParseInt :: "string \<Rightarrow> nat \<Rightarrow> int option" where
  "ParseInt s bits =
     (let neg = HasPrefix s ''-''; s' = (if HasPrefix s ''-'' \<or> HasPrefix s ''+'' then tl s else s)
      in case ParseUint s' 64 of
           None \<Rightarrow> None
         | Some un \<Rightarrow>
             if \<not> neg \<and> 2 ^ (bits - 1) \<le> un \<or> neg \<and> 2 ^ (bits - 1) < un then None
             else Some (if neg then - int un else int un))"

definition ParseBool :: "string \<Rightarrow> bool option" where
  "ParseBool s =
     (if s \<in> {''1'', ''t'', ''T'', ''true'', ''TRUE'', ''True''} then Some True
      else if s \<in> {''0'', ''f'', ''F'', ''false'', ''FALSE'', ''False''} then Some False
      else None)"

text \<open>
  What is left to the runtime: decimal floating-point notation, the Unicode part of
  \<open>strings.EqualFold\<close>, how \<open>fmt\<close> prints a map key that is no string, and the
  characters of a string (\<open>strings.Split\<close> with an empty separator). \<open>ms_fuel\<close> bounds the
  number of structures \<open>decodeStruct\<close> takes from its work list before the model calls
  the loop endless.
\<close>

record ms_rt =
  ms_go :: runtime
  ms_parseFloat :: "string \<Rightarrow> nat \<Rightarrow> 64 word option"
  ms_formatFloat :: "64 word \<Rightarrow> string"
  ms_fold :: "string \<Rightarrow> string \<Rightarrow> bool"
  ms_show :: "gvalue \<Rightarrow> string"
  ms_explode :: "string \<Rightarrow> string list"
  ms_fuel :: nat

definition ms_EqualFold :: "ms_rt \<Rightarrow> string \<Rightarrow> string \<Rightarrow> bool" where
  "ms_EqualFold rt s t = (if ascii s \<and> ascii t then map lower_char s = map lower_char t else ms_fold rt s t)"

section \<open>Errors\<close>

text \<open>One constructor per message of \<open>fmt.Errorf\<close> in the package, with its operands.\<close>

datatype ms_msg =
    UnsupportedType string gkind
  | ExpectedType string gtype gtype
  | Unconvertible string gtype gtype
  | CannotParse string string
  | OverflowsUint string gvalue
  | ExpectedMap string gkind
  | NotASlice string gkind
  | NeedsStringKeys string gkind
  | UnsupportedField string gkind
  | InvalidKeys string "string list"
  | BadHookSignature
  | HookError string

datatype ms_error = One ms_msg | Many "ms_msg list"

definition appendErrors :: "ms_msg list \<Rightarrow> ms_error \<Rightarrow> ms_msg list" where
  "appendErrors errors err = (case err of Many es \<Rightarrow> errors @ es | One m \<Rightarrow> errors @ [m])"

definition many :: "ms_msg list \<Rightarrow> ms_error option" where
  "many errors = (if errors \<noteq> [] then Some (Many errors) else None)"

text \<open>\<open>Error.Error\<close>, for a rendering of the messages, and \<open>Error.WrappedErrors\<close>.\<close>

fun join_lines :: "string list \<Rightarrow> string" where
  "join_lines [] = []"
| "join_lines [s] = s"
| "join_lines (s # t # ts) = s @ [CHR 0x0A] @ join_lines (t # ts)"

definition Error_text :: "(ms_msg \<Rightarrow> string) \<Rightarrow> ms_msg list \<Rightarrow> string" where
  "Error_text render errors =
     (let points = sort (map (\<lambda>e. ''* '' @ render e) errors)
      in decimal (length errors) @ '' error(s) decoding:'' @ [CHR 0x0A, CHR 0x0A] @ join_lines points)"

definition WrappedErrors :: "ms_msg list option \<Rightarrow> ms_error list" where
  "WrappedErrors e = (case e of None \<Rightarrow> [] | Some es \<Rightarrow> map One es)"

datatype ms_abort = Panics | Hangs

definition ab_bind :: "ms_abort + 'a \<Rightarrow> ('a \<Rightarrow> ms_abort + 'b) \<Rightarrow> ms_abort + 'b" where
  "ab_bind m f = (case m of Inl a \<Rightarrow> Inl a | Inr x \<Rightarrow> f x)"

lemma ab_bind_simps [simp]: "ab_bind (Inl a) f = Inl a" "ab_bind (Inr x) f = f x"
  by (simp_all add: ab_bind_def)

lemma ab_bind_eq_Inr [simp]: "ab_bind m f = Inr y \<longleftrightarrow> (\<exists>x. m = Inr x \<and> f x = Inr y)"
  by (cases m) auto

section \<open>Hooks\<close>

text \<open>A hook has one of the two signatures of \<open>DecodeHookFunc\<close>, or none.\<close>

type_synonym hook_result = "ms_abort + (ms_error + gvalue)"

datatype hook =
    HookType "gtype \<Rightarrow> gtype \<Rightarrow> gvalue \<Rightarrow> hook_result"
  | HookKind "gkind \<Rightarrow> gkind \<Rightarrow> gvalue \<Rightarrow> hook_result"
  | HookOther

definition DecodeHookExec :: "hook \<Rightarrow> gtype \<Rightarrow> gtype \<Rightarrow> gvalue \<Rightarrow> hook_result" where
  "DecodeHookExec raw src dst data =
     (case raw of
        HookType f \<Rightarrow> f src dst data
      | HookKind f \<Rightarrow> f (type_kind src) (type_kind dst) data
      | HookOther \<Rightarrow> Inr (Inl (One BadHookSignature)))"

text \<open>The type of a nil interface does not exist: asking for it panics.\<close>

fun compose_hooks :: "hook list \<Rightarrow> gtype \<Rightarrow> gtype \<Rightarrow> gvalue \<Rightarrow> hook_result" where
  "compose_hooks [] f t data = Inr (Inr data)"
| "compose_hooks (f1 # fs) f t data =
     ab_bind (DecodeHookExec f1 f t data) (\<lambda>r.
       case r of
         Inl e \<Rightarrow> Inr (Inl e)
       | Inr data \<Rightarrow> if data = VNil then Inl Panics else compose_hooks fs (typeOf data) t data)"

definition ComposeDecodeHookFunc :: "hook list \<Rightarrow> hook" where
  "ComposeDecodeHookFunc fs = HookType (compose_hooks fs)"

function split_str :: "string \<Rightarrow> string \<Rightarrow> string \<Rightarrow> string list" where
  "split_str sep acc [] = [rev acc]"
| "split_str sep acc (x # xs) =
     (if sep \<noteq> [] \<and> HasPrefix (x # xs) sep then rev acc # split_str sep [] (drop (length sep) (x # xs))
      else split_str sep (x # acc) xs)"
  by pat_completeness auto
termination
  by (relation "measure (\<lambda>(sep, acc, s). length s)") auto

definition StringToSliceHookFunc :: "ms_rt \<Rightarrow> string \<Rightarrow> hook" where
  "StringToSliceHookFunc rt sep = HookKind (\<lambda>f t data.
     if f \<noteq> KString \<or> t \<noteq> KSlice then Inr (Inr data)
     else (case data of
             VString raw \<Rightarrow>
               if raw = [] then Inr (Inr (VSlice TString []))
               else Inr (Inr (VSlice TString (map VString
                      (if sep = [] then ms_explode rt raw else split_str sep [] raw))))
           | _ \<Rightarrow> Inl Panics))"

definition byte_string :: "gvalue list \<Rightarrow> string" where
  "byte_string vs = map (\<lambda>v. case v of VUint b i \<Rightarrow> char_of (nat i) | _ \<Rightarrow> char_of (0 :: nat)) vs"

definition value_float :: "gvalue \<Rightarrow> 64 word option" where
  "value_float v = (case v of VF32 w \<Rightarrow> Some (f64_of_f32 w) | VF64 w \<Rightarrow> Some w | _ \<Rightarrow> None)"

text \<open>
  \<open>WeaklyTypedHook\<close>. The accessor of a value panics when the value is not of the kind
  the hook was told.
\<close>

definition WeaklyTypedHook :: "ms_rt \<Rightarrow> gkind \<Rightarrow> gkind \<Rightarrow> gvalue \<Rightarrow> hook_result" where
  "WeaklyTypedHook rt f t data =
     (if t = KString then
        (if f = KBool then
           (case data of VBool x \<Rightarrow> Inr (Inr (VString (if x then ''1'' else ''0''))) | _ \<Rightarrow> Inl Panics)
         else if f = KFloat 32 then
           (case value_float data of Some w \<Rightarrow> Inr (Inr (VString (ms_formatFloat rt w))) | None \<Rightarrow> Inl Panics)
         else if f = KInt 0 then
           (case data of VInt b i \<Rightarrow> Inr (Inr (VString (FormatInt i))) | _ \<Rightarrow> Inl Panics)
         else if f = KSlice then
           (case data of
              VSlice t vs \<Rightarrow> if type_kind t = KUint 8 then Inr (Inr (VString (byte_string vs))) else Inr (Inr data)
            | VArray t vs \<Rightarrow> if type_kind t = KUint 8 then Inl Panics else Inr (Inr data)
            | VMap k e m \<Rightarrow> if type_kind e = KUint 8 then Inl Panics else Inr (Inr data)
            | VPtr t p \<Rightarrow> if type_kind t = KUint 8 then Inl Panics else Inr (Inr data)
            | _ \<Rightarrow> Inl Panics)
         else if f = KUint 0 then
           (case data of VUint b i \<Rightarrow> Inr (Inr (VString (FormatInt i))) | _ \<Rightarrow> Inl Panics)
         else Inr (Inr data))
      else Inr (Inr data))"

section \<open>Configuration\<close>

record ms_cfg =
  DecodeHook :: "hook option"
  ErrorUnused :: bool
  ZeroFields :: bool
  WeaklyTypedInput :: bool
  TagName :: string

record metadata =
  Keys :: "string list"
  Unused :: "string list"

type_synonym slot_result = "ms_abort + (gvalue \<times> ms_error option)"
type_synonym slot_decoder =
  "string \<Rightarrow> gvalue \<Rightarrow> gvalue \<Rightarrow> metadata option \<Rightarrow> ms_abort + (gvalue \<times> ms_error option \<times> metadata option)"

section \<open>Basic types\<close>

definition unconvertible :: "string \<Rightarrow> gtype \<Rightarrow> gvalue \<Rightarrow> gvalue \<Rightarrow> slot_result" where
  "unconvertible name t data old =
     (if data = VNil then Inl Panics else Inr (old, Some (One (Unconvertible name t (typeOf data)))))"

definition decodeBasic :: "string \<Rightarrow> gvalue \<Rightarrow> gvalue \<Rightarrow> slot_result" where
  "decodeBasic name data old = (if data = VNil then Inl Panics else Inr (data, None))"

definition decodeString :: "ms_cfg \<Rightarrow> ms_rt \<Rightarrow> string \<Rightarrow> gvalue \<Rightarrow> gvalue \<Rightarrow> slot_result" where
  "decodeString cfg rt name data old =
     (let set = (\<lambda>s. Inr (VString s, None)); no = unconvertible name TString data old; weak = WeaklyTypedInput cfg
      in case data of
           VString s \<Rightarrow> set s
         | VBool x \<Rightarrow> if weak then set (if x then ''1'' else ''0'') else no
         | VInt b i \<Rightarrow> if weak then set (FormatInt i) else no
         | VUint b i \<Rightarrow> if weak then set (FormatInt i) else no
         | VF32 w \<Rightarrow> if weak then set (ms_formatFloat rt (f64_of_f32 w)) else no
         | VF64 w \<Rightarrow> if weak then set (ms_formatFloat rt w) else no
         | VSlice t vs \<Rightarrow> if weak \<and> type_kind t = KUint 8 then set (byte_string vs) else no
         | _ \<Rightarrow> no)"

definition decodeInt :: "ms_cfg \<Rightarrow> ms_rt \<Rightarrow> nat \<Rightarrow> string \<Rightarrow> gvalue \<Rightarrow> gvalue \<Rightarrow> slot_result" where
  "decodeInt cfg rt b name data old =
     (let set = (\<lambda>i. Inr (VInt b (wrap_int b i), None)); no = unconvertible name (TInt b) data old;
          of_float = (\<lambda>w. wrap_int 64 (f64_to_int (ms_go rt) (- (2 ^ 63)) (2 ^ 63 - 1) w))
      in case data of
           VInt b' i \<Rightarrow> set i
         | VUint b' i \<Rightarrow> set (wrap_int 64 i)
         | VF32 w \<Rightarrow> set (of_float (f64_of_f32 w))
         | VF64 w \<Rightarrow> set (of_float w)
         | VBool x \<Rightarrow> if WeaklyTypedInput cfg then set (if x then 1 else 0) else no
         | VString s \<Rightarrow>
             if WeaklyTypedInput cfg then
               (case ParseInt s (width b) of
                  Some i \<Rightarrow> set i | None \<Rightarrow> Inr (old, Some (One (CannotParse name ''int''))))
             else no
         | _ \<Rightarrow> no)"

definition decodeUint :: "ms_cfg \<Rightarrow> ms_rt \<Rightarrow> nat \<Rightarrow> string \<Rightarrow> gvalue \<Rightarrow> gvalue \<Rightarrow> slot_result" where
  "decodeUint cfg rt b name data old =
     (let set = (\<lambda>i. Inr (VUint b (wrap_uint b i), None)); no = unconvertible name (TUint b) data old;
          of_float = (\<lambda>w. if f64_negative w \<and> \<not> WeaklyTypedInput cfg
                          then Inr (old, Some (One (OverflowsUint name data)))
                          else set (wrap_uint 64 (f64_to_int (ms_go rt) 0 (2 ^ 64 - 1) w)))
      in case data of
           VInt b' i \<Rightarrow>
             if i < 0 \<and> \<not> WeaklyTypedInput cfg then Inr (old, Some (One (OverflowsUint name data)))
             else set (wrap_uint 64 i)
         | VUint b' i \<Rightarrow> set i
         | VF32 w \<Rightarrow> of_float (f64_of_f32 w)
         | VF64 w \<Rightarrow> of_float w
         | VBool x \<Rightarrow> if WeaklyTypedInput cfg then set (if x then 1 else 0) else no
         | VString s \<Rightarrow>
             if WeaklyTypedInput cfg then
               (case ParseUint s (width b) of
                  Some i \<Rightarrow> set (int i) | None \<Rightarrow> Inr (old, Some (One (CannotParse name ''uint''))))
             else no
         | _ \<Rightarrow> no)"

definition decodeBool :: "ms_cfg \<Rightarrow> string \<Rightarrow> gvalue \<Rightarrow> gvalue \<Rightarrow> slot_result" where
  "decodeBool cfg name data old =
     (let set = (\<lambda>x. Inr (VBool x, None)); no = unconvertible name TBool data old; weak = WeaklyTypedInput cfg
      in case data of
           VBool x \<Rightarrow> set x
         | VInt b i \<Rightarrow> if weak then set (i \<noteq> 0) else no
         | VUint b i \<Rightarrow> if weak then set (i \<noteq> 0) else no
         | VF32 w \<Rightarrow> if weak then set (f64_nonzero (f64_of_f32 w)) else no
         | VF64 w \<Rightarrow> if weak then set (f64_nonzero w) else no
         | VString s \<Rightarrow>
             if weak then
               (case ParseBool s of
                  Some x \<Rightarrow> set x
                | None \<Rightarrow> if s = [] then set False else Inr (old, Some (One (CannotParse name ''bool''))))
             else no
         | _ \<Rightarrow> no)"

definition decodeFloat :: "ms_cfg \<Rightarrow> ms_rt \<Rightarrow> bool \<Rightarrow> string \<Rightarrow> gvalue \<Rightarrow> gvalue \<Rightarrow> slot_result" where
  "decodeFloat cfg rt wide name data old =
     (let set = (\<lambda>w. Inr (if wide then VF64 w else VF32 (f32_of_f64 (ms_go rt) w), None));
          no = unconvertible name (if wide then TF64 else TF32) data old
      in case data of
           VInt b i \<Rightarrow> set (f64_of_int i)
         | VUint b i \<Rightarrow> set (f64_of_int i)
         | VF32 w \<Rightarrow> set (f64_of_f32 w)
         | VF64 w \<Rightarrow> set w
         | VBool x \<Rightarrow> if WeaklyTypedInput cfg then set (f64_of_int (if x then 1 else 0)) else no
         | VString s \<Rightarrow>
             if WeaklyTypedInput cfg then
               (case ms_parseFloat rt s (if wide then 64 else 32) of
                  Some w \<Rightarrow> set w | None \<Rightarrow> Inr (old, Some (One (CannotParse name ''float''))))
             else no
         | _ \<Rightarrow> no)"

section \<open>Maps, pointers and slices\<close>

definition key_text :: "ms_rt \<Rightarrow> gvalue \<Rightarrow> string" where
  "key_text rt k = (case k of VString s \<Rightarrow> s | _ \<Rightarrow> ms_show rt k)"

fun map_loop :: "ms_rt \<Rightarrow> gtype \<Rightarrow> gtype \<Rightarrow> slot_decoder \<Rightarrow> slot_decoder \<Rightarrow> string \<Rightarrow>
    (gvalue \<times> gvalue) list \<Rightarrow> (gvalue \<times> gvalue) list \<Rightarrow> ms_msg list \<Rightarrow> metadata option \<Rightarrow>
    ms_abort + ((gvalue \<times> gvalue) list \<times> ms_msg list \<times> metadata option)" where
  "map_loop rt kt et deck dece name [] valMap errors md = Inr (valMap, errors, md)"
| "map_loop rt kt et deck dece name ((k, v) # entries) valMap errors md =
     (let fieldName = name @ ''['' @ key_text rt k @ '']''
      in ab_bind (deck fieldName k (zero kt) md) (\<lambda>(currentKey, err, md).
         case err of
           Some e \<Rightarrow> map_loop rt kt et deck dece name entries valMap (appendErrors errors e) md
         | None \<Rightarrow>
             ab_bind (dece fieldName v (zero et) md) (\<lambda>(currentVal, err, md).
             case err of
               Some e \<Rightarrow> map_loop rt kt et deck dece name entries valMap (appendErrors errors e) md
             | None \<Rightarrow> map_loop rt kt et deck dece name entries
                         (AList.update currentKey currentVal valMap) errors md)))"

definition decodeMap :: "ms_cfg \<Rightarrow> ms_rt \<Rightarrow> gtype \<Rightarrow> gtype \<Rightarrow> slot_decoder \<Rightarrow> slot_decoder \<Rightarrow> slot_decoder" where
  "decodeMap cfg rt kt et deck dece name data old md =
     (let valMap = (case old of VMap _ _ (Some xs) \<Rightarrow> if ZeroFields cfg then [] else xs | _ \<Rightarrow> []);
          dataVal = Indirect data
      in case dataVal of
           Some (VMap kt' et' m) \<Rightarrow>
             ab_bind (map_loop rt kt et deck dece name (case m of None \<Rightarrow> [] | Some xs \<Rightarrow> xs) valMap [] md)
               (\<lambda>(valMap, errors, md). Inr (VMap kt et (Some valMap), many errors, md))
         | _ \<Rightarrow>
             if WeaklyTypedInput cfg \<and> (value_kind dataVal = KSlice \<or> value_kind dataVal = KArray) \<and>
                value_Len (the dataVal) = 0
             then Inr (VMap kt et (Some valMap), None, md)
             else Inr (old, Some (One (ExpectedMap name (value_kind dataVal))), md))"

definition decodePtr :: "gtype \<Rightarrow> slot_decoder \<Rightarrow> slot_decoder" where
  "decodePtr t dec name data old md =
     ab_bind (dec name data (zero t) md) (\<lambda>(realVal, err, md).
       case err of Some e \<Rightarrow> Inr (old, Some e, md) | None \<Rightarrow> Inr (VPtr t (Some realVal), None, md))"

fun slice_loop :: "gtype \<Rightarrow> slot_decoder \<Rightarrow> string \<Rightarrow> nat \<Rightarrow> gvalue list \<Rightarrow> gvalue list \<Rightarrow> ms_msg list \<Rightarrow>
    metadata option \<Rightarrow> ms_abort + (gvalue list \<times> ms_msg list \<times> metadata option)" where
  "slice_loop t dec name i [] valSlice errors md = Inr (valSlice, errors, md)"
| "slice_loop t dec name i (currentData # rest) valSlice errors md =
     ab_bind (dec (name @ ''['' @ decimal i @ '']'') currentData (zero t) md) (\<lambda>(v, err, md).
       slice_loop t dec name (Suc i) rest (valSlice @ [v])
         (case err of Some e \<Rightarrow> appendErrors errors e | None \<Rightarrow> errors) md)"

definition decodeSlice :: "ms_cfg \<Rightarrow> gtype \<Rightarrow> slot_decoder \<Rightarrow> slot_decoder" where
  "decodeSlice cfg t dec name data old md =
     (let dataVal = Indirect data;
          loop = (\<lambda>vs. ab_bind (slice_loop t dec name 0 vs [] [] md)
                    (\<lambda>(valSlice, errors, md). Inr (VSlice t valSlice, many errors, md)))
      in case dataVal of
           Some (VSlice t' vs) \<Rightarrow> loop vs
         | Some (VArray t' vs) \<Rightarrow> loop vs
         | _ \<Rightarrow>
             if WeaklyTypedInput cfg \<and> value_kind dataVal = KMap \<and> value_Len (the dataVal) = 0
             then Inr (VSlice t [], None, md)
             else Inr (old, Some (One (NotASlice name (value_kind dataVal))), md))"

section \<open>Structures\<close>

text \<open>
  A field of the target is addressed by its path of indices from the root structure.
  \<open>fieldByName\<close> is \<open>Value.FieldByName\<close>: the field of that name at the least depth
  of embedding, if there is exactly one there.
\<close>

type_synonym path = "nat list"

fun get_path :: "path \<Rightarrow> gvalue \<Rightarrow> gvalue" where
  "get_path [] v = v"
| "get_path (i # p) (VStruct n fs vs) = get_path p (vs ! i)"
| "get_path (i # p) v = VNil"

fun set_path :: "path \<Rightarrow> gvalue \<Rightarrow> gvalue \<Rightarrow> gvalue" where
  "set_path [] x v = x"
| "set_path (i # p) x (VStruct n fs vs) = VStruct n fs (vs[i := set_path p x (vs ! i)])"
| "set_path (i # p) x v = v"

definition level_hits :: "string \<Rightarrow> (path \<times> sfield list) list \<Rightarrow> (path \<times> sfield) list" where
  "level_hits name level =
     concat (map (\<lambda>(p, fs). map (\<lambda>(i, f). (p @ [i], f)) (filter (\<lambda>(i, f). sfName f = name) (enumerate 0 fs))) level)"

fun embedded :: "sfield \<Rightarrow> sfield list option" where
  "embedded (SField n True tag x (TStruct m gs)) = Some gs"
| "embedded f = None"

definition next_level :: "(path \<times> sfield list) list \<Rightarrow> (path \<times> sfield list) list" where
  "next_level level =
     concat (map (\<lambda>(p, fs). List.map_filter (\<lambda>(i, f). map_option (\<lambda>gs. (p @ [i], gs)) (embedded f)) (enumerate 0 fs)) level)"

definition level_size :: "(path \<times> sfield list) list \<Rightarrow> nat" where
  "level_size level = sum_list (map (\<lambda>(p, fs). Suc (size_list size fs)) level)"

lemma embedded_size: "embedded f = Some gs \<Longrightarrow> Suc (size_list size gs) \<le> size f"
  by (cases f rule: embedded.cases) auto

lemma level_size_fields:
  "level_size (List.map_filter (\<lambda>(i, f). map_option (\<lambda>gs. (p @ [i], gs)) (embedded f)) (enumerate n fs)) \<le> size_list size fs"
proof (induction fs arbitrary: n)
  case (Cons f fs)
  show ?case
  proof (cases "embedded f")
    case None
    with Cons.IH [of "Suc n"] show ?thesis by (simp add: map_filter_simps)
  next
    case (Some gs)
    with Cons.IH [of "Suc n"] embedded_size [OF Some] show ?thesis
      by (simp add: map_filter_simps level_size_def)
  qed
qed (simp add: map_filter_simps level_size_def)

lemma level_size_append [simp]: "level_size (xs @ ys) = level_size xs + level_size ys"
  by (simp add: level_size_def)

lemma next_level_size: "level \<noteq> [] \<Longrightarrow> level_size (next_level level) < level_size level"
proof -
  have "level_size (next_level level) + length level \<le> level_size level"
  proof (induction level)
    case (Cons x level)
    obtain p fs where x: "x = (p, fs)" by (metis surj_pair)
    have "level_size (next_level (x # level)) = level_size (List.map_filter
        (\<lambda>(i, f). map_option (\<lambda>gs. (p @ [i], gs)) (embedded f)) (enumerate 0 fs)) + level_size (next_level level)"
      by (simp add: next_level_def x)
    with Cons level_size_fields [of p 0 fs] show ?case by (simp add: x level_size_def)
  qed (simp add: next_level_def level_size_def)
  then show "level \<noteq> [] \<Longrightarrow> ?thesis" by (cases level) auto
qed

function fieldByName :: "string \<Rightarrow> (path \<times> sfield list) list \<Rightarrow> (path \<times> sfield) option" where
  "fieldByName name level =
     (if level = [] then None
      else (case level_hits name level of
              [hit] \<Rightarrow> Some hit
            | [] \<Rightarrow> fieldByName name (next_level level)
            | _ \<Rightarrow> None))"
  by pat_completeness auto
termination
  by (relation "measure (\<lambda>(name, level). level_size level)") (auto simp: next_level_size)

declare fieldByName.simps [simp del]

text \<open>The tag of a field under the configured name, and its parts.\<close>

definition tag_value :: "ms_cfg \<Rightarrow> sfield \<Rightarrow> string" where
  "tag_value cfg f = (case map_of (sfTag f) (TagName cfg) of None \<Rightarrow> [] | Some t \<Rightarrow> t)"

definition squashed :: "ms_cfg \<Rightarrow> sfield \<Rightarrow> bool" where
  "squashed cfg f \<longleftrightarrow> ''squash'' \<in> set (tl (Split CHR '','' (tag_value cfg f)))"

definition field_key :: "ms_cfg \<Rightarrow> sfield \<Rightarrow> string" where
  "field_key cfg f =
     (let tagValue = hd (Split CHR '','' (tag_value cfg f)) in if tagValue \<noteq> [] then tagValue else sfName f)"

text \<open>The loop over the fields of one structure: errors, fields to squash, fields to decode.\<close>

fun struct_fields :: "ms_cfg \<Rightarrow> path \<Rightarrow> nat \<Rightarrow> sfield list \<Rightarrow> ms_msg list \<times> string list \<times> (path \<times> sfield) list" where
  "struct_fields cfg p i [] = ([], [], [])"
| "struct_fields cfg p i (f # fs) =
     (let (errors, squash, flds) = struct_fields cfg p (Suc i) fs
      in if sfAnonymous f \<and> type_kind (sfType f) \<noteq> KStruct
         then (UnsupportedField (sfName f) (type_kind (sfType f)) # errors, squash, flds)
         else if squashed cfg f then (errors, sfName f # squash, flds)
         else (errors, squash, (p @ [i], f) # flds))"

text \<open>
  The loop over the work list \<open>structs\<close>. A squashed field is looked up by name in the
  root structure, not in the structure it was found in.
\<close>

definition squash_target :: "sfield list \<Rightarrow> string \<Rightarrow> ms_abort + (path \<times> sfield list)" where
  "squash_target root name =
     (case fieldByName name [([], root)] of
        None \<Rightarrow> Inl Panics
      | Some (p, f) \<Rightarrow> (case sfType f of TStruct n gs \<Rightarrow> Inr (p, gs) | _ \<Rightarrow> Inl Panics))"

fun map_ab :: "('a \<Rightarrow> ms_abort + 'b) \<Rightarrow> 'a list \<Rightarrow> ms_abort + 'b list" where
  "map_ab f [] = Inr []"
| "map_ab f (x # xs) = ab_bind (f x) (\<lambda>y. ab_bind (map_ab f xs) (\<lambda>ys. Inr (y # ys)))"

fun collect_loop :: "ms_cfg \<Rightarrow> sfield list \<Rightarrow> nat \<Rightarrow> (path \<times> sfield list) list \<Rightarrow> ms_msg list \<Rightarrow> (path \<times> sfield) list \<Rightarrow>
    ms_abort + (ms_msg list \<times> (path \<times> sfield) list)" where
  "collect_loop cfg root fuel [] errors flds = Inr (errors, flds)"
| "collect_loop cfg root 0 (st # structs) errors flds = Inl Hangs"
| "collect_loop cfg root (Suc fuel) ((p, fs) # structs) errors flds =
     (let (es, squash, found) = struct_fields cfg p 0 fs
      in ab_bind (map_ab (squash_target root) squash) (\<lambda>new.
           collect_loop cfg root fuel (structs @ new) (errors @ es) (flds @ found)))"

definition collectFields :: "ms_cfg \<Rightarrow> ms_rt \<Rightarrow> sfield list \<Rightarrow> ms_abort + (ms_msg list \<times> (path \<times> sfield) list)" where
  "collectFields cfg rt root = collect_loop cfg root (ms_fuel rt) [([], root)] [] []"

text \<open>The key of the data map for a field: exact, or the first one equal under case folding.\<close>

definition find_key :: "ms_rt \<Rightarrow> (gvalue \<times> gvalue) list \<Rightarrow> string \<Rightarrow> (gvalue \<times> gvalue) option" where
  "find_key rt entries fieldName =
     (case map_of entries (VString fieldName) of
        Some v \<Rightarrow> Some (VString fieldName, v)
      | None \<Rightarrow> List.find (\<lambda>(k, v). case k of VString mK \<Rightarrow> ms_EqualFold rt mK fieldName | _ \<Rightarrow> False) entries)"

fun field_loop :: "ms_cfg \<Rightarrow> ms_rt \<Rightarrow> string \<Rightarrow> (gvalue \<times> gvalue) list \<Rightarrow> ((path \<times> sfield) \<times> slot_decoder) list \<Rightarrow>
    gvalue \<Rightarrow> gvalue list \<Rightarrow> ms_msg list \<Rightarrow> metadata option \<Rightarrow>
    ms_abort + (gvalue \<times> gvalue list \<times> ms_msg list \<times> metadata option)" where
  "field_loop cfg rt name entries [] val unused errors md = Inr (val, unused, errors, md)"
| "field_loop cfg rt name entries (((p, f), dec) # flds) val unused errors md =
     (let fieldName = field_key cfg f
      in case find_key rt entries fieldName of
           None \<Rightarrow> field_loop cfg rt name entries flds val unused errors md
         | Some (rawMapKey, rawMapVal) \<Rightarrow>
             (let unused = removeAll rawMapKey unused
              in if \<not> sfExported f then field_loop cfg rt name entries flds val unused errors md
                 else (let fieldName = (if name \<noteq> [] then name @ ''.'' @ fieldName else fieldName)
                       in ab_bind (dec fieldName rawMapVal (get_path p val) md) (\<lambda>(v, err, md).
                            field_loop cfg rt name entries flds (set_path p v val) unused
                              (case err of Some e \<Rightarrow> appendErrors errors e | None \<Rightarrow> errors) md))))"

definition string_keys :: "gvalue list \<Rightarrow> ms_abort + string list" where
  "string_keys ks = map_ab (\<lambda>k. case k of VString s \<Rightarrow> Inr s | _ \<Rightarrow> Inl Panics) ks"

text \<open>What follows the loop: unused keys as an error or as metadata.\<close>

definition finish_struct :: "ms_cfg \<Rightarrow> string \<Rightarrow> gvalue \<times> gvalue list \<times> ms_msg list \<times> metadata option \<Rightarrow>
    ms_abort + (gvalue \<times> ms_error option \<times> metadata option)" where
  "finish_struct cfg name st =
     (case st of (val, unused, errors, md) \<Rightarrow>
        ab_bind (if ErrorUnused cfg \<and> unused \<noteq> []
                 then ab_bind (string_keys unused) (\<lambda>keys. Inr (errors @ [InvalidKeys name (sort keys)]))
                 else Inr errors) (\<lambda>errors.
        if errors \<noteq> [] then Inr (val, Some (Many errors), md)
        else (case md of
                None \<Rightarrow> Inr (val, None, None)
              | Some m \<Rightarrow>
                  ab_bind (string_keys unused) (\<lambda>keys.
                    Inr (val, None, Some (m\<lparr>Unused := Unused m @
                      map (\<lambda>k. if name \<noteq> [] then name @ ''.'' @ k else k) keys\<rparr>))))))"

definition decodeStruct :: "ms_cfg \<Rightarrow> ms_rt \<Rightarrow> string \<Rightarrow> sfield list \<Rightarrow>
    ms_abort + (ms_msg list \<times> (path \<times> sfield) list) \<Rightarrow> slot_decoder list \<Rightarrow> slot_decoder" where
  "decodeStruct cfg rt n fs collected decs name data old md =
     (case Indirect data of
        None \<Rightarrow> Inl Panics
      | Some dataVal \<Rightarrow>
          if typeOf dataVal = TStruct n fs then Inr (dataVal, None, md)
          else (case dataVal of
                  VMap kt et m \<Rightarrow>
                    if type_kind kt \<noteq> KString \<and> type_kind kt \<noteq> KInterface
                    then Inr (old, Some (One (NeedsStringKeys name (type_kind kt))), md)
                    else (let entries = (case m of None \<Rightarrow> [] | Some xs \<Rightarrow> xs)
                          in ab_bind collected (\<lambda>(errors, flds).
                             ab_bind (field_loop cfg rt name entries (zip flds decs) old (map fst entries) errors md)
                               (finish_struct cfg name)))
                | _ \<Rightarrow> Inr (old, Some (One (ExpectedMap name (type_kind (typeOf dataVal)))), md)))"

section \<open>decode\<close>

text \<open>Before the dispatch: nil data leaves the slot alone, and the hook may replace the data.\<close>

definition decode_pre :: "ms_cfg \<Rightarrow> gtype \<Rightarrow> slot_decoder \<Rightarrow> slot_decoder" where
  "decode_pre cfg t body name data old md =
     (if data = VNil then Inr (old, None, md)
      else ab_bind (case DecodeHook cfg of
                      None \<Rightarrow> Inr (Inr data) | Some h \<Rightarrow> DecodeHookExec h (typeOf data) t data) (\<lambda>r.
           case r of Inl e \<Rightarrow> Inr (old, Some e, md) | Inr data \<Rightarrow> body name data old md))"

text \<open>After it: a named value is recorded in the metadata, decoded or not.\<close>

definition track :: "slot_decoder \<Rightarrow> slot_decoder" where
  "track body name data old md =
     ab_bind (body name data old md) (\<lambda>(v, err, md).
       Inr (v, err, if name \<noteq> [] then map_option (\<lambda>m. m\<lparr>Keys := Keys m @ [name]\<rparr>) md else md))"

definition basic :: "(string \<Rightarrow> gvalue \<Rightarrow> gvalue \<Rightarrow> slot_result) \<Rightarrow> slot_decoder" where
  "basic f name data old md = ab_bind (f name data old) (\<lambda>(v, err). Inr (v, err, md))"

definition leaves :: "ms_abort + (ms_msg list \<times> (path \<times> sfield) list) \<Rightarrow> (path \<times> sfield) list" where
  "leaves c = (case c of Inl a \<Rightarrow> [] | Inr (errors, flds) \<Rightarrow> flds)"

lemma fieldByName_size:
  "fieldByName name level = Some (p, f) \<Longrightarrow> \<exists>fs. size f < Suc (size_list size fs) \<and> Suc (size_list size fs) \<le> level_size level \<and> f \<in> set fs"
proof (induction name level rule: fieldByName.induct)
  case (1 name level)
  have ne: "level \<noteq> []" using "1.prems" by (auto simp: fieldByName.simps [of name level])
  show ?case
  proof (cases "level_hits name level")
    case Nil
    then have "fieldByName name (next_level level) = Some (p, f)"
      using "1.prems" ne by (simp add: fieldByName.simps [of name level])
    with "1.IH" [OF ne Nil] next_level_size [OF ne] show ?thesis by fastforce
  next
    case (Cons x xs)
    then have "(p, f) \<in> set (level_hits name level)"
      using "1.prems" ne by (auto simp: fieldByName.simps [of name level] split: list.splits)
    then obtain q fs where m: "(q, fs) \<in> set level" "f \<in> set fs"
      by (auto simp: level_hits_def in_set_enumerate_eq)
    have "size f < Suc (size_list size fs)"
      using m(2) by (simp add: size_list_estimation' less_Suc_eq_le)
    moreover have "Suc (size_list size fs) \<le> level_size level"
      using m(1) by (induction level) (auto simp: level_size_def)
    ultimately show ?thesis using m by blast
  qed
qed

lemma struct_fields_mem: "(p, f) \<in> set (snd (snd (struct_fields cfg q i fs))) \<Longrightarrow> f \<in> set fs"
  by (induction cfg q i fs rule: struct_fields.induct) (auto split: prod.splits if_splits)

lemma map_ab_Inr: "map_ab f xs = Inr ys \<Longrightarrow> list_all2 (\<lambda>x y. f x = Inr y) xs ys"
  by (induction xs arbitrary: ys) (auto simp: list_all2_Cons1)

lemma squash_target_size: "squash_target root name = Inr (p, gs) \<Longrightarrow> size_list size gs \<le> size_list size root"
proof -
  assume a: "squash_target root name = Inr (p, gs)"
  then obtain f n where f: "fieldByName name [([], root)] = Some (p, f)" "sfType f = TStruct n gs"
    by (auto simp: squash_target_def split: option.splits gtype.splits)
  have "level_size [([], root)] = Suc (size_list size root)" by (simp add: level_size_def)
  then have "size f \<le> size_list size root" using fieldByName_size [OF f(1)] by auto
  moreover have "size_list size gs \<le> size f" using f(2) by (cases f) auto
  ultimately show ?thesis by linarith
qed

lemma collect_loop_size:
  assumes "collect_loop cfg root fuel structs errors flds = Inr (errors', flds')"
    and "\<forall>(p, fs)\<in>set structs. size_list size fs \<le> size_list size root"
    and "\<forall>(p, f)\<in>set flds. size f \<le> size_list size root"
  shows "\<forall>(p, f)\<in>set flds'. size f \<le> size_list size root"
  using assms
proof (induction cfg root fuel structs errors flds rule: collect_loop.induct)
  case (3 cfg root fuel p fs structs errors flds)
  obtain es squash found where s: "struct_fields cfg p 0 fs = (es, squash, found)" by (metis surj_pair)
  obtain new where n: "map_ab (squash_target root) squash = Inr new"
    and c: "collect_loop cfg root fuel (structs @ new) (errors @ es) (flds @ found) = Inr (errors', flds')"
    using "3.prems"(1) s by auto
  have "\<forall>(p, fs)\<in>set new. size_list size fs \<le> size_list size root"
    using map_ab_Inr [OF n] squash_target_size by (auto simp: list_all2_conv_all_nth in_set_conv_nth) (metis)
  moreover have "\<forall>(q, f)\<in>set found. size f \<le> size_list size root"
  proof clarify
    fix q f assume "(q, f) \<in> set found"
    then have "f \<in> set fs" using struct_fields_mem [of q f cfg p 0 fs] s by simp
    then have "size f \<le> size_list size fs" by (simp add: size_list_estimation')
    with "3.prems"(2) show "size f \<le> size_list size root" by auto
  qed
  ultimately show ?case
    using "3.prems"(2,3) by (intro "3.IH" [OF s [symmetric] refl refl c]) (simp_all add: ball_Un)
qed auto

lemma leaves_size: "(p, f) \<in> set (leaves (collectFields cfg rt fs)) \<Longrightarrow> size (sfType f) < Suc (size_list size fs)"
proof -
  assume a: "(p, f) \<in> set (leaves (collectFields cfg rt fs))"
  then obtain errors flds where c: "collectFields cfg rt fs = Inr (errors, flds)" "(p, f) \<in> set flds"
    by (cases "collectFields cfg rt fs") (auto simp: leaves_def)
  then have "size f \<le> size_list size fs"
    using collect_loop_size [of cfg fs "ms_fuel rt" "[([], fs)]" "[]" "[]" errors flds]
    by (auto simp: collectFields_def)
  then show ?thesis by (cases f) auto
qed

function decoder :: "ms_cfg \<Rightarrow> ms_rt \<Rightarrow> gtype \<Rightarrow> slot_decoder" where
  "decoder cfg rt TBool = decode_pre cfg TBool (track (basic (decodeBool cfg)))"
| "decoder cfg rt TIface = decode_pre cfg TIface (track (basic decodeBasic))"
| "decoder cfg rt TString = decode_pre cfg TString (track (basic (decodeString cfg rt)))"
| "decoder cfg rt (TInt b) = decode_pre cfg (TInt b) (track (basic (decodeInt cfg rt b)))"
| "decoder cfg rt (TUint b) = decode_pre cfg (TUint b) (track (basic (decodeUint cfg rt b)))"
| "decoder cfg rt TF32 = decode_pre cfg TF32 (track (basic (decodeFloat cfg rt False)))"
| "decoder cfg rt TF64 = decode_pre cfg TF64 (track (basic (decodeFloat cfg rt True)))"
| "decoder cfg rt (TStruct n fs) = decode_pre cfg (TStruct n fs) (track
     (decodeStruct cfg rt n fs (collectFields cfg rt fs)
        (map (\<lambda>x. decoder cfg rt (sfType (snd x))) (leaves (collectFields cfg rt fs)))))"
| "decoder cfg rt (TMap k e) = decode_pre cfg (TMap k e) (track
     (decodeMap cfg rt k e (decoder cfg rt k) (decoder cfg rt e)))"
| "decoder cfg rt (TPtr t) = decode_pre cfg (TPtr t) (track (decodePtr t (decoder cfg rt t)))"
| "decoder cfg rt (TSlice t) = decode_pre cfg (TSlice t) (track (decodeSlice cfg t (decoder cfg rt t)))"
| "decoder cfg rt (TArray n t) = decode_pre cfg (TArray n t)
     (\<lambda>name data old md. Inr (old, Some (One (UnsupportedType name KArray)), md))"
| "decoder cfg rt (TOther s) = decode_pre cfg (TOther s)
     (\<lambda>name data old md. Inr (old, Some (One (UnsupportedType name (KOther s))), md))"
  by pat_completeness auto
termination
  by (relation "measure (\<lambda>(cfg, rt, t). size t)") (auto simp: leaves_size)

text \<open>
  \<open>NewDecoder\<close> checks that the result is a pointer to a slot and fills in the tag name;
  \<open>Decode\<close> and \<open>WeakDecode\<close> are the shorthands.
\<close>

definition NewDecoder :: "ms_cfg \<Rightarrow> gvalue \<Rightarrow> string + ms_cfg" where
  "NewDecoder cfg result =
     (case result of
        VPtr t (Some v) \<Rightarrow> Inr (if TagName cfg = [] then cfg\<lparr>TagName := ''mapstructure''\<rparr> else cfg)
      | VPtr t None \<Rightarrow> Inl ''result must be addressable (a pointer)''
      | _ \<Rightarrow> Inl ''result must be a pointer'')"

definition Decoder_Decode :: "ms_cfg \<Rightarrow> ms_rt \<Rightarrow> gvalue \<Rightarrow> gvalue \<Rightarrow> metadata option \<Rightarrow>
    ms_abort + (gvalue \<times> ms_error option \<times> metadata option)" where
  "Decoder_Decode cfg rt result raw md =
     (case result of
        VPtr t (Some slot) \<Rightarrow>
          ab_bind (decoder cfg rt t [] raw slot md) (\<lambda>(v, err, md). Inr (VPtr t (Some v), err, md))
      | _ \<Rightarrow> Inl Panics)"

definition plain_cfg :: ms_cfg where
  "plain_cfg = \<lparr>DecodeHook = None, ErrorUnused = False, ZeroFields = False, WeaklyTypedInput = False, TagName = []\<rparr>"

definition Decode :: "ms_rt \<Rightarrow> gvalue \<Rightarrow> gvalue \<Rightarrow> string + (ms_abort + (gvalue \<times> ms_error option \<times> metadata option))" where
  "Decode rt m rawVal =
     (case NewDecoder plain_cfg rawVal of
        Inl e \<Rightarrow> Inl e | Inr cfg \<Rightarrow> Inr (Decoder_Decode cfg rt rawVal m None))"

definition WeakDecode :: "ms_rt \<Rightarrow> gvalue \<Rightarrow> gvalue \<Rightarrow> string + (ms_abort + (gvalue \<times> ms_error option \<times> metadata option))" where
  "WeakDecode rt input out =
     (case NewDecoder (plain_cfg\<lparr>WeaklyTypedInput := True\<rparr>) out of
        Inl e \<Rightarrow> Inl e | Inr cfg \<Rightarrow> Inr (Decoder_Decode cfg rt out input None))"

end
