(* ===== verification/MapstructureSound.thy ===== *)
theory MapstructureSound
  imports Mapstructure
begin

text \<open>
  Soundness of the decoder: whatever the data, the hook and the configuration, a slot
  holds a value of its type afterwards; decoding a value into a slot of its own type
  stores that value; decoding the map of a structure's fields restores the structure.
\<close>

section \<open>Values of their types\<close>

lemma wrap_int_range [simp]: "int_range b (wrap_int b i)"
proof -
  have "(i + 2 ^ (width b - 1)) mod 2 ^ width b < 2 ^ width b" "0 \<le> (i + 2 ^ (width b - 1)) mod 2 ^ width b" by simp_all
  moreover have "(2 :: int) ^ width b = 2 * 2 ^ (width b - 1)" by (cases "width b") (auto simp: width_def split: if_splits)
  ultimately show ?thesis by (simp add: int_range_def wrap_int_def)
qed

lemma wrap_uint_range [simp]: "uint_range b (wrap_uint b i)"
  by (simp add: uint_range_def wrap_uint_def)

lemma has_type_simps [simp]:
  "has_type (VBool x) TBool" "has_type (VString s) TString" "has_type (VInt b i) (TInt b) = int_range b i"
  "has_type (VUint b i) (TUint b) = uint_range b i" "has_type (VF32 w) TF32" "has_type (VF64 w64) TF64"
  "has_type v TIface = gvalue_ok v" "has_type (VNil) TIface"
  by (auto simp: has_type_def fits_def)

lemma has_type_ok: "has_type v t \<Longrightarrow> gvalue_ok v"
  by (simp add: has_type_def)

lemma has_type_typeOf: "gvalue_ok v \<Longrightarrow> v \<noteq> VNil \<Longrightarrow> has_type v (typeOf v)"
  by (simp add: has_type_def fits_def)

lemma has_type_VSlice: "has_type (VSlice t vs) (TSlice t) \<longleftrightarrow> list_all (\<lambda>v. has_type v t) vs"
  by (auto simp: has_type_def fits_def list_all_iff)

lemma has_type_VMap: "has_type (VMap k e (Some xs)) (TMap k e) \<longleftrightarrow> list_all (\<lambda>x. has_type (fst x) k \<and> has_type (snd x) e) xs"
  by (auto simp: has_type_def fits_def list_all_iff)

lemma has_type_VPtr: "has_type (VPtr t (Some v)) (TPtr t) \<longleftrightarrow> has_type v t"
  by (auto simp: has_type_def fits_def)

lemma has_type_VStruct:
  "has_type (VStruct n fs vs) (TStruct n fs) \<longleftrightarrow> list_all2 (\<lambda>f v. has_type v (sfType f)) fs vs"
  by (auto simp: has_type_def fits_def list_all_length list_all2_conv_all_nth)

lemma has_type_zero: "has_type (zero t) t"
proof (induction t rule: zero.induct)
  case (9 n t)
  then show ?case by (auto simp: has_type_def fits_def list_all_iff)
next
  case (12 n fs)
  then show ?case by (simp only: zero.simps has_type_VStruct) (auto simp: list_all2_conv_all_nth)
qed (auto simp: has_type_def fits_def int_range_def uint_range_def)

lemma has_type_structD:
  "has_type v (TStruct n fs) \<Longrightarrow> \<exists>vs. v = VStruct n fs vs \<and> list_all2 (\<lambda>f v. has_type v (sfType f)) fs vs"
proof -
  assume a: "has_type v (TStruct n fs)"
  then obtain vs where "v = VStruct n fs vs" by (cases v) (auto simp: has_type_def fits_def)
  with a show ?thesis by (simp add: has_type_VStruct)
qed

section \<open>Paths\<close>

fun path_type :: "path \<Rightarrow> gtype \<Rightarrow> gtype option" where
  "path_type [] t = Some t"
| "path_type (i # p) (TStruct n fs) = (if i < length fs then path_type p (sfType (fs ! i)) else None)"
| "path_type (i # p) t = None"

lemma path_type_append: "path_type (p @ q) t = Option.bind (path_type p t) (path_type q)"
  by (induction p t rule: path_type.induct) auto

lemma get_path_type: "has_type v t \<Longrightarrow> path_type p t = Some t' \<Longrightarrow> has_type (get_path p v) t'"
proof (induction p t arbitrary: v rule: path_type.induct)
  case (2 i p n fs)
  obtain vs where v: "v = VStruct n fs vs" "list_all2 (\<lambda>f v. has_type v (sfType f)) fs vs"
    using "2.prems" has_type_structD by blast
  have i: "i < length fs" "path_type p (sfType (fs ! i)) = Some t'" using "2.prems" by (auto split: if_splits)
  with v "2.IH" [OF i(1), of "vs ! i"] show ?case by (simp add: list_all2_conv_all_nth)
qed auto

lemma set_path_type:
  "has_type v t \<Longrightarrow> path_type p t = Some t' \<Longrightarrow> has_type x t' \<Longrightarrow> has_type (set_path p x v) t"
proof (induction p t arbitrary: v rule: path_type.induct)
  case (2 i p n fs)
  obtain vs where v: "v = VStruct n fs vs" "list_all2 (\<lambda>f v. has_type v (sfType f)) fs vs"
    using "2.prems" has_type_structD by blast
  have i: "i < length fs" "path_type p (sfType (fs ! i)) = Some t'" using "2.prems" by (auto split: if_splits)
  have "has_type (set_path p x (vs ! i)) (sfType (fs ! i))"
    using "2.IH" [OF i(1) _ i(2)] "2.prems"(3) v i by (simp add: list_all2_conv_all_nth)
  with v i show ?case by (auto simp: has_type_VStruct list_all2_conv_all_nth nth_list_update)
qed auto

lemma embeddedD: "embedded f = Some gs \<Longrightarrow> \<exists>n. sfType f = TStruct n gs"
  by (cases f rule: embedded.cases) auto

text \<open>The paths of the fields to decode are paths of the root structure.\<close>

definition level_ok :: "gtype \<Rightarrow> (path \<times> sfield list) list \<Rightarrow> bool" where
  "level_ok root level \<longleftrightarrow> (\<forall>(p, fs)\<in>set level. \<exists>n. path_type p root = Some (TStruct n fs))"

lemma field_path:
  "path_type p root = Some (TStruct n fs) \<Longrightarrow> (i, f) \<in> set (enumerate 0 fs) \<Longrightarrow> path_type (p @ [i]) root = Some (sfType f)"
  by (auto simp: path_type_append in_set_enumerate_eq)

lemma next_level_ok: "level_ok root level \<Longrightarrow> level_ok root (next_level level)"
proof -
  assume a: "level_ok root level"
  show ?thesis unfolding level_ok_def
  proof clarify
    fix q gs assume "(q, gs) \<in> set (next_level level)"
    then obtain p fs i f where m: "(p, fs) \<in> set level" "(i, f) \<in> set (enumerate 0 fs)" "embedded f = Some gs" "q = p @ [i]"
      by (auto simp: next_level_def List.map_filter_def split: option.splits)
    obtain n where "path_type p root = Some (TStruct n fs)" using a m(1) by (auto simp: level_ok_def)
    from field_path [OF this m(2)] embeddedD [OF m(3)] m(4)
    show "\<exists>n. path_type q root = Some (TStruct n gs)" by auto
  qed
qed

lemma fieldByName_path:
  "fieldByName name level = Some (p, f) \<Longrightarrow> level_ok root level \<Longrightarrow> path_type p root = Some (sfType f)"
proof (induction name level rule: fieldByName.induct)
  case (1 name level)
  have ne: "level \<noteq> []" using "1.prems" by (auto simp: fieldByName.simps [of name level])
  show ?case
  proof (cases "level_hits name level")
    case Nil
    then have "fieldByName name (next_level level) = Some (p, f)"
      using "1.prems" ne by (simp add: fieldByName.simps [of name level])
    with "1.IH" [OF ne Nil] next_level_ok "1.prems" show ?thesis by blast
  next
    case (Cons x xs)
    then have "(p, f) \<in> set (level_hits name level)"
      using "1.prems" ne by (auto simp: fieldByName.simps [of name level] split: list.splits)
    then obtain q fs i where m: "(q, fs) \<in> set level" "(i, f) \<in> set (enumerate 0 fs)" "p = q @ [i]"
      by (auto simp: level_hits_def)
    then show ?thesis using "1.prems"(2) field_path [of q root _ fs i f] by (auto simp: level_ok_def)
  qed
qed

lemma struct_fields_path:
  "(q, f) \<in> set (snd (snd (struct_fields cfg p i fs))) \<Longrightarrow> \<exists>j. (j, f) \<in> set (enumerate i fs) \<and> q = p @ [j]"
  by (induction cfg p i fs rule: struct_fields.induct) (auto split: prod.splits if_splits)

lemma squash_target_path:
  assumes "squash_target root name = Inr (p, gs)"
  shows "\<exists>m. path_type p (TStruct n root) = Some (TStruct m gs)"
proof -
  have "level_ok (TStruct n root) [([], root)]" by (simp add: level_ok_def)
  with assms fieldByName_path show ?thesis
    by (fastforce simp: squash_target_def split: option.splits gtype.splits)
qed

lemma collect_loop_path:
  assumes "collect_loop cfg root fuel structs errors flds = Inr (errors', flds')"
    and "level_ok (TStruct n root) structs"
    and "\<forall>(p, f)\<in>set flds. path_type p (TStruct n root) = Some (sfType f)"
  shows "\<forall>(p, f)\<in>set flds'. path_type p (TStruct n root) = Some (sfType f)"
  using assms
proof (induction cfg root fuel structs errors flds rule: collect_loop.induct)
  case (3 cfg root fuel p fs structs errors flds)
  obtain es squash found where s: "struct_fields cfg p 0 fs = (es, squash, found)" by (metis surj_pair)
  obtain new where nw: "map_ab (squash_target root) squash = Inr new"
    and c: "collect_loop cfg root fuel (structs @ new) (errors @ es) (flds @ found) = Inr (errors', flds')"
    using "3.prems"(1) s by auto
  have "level_ok (TStruct n root) new"
    using map_ab_Inr [OF nw] squash_target_path [of root _ _ _ n]
    by (auto simp: level_ok_def list_all2_conv_all_nth in_set_conv_nth) metis
  moreover have "\<forall>(q, f)\<in>set found. path_type q (TStruct n root) = Some (sfType f)"
  proof clarify
    fix q f assume "(q, f) \<in> set found"
    then obtain j where j: "(j, f) \<in> set (enumerate 0 fs)" "q = p @ [j]"
      using struct_fields_path [of q f cfg p 0 fs] s by auto
    from "3.prems"(2) obtain m where "path_type p (TStruct n root) = Some (TStruct m fs)" by (auto simp: level_ok_def)
    from field_path [OF this j(1)] j(2) show "path_type q (TStruct n root) = Some (sfType f)" by simp
  qed
  ultimately show ?case
    using "3.prems"(2,3) by (intro "3.IH" [OF s [symmetric] refl refl c]) (simp_all add: ball_Un level_ok_def)
qed auto

lemma collectFields_path:
  "collectFields cfg rt fs = Inr (errors, flds) \<Longrightarrow> (p, f) \<in> set flds \<Longrightarrow> path_type p (TStruct n fs) = Some (sfType f)"
  using collect_loop_path [of cfg fs "ms_fuel rt" "[([], fs)]" "[]" "[]" errors flds n]
  by (auto simp: collectFields_def level_ok_def)

section \<open>Every decoder keeps its slot typed\<close>

definition sound :: "gtype \<Rightarrow> slot_decoder \<Rightarrow> bool" where
  "sound t dec \<longleftrightarrow> (\<forall>name data old md v err md'. gvalue_ok data \<longrightarrow> has_type old t \<longrightarrow>
     dec name data old md = Inr (v, err, md') \<longrightarrow> has_type v t)"

lemma soundI:
  "(\<And>name data old md v err md'. gvalue_ok data \<Longrightarrow> has_type old t \<Longrightarrow>
     dec name data old md = Inr (v, err, md') \<Longrightarrow> has_type v t) \<Longrightarrow> sound t dec"
  by (auto simp: sound_def)

lemma soundD:
  "sound t dec \<Longrightarrow> gvalue_ok data \<Longrightarrow> has_type old t \<Longrightarrow> dec name data old md = Inr (v, err, md') \<Longrightarrow> has_type v t"
  unfolding sound_def by blast

definition hook_ok :: "ms_cfg \<Rightarrow> bool" where
  "hook_ok cfg \<longleftrightarrow> (\<forall>h src dst data r. DecodeHook cfg = Some h \<longrightarrow> gvalue_ok data \<longrightarrow>
     DecodeHookExec h src dst data = Inr (Inr r) \<longrightarrow> gvalue_ok r)"

lemma sound_pre: "hook_ok cfg \<Longrightarrow> sound t body \<Longrightarrow> sound t (decode_pre cfg t body)"
proof (rule soundI)
  fix name data old md v err md'
  assume h: "hook_ok cfg" and b: "sound t body" and d: "gvalue_ok data" and o: "has_type old t"
    and r: "decode_pre cfg t body name data old md = Inr (v, err, md')"
  show "has_type v t"
  proof (cases "data = VNil")
    case True
    with r o show ?thesis by (simp add: decode_pre_def)
  next
    case False
    with r obtain x where x: "(case DecodeHook cfg of None \<Rightarrow> Inr (Inr data)
        | Some h \<Rightarrow> DecodeHookExec h (typeOf data) t data) = Inr x"
      and y: "(case x of Inl e \<Rightarrow> Inr (old, Some e, md) | Inr data \<Rightarrow> body name data old md) = Inr (v, err, md')"
      by (auto simp: decode_pre_def)
    show ?thesis
    proof (cases x)
      case (Inl e)
      with y o show ?thesis by simp
    next
      case (Inr data')
      have "gvalue_ok data'"
        using h d x Inr by (auto simp: hook_ok_def split: option.splits)
      with y Inr b o show ?thesis by (auto dest: soundD)
    qed
  qed
qed

lemma sound_track: "sound t body \<Longrightarrow> sound t (track body)"
  by (rule soundI) (auto simp: track_def dest: soundD)

lemma sound_basic:
  "(\<And>name data old v err. gvalue_ok data \<Longrightarrow> has_type old t \<Longrightarrow> f name data old = Inr (v, err) \<Longrightarrow> has_type v t) \<Longrightarrow>
   sound t (basic f)"
  by (rule soundI) (auto simp: basic_def)

lemma unconvertible_Inr: "unconvertible name t data old = Inr (v, err) \<Longrightarrow> v = old"
  by (auto simp: unconvertible_def split: if_splits)

lemma sound_scalars:
  "sound TBool (basic (decodeBool cfg))" "sound TIface (basic decodeBasic)" "sound TString (basic (decodeString cfg rt))"
  "sound (TInt b) (basic (decodeInt cfg rt b))" "sound (TUint b) (basic (decodeUint cfg rt b))"
  "sound TF32 (basic (decodeFloat cfg rt False))" "sound TF64 (basic (decodeFloat cfg rt True))"
proof -
  show "sound TBool (basic (decodeBool cfg))"
    by (rule sound_basic) (auto simp: decodeBool_def Let_def split: gvalue.splits if_splits option.splits dest!: unconvertible_Inr)
  show "sound TIface (basic decodeBasic)"
    by (rule sound_basic) (auto simp: decodeBasic_def split: if_splits)
  show "sound TString (basic (decodeString cfg rt))"
    by (rule sound_basic) (auto simp: decodeString_def Let_def split: gvalue.splits if_splits dest!: unconvertible_Inr)
  show "sound (TInt b) (basic (decodeInt cfg rt b))"
    by (rule sound_basic) (auto simp: decodeInt_def Let_def split: gvalue.splits if_splits option.splits dest!: unconvertible_Inr)
  show "sound (TUint b) (basic (decodeUint cfg rt b))"
    by (rule sound_basic) (auto simp: decodeUint_def Let_def split: gvalue.splits if_splits option.splits dest!: unconvertible_Inr)
  show "sound TF32 (basic (decodeFloat cfg rt False))"
    by (rule sound_basic) (auto simp: decodeFloat_def Let_def split: gvalue.splits if_splits option.splits dest!: unconvertible_Inr)
  show "sound TF64 (basic (decodeFloat cfg rt True))"
    by (rule sound_basic) (auto simp: decodeFloat_def Let_def split: gvalue.splits if_splits option.splits dest!: unconvertible_Inr)
qed

lemma Indirect_gvalue_ok: "gvalue_ok data \<Longrightarrow> Indirect data = Some v \<Longrightarrow> gvalue_ok v"
  by (cases data rule: Indirect.cases) auto

lemma list_all_update:
  "list_all P xs \<Longrightarrow> P (k, v) \<Longrightarrow> list_all P (AList.update k v xs)"
  by (induction xs) auto

lemma map_loop_sound:
  assumes "sound kt deck" and "sound et dece"
  shows "list_all (\<lambda>x. gvalue_ok (fst x) \<and> gvalue_ok (snd x)) entries \<Longrightarrow>
    list_all (\<lambda>x. has_type (fst x) kt \<and> has_type (snd x) et) valMap \<Longrightarrow>
    map_loop rt kt et deck dece name entries valMap errors md = Inr (valMap', errors', md') \<Longrightarrow>
    list_all (\<lambda>x. has_type (fst x) kt \<and> has_type (snd x) et) valMap'"
proof (induction entries arbitrary: valMap errors md)
  case (Cons x entries)
  obtain k v where x: "x = (k, v)" by (metis surj_pair)
  let ?n = "name @ ''['' @ key_text rt k @ '']''"
  from Cons.prems(3) obtain ck err md1 where k: "deck ?n k (zero kt) md = Inr (ck, err, md1)" by (auto simp: x Let_def)
  show ?case
  proof (cases err)
    case (Some e)
    with Cons.prems k show ?thesis by (intro Cons.IH) (auto simp: x Let_def)
  next
    case None
    with Cons.prems k obtain cv err2 md2 where v: "dece ?n v (zero et) md1 = Inr (cv, err2, md2)" by (auto simp: x Let_def)
    have "has_type ck kt" "has_type cv et"
      using soundD [OF assms(1) _ has_type_zero k] soundD [OF assms(2) _ has_type_zero v] Cons.prems(1) by (auto simp: x)
    then have "list_all (\<lambda>x. has_type (fst x) kt \<and> has_type (snd x) et) (AList.update ck cv valMap)"
      using Cons.prems(2) by (intro list_all_update) auto
    with Cons.prems k v None show ?thesis
      by (cases err2) (auto simp: x Let_def intro: Cons.IH)
  qed
qed simp

lemma sound_decodeMap:
  assumes "sound kt deck" and "sound et dece"
  shows "sound (TMap kt et) (decodeMap cfg rt kt et deck dece)"
proof (rule soundI)
  fix name data old md v err md'
  assume d: "gvalue_ok data" and o: "has_type old (TMap kt et)"
    and r: "decodeMap cfg rt kt et deck dece name data old md = Inr (v, err, md')"
  define valMap where "valMap = (case old of VMap _ _ (Some xs) \<Rightarrow> if ZeroFields cfg then [] else xs | _ \<Rightarrow> [])"
  have vm: "list_all (\<lambda>x. has_type (fst x) kt \<and> has_type (snd x) et) valMap"
  proof (cases "\<exists>a b xs. old = VMap a b (Some xs)")
    case True
    then obtain xs where xs: "old = VMap kt et (Some xs)" using o by (auto simp: has_type_def fits_def)
    then show ?thesis using o by (simp add: valMap_def has_type_VMap)
  next
    case False
    then show ?thesis by (cases old) (auto simp: valMap_def split: option.splits)
  qed
  show "has_type v (TMap kt et)"
  proof (cases "\<exists>a b m. Indirect data = Some (VMap a b m)")
    case True
    then obtain a b m where i: "Indirect data = Some (VMap a b m)" by blast
    define entries where "entries = (case m of None \<Rightarrow> [] | Some xs \<Rightarrow> xs)"
    have e: "list_all (\<lambda>x. gvalue_ok (fst x) \<and> gvalue_ok (snd x)) entries"
      using Indirect_gvalue_ok [OF d i] by (cases m) (auto simp: entries_def)
    from r i obtain vm' errors' where l: "map_loop rt kt et deck dece name entries valMap [] md = Inr (vm', errors', md')"
        and v: "v = VMap kt et (Some vm')"
      by (auto simp: decodeMap_def valMap_def [symmetric] entries_def [symmetric])
    from map_loop_sound [OF assms e vm l] show ?thesis by (simp add: v has_type_VMap)
  next
    case False
    then have "v = VMap kt et (Some valMap) \<or> v = old"
      using r by (auto simp: decodeMap_def valMap_def [symmetric] Let_def split: option.splits gvalue.splits if_splits)
    then show ?thesis using vm o by (auto simp: has_type_VMap)
  qed
qed

lemma sound_decodePtr: "sound t dec \<Longrightarrow> sound (TPtr t) (decodePtr t dec)"
  by (rule soundI)
     (auto simp: decodePtr_def has_type_VPtr split: option.splits dest: soundD [OF _ _ has_type_zero])

lemma slice_loop_sound:
  assumes "sound t dec"
  shows "list_all gvalue_ok vs \<Longrightarrow> list_all (\<lambda>v. has_type v t) valSlice \<Longrightarrow>
    slice_loop t dec name i vs valSlice errors md = Inr (valSlice', errors', md') \<Longrightarrow>
    list_all (\<lambda>v. has_type v t) valSlice' \<and> length valSlice' = length valSlice + length vs"
proof (induction vs arbitrary: i valSlice errors md)
  case (Cons x vs)
  from Cons.prems(3) obtain v err md1 where
    k: "dec (name @ ''['' @ decimal i @ '']'') x (zero t) md = Inr (v, err, md1)" by auto
  have "has_type v t" using soundD [OF assms _ has_type_zero k] Cons.prems(1) by simp
  with Cons.prems k Cons.IH [of "valSlice @ [v]"] show ?case by auto
qed simp

lemma sound_decodeSlice:
  assumes "sound t dec"
  shows "sound (TSlice t) (decodeSlice cfg t dec)"
proof (rule soundI)
  fix name data old md v err md'
  assume d: "gvalue_ok data" and o: "has_type old (TSlice t)"
    and r: "decodeSlice cfg t dec name data old md = Inr (v, err, md')"
  have loop: "has_type v (TSlice t)"
    if "list_all gvalue_ok vs" and "ab_bind (slice_loop t dec name 0 vs [] [] md)
      (\<lambda>(valSlice, errors, md). Inr (VSlice t valSlice, many errors, md)) = Inr (v, err, md')" for vs
    using that slice_loop_sound [OF assms that(1), of "[]" name 0 "[]" md] by (auto simp: has_type_VSlice)
  show "has_type v (TSlice t)"
    using r o loop Indirect_gvalue_ok [OF d]
    by (auto simp: decodeSlice_def Let_def has_type_VSlice split: option.splits gvalue.splits if_splits)
qed

lemma find_key_mem: "find_key rt entries n = Some (k, v) \<Longrightarrow> (k, v) \<in> set entries"
  by (auto simp: find_key_def find_Some_iff split: option.splits dest: map_of_SomeD) (metis nth_mem)

lemma field_loop_sound:
  assumes "list_all (\<lambda>x. gvalue_ok (fst x) \<and> gvalue_ok (snd x)) entries"
  shows "list_all (\<lambda>((p, f), dec). path_type p t = Some (sfType f) \<and> sound (sfType f) dec) flds \<Longrightarrow>
    has_type val t \<Longrightarrow> field_loop cfg rt name entries flds val unused errors md = Inr (val', unused', errors', md') \<Longrightarrow>
    has_type val' t"
proof (induction flds arbitrary: val unused errors md)
  case (Cons x flds)
  obtain p f dec where x: "x = ((p, f), dec)" by (metis surj_pair)
  show ?case
  proof (cases "find_key rt entries (field_key cfg f)")
    case None
    with Cons.prems show ?thesis by (intro Cons.IH [of val unused errors md]) (auto simp: x)
  next
    case (Some kv)
    obtain k v where kv: "kv = (k, v)" by (metis surj_pair)
    have ok: "gvalue_ok v" using find_key_mem [of rt entries _ k v] Some kv assms by (force simp: list_all_iff)
    show ?thesis
    proof (cases "sfExported f")
      case False
      with Some kv Cons.prems show ?thesis
        by (intro Cons.IH [of val "removeAll k unused" errors md]) (auto simp: x)
    next
      case True
      from Cons.prems(3) Some kv True obtain w err md1 where
        d: "dec (if name \<noteq> [] then name @ ''.'' @ field_key cfg f else field_key cfg f) v (get_path p val) md = Inr (w, err, md1)"
        and r: "field_loop cfg rt name entries flds (set_path p w val) (removeAll k unused)
            (case err of Some e \<Rightarrow> appendErrors errors e | None \<Rightarrow> errors) md1 = Inr (val', unused', errors', md')"
        by (auto simp: x Let_def)
      have p: "path_type p t = Some (sfType f)" "sound (sfType f) dec" using Cons.prems(1) by (auto simp: x)
      have "has_type w (sfType f)"
        using soundD [OF p(2) ok get_path_type [OF Cons.prems(2) p(1)] d] .
      then have "has_type (set_path p w val) t" using set_path_type Cons.prems(2) p(1) by blast
      with Cons.IH [OF _ _ r] Cons.prems(1) show ?thesis by (simp add: x)
    qed
  qed
qed simp

lemma sound_decodeStruct:
  assumes "list_all (\<lambda>((p, f), dec). path_type p (TStruct n fs) = Some (sfType f) \<and> sound (sfType f) dec)
      (zip (leaves (collectFields cfg rt fs)) decs)"
  shows "sound (TStruct n fs) (decodeStruct cfg rt n fs (collectFields cfg rt fs) decs)"
proof (rule soundI)
  fix name data old md v err md'
  assume d: "gvalue_ok data" and o: "has_type old (TStruct n fs)"
    and r: "decodeStruct cfg rt n fs (collectFields cfg rt fs) decs name data old md = Inr (v, err, md')"
  obtain dv where i: "Indirect data = Some dv" using r by (auto simp: decodeStruct_def split: option.splits)
  have ok: "gvalue_ok dv" using Indirect_gvalue_ok [OF d i] .
  show "has_type v (TStruct n fs)"
  proof (cases "typeOf dv = TStruct n fs")
    case True
    with r i ok show ?thesis by (cases dv) (auto simp: decodeStruct_def has_type_def fits_def)
  next
    case False
    show ?thesis
    proof (cases "\<exists>kt et m. dv = VMap kt et m \<and> \<not> (type_kind kt \<noteq> KString \<and> type_kind kt \<noteq> KInterface)")
      case True
      then obtain kt et m where dv: "dv = VMap kt et m" "\<not> (type_kind kt \<noteq> KString \<and> type_kind kt \<noteq> KInterface)" by blast
      define entries where "entries = (case m of None \<Rightarrow> [] | Some xs \<Rightarrow> xs)"
      have e: "list_all (\<lambda>x. gvalue_ok (fst x) \<and> gvalue_ok (snd x)) entries"
        using ok by (cases m) (auto simp: dv entries_def)
      from r i dv obtain errors flds where c: "collectFields cfg rt fs = Inr (errors, flds)"
        and "ab_bind (field_loop cfg rt name entries (zip flds decs) old (map fst entries) errors md)
            (finish_struct cfg name) = Inr (v, err, md')"
        by (auto simp: decodeStruct_def entries_def [symmetric])
      then obtain val' u' e' m' where l: "field_loop cfg rt name entries (zip flds decs) old (map fst entries) errors md = Inr (val', u', e', m')"
        and f: "finish_struct cfg name (val', u', e', m') = Inr (v, err, md')" by auto
      have "v = val'" using f by (auto simp: finish_struct_def split: if_splits option.splits)
      moreover have "has_type val' (TStruct n fs)"
        using field_loop_sound [OF e _ o l] assms c by (simp add: leaves_def)
      ultimately show ?thesis by simp
    next
      case False
      with \<open>typeOf dv \<noteq> TStruct n fs\<close> r i o show ?thesis
        by (cases dv) (auto simp: decodeStruct_def split: if_splits)
    qed
  qed
qed

lemma decoder_sound: "hook_ok cfg \<Longrightarrow> sound t (decoder cfg rt t)"
proof (induction cfg rt t rule: decoder.induct)
  case (8 cfg rt n fs)
  let ?c = "collectFields cfg rt fs"
  have "list_all (\<lambda>((p, f), dec). path_type p (TStruct n fs) = Some (sfType f) \<and> sound (sfType f) dec)
      (zip (leaves ?c) (map (\<lambda>x. decoder cfg rt (sfType (snd x))) (leaves ?c)))"
  proof -
    have "path_type p (TStruct n fs) = Some (sfType f)" if "(p, f) \<in> set (leaves ?c)" for p f
      using that collectFields_path [of cfg rt fs _ _ p f n] by (cases ?c) (auto simp: leaves_def)
    then show ?thesis
      using "8.IH" "8.prems" by (auto simp: list_all_iff zip_map2 zip_same_conv_map)
  qed
  from sound_decodeStruct [OF this] show ?case using "8.prems" by (simp add: sound_pre sound_track)
next
  case (12 cfg rt n t)
  have "sound (TArray n t) (\<lambda>name data old md. Inr (old, Some (One (UnsupportedType name KArray)), md))"
    by (rule soundI) auto
  with 12 show ?case by (simp add: sound_pre)
next
  case (13 cfg rt s)
  have "sound (TOther s) (\<lambda>name data old md. Inr (old, Some (One (UnsupportedType name (KOther s))), md))"
    by (rule soundI) auto
  with 13 show ?case by (simp add: sound_pre)
qed (simp_all add: sound_pre sound_track sound_scalars sound_decodeMap sound_decodePtr sound_decodeSlice)

section \<open>Decoding a value into its own type\<close>

fun plain_type :: "gtype \<Rightarrow> bool" where
  "plain_type TBool = True" | "plain_type TString = True" | "plain_type (TInt b) = True"
| "plain_type (TUint b) = True" | "plain_type TF64 = True" | "plain_type TIface = True"
| "plain_type (TSlice t) = plain_type t" | "plain_type (TStruct n fs) = True" | "plain_type t = False"

lemma wrap_int_id: "int_range b i \<Longrightarrow> wrap_int b i = i"
proof -
  assume a: "int_range b i"
  have "(2 :: int) ^ width b = 2 * 2 ^ (width b - 1)" by (cases "width b") (auto simp: width_def split: if_splits)
  then have "(i + 2 ^ (width b - 1)) mod 2 ^ width b = i + 2 ^ (width b - 1)"
    using a by (intro mod_pos_pos_trivial) (auto simp: int_range_def)
  then show ?thesis by (simp add: wrap_int_def)
qed

lemma wrap_uint_id: "uint_range b i \<Longrightarrow> wrap_uint b i = i"
  by (simp add: uint_range_def wrap_uint_def)

lemma decode_pre_plain:
  "DecodeHook cfg = None \<Longrightarrow> data \<noteq> VNil \<Longrightarrow> decode_pre cfg t body name data old md = body name data old md"
  by (simp add: decode_pre_def)

lemma track_Inr:
  "body name data old md = Inr (v, err, md1) \<Longrightarrow> \<exists>md'. track body name data old md = Inr (v, err, md')"
  by (simp add: track_def)

lemma track_basic:
  "f name data old = Inr (v, err) \<Longrightarrow> \<exists>md'. track (basic f) name data old md = Inr (v, err, md')"
  by (simp add: track_def basic_def)

definition self_decoding :: "gtype \<Rightarrow> slot_decoder \<Rightarrow> bool" where
  "self_decoding t dec \<longleftrightarrow> (\<forall>name v md. has_type v t \<longrightarrow> (\<exists>md'. dec name v (zero t) md = Inr (v, None, md')))"

lemma slice_loop_self:
  assumes "self_decoding t dec"
  shows "list_all (\<lambda>v. has_type v t) vs \<Longrightarrow> \<exists>md'. slice_loop t dec name i vs acc [] md = Inr (acc @ vs, [], md')"
proof (induction vs arbitrary: i acc md)
  case (Cons v vs)
  obtain md1 where "dec (name @ ''['' @ decimal i @ '']'') v (zero t) md = Inr (v, None, md1)"
  proof -
    have "has_type v t" using Cons.prems by simp
    then show thesis using assms that unfolding self_decoding_def by blast
  qed
  moreover from Cons obtain md2 where "slice_loop t dec name (Suc i) vs (acc @ [v]) [] md1 = Inr ((acc @ [v]) @ vs, [], md2)"
    by fastforce
  ultimately show ?case by simp
qed simp

lemma has_type_not_nil: "has_type v t \<Longrightarrow> t \<noteq> TIface \<Longrightarrow> v \<noteq> VNil"
  by (auto simp: has_type_def fits_def)

lemma has_type_cases:
  "has_type v TBool \<Longrightarrow> \<exists>x. v = VBool x" "has_type v TString \<Longrightarrow> \<exists>s. v = VString s"
  "has_type v (TInt b) \<Longrightarrow> \<exists>i. v = VInt b i \<and> int_range b i" "has_type v (TUint b) \<Longrightarrow> \<exists>i. v = VUint b i \<and> uint_range b i"
  "has_type v TF64 \<Longrightarrow> \<exists>w. v = VF64 w"
  "has_type v (TSlice t) \<Longrightarrow> \<exists>vs. v = VSlice t vs"
  by (cases v; auto simp: has_type_def fits_def)+

lemma decoder_self:
  "DecodeHook cfg = None \<Longrightarrow> plain_type t \<Longrightarrow> self_decoding t (decoder cfg rt t)"
proof (induction cfg rt t rule: decoder.induct)
  case (1 cfg rt)
  then show ?case unfolding self_decoding_def
    by (auto dest!: has_type_cases simp: decode_pre_plain decodeBool_def intro!: track_basic)
next
  case (2 cfg rt)
  then show ?case unfolding self_decoding_def
  proof (intro allI impI)
    fix name v md assume "has_type v TIface"
    with 2 show "\<exists>md'. decoder cfg rt TIface name v (zero TIface) md = Inr (v, None, md')"
      by (cases "v = VNil") (auto simp: decode_pre_def decodeBasic_def intro!: track_basic)
  qed
next
  case (3 cfg rt)
  then show ?case unfolding self_decoding_def
    by (auto dest!: has_type_cases simp: decode_pre_plain decodeString_def intro!: track_basic)
next
  case (4 cfg rt b)
  then show ?case unfolding self_decoding_def
    by (auto dest!: has_type_cases simp: decode_pre_plain decodeInt_def wrap_int_id Let_def intro!: track_basic)
next
  case (5 cfg rt b)
  then show ?case unfolding self_decoding_def
    by (auto dest!: has_type_cases simp: decode_pre_plain decodeUint_def wrap_uint_id Let_def intro!: track_basic)
next
  case (7 cfg rt)
  then show ?case unfolding self_decoding_def
    by (auto dest!: has_type_cases simp: decode_pre_plain decodeFloat_def Let_def intro!: track_basic)
next
  case (8 cfg rt n fs)
  then show ?case unfolding self_decoding_def
    by (auto dest!: has_type_structD simp: decode_pre_plain decodeStruct_def intro!: track_Inr)
next
  case (11 cfg rt t)
  show ?case unfolding self_decoding_def
  proof (intro allI impI)
    fix name v md assume a: "has_type v (TSlice t)"
    then obtain vs where v: "v = VSlice t vs" using has_type_cases(6) by blast
    then have "list_all (\<lambda>v. has_type v t) vs" using a by (simp add: has_type_VSlice)
    then obtain md' where "slice_loop t (decoder cfg rt t) name 0 vs [] [] md = Inr ([] @ vs, [], md')"
      using slice_loop_self [of t "decoder cfg rt t" vs name 0 "[]" md] 11 by auto
    then show "\<exists>md'. decoder cfg rt (TSlice t) name v (zero (TSlice t)) md = Inr (v, None, md')"
      using "11.prems" by (auto simp: v decode_pre_plain decodeSlice_def many_def intro!: track_Inr)
  qed
qed simp_all

section \<open>A structure from the map of its fields\<close>

definition simple_struct :: "ms_cfg \<Rightarrow> sfield list \<Rightarrow> bool" where
  "simple_struct cfg fs \<longleftrightarrow> distinct (map (field_key cfg) fs) \<and>
     list_all (\<lambda>f. \<not> squashed cfg f \<and> sfExported f \<and> \<not> sfAnonymous f \<and> plain_type (sfType f)) fs"

definition struct_map :: "ms_cfg \<Rightarrow> sfield list \<Rightarrow> gvalue list \<Rightarrow> gvalue" where
  "struct_map cfg fs vs = VMap TString TIface (Some (zip (map (\<lambda>f. VString (field_key cfg f)) fs) vs))"

lemma struct_fields_simple:
  "list_all (\<lambda>f. \<not> squashed cfg f \<and> \<not> sfAnonymous f) fs \<Longrightarrow>
   struct_fields cfg p i fs = ([], [], map (\<lambda>(j, f). (p @ [j], f)) (enumerate i fs))"
  by (induction fs arbitrary: i) auto

lemma collectFields_simple:
  "simple_struct cfg fs \<Longrightarrow> 0 < ms_fuel rt \<Longrightarrow>
   collectFields cfg rt fs = Inr ([], map (\<lambda>(j, f). ([j], f)) (enumerate 0 fs))"
  using struct_fields_simple [of cfg fs "[]" 0]
  by (cases "ms_fuel rt") (auto simp: collectFields_def simple_struct_def list_all_iff)

lemma field_loop_simple:
  assumes "entries = zip (map (\<lambda>f. VString (field_key cfg f)) fs) vs" and "length vs = length fs"
    and "distinct (map (field_key cfg) fs)" and "list_all sfExported fs"
    and "\<And>f. f \<in> set fs \<Longrightarrow> self_decoding (sfType f) (dec f)"
    and "list_all2 (\<lambda>f v. has_type v (sfType f)) fs vs"
  shows "k \<le> length fs \<Longrightarrow>
    \<exists>md'. field_loop cfg rt name entries
        (map (\<lambda>(j, f). (([j], f), dec f)) (enumerate k (drop k fs)))
        (VStruct n fs (take k vs @ map (\<lambda>f. zero (sfType f)) (drop k fs)))
        (map (\<lambda>f. VString (field_key cfg f)) (drop k fs)) [] md = Inr (VStruct n fs vs, [], [], md')"
proof (induction "length fs - k" arbitrary: k md)
  case 0
  then show ?case using assms(2) by simp
next
  case (Suc d)
  then have k: "k < length fs" by simp
  let ?f = "fs ! k"
  have dk: "drop k fs = ?f # drop (Suc k) fs" using k by (simp add: Cons_nth_drop_Suc)
  have "map_of entries (VString (field_key cfg ?f)) = Some (vs ! k)"
    using k assms(1-3) by (intro map_of_is_SomeI) (auto simp: set_zip distinct_map inj_on_def intro!: exI [of _ k])
  then have fk: "find_key rt entries (field_key cfg ?f) = Some (VString (field_key cfg ?f), vs ! k)"
    by (simp add: find_key_def)
  have ht: "has_type (vs ! k) (sfType ?f)" using assms(6) k by (simp add: list_all2_conv_all_nth)
  have sd: "self_decoding (sfType ?f) (dec ?f)" using assms(5) k by simp
  obtain md1 where d: "dec ?f (if name \<noteq> [] then name @ ''.'' @ field_key cfg ?f else field_key cfg ?f)
      (vs ! k) (zero (sfType ?f)) md = Inr (vs ! k, None, md1)"
    using sd ht unfolding self_decoding_def by blast
  have g: "get_path [k] (VStruct n fs (take k vs @ map (\<lambda>f. zero (sfType f)) (drop k fs))) = zero (sfType ?f)"
    using k assms(2) by (simp add: nth_append min_def)
  have st: "set_path [k] (vs ! k) (VStruct n fs (take k vs @ map (\<lambda>f. zero (sfType f)) (drop k fs))) =
      VStruct n fs (take (Suc k) vs @ map (\<lambda>f. zero (sfType f)) (drop (Suc k) fs))"
    using k assms(2) by (simp add: dk list_update_append take_Suc_conv_app_nth min_def)
  have rm: "removeAll (VString (field_key cfg ?f)) (map (\<lambda>f. VString (field_key cfg f)) (drop k fs)) =
      map (\<lambda>f. VString (field_key cfg f)) (drop (Suc k) fs)"
  proof -
    have "distinct (map (field_key cfg) (drop k fs))" using assms(3) by (simp add: drop_map [symmetric] distinct_drop)
    then have "field_key cfg ?f \<notin> set (map (field_key cfg) (drop (Suc k) fs))" by (simp add: dk)
    then show ?thesis by (auto simp: dk intro!: removeAll_id)
  qed
  have ex: "sfExported ?f" using assms(4) k by (simp add: list_all_length)
  obtain md' where "field_loop cfg rt name entries
        (map (\<lambda>(j, f). (([j], f), dec f)) (enumerate (Suc k) (drop (Suc k) fs)))
        (VStruct n fs (take (Suc k) vs @ map (\<lambda>f. zero (sfType f)) (drop (Suc k) fs)))
        (map (\<lambda>f. VString (field_key cfg f)) (drop (Suc k) fs)) [] md1 = Inr (VStruct n fs vs, [], [], md')"
  proof -
    have "d = length fs - Suc k" "Suc k \<le> length fs" using Suc.hyps(2) k by simp_all
    then show thesis using Suc.hyps(1) [of "Suc k" md1] that by blast
  qed
  then show ?case
    using fk d g st rm ex by (simp add: dk Let_def del: set_path.simps get_path.simps)
qed


lemma fits_struct_map:
  "length vs = length fs \<Longrightarrow> typeOf (struct_map cfg fs vs) = TMap TString TIface"
  by (simp add: struct_map_def)

lemma decoder_struct_map:
  assumes "DecodeHook cfg = None" and "simple_struct cfg fs" and "0 < ms_fuel rt" and "has_type (VStruct n fs vs) (TStruct n fs)"
  shows "\<exists>md'. decoder cfg rt (TStruct n fs) name (struct_map cfg fs vs) (zero (TStruct n fs)) md =
           Inr (VStruct n fs vs, None, md')"
proof -
  have c: "collectFields cfg rt fs = Inr ([], map (\<lambda>(j, f). ([j], f)) (enumerate 0 fs))"
    using collectFields_simple [OF assms(2,3)] .
  define decs where "decs = map (\<lambda>x. decoder cfg rt (sfType (snd x))) (leaves (collectFields cfg rt fs))"
  have z: "zip (map (\<lambda>(j, f). ([j], f)) (enumerate 0 fs)) decs =
      map (\<lambda>(j, f). (([j], f), decoder cfg rt (sfType f))) (enumerate 0 fs)"
    by (rule nth_equalityI) (simp_all add: decs_def c leaves_def case_prod_unfold)
  have ht: "list_all2 (\<lambda>f v. has_type v (sfType f)) fs vs" using assms(4) by (simp add: has_type_VStruct)
  then have len: "length vs = length fs" by (simp add: list_all2_lengthD)
  have sd: "\<And>f. f \<in> set fs \<Longrightarrow> self_decoding (sfType f) (decoder cfg rt (sfType f))"
    using assms(2) decoder_self [OF assms(1)] by (auto simp: simple_struct_def list_all_iff)
  define entries where "entries = zip (map (\<lambda>f. VString (field_key cfg f)) fs) vs"
  from field_loop_simple [of entries cfg fs vs "\<lambda>f. decoder cfg rt (sfType f)" 0 rt name n md, OF entries_def len _ _ sd ht] assms(2)
  obtain md' where fl: "field_loop cfg rt name entries (zip (map (\<lambda>(j, f). ([j], f)) (enumerate 0 fs)) decs)
      (VStruct n fs (map (\<lambda>f. zero (sfType f)) fs)) (map (\<lambda>f. VString (field_key cfg f)) fs) [] md = Inr (VStruct n fs vs, [], [], md')"
    by (auto simp: simple_struct_def z list_all_iff)
  have k: "map fst entries = map (\<lambda>f. VString (field_key cfg f)) fs" by (simp add: entries_def len)
  obtain md2 where fin: "finish_struct cfg name (VStruct n fs vs, [], [], md') = Inr (VStruct n fs vs, None, md2)"
    by (cases md') (simp_all add: finish_struct_def string_keys_def)
  have "decodeStruct cfg rt n fs (collectFields cfg rt fs) decs name (struct_map cfg fs vs) (zero (TStruct n fs)) md =
      Inr (VStruct n fs vs, None, md2)"
    using fl fin k by (simp add: decodeStruct_def struct_map_def c flip: entries_def)
  then have "\<exists>md'. track (decodeStruct cfg rt n fs (collectFields cfg rt fs) decs) name (struct_map cfg fs vs)
      (zero (TStruct n fs)) md = Inr (VStruct n fs vs, None, md')"
    by (rule track_Inr)
  then show ?thesis
    using assms(1) by (simp add: decs_def decode_pre_plain struct_map_def)
qed

section \<open>Decoding without metadata\<close>

definition quiet :: "slot_decoder \<Rightarrow> bool" where
  "quiet dec \<longleftrightarrow> (\<forall>name data old v err md. dec name data old None = Inr (v, err, md) \<longrightarrow> md = None)"

lemma quiet_pre: "quiet body \<Longrightarrow> quiet (decode_pre cfg t body)"
  unfolding quiet_def decode_pre_def
  by (auto simp: ab_bind_def split: if_splits sum.splits)

lemma quiet_track: "quiet body \<Longrightarrow> quiet (track body)"
  unfolding quiet_def track_def by (auto; metis option.distinct(1) not_None_eq)

lemma quiet_basic: "quiet (basic f)"
  by (auto simp: quiet_def basic_def)

lemma quiet_const: "quiet (\<lambda>name data old md. Inr (old, err name, md))"
  by (simp add: quiet_def)

lemma map_loop_quiet:
  "quiet deck \<Longrightarrow> quiet dece \<Longrightarrow> map_loop rt kt et deck dece name entries valMap errors None = Inr (m, es, md) \<Longrightarrow> md = None"
proof (induction entries arbitrary: valMap errors)
  case (Cons x entries)
  then show ?case
    by (cases x) (auto simp: quiet_def Let_def split: option.splits; blast)
qed simp

lemma slice_loop_quiet:
  "quiet dec \<Longrightarrow> slice_loop t dec name i vs acc errors None = Inr (r, es, md) \<Longrightarrow> md = None"
proof (induction vs arbitrary: i acc errors)
  case (Cons v vs)
  then show ?case by (auto simp: quiet_def split: option.splits; blast)
qed simp

lemma field_loop_quiet:
  "list_all (\<lambda>x. quiet (snd x)) flds \<Longrightarrow> field_loop cfg rt name entries flds val unused errors None = Inr (v, u, es, md) \<Longrightarrow> md = None"
proof (induction flds arbitrary: val unused errors)
  case (Cons x flds)
  obtain p f dec where x: "x = ((p, f), dec)" by (metis surj_pair)
  have d: "quiet dec" "list_all (\<lambda>x. quiet (snd x)) flds" using Cons.prems(1) by (simp_all add: x)
  show ?case
    using Cons.prems(2) Cons.IH [OF d(2)] d(1) by (auto simp: x Let_def quiet_def split: option.splits if_splits; blast)
qed simp

lemma quiet_containers:
  "quiet deck \<Longrightarrow> quiet dece \<Longrightarrow> quiet (decodeMap cfg rt kt et deck dece)"
  "quiet dec \<Longrightarrow> quiet (decodePtr t dec)"
  "quiet dec \<Longrightarrow> quiet (decodeSlice cfg t dec)"
  subgoal unfolding quiet_def [of "decodeMap cfg rt kt et deck dece"] decodeMap_def Let_def
    by (auto dest: map_loop_quiet split: option.splits gvalue.splits if_splits)
  subgoal by (auto simp: quiet_def decodePtr_def split: option.splits)
  subgoal unfolding quiet_def [of "decodeSlice cfg t dec"] decodeSlice_def Let_def
    by (auto dest: slice_loop_quiet split: option.splits gvalue.splits if_splits)
  done

lemma finish_struct_quiet: "finish_struct cfg name (v, u, es, None) = Inr (r, err, md) \<Longrightarrow> md = None"
  by (auto simp: finish_struct_def split: if_splits)

lemma quiet_decodeStruct: "list_all quiet decs \<Longrightarrow> quiet (decodeStruct cfg rt n fs collected decs)"
  unfolding quiet_def [of "decodeStruct cfg rt n fs collected decs"] decodeStruct_def Let_def
proof (intro allI impI, goal_cases)
  case (1 name data old v err md)
  have q: "list_all (\<lambda>x. quiet (snd x)) (zip flds decs)" for flds :: "(path \<times> sfield) list"
    using 1(1) by (auto simp: list_all_iff dest: set_zip_rightD)
  show ?case
    using 1(2) by (auto split: option.splits gvalue.splits if_splits dest!: field_loop_quiet [OF q] dest: finish_struct_quiet)
qed

lemma decoder_quiet: "quiet (decoder cfg rt t)"
proof (induction cfg rt t rule: decoder.induct)
  case (8 cfg rt n fs)
  then show ?case by (auto simp: list_all_iff intro!: quiet_pre quiet_track quiet_decodeStruct)
qed (auto intro!: quiet_pre quiet_track quiet_basic quiet_containers quiet_const)

lemma decoder_no_metadata: "decoder cfg rt t name data old None = Inr (v, err, md) \<Longrightarrow> md = None"
  using decoder_quiet [of cfg rt t] by (simp add: quiet_def)

section \<open>The shipped hooks\<close>

lemma hook_ok_None: "DecodeHook cfg = None \<Longrightarrow> hook_ok cfg"
  by (simp add: hook_ok_def)

lemma hook_ok_weak: "DecodeHook cfg = Some (HookKind (WeaklyTypedHook rt)) \<Longrightarrow> hook_ok cfg"
  by (auto simp: hook_ok_def DecodeHookExec_def WeaklyTypedHook_def split: gvalue.splits if_splits option.splits)

lemma hook_ok_split: "DecodeHook cfg = Some (StringToSliceHookFunc rt sep) \<Longrightarrow> hook_ok cfg"
  by (auto simp: hook_ok_def DecodeHookExec_def StringToSliceHookFunc_def fits_def list_all_iff
      split: gvalue.splits if_splits)

lemma compose_hooks_ok:
  "list_all (\<lambda>h. hook_ok (cfg\<lparr>DecodeHook := Some h\<rparr>)) hs \<Longrightarrow> gvalue_ok data \<Longrightarrow>
   compose_hooks hs f t data = Inr (Inr r) \<Longrightarrow> gvalue_ok r"
proof (induction hs arbitrary: f data)
  case (Cons h hs)
  then obtain d where "DecodeHookExec h f t data = Inr (Inr d)" "compose_hooks hs (typeOf d) t d = Inr (Inr r)"
    by (auto simp: ab_bind_def split: sum.splits if_splits)
  moreover from this Cons.prems have "gvalue_ok d" by (auto simp: hook_ok_def)
  ultimately show ?case using Cons by auto
qed simp

lemma hook_ok_compose:
  "list_all (\<lambda>h. hook_ok (cfg\<lparr>DecodeHook := Some h\<rparr>)) hs \<Longrightarrow> DecodeHook cfg = Some (ComposeDecodeHookFunc hs) \<Longrightarrow> hook_ok cfg"
  using compose_hooks_ok unfolding hook_ok_def [of cfg] by (auto simp: DecodeHookExec_def ComposeDecodeHookFunc_def)

section \<open>Squashed fields found again\<close>

text \<open>
  A squashed field is looked up in the root structure: when the structure squashed under
  a name has itself a squashed field of that name, the work list never empties.
\<close>

lemma struct_fields_squash:
  "g \<in> set fs \<Longrightarrow> squashed cfg g \<Longrightarrow> (sfAnonymous g \<longrightarrow> type_kind (sfType g) = KStruct) \<Longrightarrow>
   sfName g \<in> set (fst (snd (struct_fields cfg p i fs)))"
proof (induction fs arbitrary: i)
  case (Cons f fs)
  obtain es sq fl where "struct_fields cfg p (Suc i) fs = (es, sq, fl)" by (metis surj_pair)
  with Cons.prems Cons.IH [of "Suc i"] show ?case by auto
qed simp

lemma map_ab_mem: "map_ab f xs = Inr ys \<Longrightarrow> x \<in> set xs \<Longrightarrow> f x = Inr y \<Longrightarrow> y \<in> set ys"
  by (induction xs arbitrary: ys) auto

definition squash_again :: "ms_cfg \<Rightarrow> string \<Rightarrow> sfield list \<Rightarrow> bool" where
  "squash_again cfg nm fs \<longleftrightarrow>
     list_ex (\<lambda>g. sfName g = nm \<and> squashed cfg g \<and> (sfAnonymous g \<longrightarrow> type_kind (sfType g) = KStruct)) fs"

lemma collect_loop_cycle:
  assumes "squash_target root nm = Inr (q, gs)" and "squash_again cfg nm gs"
  shows "(p, fs) \<in> set structs \<Longrightarrow> squash_again cfg nm fs \<Longrightarrow> collect_loop cfg root fuel structs errors flds \<noteq> Inr x"
proof (induction fuel arbitrary: structs errors flds p fs)
  case 0
  then show ?case by (cases structs) auto
next
  case (Suc fuel)
  then obtain p0 fs0 rest where st: "structs = (p0, fs0) # rest" by (cases structs) auto
  obtain es squash found where sf: "struct_fields cfg p0 0 fs0 = (es, squash, found)" by (metis surj_pair)
  have "collect_loop cfg root fuel (rest @ new) (errors @ es) (flds @ found) \<noteq> Inr x"
    if new: "map_ab (squash_target root) squash = Inr new" for new
  proof (cases "(p, fs) = (p0, fs0)")
    case True
    then have "nm \<in> set squash"
      using Suc.prems(2) struct_fields_squash [of _ fs0 cfg p0 0] sf by (auto simp: squash_again_def list_ex_iff)
    then have "(q, gs) \<in> set (rest @ new)" using map_ab_mem [OF new _ assms(1)] by simp
    with Suc.IH assms(2) show ?thesis by blast
  next
    case False
    with Suc.prems st have "(p, fs) \<in> set (rest @ new)" by auto
    with Suc.IH Suc.prems(2) show ?thesis by blast
  qed
  then show ?case by (auto simp: st sf)
qed

lemma fieldByName_root:
  assumes "distinct (map sfName fs)" and "k < length fs"
  shows "fieldByName (sfName (fs ! k)) [([], fs)] = Some ([k], fs ! k)"
proof -
  have "filter (\<lambda>(i, f). sfName f = sfName (fs ! k)) (enumerate m fs) = [(m + k, fs ! k)]" for m
    using assms
  proof (induction fs arbitrary: m k)
    case (Cons f fs)
    show ?case
    proof (cases k)
      case 0
      then have "filter (\<lambda>(i, g). sfName g = sfName f) (enumerate (Suc m) fs) = []"
        using Cons.prems(1) in_set_enumerate_eq [of _ "Suc m" fs] nth_mem [of _ fs]
        by (auto simp: filter_empty_conv image_iff) (metis Suc_diff_Suc Suc_le_lessD diff_less_mono nth_mem add_diff_cancel_right' add_Suc diff_Suc_Suc)
      with 0 show ?thesis by simp
    next
      case (Suc k')
      moreover from Suc Cons.prems have "sfName f \<noteq> sfName (fs ! k')" by auto
      ultimately show ?thesis using Cons by simp
    qed
  qed simp
  from this [of 0] show ?thesis by (simp add: fieldByName.simps [of _ "[([], fs)]"] level_hits_def)
qed

lemma collectFields_cycle:
  assumes "distinct (map sfName fs)" and "k < length fs" and "squashed cfg (fs ! k)"
    and "sfType (fs ! k) = TStruct m gs" and "squash_again cfg (sfName (fs ! k)) gs"
  shows "collectFields cfg rt fs \<noteq> Inr x"
proof -
  have "squash_target fs (sfName (fs ! k)) = Inr ([k], gs)"
    using fieldByName_root [OF assms(1,2)] assms(4) by (simp add: squash_target_def)
  moreover have "squash_again cfg (sfName (fs ! k)) fs"
    using assms(2-4) by (auto simp: squash_again_def list_ex_length)
  ultimately show ?thesis
    using collect_loop_cycle [of fs _ _ gs cfg "[]" fs "[([], fs)]"] assms(5) by (auto simp: collectFields_def)
qed

end
