(* ===== verification/Lib_Properties.thy ===== *)
theory Lib_Properties
  imports MapstructureSound Samples
begin

text \<open>
  The properties of \<open>mapstructure\<close>: decoding respects the types of the target, restores
  a structure from the map of its fields, and does not return for a structure whose
  squashed fields repeat a name.
\<close>

section \<open>Samples\<close>

definition sample_ms_rt :: ms_rt where
  "sample_ms_rt = \<lparr>ms_go = sample_rt, ms_parseFloat = (\<lambda>s b. None),
     ms_formatFloat = (\<lambda>w. []), ms_fold = (\<lambda>s t. False), ms_show = (\<lambda>v. []), ms_explode = (\<lambda>s. []),
     ms_fuel = 5\<rparr>"

text \<open>Two fields of \<open>Definition\<close>, tagged as in \<open>definitions.go\<close>, and a slice.\<close>

definition sample_fields :: "sfield list" where
  "sample_fields =
     [SField ''Name'' False [(''xml'', ''name,attr''), (''json'', ''name'')] True TString,
      SField ''ObjectID'' False [(''json'', ''id''), (''mapstructure'', ''id'')] True (TUint 32),
      SField ''Options'' False [] True (TSlice TString)]"

definition sample_squash :: "sfield list" where
  "sample_squash =
     [SField ''Base'' False [(''mapstructure'', '',squash'')] True
        (TStruct ''Outer'' [SField ''Base'' False [(''mapstructure'', '',squash'')] True (TStruct ''Inner'' [])])]"

definition tagged :: ms_cfg where
  "tagged = plain_cfg\<lparr>TagName := ''mapstructure''\<rparr>"

lemma NewDecoder_plain: "NewDecoder plain_cfg (VPtr t (Some v)) = Inr tagged"
  by (simp add: NewDecoder_def plain_cfg_def tagged_def)

lemma tagged_hook [simp]: "DecodeHook tagged = None"
  by (simp add: tagged_def plain_cfg_def)

section \<open>Properties\<close>



text \<open>C18: A structure survives the way through a map. Take a structure whose fields have
  distinct keys and plain types, and the map from the key of each field (its tag, or its
  name) to its value: \<open>Decode\<close> of that map into a fresh variable of the structure's type
  reports no error and restores the structure.
\<close>

theorem struct_roundtrip:
  assumes "simple_struct tagged fs" and "has_type (VStruct n fs vs) (TStruct n fs)" and "0 < ms_fuel rt"
  shows "Decode rt (struct_map tagged fs vs) (VPtr (TStruct n fs) (Some (zero (TStruct n fs)))) =
         Inr (Inr (VPtr (TStruct n fs) (Some (VStruct n fs vs)), None, None))"
proof -
  obtain md where "decoder tagged rt (TStruct n fs) [] (struct_map tagged fs vs) (zero (TStruct n fs)) None =
      Inr (VStruct n fs vs, None, md)"
    using decoder_struct_map [of tagged fs rt n vs "[]" None] assms by auto
  moreover from this have "md = None" by (rule decoder_no_metadata)
  ultimately show ?thesis
    by (simp only: Decode_def NewDecoder_plain Decoder_Decode_def gvalue.case option.case sum.case ab_bind_simps prod.case)
qed

theorem struct_roundtrip_witness:
  "Decode sample_ms_rt
     (VMap TString TIface (Some [(VString ''Name'', VString ''AttitudeState''), (VString ''id'', VUint 32 3618316028),
        (VString ''Options'', VSlice TString [VString ''a''])]))
     (VPtr (TStruct ''D'' sample_fields) (Some (zero (TStruct ''D'' sample_fields)))) =
   Inr (Inr (VPtr (TStruct ''D'' sample_fields) (Some (VStruct ''D'' sample_fields
     [VString ''AttitudeState'', VUint 32 3618316028, VSlice TString [VString ''a'']])), None, None))"
proof -
  let ?vs = "[VString ''AttitudeState'', VUint 32 3618316028, VSlice TString [VString ''a'']]"
  have k: "map (field_key tagged) sample_fields = [''Name'', ''id'', ''Options'']"
    by (simp add: sample_fields_def field_key_def tag_value_def tagged_def plain_cfg_def Let_def)
  have s: "simple_struct tagged sample_fields"
    unfolding simple_struct_def k
    by (simp add: sample_fields_def squashed_def tag_value_def tagged_def plain_cfg_def)
  have t: "has_type (VStruct ''D'' sample_fields ?vs) (TStruct ''D'' sample_fields)"
    by (simp add: has_type_def sample_fields_def fits_def uint_range_def width_def)
  have m: "struct_map tagged sample_fields ?vs =
      VMap TString TIface (Some [(VString ''Name'', VString ''AttitudeState''), (VString ''id'', VUint 32 3618316028),
        (VString ''Options'', VSlice TString [VString ''a''])])"
    using k by (simp add: struct_map_def sample_fields_def)
  show ?thesis
    using struct_roundtrip [OF s t, of sample_ms_rt] by (simp add: m sample_ms_rt_def)
qed

text \<open>Squashing a field named like a field it squashes never ends. The fields of nested
  squashed structures are looked up by name in the outermost structure; when the structure
  squashed under a name has a squashed field of the same name, the look-up finds the
  first again and \<open>Decode\<close> of a map into the outer structure returns for no bound on the
  length of the work list.
\<close>

theorem squash_never_returns:
  assumes "distinct (map sfName fs)" and "k < length fs" and "squashed tagged (fs ! k)"
    and "sfType (fs ! k) = TStruct m gs" and "squash_again tagged (sfName (fs ! k)) gs"
  shows "\<nexists>r. Decode (rt\<lparr>ms_fuel := fuel\<rparr>) (VMap TString e entries) (VPtr (TStruct n fs) (Some old)) = Inr (Inr r)"
proof -
  obtain a where "collectFields tagged (rt\<lparr>ms_fuel := fuel\<rparr>) fs = Inl a"
    using collectFields_cycle [OF assms] by (metis sum.exhaust)
  then show ?thesis
    by (simp add: Decode_def NewDecoder_plain Decoder_Decode_def decode_pre_plain track_def decodeStruct_def)
qed

theorem squash_never_returns_witness:
  "\<nexists>r. Decode (sample_ms_rt\<lparr>ms_fuel := 1000\<rparr>) (VMap TString TIface (Some []))
      (VPtr (TStruct ''S'' sample_squash) (Some (zero (TStruct ''S'' sample_squash)))) = Inr (Inr r)"
proof -
  have sq: "squashed tagged (SField ''Base'' False [(''mapstructure'', '',squash'')] True t)" for t
    by (simp add: squashed_def tag_value_def tagged_def plain_cfg_def)
  show ?thesis
    by (rule squash_never_returns [of sample_squash 0 "''Outer''"
          "[SField ''Base'' False [(''mapstructure'', '',squash'')] True (TStruct ''Inner'' [])]"])
      (simp_all add: sample_squash_def sq squash_again_def)
qed

end
