(* ===== verification/TranslatorLaws.thy ===== *)
theory TranslatorLaws
  imports Translators
begin

section \<open>What readers and writers need of a translator\<close>

locale streaming =
  fixes ok :: "'s \<Rightarrow> bool"
    and tr :: "'s \<Rightarrow> bool \<Rightarrow> bytes \<Rightarrow> (nat \<times> bytes \<times> 's) res"
  assumes total: "ok s \<Longrightarrow> \<exists>n out s'. tr s eof d = Inr (n, out, s') \<and> n \<le> length d \<and> ok s' \<and> (n = 0 \<longrightarrow> out = [])"
    and resume: "ok s \<Longrightarrow> tr s False d = Inr (n, out, s1) \<Longrightarrow> tr s1 eof (drop n d @ b) = Inr (m, out2, s2) \<Longrightarrow>
       tr s eof (d @ b) = Inr (n + m, out @ out2, s2)"
    and final: "ok s \<Longrightarrow> tr s True d = Inr (n, out, s1) \<Longrightarrow> tr s1 True (drop n d) = Inr (0, [], s1)"

text \<open>
  \<open>streams\<close> says which translators keep these laws. The translator to UTF-8 does not: see
  \<open>utf8_split_corrupts\<close>.
\<close>

definition jis_ok :: "jisTables \<Rightarrow> bool" where
  "jis_ok t \<longleftrightarrow> length (page0 t) = 256 \<and> length (dbcsoff t) = 256 \<and>
     list_all (\<lambda>x. 0 \<le> x \<and> (x + 1) * 189 \<le> int (length (cp932 t))) (dbcsoff t)"

fun streams :: "translator \<Rightarrow> bool" where
  "streams (ToCodePage info) = True"
| "streams (FromCodePage byte2rune) = (length byte2rune = 256)"
| "streams ToUTF8 = False"
| "streams (FromUTF16 first endian) = (first \<and> endian = None \<or> endian \<noteq> None)"
| "streams (ToUTF16 first endian) = (\<not> first \<and> endian \<noteq> None)"
| "streams (FromCP932 tables) = jis_ok tables"
| "streams (FromBig5 font big5map) = (font = -1 \<or> 161 \<le> font)"

subsection \<open>Code pages\<close>

lemma next_rune_append_gen:
  assumes "p \<noteq> []" and "next_rune False p = Some x"
  shows "next_rune eof (p @ q) = Some x"
proof (cases eof)
  case True
  with next_rune_append [OF assms] show ?thesis by simp
next
  case False
  show ?thesis
  proof (cases "unat (hd p) < 0x80")
    case True
    with assms show ?thesis by (simp add: next_rune_def Let_def)
  next
    case hd: False
    with assms have f: "FullRune p"
      using decodeRune_short [of p] by (auto simp: next_rune_def FullRune_def Let_def split: prod.splits if_splits)
    then have "decodeRune (p @ q) = decodeRune p" using decodeRune_append [of p q] by (simp add: FullRune_def)
    with hd f assms \<open>\<not> eof\<close> show ?thesis by (auto simp: next_rune_def FullRune_def Let_def split: prod.splits if_splits)
  qed
qed

lemma Translate_resume_gen:
  "Translate info False data = (n, out) \<Longrightarrow>
   Translate info eof (data @ b) = (let (m, out2) = Translate info eof (drop n data @ b) in (n + m, out @ out2))"
proof (induction info False data arbitrary: n out rule: Translate.induct)
  case (1 info data)
  show ?case
  proof (cases "data = [] \<or> next_rune False data = None")
    case True
    then have "Translate info False data = (0, [])" by (auto simp: Translate.simps [of info False data])
    with "1.prems" show ?thesis by (simp split: prod.splits)
  next
    case False
    then obtain r sz where nr: "next_rune False data = Some (r, sz)" and ne: "data \<noteq> []" by auto
    have sz: "sz \<le> length data" using next_rune_width [OF ne nr] by simp
    obtain n' out' where t: "Translate info False (drop sz data) = (n', out')" by (metis surj_pair)
    have n: "n = sz + n'" "out = code_byte info r # out'"
      using "1.prems" ne nr t by (simp_all add: Translate.simps [of info False data])
    have e: "next_rune eof (data @ b) = Some (r, sz)"
      using next_rune_append_gen [OF ne nr] .
    show ?thesis
      using "1.hyps" [OF ne nr refl t] ne sz n
      by (simp add: Translate.simps [of info eof "data @ b"] e add.commute split: prod.splits)
  qed
qed

definition page_bytes :: "int \<Rightarrow> bytes" where
  "page_bytes r = (if r < 0x80 then [word_of_int r] else encodeRune r)"

lemma page_bytes_length: "length (page_bytes r) \<le> 4"
  using encodeRune_length(2) [of r] by (simp add: page_bytes_def)

lemma fromCodePage_loop_run:
  "length buf + 4 * length data \<le> cap \<Longrightarrow>
   fromCodePage_loop byte2rune cap data buf = Inr (buf @ concat (map (\<lambda>x. page_bytes (byte2rune ! unat x)) data))"
proof (induction data arbitrary: buf)
  case (Cons x data)
  let ?r = "byte2rune ! unat x"
  have "length (buf @ page_bytes ?r) + 4 * length data \<le> cap" using Cons.prems page_bytes_length [of ?r] by simp
  from Cons.IH [OF this] Cons.prems page_bytes_length [of ?r] show ?case
    by (auto simp: page_bytes_def Let_def split: if_splits)
qed simp

lemma translateFromCodePage_run:
  "translateFromCodePage byte2rune data =
     Inr (length data, concat (map (\<lambda>x. page_bytes (byte2rune ! unat x)) data), FromCodePage byte2rune)"
  using fromCodePage_loop_run [of "[]" data "length data * 4"] by (simp add: translateFromCodePage_def res_bind_def)

subsection \<open>UTF-16\<close>

lemma fromUTF16_loop_even: "fromUTF16_loop e (take (length d - length d mod 2) d) = fromUTF16_loop e d"
proof (induction e d rule: fromUTF16_loop.induct)
  case (1 e b0 b1 data)
  have "length (b0 # b1 # data) - length (b0 # b1 # data) mod 2 = Suc (Suc (length data - length data mod 2))"
    by (simp add: Suc_diff_le)
  with 1 show ?case by simp
qed simp_all

lemma fromUTF16_loop_resume:
  "fromUTF16_loop e d = (n, out) \<Longrightarrow>
   fromUTF16_loop e (d @ b) = (let (m, out2) = fromUTF16_loop e (drop n d @ b) in (n + m, out @ out2))"
  by (induction e d arbitrary: n out rule: fromUTF16_loop.induct) (auto simp: Let_def split: prod.splits)

lemma fromUTF16_loop_consumed: "fst (fromUTF16_loop e d) = length d - length d mod 2 \<and> (snd (fromUTF16_loop e d) = [] \<longleftrightarrow> length d < 2)"
  using encodeRune_length(1)
  by (induction e d rule: fromUTF16_loop.induct) (auto simp: appendRune_def Let_def split: prod.splits)

lemma fromUTF16_loop_rest: "fromUTF16_loop e d = (n, out) \<Longrightarrow> fromUTF16_loop e (drop n d) = (0, [])"
  by (induction e d arbitrary: n out rule: fromUTF16_loop.induct) (auto simp: Let_def split: prod.splits)

lemma fromUTF16_known:
  "translateFromUTF16 first (Some e) d = (case fromUTF16_loop e d of (k, out) \<Rightarrow> Inr (k, out, FromUTF16 first (Some e)))"
proof (cases "length d < 2")
  case True
  then have "d = [] \<or> (\<exists>x. d = [x])" by (cases d) (auto simp: length_Suc_conv less_Suc_eq)
  then show ?thesis by (auto simp: translateFromUTF16_def)
next
  case False
  then have "\<not> length d - length d mod 2 < 2" by presburger
  then show ?thesis by (simp add: translateFromUTF16_def Let_def fromUTF16_loop_even)
qed

lemma fromUTF16_first:
  "translateFromUTF16 True None d =
     (if length d < 2 then Inr (0, [], FromUTF16 True None)
      else case sniff d of (e, n) \<Rightarrow> case fromUTF16_loop e (drop n d) of (k, out) \<Rightarrow> Inr (n + k, out, FromUTF16 False (Some e)))"
proof (cases "length d < 2")
  case False
  let ?d = "take (length d - length d mod 2) d"
  have 2: "2 \<le> length d - length d mod 2" using False by presburger
  then have s: "sniff ?d = sniff d" by (simp add: sniff_def guessEndian_def)
  obtain e n where sn: "sniff d = (e, n)" by (metis surj_pair)
  then have "n = 0 \<or> n = 2" by (auto simp: sniff_def split: if_splits)
  then have "drop n ?d = take (length (drop n d) - length (drop n d) mod 2) (drop n d)"
    using False le_mod_geq [of 2 "length d"] by (auto simp: drop_take)
  then have "fromUTF16_loop e (drop n ?d) = fromUTF16_loop e (drop n d)" by (simp only: fromUTF16_loop_even)
  with False 2 s sn show ?thesis by (simp add: translateFromUTF16_def Let_def)
qed (simp add: translateFromUTF16_def)

lemma sniff_append: "2 \<le> length d \<Longrightarrow> sniff (d @ b) = sniff d"
  by (auto simp: sniff_def guessEndian_def Suc_le_length_iff numeral_2_eq_2)

lemma sniff_skip: "sniff d = (e, n) \<Longrightarrow> n \<le> 2"
  by (auto simp: sniff_def split: if_splits)

text \<open>The loop without its buffer.\<close>

function utf16_units :: "bool \<Rightarrow> endian \<Rightarrow> bytes \<Rightarrow> nat \<times> bytes" where
  "utf16_units eof e data =
     (if data = [] \<or> \<not> FullRune data \<and> \<not> eof then (0, [])
      else (let sz = fst (snd (decodeRune data)); (n, out) = utf16_units eof e (drop sz data)
            in (sz + n, put_u16 e (fst (decodeRune data) mod 65536) @ out)))"
  by pat_completeness auto
termination
  by (relation "measure (\<lambda>(eof, e, data). length data)") (auto dest: decodeRune_width)

declare utf16_units.simps [simp del]

lemma put_u16_length [simp]: "length (put_u16 e n) = 2"
  by (cases e) (simp_all add: put_u16_def)

lemma toUTF16_loop_run:
  "length scratch + 2 * length data \<le> cap \<Longrightarrow>
   toUTF16_loop eof (Some e) cap data scratch = (case utf16_units eof e data of (n, out) \<Rightarrow> Inr (n, scratch @ out))"
proof (induction eof e data arbitrary: scratch rule: utf16_units.induct)
  case (1 eof e data)
  show ?case
  proof (cases "data = [] \<or> \<not> FullRune data \<and> \<not> eof")
    case True
    then show ?thesis by (auto simp: toUTF16_loop.simps [of eof _ cap data scratch] utf16_units.simps [of eof e data])
  next
    case False
    obtain r sz short where d: "decodeRune data = (r, sz, short)" by (metis surj_pair)
    have w: "0 < sz" "sz \<le> length data" using False decodeRune_width [of data] by (auto simp: d)
    have "length (scratch @ put_u16 e (r mod 65536)) + 2 * length (drop sz data) \<le> cap" using "1.prems" w by simp
    from "1.IH" [OF False _ this] have IH: "toUTF16_loop eof (Some e) cap (drop sz data) (scratch @ put_u16 e (r mod 65536)) =
        (case utf16_units eof e (drop sz data) of (n, out) \<Rightarrow> Inr (n, (scratch @ put_u16 e (r mod 65536)) @ out))"
      by (simp add: d)
    have "\<not> cap < length scratch + 2" using "1.prems" w by linarith
    then show ?thesis using False IH
      by (auto simp: toUTF16_loop.simps [of eof _ cap data scratch] utf16_units.simps [of eof e data] d Let_def res_bind_def
          split: prod.splits)
  qed
qed

lemma utf16_units_consumed:
  "fst (utf16_units eof e data) \<le> length data \<and> (fst (utf16_units eof e data) = 0 \<longrightarrow> snd (utf16_units eof e data) = [])"
proof (induction eof e data rule: utf16_units.induct)
  case (1 eof e data)
  show ?case
  proof (cases "data = [] \<or> \<not> FullRune data \<and> \<not> eof")
    case True
    then show ?thesis by (auto simp: utf16_units.simps [of eof e data])
  next
    case False
    have w: "0 < fst (snd (decodeRune data))" "fst (snd (decodeRune data)) \<le> length data"
      using False decodeRune_width [of data] by auto
    with 1 [OF False refl] False show ?thesis
      by (auto simp: utf16_units.simps [of eof e data] Let_def split: prod.splits)
  qed
qed

lemma utf16_units_resume:
  "utf16_units False e data = (n, out) \<Longrightarrow>
   utf16_units eof e (data @ b) = (let (m, out2) = utf16_units eof e (drop n data @ b) in (n + m, out @ out2))"
proof (induction False e data arbitrary: n out rule: utf16_units.induct)
  case (1 e data)
  show ?case
  proof (cases "data = [] \<or> \<not> FullRune data")
    case True
    then have "utf16_units False e data = (0, [])" by (auto simp: utf16_units.simps [of False e data])
    with "1.prems" show ?thesis by (simp split: prod.splits)
  next
    case False
    obtain r sz short where d: "decodeRune data = (r, sz, short)" by (metis surj_pair)
    have w: "0 < sz" "sz \<le> length data" using False decodeRune_width [of data] by (auto simp: d)
    obtain n' out' where t: "utf16_units False e (drop sz data) = (n', out')" by (metis surj_pair)
    have n: "n = sz + n'" "out = put_u16 e (r mod 65536) @ out'"
      using "1.prems" False t by (simp_all add: utf16_units.simps [of False e data] d)
    have a: "decodeRune (data @ b) = decodeRune data"
      using False decodeRune_append [of data b] by (simp add: FullRune_def)
    have f: "FullRune (data @ b)" using False a by (simp add: FullRune_def)
    have "utf16_units eof e (drop sz data @ b) = (let (m, out2) = utf16_units eof e (drop n' (drop sz data) @ b) in (n' + m, out' @ out2))"
      using "1.hyps" False t by (simp add: d)
    then show ?thesis
      using False w n f
      by (simp add: utf16_units.simps [of eof e "data @ b"] a d add.commute split: prod.splits)
  qed
qed

lemma utf16_units_eof: "fst (utf16_units True e data) = length data"
proof (induction True e data rule: utf16_units.induct)
  case (1 e data)
  show ?case
  proof (cases "data = []")
    case False
    then have "0 < fst (snd (decodeRune data))" "fst (snd (decodeRune data)) \<le> length data"
      using decodeRune_width [of data] by auto
    with 1 [OF _ refl] False show ?thesis
      by (auto simp: utf16_units.simps [of True e data] Let_def split: prod.splits)
  qed (simp add: utf16_units.simps)
qed

lemma translateToUTF16_run:
  "translateToUTF16 False (Some e) eof data = (case utf16_units eof e data of (n, out) \<Rightarrow> Inr (n, out, ToUTF16 False (Some e)))"
  using toUTF16_loop_run [of "[]" data "(length data + 1) * 2"]
  by (auto simp: translateToUTF16_def Let_def res_bind_def split: prod.splits)

subsection \<open>CP932 and Big5\<close>

lemma dbcs_rune_ok: "jis_ok t \<Longrightarrow> \<exists>r. dbcs_rune t b b2 = Inr r"
proof -
  assume ok: "jis_ok t"
  have "unat b < length (dbcsoff t)" using ok unsigned_less [where 'a = nat, of b] by (simp add: jis_ok_def)
  then have "0 \<le> dbcsoff t ! unat b \<and> (dbcsoff t ! unat b + 1) * 189 \<le> int (length (cp932 t))"
    using ok by (auto simp: jis_ok_def list_all_length)
  then show ?thesis by (auto simp: dbcs_rune_def Let_def)
qed

lemma cp932_loop_run:
  "jis_ok t \<Longrightarrow> \<exists>n out. cp932_loop t d = Inr (n, out) \<and> n \<le> length d \<and> (n = 0 \<longrightarrow> out = []) \<and>
     cp932_loop t (drop n d) = Inr (0, [])"
proof (induction t d rule: cp932_loop.induct)
  case (2 t b data)
  show ?case
  proof (cases "page0 t ! unat b = -1")
    case True
    then show ?thesis
    proof (cases data)
      case (Cons b2 data')
      obtain r where r: "dbcs_rune t b b2 = Inr r" using dbcs_rune_ok [OF "2.prems"] by blast
      with True Cons "2.IH"(2) [OF refl _ Cons r] "2.prems" show ?thesis by (force simp: res_bind_def)
    qed simp
  next
    case False
    with "2.IH"(1) [OF refl] "2.prems" show ?thesis by (force simp: res_bind_def)
  qed
qed simp

lemma cp932_loop_resume:
  "jis_ok t \<Longrightarrow> cp932_loop t d = Inr (n, out) \<Longrightarrow>
   cp932_loop t (d @ b) = res_bind (cp932_loop t (drop n d @ b)) (\<lambda>(m, out2). Inr (n + m, out @ out2))"
proof (induction t d arbitrary: n out rule: cp932_loop.induct)
  case (1 t)
  then show ?case by (auto simp: res_bind_def split: sum.splits)
next
  case (2 t x data)
  show ?case
  proof (cases "page0 t ! unat x = -1")
    case True
    show ?thesis
    proof (cases data)
      case Nil
      with True "2.prems" show ?thesis by (auto simp: res_bind_def split: sum.splits)
    next
      case (Cons b2 data')
      obtain r where r: "dbcs_rune t x b2 = Inr r" using dbcs_rune_ok [OF "2.prems"(1)] by blast
      obtain n' out' where l: "cp932_loop t data' = Inr (n', out')" using cp932_loop_run [OF "2.prems"(1)] by blast
      show ?thesis
        using "2.IH"(2) [OF refl _ Cons r "2.prems"(1) l] "2.prems"(2) True Cons r l
        by (auto simp: res_bind_def split: sum.splits)
    qed
  next
    case False
    obtain n' out' where l: "cp932_loop t data = Inr (n', out')" using cp932_loop_run [OF "2.prems"(1)] by blast
    show ?thesis
      using "2.IH"(1) [OF refl False "2.prems"(1) l] "2.prems"(2) False l
      by (auto simp: res_bind_def split: sum.splits)
  qed
qed

lemma big5_rune_ok: "161 \<le> font \<Longrightarrow> 0 \<le> c \<Longrightarrow> \<exists>r. big5_rune m font c = Inr r"
  by (auto simp: big5_rune_def Let_def)

lemma big5_loop_run:
  "font = -1 \<or> 161 \<le> font \<Longrightarrow> \<exists>out font'. big5_loop m font d = Inr (length d, out, font') \<and> (font' = -1 \<or> 161 \<le> font') \<and>
     (d = [] \<longrightarrow> out = [] \<and> font' = font)"
proof (induction d arbitrary: font)
  case (Cons b data)
  show ?case
  proof (cases "font = -1")
    case True
    define f where "f = (if 161 \<le> uint b then uint b else -1)"
    have "f = -1 \<or> 161 \<le> f" by (simp add: f_def)
    from Cons.IH [OF this] obtain out font' where "big5_loop m f data = Inr (length data, out, font')" "font' = -1 \<or> 161 \<le> font'"
      by blast
    with True show ?thesis by (simp add: res_bind_def Let_def f_def)
  next
    case False
    then obtain r where "big5_rune m font (uint b) = Inr r" using Cons.prems big5_rune_ok [of font "uint b" m] by auto
    moreover obtain out font' where "big5_loop m (-1) data = Inr (length data, out, font')" "font' = -1 \<or> 161 \<le> font'"
      using Cons.IH [of "-1"] by auto
    ultimately show ?thesis using False by (simp add: res_bind_def Let_def)
  qed
qed simp

lemma big5_loop_append:
  "font = -1 \<or> 161 \<le> font \<Longrightarrow> big5_loop m font d = Inr (n, out, font') \<Longrightarrow>
   big5_loop m font (d @ b) = res_bind (big5_loop m font' b) (\<lambda>(k, out2, f). Inr (n + k, out @ out2, f))"
proof (induction d arbitrary: font n out)
  case Nil
  then show ?case by (auto simp: res_bind_def split: sum.splits)
next
  case (Cons x data)
  show ?case
  proof (cases "font = -1")
    case True
    define f where "f = (if 161 \<le> uint x then uint x else -1)"
    have f: "f = -1 \<or> 161 \<le> f" by (simp add: f_def)
    have step: "big5_loop m font (x # d) = res_bind (big5_loop m f d) (\<lambda>(n, out, font). Inr (1 + n, out, font))" for d
      using True by (simp add: Let_def f_def)
    obtain n' out' where l: "big5_loop m f data = Inr (n', out', font')" "n = 1 + n'" "out = out'"
      using Cons.prems(2) unfolding step by (auto simp: res_bind_def split: sum.splits)
    show ?thesis using Cons.IH [OF f l(1)] l step [of "data @ b"] by (auto simp: res_bind_def split: sum.splits)
  next
    case False
    then obtain r where r: "big5_rune m font (uint x) = Inr r" using Cons.prems(1) big5_rune_ok [of font "uint x" m] by auto
    have step: "big5_loop m font (x # d) = res_bind (big5_loop m (-1) d) (\<lambda>(n, out, font). Inr (1 + n, appendRune [] r @ out, font))" for d
      using False r by (simp add: Let_def res_bind_def)
    obtain n' out' where l: "big5_loop m (-1) data = Inr (n', out', font')" "n = 1 + n'" "out = appendRune [] r @ out'"
      using Cons.prems(2) unfolding step by (auto simp: res_bind_def split: sum.splits)
    show ?thesis using Cons.IH [OF _ l(1)] l step [of "data @ b"] by (auto simp: res_bind_def split: sum.splits)
  qed
qed

subsection \<open>All of them\<close>

lemma streams_total:
  assumes "streams s"
  shows "\<exists>n out s'. translate s eof d = Inr (n, out, s') \<and> n \<le> length d \<and> streams s' \<and> (n = 0 \<longrightarrow> out = [])"
proof (cases s)
  case (ToCodePage info)
  with Translate_consumed [of info eof d] show ?thesis by (auto split: prod.splits)
next
  case (FromCodePage byte2rune)
  with assms show ?thesis by (auto simp: translateFromCodePage_run)
next
  case (FromUTF16 first endian)
  show ?thesis
  proof (cases endian)
    case None
    with FromUTF16 assms have f: "first" by simp
    obtain e n where sn: "sniff d = (e, n)" by (metis surj_pair)
    obtain k out where l: "fromUTF16_loop e (drop n d) = (k, out)" by (metis surj_pair)
    show ?thesis
      using FromUTF16 None f sn l sniff_skip [OF sn] fromUTF16_loop_consumed [of e "drop n d"] by (auto simp: fromUTF16_first)
  next
    case (Some e)
    with FromUTF16 fromUTF16_loop_consumed [of e d] show ?thesis by (auto simp: fromUTF16_known split: prod.splits)
  qed
next
  case (ToUTF16 first endian)
  with assms obtain e where e: "s = ToUTF16 False (Some e)" by auto
  obtain n out where "utf16_units eof e d = (n, out)" by (metis surj_pair)
  with e utf16_units_consumed [of eof e d] show ?thesis by (simp add: translateToUTF16_run)
next
  case (FromCP932 t)
  with assms cp932_loop_run [of t d] show ?thesis by (auto simp: translateFromCP932_def res_bind_def)
next
  case (FromBig5 font m)
  with assms big5_loop_run [of font m d] show ?thesis by (auto simp: translateFromBig5_def res_bind_def)
qed (use assms in simp)

lemma streams_resume:
  assumes "streams s" and t: "translate s False d = Inr (n, out, s1)" and r: "translate s1 eof (drop n d @ b) = Inr (m, out2, s2)"
  shows "translate s eof (d @ b) = Inr (n + m, out @ out2, s2)"
proof (cases s)
  case (ToCodePage info)
  with t have "Translate info False d = (n, out)" "s1 = s" by (auto split: prod.splits)
  with ToCodePage r Translate_resume_gen [OF this(1), of eof b] show ?thesis by (auto split: prod.splits)
next
  case (FromCodePage byte2rune)
  with t r show ?thesis by (auto simp: translateFromCodePage_run)
next
  case (FromUTF16 first endian)
  show ?thesis
  proof (cases endian)
    case None
    with FromUTF16 assms have f: "first" by simp
    show ?thesis
    proof (cases "length d < 2")
      case True
      with t r FromUTF16 None f show ?thesis by (auto simp: fromUTF16_first)
    next
      case False
      obtain e i where sn: "sniff d = (e, i)" by (metis surj_pair)
      obtain k o1 where l: "fromUTF16_loop e (drop i d) = (k, o1)" by (metis surj_pair)
      have n: "n = i + k" "out = o1" "s1 = FromUTF16 False (Some e)"
        using t FromUTF16 None f False sn l by (auto simp: fromUTF16_first)
      have "drop n d = drop k (drop i d)" by (simp add: n add.commute)
      with r n fromUTF16_loop_resume [OF l, of b] sniff_append [of d b] sniff_skip [OF sn] FromUTF16 None f False sn
      show ?thesis by (auto simp: fromUTF16_first fromUTF16_known split: prod.splits)
    qed
  next
    case (Some e)
    with t FromUTF16 have "fromUTF16_loop e d = (n, out)" "s1 = s" by (auto simp: fromUTF16_known split: prod.splits)
    with FromUTF16 Some r fromUTF16_loop_resume [OF this(1), of b] show ?thesis
      by (auto simp: fromUTF16_known split: prod.splits)
  qed
next
  case (ToUTF16 first endian)
  with assms obtain e where e: "s = ToUTF16 False (Some e)" by auto
  with t have "utf16_units False e d = (n, out)" "s1 = s" by (auto simp: translateToUTF16_run split: prod.splits)
  with e r utf16_units_resume [OF this(1), of eof b] show ?thesis by (auto simp: translateToUTF16_run split: prod.splits)
next
  case (FromCP932 tb)
  with t have "cp932_loop tb d = Inr (n, out)" "s1 = s" by (auto simp: translateFromCP932_def res_bind_def split: sum.splits)
  with FromCP932 r assms(1) cp932_loop_resume [OF _ this(1), of b] show ?thesis
    by (auto simp: translateFromCP932_def res_bind_def split: sum.splits)
next
  case (FromBig5 font mp)
  with t obtain f where l: "big5_loop mp font d = Inr (n, out, f)" "s1 = FromBig5 f mp"
    by (auto simp: translateFromBig5_def res_bind_def split: sum.splits)
  moreover have "n = length d" using big5_loop_run [of font mp d] FromBig5 assms(1) l(1) by auto
  ultimately show ?thesis
    using FromBig5 r assms(1) big5_loop_append [OF _ l(1), of b]
    by (auto simp: translateFromBig5_def res_bind_def split: sum.splits)
qed (use assms in simp)

lemma streams_final:
  assumes "streams s" and t: "translate s True d = Inr (n, out, s1)"
  shows "translate s1 True (drop n d) = Inr (0, [], s1)"
proof (cases s)
  case (ToCodePage info)
  with t Translate_eof [of info d] show ?thesis by (auto simp: Translate.simps [of info True "[]"] split: prod.splits)
next
  case (FromCodePage byte2rune)
  with t show ?thesis by (auto simp: translateFromCodePage_run)
next
  case (FromUTF16 first endian)
  show ?thesis
  proof (cases endian)
    case None
    with FromUTF16 assms have f: "first" by simp
    show ?thesis
    proof (cases "length d < 2")
      case True
      with t FromUTF16 None f show ?thesis by (auto simp: fromUTF16_first)
    next
      case False
      obtain e i where sn: "sniff d = (e, i)" by (metis surj_pair)
      obtain k o1 where l: "fromUTF16_loop e (drop i d) = (k, o1)" by (metis surj_pair)
      have n: "n = i + k" "s1 = FromUTF16 False (Some e)"
        using t FromUTF16 None f False sn l by (auto simp: fromUTF16_first)
      have "drop n d = drop k (drop i d)" by (simp add: n add.commute)
      with fromUTF16_loop_rest [OF l] n show ?thesis by (simp add: fromUTF16_known)
    qed
  next
    case (Some e)
    with t FromUTF16 have "fromUTF16_loop e d = (n, out)" "s1 = s" by (auto simp: fromUTF16_known split: prod.splits)
    with FromUTF16 Some fromUTF16_loop_rest [OF this(1)] show ?thesis by (simp add: fromUTF16_known)
  qed
next
  case (ToUTF16 first endian)
  with assms obtain e where e: "s = ToUTF16 False (Some e)" by auto
  with t utf16_units_eof [of e d] show ?thesis
    by (auto simp: translateToUTF16_run utf16_units.simps [of True e "[]"] split: prod.splits)
next
  case (FromCP932 tb)
  with t assms(1) cp932_loop_run [of tb d] show ?thesis
    by (auto simp: translateFromCP932_def res_bind_def split: sum.splits)
next
  case (FromBig5 font mp)
  with t assms(1) big5_loop_run [of font mp d] show ?thesis
    by (auto simp: translateFromBig5_def res_bind_def)
qed (use assms in simp)

interpretation tr: streaming streams translate
  by unfold_locales (fact streams_total, fact streams_resume, fact streams_final)

text \<open>The tables \<open>fromCP932\<close> builds are such that no look-up leaves them.\<close>

lemma mark_leads_ok:
  "0 \<le> pnum \<Longrightarrow> list_all (\<lambda>x. 0 \<le> x \<and> x < pnum + int (length is) \<or> x = 0) (dbcsoff t) \<Longrightarrow>
   list_all (\<lambda>x. 0 \<le> x \<and> x < pnum + int (length is) \<or> x = 0) (dbcsoff (mark_leads is pnum t)) \<and>
   length (dbcsoff (mark_leads is pnum t)) = length (dbcsoff t) \<and> length (page0 (mark_leads is pnum t)) = length (page0 t) \<and>
   cp932 (mark_leads is pnum t) = cp932 t"
proof (induction "is" arbitrary: pnum t)
  case (Cons i "is")
  let ?t = "t\<lparr>page0 := (page0 t)[i := -1], dbcsoff := (dbcsoff t)[i := pnum]\<rparr>"
  have "list_all (\<lambda>x. 0 \<le> x \<and> x < (pnum + 1) + int (length is) \<or> x = 0) (dbcsoff ?t)"
    using Cons.prems set_update_subset_insert [of "dbcsoff t" i pnum] by (fastforce simp: list_all_iff)
  from Cons.IH [OF _ this] Cons.prems show ?case by (simp add: algebra_simps)
qed simp

lemma set_at_length: "i + length vs \<le> length xs \<Longrightarrow> length (set_at i vs xs) = length xs"
  by (simp add: set_at_def)

lemma jis_tables_ok:
  assumes "length kana = kanaPageSize * kanaPages" and "length cp = cp932PageSize * cp932Pages"
  shows "jis_ok (jis_tables shiftJIS kana cp)"
proof -
  have l: "length (single_bytes shiftJIS kana) = 256"
    using assms by (simp add: single_bytes_def Let_def set_at_length)
  have "length (lead_bytes shiftJIS) \<le> 45" by (simp add: lead_bytes_def)
  then show ?thesis
    using mark_leads_ok [of 0 "lead_bytes shiftJIS" "\<lparr>page0 = single_bytes shiftJIS kana, dbcsoff = replicate 256 0, cp932 = cp\<rparr>"] assms l
    by (auto simp: jis_ok_def jis_tables_def list_all_iff algebra_simps dest!: bspec)
qed

end
