(* ===== verification/CharsetIO.thy ===== *)
theory CharsetIO
  imports TranslatorLaws
begin

text \<open>
  The writer and the reader of \<open>charset.go\<close> over any translator: \<open>translatingWriter\<close> and
  \<open>translatingReader\<close>, parameters over the state of the translator and its method, as the
  code is over the interface \<open>Translator\<close>. The destination of the writer is a buffer
  that takes everything; the source of the reader is the list of what its reads return.

  The lemmas in \<open>streaming\<close> show, for every translator that keeps the laws, that neither
  the way a text is cut into writes nor the way a source is cut into reads, nor the sizes
  of the buffers, has an influence on the result.
\<close>

section \<open>The writer\<close>

record 's twriter =
  wTr :: 's
  wOut :: bytes
  wBuf :: bytes

definition new_writer :: "'s \<Rightarrow> 's twriter" where
  "new_writer tr = \<lparr>wTr = tr, wOut = [], wBuf = []\<rparr>"

definition writer_Write :: "('s \<Rightarrow> bool \<Rightarrow> bytes \<Rightarrow> (nat \<times> bytes \<times> 's) res) \<Rightarrow> bytes \<Rightarrow> 's twriter \<Rightarrow> 's twriter res" where
  "writer_Write tr data w =
     (let wdata = (if wBuf w \<noteq> [] then wBuf w @ data else data)
      in res_bind (tr (wTr w) False wdata) (\<lambda>(n, cdata, s).
           Inr \<lparr>wTr = s, wOut = (if 0 < n then wOut w @ cdata else wOut w),
                wBuf = (if n < length wdata then drop n wdata else [])\<rparr>))"

text \<open>The loop of \<open>Close\<close>, which ends when nothing is produced or nothing is left.\<close>

fun writer_Close :: "nat \<Rightarrow> ('s \<Rightarrow> bool \<Rightarrow> bytes \<Rightarrow> (nat \<times> bytes \<times> 's) res) \<Rightarrow> 's twriter \<Rightarrow> 's twriter res option" where
  "writer_Close 0 tr p = None"
| "writer_Close (Suc fuel) tr p =
     (case tr (wTr p) True (wBuf p) of
        Inl e \<Rightarrow> Some (Inl e)
      | Inr (n, data, s) \<Rightarrow>
          if length (wBuf p) < n then Some (Inl Panic)
          else (let p = p\<lparr>wTr := s, wBuf := drop n (wBuf p)\<rparr>
                in if data = [] then Some (Inr p)
                   else (let p = p\<lparr>wOut := wOut p @ data\<rparr>
                         in if wBuf p = [] then Some (Inr p) else writer_Close fuel tr p)))"

fun writes :: "('s \<Rightarrow> bool \<Rightarrow> bytes \<Rightarrow> (nat \<times> bytes \<times> 's) res) \<Rightarrow> bytes list \<Rightarrow> 's twriter \<Rightarrow> 's twriter res" where
  "writes tr [] w = Inr w"
| "writes tr (d # ds) w = res_bind (writer_Write tr d w) (writes tr ds)"

section \<open>The reader\<close>

type_synonym source = "(bytes \<times> go_error option) list"

fun io_Read :: "nat \<Rightarrow> source \<Rightarrow> (bytes \<times> go_error option) \<times> source" where
  "io_Read n [] = (([], Some EOF), [])"
| "io_Read n ((bs, e) # rest) =
     (if length bs \<le> n then ((bs, e), rest) else ((take n bs, None), (drop n bs, e) # rest))"

fun source_size :: "source \<Rightarrow> nat" where
  "source_size [] = 0"
| "source_size ((bs, e) # rest) = Suc (length bs + source_size rest)"

record 's treader =
  rSrc :: source
  rTr :: 's
  rCdata :: bytes
  rRdata :: bytes
  rCap :: nat
  rErr :: "go_error option"

definition NewTranslatingReader :: "source \<Rightarrow> 's \<Rightarrow> 's treader" where
  "NewTranslatingReader r tr = \<lparr>rSrc = r, rTr = tr, rCdata = [], rRdata = [], rCap = 0, rErr = None\<rparr>"

text \<open>One turn of the loop of \<open>Read\<close> for a buffer of \<open>k\<close> bytes: reading, then converting.\<close>

definition reader_fill :: "nat \<Rightarrow> 's treader \<Rightarrow> 's treader" where
  "reader_fill k r =
     (if rErr r = None then
        (let cap = ensureCap (rCap r) (length (rRdata r) + k);
             ((bs, err), src) = io_Read (cap - length (rRdata r)) (rSrc r);
             err = (if bs = [] \<and> err = None then Some EOF else err)
         in r\<lparr>rCap := cap, rRdata := rRdata r @ bs, rSrc := src, rErr := err\<rparr>)
      else r)"

definition reader_convert :: "('s \<Rightarrow> bool \<Rightarrow> bytes \<Rightarrow> (nat \<times> bytes \<times> 's) res) \<Rightarrow> 's treader \<Rightarrow> 's treader res" where
  "reader_convert tr r =
     res_bind (tr (rTr r) (rErr r \<noteq> None) (rRdata r)) (\<lambda>(nc, cdata, s).
       let nc = (if nc = 0 \<and> rErr r \<noteq> None then length (rRdata r) else nc)
       in if length (rRdata r) < nc then Inl Panic
          else Inr (r\<lparr>rTr := s, rCdata := cdata, rRdata := drop nc (rRdata r)\<rparr>))"

definition reader_size :: "'s treader \<Rightarrow> nat \<times> nat" where
  "reader_size r = ((if rErr r = None then Suc (source_size (rSrc r)) else 0), length (rRdata r))"

lemma io_Read_size:
  "io_Read n src = ((bs, err), src') \<Longrightarrow> bs \<noteq> [] \<Longrightarrow> source_size src' < source_size src"
  by (cases "(n, src)" rule: io_Read.cases) (auto split: if_splits)

lemma reader_turn_size:
  assumes "\<not> (rErr r \<noteq> None \<and> rRdata r = [])" and "reader_convert tr (reader_fill k r) = Inr r'"
  shows "(reader_size r', reader_size r) \<in> less_than <*lex*> less_than"
proof (cases "rErr r")
  case None
  obtain bs err src where i: "io_Read (ensureCap (rCap r) (length (rRdata r) + k) - length (rRdata r)) (rSrc r) = ((bs, err), src)"
    by (metis surj_pair)
  have f: "rErr (reader_fill k r) = (if bs = [] \<and> err = None then Some EOF else err)" "rSrc (reader_fill k r) = src"
    using None by (simp_all add: reader_fill_def i Let_def)
  have "rErr r' = rErr (reader_fill k r)" "rSrc r' = rSrc (reader_fill k r)"
    using assms(2) by (auto simp: reader_convert_def res_bind_def Let_def split: sum.splits if_splits)
  with f None io_Read_size [OF i] show ?thesis by (auto simp: reader_size_def)
next
  case (Some e)
  then have "reader_fill k r = r" by (simp add: reader_fill_def)
  with assms Some show ?thesis
    by (auto simp: reader_size_def reader_convert_def res_bind_def Let_def split: sum.splits if_splits)
qed

function reader_Read :: "('s \<Rightarrow> bool \<Rightarrow> bytes \<Rightarrow> (nat \<times> bytes \<times> 's) res) \<Rightarrow> nat \<Rightarrow> 's treader \<Rightarrow>
    ((bytes \<times> go_error option) \<times> 's treader) res" where
  "reader_Read tr k r =
     (if rCdata r \<noteq> [] then Inr ((take k (rCdata r), None), r\<lparr>rCdata := drop k (rCdata r)\<rparr>)
      else if rErr r \<noteq> None \<and> rRdata r = [] then Inr (([], rErr r), r)
      else (case reader_convert tr (reader_fill k r) of
              Inl e \<Rightarrow> Inl e
            | Inr r' \<Rightarrow> reader_Read tr k r'))"
  by pat_completeness auto
termination
proof (relation "inv_image (less_than <*lex*> less_than) (\<lambda>(tr, k, r). reader_size r)", goal_cases)
  case (2 tr k r r')
  from reader_turn_size [OF 2(2,3)] show ?case by simp
qed (simp add: wf_lex_prod)

declare reader_Read.simps [simp del]

fun reads :: "('s \<Rightarrow> bool \<Rightarrow> bytes \<Rightarrow> (nat \<times> bytes \<times> 's) res) \<Rightarrow> nat list \<Rightarrow> 's treader \<Rightarrow>
    (bytes \<times> go_error option \<times> 's treader) res" where
  "reads tr [] r = Inr ([], None, r)"
| "reads tr (k # ks) r =
     res_bind (reader_Read tr k r) (\<lambda>((bs, err), r).
       if err \<noteq> None then Inr (bs, err, r)
       else res_bind (reads tr ks r) (\<lambda>(bs', err, r). Inr (bs @ bs', err, r)))"

section \<open>Independence of the cuts\<close>

text \<open>What the translator makes of a whole text.\<close>

definition whole :: "('s \<Rightarrow> bool \<Rightarrow> bytes \<Rightarrow> (nat \<times> bytes \<times> 's) res) \<Rightarrow> 's \<Rightarrow> bytes \<Rightarrow> bytes" where
  "whole tr s d = (case tr s True d of Inr (n, out, s') \<Rightarrow> out | Inl e \<Rightarrow> [])"

definition live :: "source \<Rightarrow> bool" where
  "live src \<longleftrightarrow> list_all (\<lambda>(bs, e). bs \<noteq> [] \<and> e = None) src"

definition source_bytes :: "source \<Rightarrow> bytes" where
  "source_bytes src = concat (map fst src)"

lemma live_Nil [simp]: "live []"
  by (simp add: live_def)

lemma wf_reader: "wf (inv_image (less_than <*lex*> less_than) reader_size)"
  by (simp add: wf_lex_prod)

lemma io_Read_live:
  assumes "live src" and "0 < n" and "io_Read n src = ((bs, err), src')"
  shows "live src'" "source_bytes src = bs @ source_bytes src'"
    "err = None \<longleftrightarrow> src \<noteq> []" "bs = [] \<longleftrightarrow> src = []" "err \<noteq> None \<Longrightarrow> err = Some EOF \<and> src' = []"
  using assms by (cases "(n, src)" rule: io_Read.cases; auto simp: live_def source_bytes_def split: if_splits)+

context streaming
begin

lemma whole_resume:
  assumes "ok s" and "tr s False d = Inr (n, out, s1)"
  shows "whole tr s (d @ b) = out @ whole tr s1 (drop n d @ b)"
proof -
  have "ok s1" using total [OF assms(1), of False d] assms(2) by auto
  then obtain m out2 s2 where "tr s1 True (drop n d @ b) = Inr (m, out2, s2)" using total by blast
  with resume [OF assms this] show ?thesis by (simp add: whole_def)
qed

lemma whole_nil: "ok s \<Longrightarrow> whole tr s [] = []"
  using total [of s True "[]"] by (auto simp: whole_def)

lemma Write_step:
  assumes "ok (wTr w)"
  shows "\<exists>w'. writer_Write tr d w = Inr w' \<and> ok (wTr w') \<and>
    (\<forall>b. wOut w @ whole tr (wTr w) (wBuf w @ d @ b) = wOut w' @ whole tr (wTr w') (wBuf w' @ b))"
proof -
  define wdata where "wdata = wBuf w @ d"
  have wd: "(if wBuf w \<noteq> [] then wBuf w @ d else d) = wdata" by (simp add: wdata_def)
  obtain n out s where t: "tr (wTr w) False wdata = Inr (n, out, s)" and n: "n \<le> length wdata" "ok s" "n = 0 \<longrightarrow> out = []"
    using total [OF assms] by blast
  have w: "writer_Write tr d w = Inr \<lparr>wTr = s, wOut = wOut w @ out, wBuf = drop n wdata\<rparr>"
    unfolding writer_Write_def Let_def wd using t n by (auto simp: res_bind_def)
  show ?thesis
    using whole_resume [OF assms t] n(2) by (auto simp: w wdata_def)
qed

lemma writes_whole:
  "ok (wTr w) \<Longrightarrow> \<exists>w'. writes tr ds w = Inr w' \<and> ok (wTr w') \<and>
     wOut w @ whole tr (wTr w) (wBuf w @ concat ds) = wOut w' @ whole tr (wTr w') (wBuf w')"
proof (induction ds arbitrary: w)
  case (Cons d ds)
  from Write_step [OF Cons.prems, of d] obtain w1 where w1: "writer_Write tr d w = Inr w1" "ok (wTr w1)"
    and e: "\<forall>b. wOut w @ whole tr (wTr w) (wBuf w @ d @ b) = wOut w1 @ whole tr (wTr w1) (wBuf w1 @ b)" by blast
  from Cons.IH [OF w1(2)] w1(1) e show ?case by (simp add: res_bind_def)
qed simp

lemma Close_whole:
  assumes "ok (wTr w)"
  shows "\<exists>w'. writer_Close (Suc (Suc fuel)) tr w = Some (Inr w') \<and> wOut w' = wOut w @ whole tr (wTr w) (wBuf w)"
proof -
  obtain n out s where t: "tr (wTr w) True (wBuf w) = Inr (n, out, s)" "n \<le> length (wBuf w)" using total [OF assms] by blast
  with final [OF assms t(1)] show ?thesis by (simp add: whole_def Let_def)
qed

text \<open>Writing a text in any pieces and closing gives the translation of the whole text.\<close>

lemma writer_whole:
  assumes "ok s"
  shows "\<exists>w w'. writes tr ds (new_writer s) = Inr w \<and> writer_Close (Suc (Suc fuel)) tr w = Some (Inr w') \<and>
    wOut w' = whole tr s (concat ds)"
proof -
  from writes_whole [of "new_writer s" ds] assms obtain w where w: "writes tr ds (new_writer s) = Inr w" "ok (wTr w)"
    and e: "whole tr s (concat ds) = wOut w @ whole tr (wTr w) (wBuf w)" by (auto simp: new_writer_def)
  from Close_whole [OF w(2)] w e show ?thesis by simp
qed

text \<open>The invariant of a reader on a source that delivers bytes until it ends.\<close>

definition reader_ok :: "'s treader \<Rightarrow> bool" where
  "reader_ok r \<longleftrightarrow> ok (rTr r) \<and> live (rSrc r) \<and> (rErr r = None \<or> rErr r = Some EOF \<and> rSrc r = [])"

definition pending :: "'s treader \<Rightarrow> bytes" where
  "pending r = rCdata r @ whole tr (rTr r) (rRdata r @ source_bytes (rSrc r))"

lemma turn_pending:
  assumes "reader_ok r" and "0 < k" and "rCdata r = []"
  shows "\<exists>r'. reader_convert tr (reader_fill k r) = Inr r' \<and> reader_ok r' \<and> pending r' = pending r"
proof -
  define r1 where "r1 = reader_fill k r"
  have r1: "reader_ok r1" "pending r1 = pending r" "rErr r1 \<noteq> None \<longrightarrow> rSrc r1 = []"
  proof -
    have "reader_ok r1 \<and> pending r1 = pending r \<and> (rErr r1 \<noteq> None \<longrightarrow> rSrc r1 = [])"
    proof (cases "rErr r")
      case None
      define m where "m = ensureCap (rCap r) (length (rRdata r) + k) - length (rRdata r)"
      have m: "0 < m" using ensureCap_enough [of "length (rRdata r) + k" "rCap r"] assms(2) by (simp add: m_def)
      obtain bs err src where i: "io_Read m (rSrc r) = ((bs, err), src)" by (metis surj_pair)
      have "live (rSrc r)" using assms(1) by (simp add: reader_ok_def)
      note l = io_Read_live [OF this m i]
      have "r1 = r\<lparr>rCap := ensureCap (rCap r) (length (rRdata r) + k), rRdata := rRdata r @ bs, rSrc := src, rErr := err\<rparr>"
        using None l(3,4) by (auto simp: r1_def reader_fill_def Let_def m_def [symmetric] i)
      with l assms show ?thesis by (auto simp: reader_ok_def pending_def)
    next
      case (Some e)
      with assms(1) show ?thesis by (simp add: r1_def reader_fill_def reader_ok_def)
    qed
    then show "reader_ok r1" "pending r1 = pending r" "rErr r1 \<noteq> None \<longrightarrow> rSrc r1 = []" by simp_all
  qed
  have c1: "rCdata r1 = []" using assms(3) by (simp add: r1_def reader_fill_def Let_def split: prod.splits)
  have ok1: "ok (rTr r1)" using r1(1) by (simp add: reader_ok_def)
  obtain n out s where t: "tr (rTr r1) (rErr r1 \<noteq> None) (rRdata r1) = Inr (n, out, s)"
    and n: "n \<le> length (rRdata r1)" "ok s" "n = 0 \<longrightarrow> out = []" using total [OF ok1] by blast
  define nc where "nc = (if n = 0 \<and> rErr r1 \<noteq> None then length (rRdata r1) else n)"
  define r2 where "r2 = r1\<lparr>rTr := s, rCdata := out, rRdata := drop nc (rRdata r1)\<rparr>"
  have conv: "reader_convert tr r1 = Inr r2"
    unfolding reader_convert_def t res_bind_def Let_def r2_def using n(1) by (auto simp: nc_def)
  have "pending r2 = pending r1"
  proof (cases "rErr r1")
    case None
    then have t': "tr (rTr r1) False (rRdata r1) = Inr (n, out, s)" using t by simp
    from whole_resume [OF ok1 t'] None c1 show ?thesis by (simp add: pending_def r2_def nc_def)
  next
    case (Some e)
    then have t': "tr (rTr r1) True (rRdata r1) = Inr (n, out, s)" and src: "rSrc r1 = []" using t r1(3) by auto
    have "whole tr s (drop nc (rRdata r1)) = []"
      using final [OF ok1 t'] whole_nil [OF n(2)] by (simp add: nc_def whole_def)
    with t' src c1 show ?thesis by (simp add: pending_def r2_def source_bytes_def whole_def)
  qed
  moreover have "reader_ok r2" using r1(1) n(2) by (simp add: reader_ok_def r2_def)
  ultimately show ?thesis using conv r1(2) by (auto simp: r1_def)
qed

lemma Read_step:
  "reader_ok r \<Longrightarrow> 0 < k \<Longrightarrow> \<exists>bs err r'. reader_Read tr k r = Inr ((bs, err), r') \<and> reader_ok r' \<and>
     pending r = bs @ pending r' \<and> (err = None \<longrightarrow> bs \<noteq> []) \<and> (err \<noteq> None \<longrightarrow> err = Some EOF \<and> pending r = [])"
proof (induction r rule: wf_induct_rule [OF wf_reader])
  case (1 r)
  consider (data) "rCdata r \<noteq> []" | (over) "rCdata r = []" "rErr r \<noteq> None \<and> rRdata r = []"
    | (turn) "rCdata r = []" "\<not> (rErr r \<noteq> None \<and> rRdata r = [])" by blast
  then show ?case
  proof cases
    case data
    with "1.prems" show ?thesis
      by (auto simp: reader_Read.simps [of tr k r] reader_ok_def pending_def)
  next
    case over
    with "1.prems" show ?thesis
      by (auto simp: reader_Read.simps [of tr k r] reader_ok_def pending_def source_bytes_def whole_nil)
  next
    case turn
    from turn_pending [OF "1.prems" turn(1)] obtain r' where r': "reader_convert tr (reader_fill k r) = Inr r'"
      "reader_ok r'" "pending r' = pending r" by blast
    have "(r', r) \<in> inv_image (less_than <*lex*> less_than) reader_size"
      using reader_turn_size [OF turn(2) r'(1)] by simp
    from "1.IH" [OF this r'(2) "1.prems"(2)] r' turn show ?thesis by (auto simp: reader_Read.simps [of tr k r])
  qed
qed

lemma reads_whole:
  "reader_ok r \<Longrightarrow> list_all (\<lambda>k. 0 < k) ks \<Longrightarrow> \<exists>bs err r'. reads tr ks r = Inr (bs, err, r') \<and>
     (err = None \<longrightarrow> length ks \<le> length bs \<and> pending r = bs @ pending r') \<and> (err \<noteq> None \<longrightarrow> err = Some EOF \<and> bs = pending r)"
proof (induction ks arbitrary: r)
  case (Cons k ks)
  have k: "0 < k" "list_all (\<lambda>k. 0 < k) ks" using Cons.prems(2) by simp_all
  from Read_step [OF Cons.prems(1) k(1)] obtain bs err r1 where r1: "reader_Read tr k r = Inr ((bs, err), r1)" "reader_ok r1"
    "pending r = bs @ pending r1" "err = None \<longrightarrow> bs \<noteq> []" "err \<noteq> None \<longrightarrow> err = Some EOF \<and> pending r = []" by blast
  show ?case
  proof (cases err)
    case None
    from Cons.IH [OF r1(2) k(2)] obtain bs2 err2 r2 where r2: "reads tr ks r1 = Inr (bs2, err2, r2)"
      "err2 = None \<longrightarrow> length ks \<le> length bs2 \<and> pending r1 = bs2 @ pending r2" "err2 \<noteq> None \<longrightarrow> err2 = Some EOF \<and> bs2 = pending r1"
      by blast
    have l: "1 \<le> length bs" using None r1(4) by (cases bs) auto
    have rd: "reads tr (k # ks) r = Inr (bs @ bs2, err2, r2)" using None by (simp add: r1(1) r2(1) res_bind_def)
    show ?thesis
    proof (cases err2)
      case None
      with l r1(3) r2(2) show ?thesis unfolding rd by auto
    next
      case (Some e)
      with r1(3) r2(3) show ?thesis unfolding rd by auto
    qed
  next
    case (Some e)
    with r1 show ?thesis by (auto simp: res_bind_def)
  qed
qed simp

text \<open>Enough reads of any positive sizes give the translation of the whole source.\<close>

lemma reader_whole:
  assumes "ok s" and "live src" and "list_all (\<lambda>k. 0 < k) ks" and "length (whole tr s (source_bytes src)) < length ks"
  shows "\<exists>r. reads tr ks (NewTranslatingReader src s) = Inr (whole tr s (source_bytes src), Some EOF, r)"
proof -
  let ?r = "NewTranslatingReader src s"
  have "reader_ok ?r" "pending ?r = whole tr s (source_bytes src)"
    using assms(1,2) by (simp_all add: NewTranslatingReader_def reader_ok_def pending_def)
  with reads_whole [OF _ assms(3), of ?r] obtain bs err r' where r: "reads tr ks ?r = Inr (bs, err, r')"
    "err = None \<longrightarrow> length ks \<le> length bs \<and> whole tr s (source_bytes src) = bs @ pending r'"
    "err \<noteq> None \<longrightarrow> err = Some EOF \<and> bs = whole tr s (source_bytes src)" by auto
  have "err \<noteq> None" using r(2) assms(4) by (cases err) auto
  with r show ?thesis by simp
qed

end

section \<open>The writer of code pages\<close>

text \<open>\<open>tw_Write\<close> and \<open>tw_Close\<close> of \<open>Charset\<close> are the writer over a code-page translator.\<close>

lemma writer_Write_code_page:
  "writer_Write translate data \<lparr>wTr = ToCodePage info, wOut = twOut w, wBuf = twBuf w\<rparr> =
     Inr \<lparr>wTr = ToCodePage info, wOut = twOut (tw_Write info data w), wBuf = twBuf (tw_Write info data w)\<rparr>"
  by (auto simp: writer_Write_def tw_Write_def res_bind_def Let_def split: prod.splits)

end
