(* ===== verification/CharsetRegistry.thy ===== *)
theory CharsetRegistry
  imports CharsetIO UavObjectID
begin

text \<open>
  How \<open>go-charset\<close> finds a translator by name: \<open>local.go\<close> (the character sets of
  \<open>charsets.json\<close>, their classes and the cache of tables), \<open>file.go\<close>, the constructors of
  the translators, and the functions of \<open>charset.go\<close> that ask the registered factories.

  \<open>cs_env\<close> stands for what the package takes from outside: the registered data files,
  the file system behind them, the JSON decoder and \<open>strings.Map\<close> on names that are not
  ASCII. An error message keeps the operand of its \<open>%q\<close> without the quotes.

  The lemmas show that the cache has no influence on the translators that are handed out,
  that every one of them but the two defective ones keeps the laws of \<open>streaming\<close>, and
  that the order in which the map of \<open>charsets.json\<close> is visited does not matter.
\<close>

section \<open>Data files\<close>

record charsetEntry =
  eAliases :: "string list"
  eDesc :: string
  eClass :: string
  eArg :: string

record cs_env =
  csFiles :: "string \<Rightarrow> bytes res option"
  csOpen :: "string \<Rightarrow> bytes res"
  csJson :: "bytes \<Rightarrow> (string \<times> charsetEntry) list"
  csMap :: "string \<Rightarrow> string"

definition CharsetDir :: string where
  "CharsetDir = ''/usr/local/lib/go-charset/datafiles''"

definition readFile :: "cs_env \<Rightarrow> string \<Rightarrow> bytes res" where
  "readFile env name =
     (case csFiles env name of Some content \<Rightarrow> content | None \<Rightarrow> csOpen env (CharsetDir @ ''/'' @ name))"

definition RegisterDataFile :: "string \<Rightarrow> bytes res \<Rightarrow> cs_env \<Rightarrow> cs_env" where
  "RegisterDataFile name content env = env\<lparr>csFiles := (csFiles env)(name \<mapsto> content)\<rparr>"

abbreviation (input) entry :: "string list \<Rightarrow> string \<Rightarrow> string \<Rightarrow> string \<Rightarrow> charsetEntry" where
  "entry aliases desc cls arg \<equiv> \<lparr>eAliases = aliases, eDesc = desc, eClass = cls, eArg = arg\<rparr>"

text \<open>The entries of the embedded \<open>charsets.json\<close>, without their comments.\<close>

definition charsets_json :: "(string \<times> charsetEntry) list" where
  "charsets_json =
     [(''8bit'', entry [] ''raw 8-bit data'' ''8bit'' ''''),
      (''big5'', entry [] ''Big 5 (HKU)'' ''big5'' ''''),
      (''euc-jp'', entry [''x-euc-jp''] ''Japanese Extended UNIX Code'' ''euc-jp'' ''''),
      (''gb2312'', entry [''iso-ir-58'', ''chinese'', ''gb_2312-80''] ''Chinese mixed one byte'' ''gb2312'' ''''),
      (''ibm437'', entry [''437'', ''cp437''] ''IBM PC: CP 437'' ''cp'' ''ibm437.cp''),
      (''ibm850'', entry [''850'', ''cp850''] ''IBM PS/2: CP 850'' ''cp'' ''ibm850.cp''),
      (''ibm866'', entry [''cp866'', ''866''] ''Russian MS-DOS CP 866'' ''cp'' ''ibm866.cp''),
      (''iso-8859-1'', entry [''iso-ir-100'', ''ibm819'', ''l1'', ''iso8859-1'', ''iso-latin-1'', ''iso_8859-1:1987'', ''cp819'', ''iso_8859-1'', ''iso8859_1'', ''latin1''] ''Latin-1'' ''cp'' ''iso-8859-1.cp''),
      (''iso-8859-10'', entry [''iso_8859-10:1992'', ''l6'', ''iso-ir-157'', ''latin6''] ''Latin-6'' ''cp'' ''iso-8859-10.cp''),
      (''iso-8859-15'', entry [''l9-iso-8859-15'', ''latin9''] ''Latin-9'' ''cp'' ''iso-8859-15.cp''),
      (''iso-8859-2'', entry [''iso-ir-101'', ''iso_8859-2:1987'', ''l2'', ''iso_8859-2'', ''latin2''] ''Latin-2'' ''cp'' ''iso-8859-2.cp''),
      (''iso-8859-3'', entry [''iso-ir-109'', ''l3'', ''iso_8859-3:1988'', ''iso_8859-3'', ''latin3''] ''Latin-3'' ''cp'' ''iso-8859-3.cp''),
      (''iso-8859-4'', entry [''iso-ir-110'', ''iso_8859-4:1988'', ''l4'', ''iso_8859-4'', ''latin4''] ''Latin-4'' ''cp'' ''iso-8859-4.cp''),
      (''iso-8859-5'', entry [''cyrillic'', ''iso_8859-5'', ''iso-ir-144'', ''iso_8859-5:1988''] ''Part 5 (Cyrillic)'' ''cp'' ''iso-8859-5.cp''),
      (''iso-8859-6'', entry [''ecma-114'', ''iso_8859-6:1987'', ''arabic'', ''iso_8859-6'', ''asmo-708'', ''iso-ir-127''] ''Part 6 (Arabic)'' ''cp'' ''iso-8859-6.cp''),
      (''iso-8859-7'', entry [''greek8'', ''elot_928'', ''ecma-118'', ''greek'', ''iso_8859-7'', ''iso_8859-7:1987'', ''iso-ir-126''] ''Part 7 (Greek)'' ''cp'' ''iso-8859-7.cp''),
      (''iso-8859-8'', entry [''iso_8859-8:1988'', ''hebrew'', ''iso_8859-8'', ''iso-ir-138''] ''Part 8 (Hebrew)'' ''cp'' ''iso-8859-8.cp''),
      (''iso-8859-9'', entry [''l5'', ''iso_8859-9:1989'', ''iso_8859-9'', ''iso-ir-148'', ''latin5''] ''Latin-5'' ''cp'' ''iso-8859-9.cp''),
      (''koi8-r'', entry [] ''KOI8-R (RFC1489)'' ''cp'' ''koi8-r.cp''),
      (''shift_jis'', entry [''sjis'', ''ms_kanji'', ''x-sjis''] ''Shift-JIS Japanese'' ''cp932'' ''shiftjis''),
      (''utf-16'', entry [''utf16''] ''Unicode UTF-16'' ''utf16'' ''''),
      (''utf-16be'', entry [''utf16be''] ''Unicode UTF-16 big endian'' ''utf16'' ''be''),
      (''utf-16le'', entry [''utf16le''] ''Unicode UTF-16 little endian'' ''utf16'' ''le''),
      (''utf-8'', entry [''utf8'', ''ascii'', ''us-ascii''] ''Unicode UTF-8'' ''utf8'' ''''),
      (''windows-1250'', entry [] ''MS Windows CP 1250 (Central Europe)'' ''cp'' ''windows-1250.cp''),
      (''windows-1251'', entry [] ''MS Windows CP 1251 (Cyrillic)'' ''cp'' ''windows-1251.cp''),
      (''windows-1252'', entry [] ''MS Windows CP 1252 (Latin 1)'' ''cp'' ''windows-1252.cp''),
      (''windows-31j'', entry [''cp932''] ''MS-Windows Japanese (cp932)'' ''cp932'' ''cp932'')]"

section \<open>The cache\<close>

datatype cache_key = CpKeyFrom string | CpKeyTo string | CP932Key bool | Big5Key bool

datatype cached = Runes "int list" | CodePage toCodePageInfo | Tables jisTables

type_synonym store = "(cache_key \<times> cached) list"

definition cache :: "cache_key \<Rightarrow> cached res \<Rightarrow> store \<Rightarrow> cached res \<times> store" where
  "cache key f st =
     (case map_of st key of
        Some x \<Rightarrow> (Inr x, st)
      | None \<Rightarrow> (case f of Inl err \<Rightarrow> (Inl err, st) | Inr x \<Rightarrow> (Inr x, AList.update key x st)))"

section \<open>Making translators\<close>

type_synonym maker = "cs_env \<Rightarrow> string \<Rightarrow> store \<Rightarrow> translator res \<times> store"

text \<open>The values the constructors compute when the cache has none.\<close>

definition file_runes :: "cs_env \<Rightarrow> string \<Rightarrow> int list res" where
  "file_runes env name = res_bind (readFile env name) (\<lambda>data. Inr (map int (string_runes data)))"

definition from_table :: "cs_env \<Rightarrow> string \<Rightarrow> cached res" where
  "from_table env arg =
     res_bind (file_runes env arg) (\<lambda>runes.
       if length runes \<noteq> 256 then Inl (WrongRuneCount (length runes)) else Inr (Runes runes))"

definition to_table :: "cs_env \<Rightarrow> string \<Rightarrow> cached res" where
  "to_table env arg = res_bind (readFile env arg) (\<lambda>data. res_bind (toCodePage data) (\<lambda>info. Inr (CodePage info)))"

definition jisGetMap :: "cs_env \<Rightarrow> string \<Rightarrow> nat \<Rightarrow> nat \<Rightarrow> int list res" where
  "jisGetMap env name pgsize npages =
     res_bind (file_runes env name) (\<lambda>m.
       if length m \<noteq> pgsize * npages then Inl (IOError (name @ '': incorrect length data'')) else Inr m)"

definition jis_table :: "cs_env \<Rightarrow> bool \<Rightarrow> cached res" where
  "jis_table env shiftJIS =
     res_bind (jisGetMap env ''jisx0201kana.dat'' kanaPageSize kanaPages) (\<lambda>kana.
     res_bind (jisGetMap env ''cp932.dat'' cp932PageSize cp932Pages) (\<lambda>cp.
     Inr (Tables (jis_tables shiftJIS kana cp))))"

definition big5_table :: "cs_env \<Rightarrow> cached res" where
  "big5_table env =
     (case file_runes env ''big5.dat'' of
        Inl err \<Rightarrow> Inl (IOError ''charset: cannot open big5 data file'')
      | Inr m \<Rightarrow> if length m \<noteq> big5Max then Inl (IOError ''charset: corrupt big5 data'') else Inr (Runes m))"

text \<open>The constructors: the cached table, asserted to be of the type of its key.\<close>

definition fromCodePage :: maker where
  "fromCodePage env arg st =
     (let (m, st) = cache (CpKeyFrom arg) (from_table env arg) st
      in (res_bind m (\<lambda>x. case x of Runes r \<Rightarrow> Inr (FromCodePage r) | _ \<Rightarrow> Inl Panic), st))"

definition newToCodePage :: maker where
  "newToCodePage env arg st =
     (let (m, st) = cache (CpKeyTo arg) (to_table env arg) st
      in (res_bind m (\<lambda>x. case x of CodePage i \<Rightarrow> Inr (ToCodePage i) | _ \<Rightarrow> Inl Panic), st))"

definition toUTF8 :: maker where
  "toUTF8 env arg st = (Inr ToUTF8, st)"

definition getEndian :: "string \<Rightarrow> endian option res" where
  "getEndian arg =
     (if arg = ''le'' then Inr (Some LittleEndian)
      else if arg = ''be'' then Inr (Some BigEndian)
      else if arg = [] then Inr None
      else Inl (IOError ''charset: unknown utf16 endianness''))"

definition fromUTF16 :: maker where
  "fromUTF16 env arg st = (res_bind (getEndian arg) (\<lambda>endian. Inr (FromUTF16 True endian)), st)"

definition toUTF16 :: maker where
  "toUTF16 env arg st = (res_bind (getEndian arg) (\<lambda>endian. Inr (ToUTF16 False endian)), st)"

definition fromCP932 :: maker where
  "fromCP932 env arg st =
     (let shiftJIS = (arg = ''shiftjis''); (m, st) = cache (CP932Key shiftJIS) (jis_table env shiftJIS) st
      in (res_bind m (\<lambda>x. case x of Tables t \<Rightarrow> Inr (FromCP932 t) | _ \<Rightarrow> Inl Panic), st))"

definition fromBig5 :: maker where
  "fromBig5 env arg st =
     (let (m, st) = cache (Big5Key False) (big5_table env) st
      in (res_bind m (\<lambda>x. case x of Runes r \<Rightarrow> Inr (FromBig5 (-1) r) | _ \<Rightarrow> Inl Panic), st))"

section \<open>Classes and character sets\<close>

record cs_class =
  clFrom :: "maker option"
  clTo :: "maker option"

definition registerClass :: "string \<Rightarrow> maker option \<Rightarrow> maker option \<Rightarrow> (string \<rightharpoonup> cs_class) \<Rightarrow> (string \<rightharpoonup> cs_class)" where
  "registerClass charset f t cls = cls(charset \<mapsto> \<lparr>clFrom = f, clTo = t\<rparr>)"

text \<open>The classes after the \<open>init\<close> functions of the files have run.\<close>

definition classes :: "string \<rightharpoonup> cs_class" where
  "classes =
     registerClass ''utf8'' (Some toUTF8) (Some toUTF8)
       (registerClass ''utf16'' (Some fromUTF16) (Some toUTF16)
         (registerClass ''cp932'' (Some fromCP932) None
           (registerClass ''cp'' (Some fromCodePage) (Some newToCodePage)
             (registerClass ''big5'' (Some fromBig5) None Map.empty))))"

record charset_info =
  csName :: string
  csAliases :: "string list"
  csDesc :: string
  csNoFrom :: bool
  csNoTo :: bool

text \<open>\<open>lcKey\<close> is the key in \<open>charsets.json\<close>: it tells the objects a pointer can point to apart.\<close>

record localCharset =
  lcInfo :: charset_info
  lcArg :: string
  lcClass :: cs_class
  lcKey :: string

definition normalizedChar :: "char \<Rightarrow> char" where
  "normalizedChar c = (if c = CHR ''_'' then CHR ''-'' else lower_char c)"

definition NormalizedName :: "cs_env \<Rightarrow> string \<Rightarrow> string" where
  "NormalizedName env s = (if ascii s then map normalizedChar s else csMap env s)"

definition local_charset :: "cs_env \<Rightarrow> string \<times> charsetEntry \<Rightarrow> localCharset option" where
  "local_charset env e =
     map_option (\<lambda>cl. \<lparr>lcInfo = \<lparr>csName = NormalizedName env (fst e), csAliases = map (NormalizedName env) (eAliases (snd e)),
          csDesc = eDesc (snd e), csNoFrom = (clFrom cl = None), csNoTo = (clTo cl = None)\<rparr>,
        lcArg = eArg (snd e), lcClass = cl, lcKey = fst e\<rparr>) (classes (eClass (snd e)))"

definition add_entry :: "cs_env \<Rightarrow> string \<times> charsetEntry \<Rightarrow> (string \<times> localCharset) list \<Rightarrow> (string \<times> localCharset) list" where
  "add_entry env e m =
     (case local_charset env e of
        None \<Rightarrow> m
      | Some cs \<Rightarrow> fold (\<lambda>a m. AList.update a cs m) (csAliases (lcInfo cs)) (AList.update (csName (lcInfo cs)) cs m))"

definition readLocalCharsets :: "cs_env \<Rightarrow> (string \<times> localCharset) list" where
  "readLocalCharsets env =
     (case readFile env ''charsets.json'' of
        Inl err \<Rightarrow> []
      | Inr csdata \<Rightarrow> fold (add_entry env) (csJson env csdata) [])"

section \<open>Factories\<close>

record cs_state =
  csLocal :: "(string \<times> localCharset) list option"
  csStore :: store

definition local_init :: "cs_env \<Rightarrow> cs_state \<Rightarrow> (string \<times> localCharset) list \<times> cs_state" where
  "local_init env st =
     (case csLocal st of
        Some m \<Rightarrow> (m, st)
      | None \<Rightarrow> (let m = readLocalCharsets env in (m, st\<lparr>csLocal := Some m\<rparr>)))"

definition with_maker :: "maker option \<Rightarrow> go_error \<Rightarrow> cs_env \<Rightarrow> string \<Rightarrow> cs_state \<Rightarrow> translator res \<times> cs_state" where
  "with_maker f err env arg st =
     (case f of
        None \<Rightarrow> (Inl err, st)
      | Some f \<Rightarrow> (let (tr, store) = f env arg (csStore st) in (tr, st\<lparr>csStore := store\<rparr>)))"

definition local_TranslatorFrom :: "cs_env \<Rightarrow> string \<Rightarrow> cs_state \<Rightarrow> translator res \<times> cs_state" where
  "local_TranslatorFrom env name st =
     (let (m, st) = local_init env st; name = NormalizedName env name
      in case map_of m name of
           None \<Rightarrow> (Inl (CharsetNotFound name), st)
         | Some cs \<Rightarrow> with_maker (clFrom (lcClass cs)) (IOError (''cannot translate from '' @ name)) env (lcArg cs) st)"

definition local_TranslatorTo :: "cs_env \<Rightarrow> string \<Rightarrow> cs_state \<Rightarrow> translator res \<times> cs_state" where
  "local_TranslatorTo env name st =
     (let (m, st) = local_init env st; name = NormalizedName env name
      in case map_of m name of
           None \<Rightarrow> (Inl (CharsetNotFound name), st)
         | Some cs \<Rightarrow> with_maker (clTo (lcClass cs)) (IOError (''cannot translate to '' @ name)) env (lcArg cs) st)"

definition local_Names :: "cs_env \<Rightarrow> cs_state \<Rightarrow> string list \<times> cs_state" where
  "local_Names env st =
     (let (m, st) = local_init env st
      in (map fst (filter (\<lambda>(name, cs). map_option lcKey (map_of m (csName (lcInfo cs))) = Some (lcKey cs)) m), st))"

definition local_Info :: "cs_env \<Rightarrow> string \<Rightarrow> cs_state \<Rightarrow> charset_info option \<times> cs_state" where
  "local_Info env name st =
     (let (m, st) = local_init env st in (map_option lcInfo (map_of m (NormalizedName env name)), st))"

record factory =
  fcFrom :: "string \<Rightarrow> cs_state \<Rightarrow> translator res \<times> cs_state"
  fcTo :: "string \<Rightarrow> cs_state \<Rightarrow> translator res \<times> cs_state"
  fcNames :: "cs_state \<Rightarrow> string list \<times> cs_state"
  fcInfo :: "string \<Rightarrow> cs_state \<Rightarrow> charset_info option \<times> cs_state"

definition localFactory :: "cs_env \<Rightarrow> factory" where
  "localFactory env = \<lparr>fcFrom = local_TranslatorFrom env, fcTo = local_TranslatorTo env,
     fcNames = local_Names env, fcInfo = local_Info env\<rparr>"

definition Register :: "factory \<Rightarrow> factory list \<Rightarrow> factory list" where
  "Register factory factories = factories @ [factory]"

text \<open>The loops over the factories, of which there is always the local one.\<close>

fun ask :: "(string \<Rightarrow> cs_state \<Rightarrow> translator res \<times> cs_state) list \<Rightarrow> string \<Rightarrow> cs_state \<Rightarrow> translator res \<times> cs_state" where
  "ask [] charset st = (Inl Panic, st)"
| "ask [f] charset st = f charset st"
| "ask (f # g # fs) charset st =
     (case f charset st of (Inr tr, st) \<Rightarrow> (Inr tr, st) | (Inl err, st) \<Rightarrow> ask (g # fs) charset st)"

definition TranslatorFrom :: "factory list \<Rightarrow> string \<Rightarrow> cs_state \<Rightarrow> translator res \<times> cs_state" where
  "TranslatorFrom factories charset st = ask (map fcFrom factories) charset st"

definition TranslatorTo :: "factory list \<Rightarrow> string \<Rightarrow> cs_state \<Rightarrow> translator res \<times> cs_state" where
  "TranslatorTo factories charset st = ask (map fcTo factories) charset st"

fun Info :: "factory list \<Rightarrow> string \<Rightarrow> cs_state \<Rightarrow> charset_info option \<times> cs_state" where
  "Info [] name st = (None, st)"
| "Info (f # fs) name st = (case fcInfo f name st of (Some i, st) \<Rightarrow> (Some i, st) | (None, st) \<Rightarrow> Info fs name st)"

fun Names :: "factory list \<Rightarrow> cs_state \<Rightarrow> string list \<times> cs_state" where
  "Names [] st = ([], st)"
| "Names (f # fs) st = (let (ns, st) = fcNames f st; (ns', st) = Names fs st in (ns @ ns', st))"

definition NewReader :: "factory list \<Rightarrow> string \<Rightarrow> source \<Rightarrow> cs_state \<Rightarrow> translator treader res \<times> cs_state" where
  "NewReader factories charset r st =
     (let (tr, st) = TranslatorFrom factories charset st
      in (res_bind tr (\<lambda>tr. Inr (NewTranslatingReader r tr)), st))"

definition NewWriter :: "factory list \<Rightarrow> string \<Rightarrow> cs_state \<Rightarrow> translator twriter res \<times> cs_state" where
  "NewWriter factories charset st =
     (let (tr, st) = TranslatorTo factories charset st
      in (res_bind tr (\<lambda>tr. Inr (new_writer tr)), st))"

section \<open>The cache has no influence\<close>

fun compute :: "cs_env \<Rightarrow> cache_key \<Rightarrow> cached res" where
  "compute env (CpKeyFrom arg) = from_table env arg"
| "compute env (CpKeyTo arg) = to_table env arg"
| "compute env (CP932Key shiftJIS) = jis_table env shiftJIS"
| "compute env (Big5Key b) = big5_table env"

definition cache_ok :: "cs_env \<Rightarrow> store \<Rightarrow> bool" where
  "cache_ok env st \<longleftrightarrow> (\<forall>key x. map_of st key = Some x \<longrightarrow> compute env key = Inr x)"

lemma cache_ok_Nil [simp]: "cache_ok env []"
  by (simp add: cache_ok_def)

lemma cache_compute:
  assumes "cache_ok env st"
  shows "fst (cache key (compute env key) st) = compute env key" "cache_ok env (snd (cache key (compute env key) st))"
  using assms by (auto simp: cache_def cache_ok_def update_conv split: option.splits sum.splits)

definition pure_maker :: "maker \<Rightarrow> bool" where
  "pure_maker f \<longleftrightarrow> (\<forall>env arg st. cache_ok env st \<longrightarrow>
     fst (f env arg st) = fst (f env arg []) \<and> cache_ok env (snd (f env arg st)))"

lemma pure_cached:
  assumes "\<And>env arg st. f env arg st = (let (m, st) = cache (k arg) (compute env (k arg)) st in (g m, st))"
  shows "pure_maker f"
  using cache_compute by (simp add: pure_maker_def assms split_beta Let_def)

lemma pure_makers:
  "pure_maker fromCodePage" "pure_maker newToCodePage" "pure_maker toUTF8" "pure_maker fromUTF16" "pure_maker toUTF16"
  "pure_maker fromCP932" "pure_maker fromBig5"
proof -
  show "pure_maker fromCodePage"
    by (rule pure_cached [where k = CpKeyFrom and g = "\<lambda>m. res_bind m (\<lambda>x. case x of Runes r \<Rightarrow> Inr (FromCodePage r) | _ \<Rightarrow> Inl Panic)"])
      (simp add: fromCodePage_def)
  show "pure_maker newToCodePage"
    by (rule pure_cached [where k = CpKeyTo and g = "\<lambda>m. res_bind m (\<lambda>x. case x of CodePage i \<Rightarrow> Inr (ToCodePage i) | _ \<Rightarrow> Inl Panic)"])
      (simp add: newToCodePage_def)
  show "pure_maker fromCP932"
    by (rule pure_cached [where k = "\<lambda>arg. CP932Key (arg = ''shiftjis'')"
          and g = "\<lambda>m. res_bind m (\<lambda>x. case x of Tables t \<Rightarrow> Inr (FromCP932 t) | _ \<Rightarrow> Inl Panic)"])
      (simp add: fromCP932_def Let_def)
  show "pure_maker fromBig5"
    by (rule pure_cached [where k = "\<lambda>_. Big5Key False"
          and g = "\<lambda>m. res_bind m (\<lambda>x. case x of Runes r \<Rightarrow> Inr (FromBig5 (-1) r) | _ \<Rightarrow> Inl Panic)"])
      (simp add: fromBig5_def)
qed (simp_all add: pure_maker_def toUTF8_def fromUTF16_def toUTF16_def)

lemma classes_cases:
  "classes c = Some cl \<Longrightarrow>
     cl \<in> {\<lparr>clFrom = Some toUTF8, clTo = Some toUTF8\<rparr>, \<lparr>clFrom = Some fromUTF16, clTo = Some toUTF16\<rparr>,
           \<lparr>clFrom = Some fromCP932, clTo = None\<rparr>, \<lparr>clFrom = Some fromCodePage, clTo = Some newToCodePage\<rparr>,
           \<lparr>clFrom = Some fromBig5, clTo = None\<rparr>}"
  by (auto simp: classes_def registerClass_def split: if_splits)

definition charset_ok :: "localCharset \<Rightarrow> bool" where
  "charset_ok cs \<longleftrightarrow> (\<exists>c. classes c = Some (lcClass cs))"

lemma local_charset_ok: "local_charset env e = Some cs \<Longrightarrow> charset_ok cs"
  by (auto simp: local_charset_def charset_ok_def)

lemma fold_update_range:
  "map_of (fold (\<lambda>a m. AList.update a cs m) as m) k = Some x \<Longrightarrow> x = cs \<or> map_of m k = Some x"
  by (induction "as" arbitrary: m) (force simp: update_conv split: if_splits)+

lemma add_entry_range:
  "map_of (add_entry env e m) k = Some x \<Longrightarrow> local_charset env e = Some x \<or> map_of m k = Some x"
  by (auto simp: add_entry_def update_conv split: option.splits if_splits dest!: fold_update_range)

lemma readLocalCharsets_ok: "map_of (readLocalCharsets env) k = Some cs \<Longrightarrow> charset_ok cs"
proof -
  have "map_of (fold (add_entry env) es m) k = Some cs \<Longrightarrow> charset_ok cs \<or> map_of m k = Some cs" for es m
    by (induction es arbitrary: m) (auto dest!: add_entry_range intro: local_charset_ok)
  from this [of _ "[]"] show "map_of (readLocalCharsets env) k = Some cs \<Longrightarrow> charset_ok cs"
    by (auto simp: readLocalCharsets_def split: sum.splits)
qed

definition cs_ok :: "cs_env \<Rightarrow> cs_state \<Rightarrow> bool" where
  "cs_ok env st \<longleftrightarrow> cache_ok env (csStore st) \<and> (csLocal st = None \<or> csLocal st = Some (readLocalCharsets env))"

definition fresh :: cs_state where
  "fresh = \<lparr>csLocal = None, csStore = []\<rparr>"

lemma cs_ok_fresh [simp]: "cs_ok env fresh"
  by (simp add: cs_ok_def fresh_def)

lemma local_init_ok:
  "cs_ok env st \<Longrightarrow> \<exists>st'. local_init env st = (readLocalCharsets env, st') \<and> cs_ok env st' \<and> csStore st' = csStore st"
  by (auto simp: cs_ok_def local_init_def Let_def split: option.splits)

lemma with_maker_pure:
  assumes "cs_ok env st" and "\<And>g. f = Some g \<Longrightarrow> pure_maker g"
  shows "fst (with_maker f err env arg st) = fst (with_maker f err env arg fresh) \<and> cs_ok env (snd (with_maker f err env arg st))"
proof (cases f)
  case (Some g)
  have "cache_ok env (csStore st)" using assms(1) by (simp add: cs_ok_def)
  then have "fst (g env arg (csStore st)) = fst (g env arg [])" "cache_ok env (snd (g env arg (csStore st)))"
    using assms(2) [OF Some] unfolding pure_maker_def by blast+
  with assms(1) show ?thesis by (simp add: Some with_maker_def fresh_def cs_ok_def split_beta)
qed (use assms in \<open>simp add: with_maker_def\<close>)

lemma local_pure:
  assumes "cs_ok env st"
  shows "fst (local_TranslatorFrom env name st) = fst (local_TranslatorFrom env name fresh) \<and> cs_ok env (snd (local_TranslatorFrom env name st))"
    and "fst (local_TranslatorTo env name st) = fst (local_TranslatorTo env name fresh) \<and> cs_ok env (snd (local_TranslatorTo env name st))"
proof -
  obtain st1 where i: "local_init env st = (readLocalCharsets env, st1)" "cs_ok env st1" using local_init_ok [OF assms] by blast
  obtain st0 where j: "local_init env fresh = (readLocalCharsets env, st0)" "cs_ok env st0" using local_init_ok [OF cs_ok_fresh] by blast
  have pm: "pure_maker g" if "map_of (readLocalCharsets env) k = Some cs" "clFrom (lcClass cs) = Some g \<or> clTo (lcClass cs) = Some g" for k cs g
    using readLocalCharsets_ok [OF that(1)] that(2) pure_makers by (auto simp: charset_ok_def dest!: classes_cases)
  show "fst (local_TranslatorFrom env name st) = fst (local_TranslatorFrom env name fresh) \<and> cs_ok env (snd (local_TranslatorFrom env name st))"
  proof (cases "map_of (readLocalCharsets env) (NormalizedName env name)")
    case (Some cs)
    then have p: "\<And>g. clFrom (lcClass cs) = Some g \<Longrightarrow> pure_maker g" using pm by blast
    show ?thesis
      using with_maker_pure [OF i(2) p] with_maker_pure [OF j(2) p] by (simp add: local_TranslatorFrom_def i(1) j(1) Some)
  qed (use i j in \<open>simp add: local_TranslatorFrom_def\<close>)
  show "fst (local_TranslatorTo env name st) = fst (local_TranslatorTo env name fresh) \<and> cs_ok env (snd (local_TranslatorTo env name st))"
  proof (cases "map_of (readLocalCharsets env) (NormalizedName env name)")
    case (Some cs)
    then have p: "\<And>g. clTo (lcClass cs) = Some g \<Longrightarrow> pure_maker g" using pm by blast
    show ?thesis
      using with_maker_pure [OF i(2) p] with_maker_pure [OF j(2) p] by (simp add: local_TranslatorTo_def i(1) j(1) Some)
  qed (use i j in \<open>simp add: local_TranslatorTo_def\<close>)
qed

text \<open>A client asks for translators one after the other.\<close>

datatype cs_request = AskFrom string | AskTo string

fun request_step :: "factory list \<Rightarrow> cs_request \<Rightarrow> cs_state \<Rightarrow> translator res \<times> cs_state" where
  "request_step fs (AskFrom name) st = TranslatorFrom fs name st"
| "request_step fs (AskTo name) st = TranslatorTo fs name st"

fun requests :: "factory list \<Rightarrow> cs_request list \<Rightarrow> cs_state \<Rightarrow> translator res list \<times> cs_state" where
  "requests fs [] st = ([], st)"
| "requests fs (q # qs) st =
     (let (tr, st) = request_step fs q st; (trs, st) = requests fs qs st in (tr # trs, st))"

lemma request_step_pure:
  "cs_ok env st \<Longrightarrow> fst (request_step [localFactory env] q st) = fst (request_step [localFactory env] q fresh) \<and>
     cs_ok env (snd (request_step [localFactory env] q st))"
  using local_pure [of env st] by (cases q) (simp_all add: TranslatorFrom_def TranslatorTo_def localFactory_def)

lemma requests_pure:
  "cs_ok env st \<Longrightarrow> fst (requests [localFactory env] qs st) = map (\<lambda>q. fst (request_step [localFactory env] q fresh)) qs"
proof (induction qs arbitrary: st)
  case (Cons q qs)
  from request_step_pure [OF Cons.prems, of q] Cons.IH show ?case by (simp add: split_beta Let_def)
qed simp

section \<open>The translators that are handed out\<close>

lemma length_jisGetMap: "jisGetMap env name a b = Inr m \<Longrightarrow> length m = a * b"
  by (auto simp: jisGetMap_def res_bind_def split: sum.splits if_splits)

lemma from_makers_stream:
  assumes "f \<in> {toUTF8, fromUTF16, fromCP932, fromCodePage, fromBig5}" and "fst (f env arg []) = Inr t"
  shows "t = ToUTF8 \<or> streams t"
proof -
  have "streams t" if "fst (fromCP932 env arg []) = Inr t"
    using that jis_tables_ok
    by (auto simp: fromCP932_def cache_def jis_table_def res_bind_def Let_def split: sum.splits if_splits dest!: length_jisGetMap)
  then show ?thesis
    using assms
    by (auto simp: toUTF8_def fromUTF16_def getEndian_def fromCodePage_def fromBig5_def cache_def from_table_def big5_table_def
        res_bind_def Let_def split: sum.splits if_splits)
qed

lemma to_makers_stream:
  assumes "f \<in> {toUTF8, toUTF16, newToCodePage}" and "fst (f env arg []) = Inr t"
  shows "t = ToUTF8 \<or> t = ToUTF16 False None \<or> streams t"
  using assms
  by (auto simp: toUTF8_def toUTF16_def getEndian_def newToCodePage_def cache_def to_table_def res_bind_def Let_def
      split: sum.splits if_splits)

lemma local_init_fresh: "\<exists>st. local_init env fresh = (readLocalCharsets env, st) \<and> csStore st = []"
  using local_init_ok [OF cs_ok_fresh, of env] by (auto simp: fresh_def)

lemma local_From_streams:
  assumes "cs_ok env st" and "fst (local_TranslatorFrom env name st) = Inr t"
  shows "t = ToUTF8 \<or> streams t"
proof -
  obtain st0 where i: "local_init env fresh = (readLocalCharsets env, st0)" "csStore st0 = []" using local_init_fresh by blast
  from assms local_pure(1) [OF assms(1)] have "fst (local_TranslatorFrom env name fresh) = Inr t" by simp
  then obtain cs f where cs: "map_of (readLocalCharsets env) (NormalizedName env name) = Some cs"
    and f: "clFrom (lcClass cs) = Some f" "fst (f env (lcArg cs) []) = Inr t"
    by (auto simp: local_TranslatorFrom_def i with_maker_def split_beta Let_def split: option.splits)
  have "f \<in> {toUTF8, fromUTF16, fromCP932, fromCodePage, fromBig5}"
    using readLocalCharsets_ok [OF cs] f(1) by (auto simp: charset_ok_def dest!: classes_cases)
  from from_makers_stream [OF this f(2)] show ?thesis .
qed

lemma local_To_streams:
  assumes "cs_ok env st" and "fst (local_TranslatorTo env name st) = Inr t"
  shows "t = ToUTF8 \<or> t = ToUTF16 False None \<or> streams t"
proof -
  obtain st0 where i: "local_init env fresh = (readLocalCharsets env, st0)" "csStore st0 = []" using local_init_fresh by blast
  from assms local_pure(2) [OF assms(1)] have "fst (local_TranslatorTo env name fresh) = Inr t" by simp
  then obtain cs f where cs: "map_of (readLocalCharsets env) (NormalizedName env name) = Some cs"
    and f: "clTo (lcClass cs) = Some f" "fst (f env (lcArg cs) []) = Inr t"
    by (auto simp: local_TranslatorTo_def i with_maker_def split_beta Let_def split: option.splits)
  have "f \<in> {toUTF8, toUTF16, newToCodePage}"
    using readLocalCharsets_ok [OF cs] f(1) by (auto simp: charset_ok_def dest!: classes_cases)
  from to_makers_stream [OF this f(2)] show ?thesis .
qed

section \<open>Which entry a name finds\<close>

definition reg_keys :: "cs_env \<Rightarrow> string \<times> charsetEntry \<Rightarrow> string list" where
  "reg_keys env e =
     (if classes (eClass (snd e)) = None then [] else NormalizedName env (fst e) # map (NormalizedName env) (eAliases (snd e)))"

lemma fold_update_lookup:
  "map_of (fold (\<lambda>a m. AList.update a cs m) as m) k = (if k \<in> set as then Some cs else map_of m k)"
  by (induction "as" arbitrary: m) (auto simp: update_conv)

lemma add_entry_lookup:
  "map_of (add_entry env e m) k = (if k \<in> set (reg_keys env e) then local_charset env e else map_of m k)"
  by (auto simp: add_entry_def reg_keys_def local_charset_def fold_update_lookup update_conv split: option.splits)

lemma fold_add_lookup:
  assumes "\<And>e'. e' \<in> set es \<Longrightarrow> k \<in> set (reg_keys env e') \<Longrightarrow> e' = e"
  shows "map_of (fold (add_entry env) es m) k =
    (if e \<in> set es \<and> k \<in> set (reg_keys env e) then local_charset env e else map_of m k)"
  using assms by (induction es arbitrary: m) (auto simp: add_entry_lookup)

text \<open>Entries that share no name: each name finds its entry, whatever the order of the map.\<close>

definition disjoint_keys :: "cs_env \<Rightarrow> (string \<times> charsetEntry) list \<Rightarrow> bool" where
  "disjoint_keys env es \<longleftrightarrow> distinct (concat (map (\<lambda>e. remdups (reg_keys env e)) es))"

lemma disjoint_keysD:
  assumes "disjoint_keys env es" and "e \<in> set es" and "e' \<in> set es" and "k \<in> set (reg_keys env e)" and "k \<in> set (reg_keys env e')"
  shows "e' = e"
  using assms
proof (induction es)
  case (Cons x es)
  then have d: "disjoint_keys env es" "\<And>e. e \<in> set es \<Longrightarrow> set (reg_keys env x) \<inter> set (reg_keys env e) = {}"
    by (auto simp: disjoint_keys_def)
  with Cons show ?case by fastforce
qed simp

lemma registered_lookup:
  assumes "readFile env ''charsets.json'' = Inr d" and "disjoint_keys env (csJson env d)"
    and "e \<in> set (csJson env d)" and "k \<in> set (reg_keys env e)"
  shows "map_of (readLocalCharsets env) k = local_charset env e"
proof -
  have "map_of (fold (add_entry env) (csJson env d) []) k = local_charset env e"
    using fold_add_lookup [of "csJson env d" k env e "[]", OF disjoint_keysD [OF assms(2,3) _ assms(4)]] assms(3,4) by simp
  then show ?thesis by (simp add: readLocalCharsets_def assms(1))
qed

lemma add_entry_keys: "distinct (map fst m) \<Longrightarrow> distinct (map fst (add_entry env e m))"
proof -
  have "distinct (map fst m) \<Longrightarrow> distinct (map fst (fold (\<lambda>a m. AList.update a cs m) as m))"
    for "as" and m :: "(string \<times> localCharset) list" and cs :: localCharset
    by (induction "as" arbitrary: m) (simp_all add: distinct_update)
  moreover have "distinct (map fst m) \<Longrightarrow> distinct (map fst (AList.update k cs m))" for k and cs :: localCharset
    by (rule distinct_update)
  ultimately show "distinct (map fst m) \<Longrightarrow> ?thesis" unfolding add_entry_def by (cases "local_charset env e") simp_all
qed

lemma readLocalCharsets_distinct: "distinct (map fst (readLocalCharsets env))"
proof -
  have "distinct (map fst m) \<Longrightarrow> distinct (map fst (fold (add_entry env) es m))" for es m
    by (induction es arbitrary: m) (simp_all add: add_entry_keys)
  from this [of "[]"] show ?thesis by (simp add: readLocalCharsets_def split: sum.splits)
qed

lemma fold_add_from:
  "map_of (fold (add_entry env) es m) k = Some cs \<Longrightarrow>
     map_of m k = Some cs \<or> (\<exists>e\<in>set es. k \<in> set (reg_keys env e) \<and> local_charset env e = Some cs)"
  by (induction es arbitrary: m) (fastforce simp: add_entry_lookup split: if_splits)+

lemma csName_key: "local_charset env e = Some cs \<Longrightarrow> csName (lcInfo cs) \<in> set (reg_keys env e)"
  by (auto simp: local_charset_def reg_keys_def)

lemma all_names:
  assumes "readFile env ''charsets.json'' = Inr d" and "disjoint_keys env (csJson env d)"
  shows "fst (local_Names env fresh) = map fst (readLocalCharsets env)"
proof -
  obtain st where i: "local_init env fresh = (readLocalCharsets env, st)" using local_init_fresh by blast
  have "map_option lcKey (map_of (readLocalCharsets env) (csName (lcInfo cs))) = Some (lcKey cs)"
    if "(name, cs) \<in> set (readLocalCharsets env)" for name cs
  proof -
    have "map_of (readLocalCharsets env) name = Some cs" using that readLocalCharsets_distinct by simp
    then obtain e where e: "e \<in> set (csJson env d)" "local_charset env e = Some cs"
      using fold_add_from [of env "csJson env d" "[]" name cs] assms(1) by (auto simp: readLocalCharsets_def)
    from registered_lookup [OF assms e(1) csName_key [OF e(2)]] e(2) show ?thesis by simp
  qed
  then have "filter (\<lambda>(name, cs). map_option lcKey (map_of (readLocalCharsets env) (csName (lcInfo cs))) = Some (lcKey cs))
      (readLocalCharsets env) = readLocalCharsets env"
    by (auto simp: filter_id_conv)
  then show ?thesis by (simp add: local_Names_def i)
qed

end
