(* ===== verification/Charset_Properties.thy ===== *)
theory Charset_Properties
  imports CharsetRegistry Samples "HOL-Library.Multiset"
begin

text \<open>
  The properties of \<open>go-charset\<close>: what the registry hands out, what readers and writers
  make of a text, and where the translators lose data.
\<close>

section \<open>The embedded table\<close>

definition norm_keys :: "string \<times> charsetEntry \<Rightarrow> string list" where
  "norm_keys e =
     (if eClass (snd e) \<in> {''utf8'', ''utf16'', ''cp932'', ''cp'', ''big5''}
      then map (map normalizedChar) (fst e # eAliases (snd e)) else [])"

definition ascii_entry :: "string \<times> charsetEntry \<Rightarrow> bool" where
  "ascii_entry e \<longleftrightarrow> list_all ascii (fst e # eAliases (snd e))"

lemma classes_None: "classes c = None \<longleftrightarrow> c \<notin> {''utf8'', ''utf16'', ''cp932'', ''cp'', ''big5''}"
  by (auto simp: classes_def registerClass_def)

lemma reg_keys_norm: "ascii_entry e \<Longrightarrow> reg_keys env e = norm_keys e"
  unfolding reg_keys_def norm_keys_def classes_None by (auto simp: ascii_entry_def NormalizedName_def list_all_iff)

lemma charsets_json_ascii: "list_all ascii_entry charsets_json"
  by code_simp

lemma charsets_json_distinct: "distinct (concat (map (\<lambda>e. remdups (norm_keys e)) charsets_json))"
  by code_simp

text \<open>An environment in which \<open>data\<close> is linked in: the map may be visited in any order.\<close>

definition embeds :: "cs_env \<Rightarrow> bool" where
  "embeds env \<longleftrightarrow> (\<exists>d. csFiles env ''charsets.json'' = Some (Inr d) \<and> mset (csJson env d) = mset charsets_json) \<and>
     csFiles env ''iso-8859-1.cp'' = Some (Inr iso_8859_1_cp)"

lemma charsets_disjoint: "mset es = mset charsets_json \<Longrightarrow> disjoint_keys env es"
proof -
  assume m: "mset es = mset charsets_json"
  have "map (\<lambda>e. remdups (reg_keys env e)) charsets_json = map (\<lambda>e. remdups (norm_keys e)) charsets_json"
    using charsets_json_ascii reg_keys_norm by (auto simp: list_all_iff)
  then have "distinct (concat (map (\<lambda>e. remdups (reg_keys env e)) charsets_json))"
    using charsets_json_distinct by (simp only:)
  moreover have "mset (concat (map f xs)) = sum_mset (image_mset (\<lambda>e. mset (f e)) (mset xs))"
    for f :: "string \<times> charsetEntry \<Rightarrow> string list" and xs
    by (induction xs) auto
  then have "mset (concat (map (\<lambda>e. remdups (reg_keys env e)) es)) = mset (concat (map (\<lambda>e. remdups (reg_keys env e)) charsets_json))"
    by (simp only: m)
  ultimately show ?thesis unfolding disjoint_keys_def by (metis mset_eq_imp_distinct_iff)
qed

definition latin1_entry :: "string \<times> charsetEntry" where
  "latin1_entry = (''iso-8859-1'', entry [''iso-ir-100'', ''ibm819'', ''l1'', ''iso8859-1'', ''iso-latin-1'',
     ''iso_8859-1:1987'', ''cp819'', ''iso_8859-1'', ''iso8859_1'', ''latin1''] ''Latin-1'' ''cp'' ''iso-8859-1.cp'')"

lemma latin1_entry_mem: "latin1_entry \<in> set charsets_json"
  by (simp add: charsets_json_def latin1_entry_def)

lemma latin1_norm: "NormalizedName env ''latin1'' = ''latin1''" "''latin1'' \<in> set (norm_keys latin1_entry)"
  by (simp_all add: NormalizedName_def norm_keys_def latin1_entry_def normalizedChar_def lower_char_def ascii_def)

lemma latin1_keys:
  assumes "embeds env" and "k \<in> set (norm_keys latin1_entry)"
  shows "map_of (readLocalCharsets env) k = local_charset env latin1_entry" and "readFile env ''charsets.json'' = Inr d \<Longrightarrow> disjoint_keys env (csJson env d)"
proof -
  obtain d where d: "csFiles env ''charsets.json'' = Some (Inr d)" "mset (csJson env d) = mset charsets_json"
    using assms(1) by (auto simp: embeds_def)
  have r: "readFile env ''charsets.json'' = Inr d" by (simp add: readFile_def d)
  have m: "latin1_entry \<in> set (csJson env d)" using latin1_entry_mem mset_eq_setD [OF d(2)] by simp
  have k: "k \<in> set (reg_keys env latin1_entry)"
    using assms(2) reg_keys_norm [of latin1_entry env] charsets_json_ascii latin1_entry_mem by (simp add: list_all_iff)
  show "map_of (readLocalCharsets env) k = local_charset env latin1_entry"
    by (rule registered_lookup [OF r charsets_disjoint [OF d(2)] m k])
  show "readFile env ''charsets.json'' = Inr d' \<Longrightarrow> disjoint_keys env (csJson env d')" for d'
    using charsets_disjoint [OF d(2)] r by simp
qed

lemma latin1_found:
  assumes "embeds env"
  shows "\<exists>cs. map_of (readLocalCharsets env) ''latin1'' = Some cs \<and> lcArg cs = ''iso-8859-1.cp'' \<and>
    lcClass cs = \<lparr>clFrom = Some fromCodePage, clTo = Some newToCodePage\<rparr>"
  using latin1_keys(1) [OF assms latin1_norm(2)] by (simp add: local_charset_def latin1_entry_def classes_def registerClass_def)

lemma latin1_translators:
  assumes "embeds env" and "cs_ok env st"
  shows "fst (TranslatorTo [localFactory env] ''latin1'' st) = Inr (ToCodePage latin1)"
    and "fst (TranslatorFrom [localFactory env] ''latin1'' st) = Inr (FromCodePage (map int [0..<256]))"
proof -
  obtain cs where cs: "map_of (readLocalCharsets env) ''latin1'' = Some cs" "lcArg cs = ''iso-8859-1.cp''"
    "lcClass cs = \<lparr>clFrom = Some fromCodePage, clTo = Some newToCodePage\<rparr>" using latin1_found [OF assms(1)] by blast
  obtain st0 where i: "local_init env fresh = (readLocalCharsets env, st0)" "csStore st0 = []" using local_init_fresh by blast
  have f: "readFile env ''iso-8859-1.cp'' = Inr iso_8859_1_cp" using assms(1) by (simp add: embeds_def readFile_def)
  have "fst (local_TranslatorTo env ''latin1'' fresh) = Inr (ToCodePage latin1)"
    by (simp add: local_TranslatorTo_def i latin1_norm cs with_maker_def newToCodePage_def cache_def to_table_def f
        toCodePage_latin1 res_bind_def split_beta Let_def)
  then show "fst (TranslatorTo [localFactory env] ''latin1'' st) = Inr (ToCodePage latin1)"
    using local_pure(2) [OF assms(2)] by (simp add: TranslatorTo_def localFactory_def)
  have "string_runes iso_8859_1_cp = [0..<256]"
    using string_runes_encode [of "[0..<256]"] by (simp add: iso_8859_1_cp_def list_all_iff)
  then have "fst (local_TranslatorFrom env ''latin1'' fresh) = Inr (FromCodePage (map int [0..<256]))"
    by (simp add: local_TranslatorFrom_def i latin1_norm cs with_maker_def fromCodePage_def cache_def from_table_def file_runes_def f
        res_bind_def split_beta Let_def)
  then show "fst (TranslatorFrom [localFactory env] ''latin1'' st) = Inr (FromCodePage (map int [0..<256]))"
    using local_pure(1) [OF assms(2)] by (simp add: TranslatorFrom_def localFactory_def)
qed

section \<open>Latin-1 there and back\<close>

lemma page_bytes_encode: "r < 256 \<Longrightarrow> page_bytes (int r) = encodeRune2 r"
  by (simp add: page_bytes_def encodeRune2_def encodeRune_def cont_byte_def Let_def)

lemma whole_from_latin1:
  "list_all (\<lambda>r. r < 256) rs \<Longrightarrow> whole translate (FromCodePage (map int [0..<256])) (map word_of_nat rs) = concat (map encodeRune2 rs)"
proof -
  assume "list_all (\<lambda>r. r < 256) rs"
  then have "page_bytes (map int [0..<256] ! unat (word_of_nat r :: byte)) = encodeRune2 r" if "r \<in> set rs" for r
    using that by (simp add: list_all_iff page_bytes_encode unsigned_of_nat take_bit_nat_eq_self)
  then show ?thesis
    by (simp add: whole_def translateFromCodePage_run comp_def cong: map_cong)
qed

lemma whole_to_latin1:
  "list_all (\<lambda>r. r < 256) rs \<Longrightarrow> whole translate (ToCodePage latin1) (concat (map encodeRune2 rs)) = map word_of_nat rs"
  using Translate_latin1 [of rs] by (cases "Translate latin1 True (concat (map encodeRune2 rs))") (simp add: whole_def)

section \<open>Samples\<close>

definition sample_cs_env :: cs_env where
  "sample_cs_env = \<lparr>csFiles = [''charsets.json'' \<mapsto> Inr [], ''iso-8859-1.cp'' \<mapsto> Inr iso_8859_1_cp],
     csOpen = (\<lambda>_. Inl (IOError ''no such file'')), csJson = (\<lambda>_. charsets_json), csMap = (\<lambda>s. s)\<rparr>"

lemma sample_embeds: "embeds sample_cs_env"
  by (simp add: embeds_def sample_cs_env_def)

section \<open>Properties\<close>

text \<open>The cache of tables and the one-time reading of \<open>charsets.json\<close> cannot be observed: for any sequence of
  requests for translators, whatever the data files contain, each request is answered, with a translator or an
  error, exactly as a process that makes only this request would be.\<close>

theorem charset_cache_unobservable:
  "fst (requests [localFactory env] qs fresh) = map (\<lambda>q. fst (request_step [localFactory env] q fresh)) qs"
  by (rule requests_pure) simp

text \<open>C29: A reader obtained by name translates its source as a whole. For every character set but UTF-8, at any
  moment of the life of the package: reads with buffers of any positive sizes, from a source that delivers its
  bytes in any pieces, end with \<open>EOF\<close> and give exactly the translation of all the bytes of the source.\<close>

theorem charset_read_whole:
  assumes "cs_ok env st" and "fst (TranslatorFrom [localFactory env] charset st) = Inr t" and "t \<noteq> ToUTF8"
    and "live src" and "list_all (\<lambda>k. 0 < k) ks" and "length (whole translate t (source_bytes src)) < length ks"
  shows "\<exists>r r'. fst (NewReader [localFactory env] charset src st) = Inr r \<and>
           reads translate ks r = Inr (whole translate t (source_bytes src), Some EOF, r')"
proof -
  have "streams t" using local_From_streams [OF assms(1)] assms(2,3) by (auto simp: TranslatorFrom_def localFactory_def)
  from tr.reader_whole [OF this assms(4-6)] show ?thesis
    using assms(2) by (simp add: NewReader_def split_beta res_bind_def)
qed

theorem charset_read_whole_witness:
  "\<exists>r r'. fst (NewReader [localFactory sample_cs_env] ''latin1'' [([0x4F], None), ([0xE9], None)] fresh) = Inr r \<and>
     reads translate [2, 1, 7, 1, 1] r = Inr ([0x4F, 0xC3, 0xA9], Some EOF, r')"
proof -
  have w: "whole translate (FromCodePage (map int [0..<256])) (source_bytes [([0x4F], None), ([0xE9], None)]) = [0x4F, 0xC3, 0xA9]"
    using whole_from_latin1 [of "[0x4F, 0xE9]"] by (simp add: source_bytes_def encodeRune2_def)
  show ?thesis
    using charset_read_whole [OF cs_ok_fresh latin1_translators(2) [OF sample_embeds cs_ok_fresh], of
        "[([0x4F], None), ([0xE9], None)]" "[2, 1, 7, 1, 1]"] by (simp add: w live_def)
qed

text \<open>Text of code points below 256 survives Latin-1. It may be written to a writer for \<open>latin1\<close> in any pieces;
  what the writer leaves behind when it is closed, read through a reader for \<open>latin1\<close> in any pieces and with
  buffers of any positive sizes, is the text.\<close>

theorem latin1_roundtrip:
  assumes "embeds env" and "cs_ok env st" and "cs_ok env st'" and "list_all (\<lambda>r. r < 256) rs"
    and "concat ds = concat (map encodeRune2 rs)"
    and "fst (NewWriter [localFactory env] ''latin1'' st) = Inr w0" and "writes translate ds w0 = Inr w"
    and "writer_Close 2 translate w = Some (Inr w')" and "source_bytes src = wOut w'"
    and "live src" and "list_all (\<lambda>k. 0 < k) ks" and "length (concat ds) < length ks"
  shows "\<exists>r r'. fst (NewReader [localFactory env] ''latin1'' src st') = Inr r \<and> reads translate ks r = Inr (concat ds, Some EOF, r')"
proof -
  have "w0 = new_writer (ToCodePage latin1)"
    using latin1_translators(1) [OF assms(1,2)] assms(6) by (simp add: NewWriter_def split_beta res_bind_def)
  then have "wOut w' = map word_of_nat rs"
    using tr.writer_whole [of "ToCodePage latin1" ds 0] whole_to_latin1 [OF assms(4)] assms(5,7,8) by (auto simp: numeral_2_eq_2)
  then have e: "whole translate (FromCodePage (map int [0..<256])) (source_bytes src) = concat ds"
    using whole_from_latin1 [OF assms(4)] assms(5,9) by simp
  then have "length (whole translate (FromCodePage (map int [0..<256])) (source_bytes src)) < length ks" using assms(12) by simp
  from tr.reader_whole [OF _ assms(10,11) this] latin1_translators(2) [OF assms(1,3)] e show ?thesis
    by (simp add: NewReader_def split_beta res_bind_def)
qed

theorem latin1_roundtrip_witness:
  "\<exists>r r'. fst (NewReader [localFactory sample_cs_env] ''latin1'' [([0x4F, 0xE9], None)] fresh) = Inr r \<and>
     reads translate [1, 1, 1, 1] r = Inr ([0x4F, 0xC3, 0xA9], Some EOF, r')"
proof -
  let ?w0 = "new_writer (ToCodePage latin1)"
  have n: "fst (NewWriter [localFactory sample_cs_env] ''latin1'' fresh) = Inr ?w0"
    using latin1_translators(1) [OF sample_embeds cs_ok_fresh] by (simp add: NewWriter_def split_beta res_bind_def)
  obtain w w' where w: "writes translate [[0x4F, 0xC3], [0xA9]] ?w0 = Inr w" "writer_Close 2 translate w = Some (Inr w')"
    and o: "wOut w' = [0x4F, 0xE9]"
    using tr.writer_whole [of "ToCodePage latin1" "[[0x4F, 0xC3], [0xA9]]" 0] whole_to_latin1 [of "[0x4F, 0xE9]"]
    by (auto simp: numeral_2_eq_2 encodeRune2_def)
  show ?thesis
    using latin1_roundtrip [OF sample_embeds cs_ok_fresh cs_ok_fresh _ _ n w, of "[0x4F, 0xE9]" "[([0x4F, 0xE9], None)]" "[1, 1, 1, 1]"] o
    by (simp add: live_def encodeRune2_def source_bytes_def)
qed

text \<open>\<open>toISO88591\<close>, which the object ids are computed with, is what its source says: the writer the registry
  gives for \<open>latin1\<close>, one write of the formatted text, and a close.\<close>

theorem toISO88591_registry:
  assumes "embeds env" and "cs_ok env st"
  shows "\<exists>w0 w w'. fst (NewWriter [localFactory env] ''latin1'' st) = Inr w0 \<and>
     writer_Write translate (str_bytes (Fprintf rt s)) w0 = Inr w \<and> writer_Close 2 translate w = Some (Inr w') \<and>
     toISO88591 rt s = Inr (wOut w')"
proof -
  let ?d = "str_bytes (Fprintf rt s)"
  have "fst (NewWriter [localFactory env] ''latin1'' st) = Inr (new_writer (ToCodePage latin1))"
    using latin1_translators(1) [OF assms] by (simp add: NewWriter_def split_beta res_bind_def)
  moreover obtain w w' where "writes translate [?d] (new_writer (ToCodePage latin1)) = Inr w" "writer_Close 2 translate w = Some (Inr w')"
    "wOut w' = whole translate (ToCodePage latin1) ?d"
    using tr.writer_whole [of "ToCodePage latin1" "[?d]" 0] by (auto simp: numeral_2_eq_2)
  moreover have "whole translate (ToCodePage latin1) ?d = latin1_text rt s"
    by (cases "Translate latin1 True ?d") (simp add: whole_def latin1_text_def)
  ultimately show ?thesis
    by (cases "writer_Write translate ?d (new_writer (ToCodePage latin1))") (auto simp: toISO88591_eq res_bind_def)
qed

theorem toISO88591_registry_witness:
  "\<exists>w0 w w'. fst (NewWriter [localFactory sample_cs_env] ''latin1'' fresh) = Inr w0 \<and>
     writer_Write translate (str_bytes (Fprintf sample_rt ''AttitudeState'')) w0 = Inr w \<and>
     writer_Close 2 translate w = Some (Inr w') \<and> toISO88591 sample_rt ''AttitudeState'' = Inr (wOut w')"
  by (rule toISO88591_registry [OF sample_embeds cs_ok_fresh])

section \<open>Misbehaviours\<close>

lemma decodeRune_lead:
  assumes "0xC2 \<le> c0" and "c0 < 0xE0"
  shows "decodeRune [c0] = (RuneError, 1, True)"
proof -
  have "\<not> c0 < 0x80" "\<not> c0 < 0xC0" using assms by (auto simp: word_less_nat_alt word_le_nat_alt)
  then show ?thesis by (simp add: decodeRune_def)
qed

lemma decodeRune_cont: "cont c1 \<Longrightarrow> decodeRune (c1 # p) = (RuneError, 1, False)"
  by (auto simp: cont_def decodeRune_def)

text \<open>The translator to UTF-8, which the names \<open>utf-8\<close> and \<open>ascii\<close> select, damages text. When a character of
  two bytes is cut by the end of a write, and the write does not begin with that character, each of its bytes
  comes out as the error rune, although the text as a whole would pass unchanged.\<close>

theorem utf8_split_corrupts:
  assumes "a < 0x80" and "0xC2 \<le> c0" and "c0 < 0xE0" and "cont c1"
  shows "\<exists>w w'. writes translate [[a, c0], [c1]] (new_writer ToUTF8) = Inr w \<and> writer_Close 2 translate w = Some (Inr w') \<and>
     wOut w' = [a] @ errorBytes @ errorBytes \<and> whole translate ToUTF8 [a, c0, c1] = [a, c0, c1]"
proof -
  have c0: "\<not> c0 < 0x80" "\<not> c0 < 0xC0" using assms(2,3) by (auto simp: word_less_nat_alt word_le_nat_alt)
  have c1: "\<not> c1 < 0x80" using assms(4) by (auto simp: cont_def)
  have full: "FullRune [a, c0]" "FullRune [c1]" using assms(1) decodeRune_cont [OF assms(4)] by (simp_all add: FullRune_def decodeRune_def)
  have nil: "utf8_loop eof d [] = (0, [])" for eof d by (simp add: utf8_loop.simps)
  have 1: "translate ToUTF8 False [a, c0] = Inr (2, [a] @ errorBytes, ToUTF8)"
    using assms(1) c0 full(1) decodeRune_lead [OF assms(2,3)]
    by (simp add: translateToUTF8_def utf8_loop.simps [of _ _ "[a, c0]"] utf8_loop.simps [of _ _ "[c0]"] nil numeral_2_eq_2)
  have 2: "translate ToUTF8 False [c1] = Inr (1, errorBytes, ToUTF8)"
    using c1 full(2) decodeRune_cont [OF assms(4), of "[]"] by (simp add: translateToUTF8_def utf8_loop.simps [of _ _ "[c1]"] nil)
  have 3: "translate ToUTF8 True [] = Inr (0, [], ToUTF8)" by (simp add: translateToUTF8_def nil)
  have "unat (c0 AND 0x1F) * 64 + low6 c1 > 0x7F \<Longrightarrow> decodeRune [c0, c1] = (unat (c0 AND 0x1F) * 64 + low6 c1, 2, False)"
    using c0 assms(3,4) by (simp add: decodeRune_def)
  moreover have "2 \<le> unat (c0 AND 0x1F)"
  proof -
    have "unat c0 = 192 + (unat c0 - 192)" "unat c0 - 192 < 32" "2 \<le> unat c0 - 192"
      using assms(2,3) by (simp_all add: word_less_nat_alt word_le_nat_alt)
    moreover have "c0 AND 0x1F = take_bit 5 c0" by (simp add: take_bit_eq_mask mask_eq_exp_minus_1)
    then have "unat (c0 AND 0x1F) = unat c0 mod 32" by (simp only: unsigned_take_bit_eq) (simp add: take_bit_eq_mod)
    ultimately show ?thesis by presburger
  qed
  ultimately have d: "decodeRune [c0, c1] = (unat (c0 AND 0x1F) * 64 + low6 c1, 2, False)" by linarith
  have "whole translate ToUTF8 [a, c0, c1] = [a, c0, c1]"
    using assms(1) c0 d by (simp add: whole_def translateToUTF8_def utf8_loop.simps [of _ _ "[a, c0, c1]"] utf8_loop.simps [of _ _ "[c0, c1]"] nil)
  with 1 2 3 show ?thesis
    by (simp add: new_writer_def writer_Write_def res_bind_def Let_def numeral_2_eq_2 del: translate.simps)
qed

theorem utf8_split_corrupts_witness:
  "\<exists>w w'. writes translate [[0x61, 0xC3], [0xA9]] (new_writer ToUTF8) = Inr w \<and> writer_Close 2 translate w = Some (Inr w') \<and>
     wOut w' = [0x61] @ errorBytes @ errorBytes \<and> whole translate ToUTF8 [0x61, 0xC3, 0xA9] = [0x61, 0xC3, 0xA9]"
  by (rule utf8_split_corrupts) (simp_all add: cont_def)

text \<open>Big5 text loses every byte outside its two-byte characters, ASCII included.\<close>

theorem big5_drops_ascii:
  "list_all (\<lambda>b. b < 0xA1) bs \<Longrightarrow> translate (FromBig5 (-1) m) eof bs = Inr (length bs, [], FromBig5 (-1) m)"
proof -
  have "\<not> 161 \<le> uint b" if "b < 0xA1" for b :: byte using that by (simp add: word_less_def not_le)
  then have "list_all (\<lambda>b. b < 0xA1) bs \<Longrightarrow> big5_loop m (-1) bs = Inr (length bs, [], -1)"
    by (induction bs) (simp_all add: res_bind_def Let_def)
  then show "list_all (\<lambda>b. b < 0xA1) bs \<Longrightarrow> ?thesis" by (simp add: translateFromBig5_def res_bind_def)
qed

text \<open>A writer for \<open>utf-16\<close> panics at its first character: the translator has no byte order.\<close>

theorem utf16_writer_panics:
  "data \<noteq> [] \<Longrightarrow> FullRune data \<Longrightarrow> writer_Write translate data (new_writer (ToUTF16 False None)) = Inl Panic"
  by (simp add: writer_Write_def new_writer_def translateToUTF16_def toUTF16_loop.simps [of _ _ _ data] res_bind_def split: prod.splits)

text \<open>A read with an empty buffer ends the stream: the source is never asked again.\<close>

theorem empty_read_ends_stream:
  assumes "streams t" and "live src" and "src \<noteq> []" and "list_all (\<lambda>k. 0 < k) ks"
  shows "\<exists>r. reader_Read translate 0 (NewTranslatingReader src t) = Inr (([], Some EOF), r) \<and>
     (\<forall>k. reader_Read translate k r = Inr (([], Some EOF), r))"
proof -
  obtain bs rest where src: "src = (bs, None) # rest" "bs \<noteq> []" using assms(2,3) by (cases src) (auto simp: live_def)
  obtain n out s where t: "translate t True [] = Inr (n, out, s)" "n = 0" "out = []"
    using tr.total [OF assms(1), of True "[]"] by auto
  define r where "r = (NewTranslatingReader src t)\<lparr>rErr := Some EOF, rTr := s\<rparr>"
  have "reader_convert translate (reader_fill 0 (NewTranslatingReader src t)) = Inr r"
    using src t by (simp add: reader_fill_def NewTranslatingReader_def ensureCap_def reader_convert_def res_bind_def r_def)
  then have "reader_Read translate 0 (NewTranslatingReader src t) = Inr (([], Some EOF), r)"
    by (subst reader_Read.simps) (simp add: NewTranslatingReader_def r_def reader_Read.simps)
  moreover have "\<forall>k. reader_Read translate k r = Inr (([], Some EOF), r)"
    by (simp add: reader_Read.simps r_def NewTranslatingReader_def)
  ultimately show ?thesis by blast
qed

text \<open>\<open>Names\<close> returns the aliases too.\<close>

theorem names_include_aliases:
  assumes "embeds env" and "k \<in> set (norm_keys latin1_entry)"
  shows "k \<in> set (fst (Names [localFactory env] fresh))"
proof -
  obtain d where r: "readFile env ''charsets.json'' = Inr d" using assms(1) by (auto simp: embeds_def readFile_def)
  have "fst (Names [localFactory env] fresh) = map fst (readLocalCharsets env)"
    using all_names [OF r latin1_keys(2) [OF assms r]] by (simp add: localFactory_def split_beta)
  moreover have "map_of (readLocalCharsets env) k \<noteq> None"
    using latin1_keys(1) [OF assms] by (simp add: local_charset_def latin1_entry_def classes_def registerClass_def)
  ultimately show ?thesis by (metis image_set map_of_eq_None_iff)
qed

end
