(* ===== verification/IconvTranslator.thy ===== *)
theory IconvTranslator
  imports CharsetRegistry
begin

text \<open>
  The binding of \<open>go-charset\<close> to the C library \<open>iconv\<close> (\<open>charset/iconv/iconv.go\<close> and \<open>list_static.go\<close>): the
  translator with its buffer that grows, the factory, and the table of names. The C library is
  a parameter: a conversion from its state, the bytes and the room for the output to the number of bytes
  it consumed, the bytes it wrote, its error and its new state.
\<close>

section \<open>The translator\<close>

datatype errno = EILSEQ | EINVAL | E2BIG | OtherErrno string

type_synonym 'c conversion = "'c \<Rightarrow> bytes \<Rightarrow> nat \<Rightarrow> (nat \<times> bytes \<times> errno option) \<times> 'c"

text \<open>
  The loop of \<open>Translate\<close>. \<open>cap\<close> is the capacity of \<open>scratch\<close>, \<open>buf\<close> what is in it. A library that asks for a
  larger buffer again and again would keep it running, which is the value \<open>None\<close>.
\<close>

partial_function (option) iconv_loop ::
  "'c conversion \<Rightarrow> int \<Rightarrow> nat \<Rightarrow> 'c \<Rightarrow> nat \<Rightarrow> bytes \<Rightarrow> bytes \<Rightarrow> (nat \<times> bytes \<times> 'c) res option" where
  "iconv_loop ic invalid cap cd n buf data =
     (if data = [] then Some (Inr (n, buf, cd))
      else let cap = ensureCap cap (length buf + length data * 4);
               r = ic cd data (cap - length buf);
               k = fst (fst r); out = fst (snd (fst r)); err = snd (snd (fst r)); cd = snd r;
               buf = buf @ out; n = n + k; data = drop k data
           in case err of
                None \<Rightarrow> Some (Inr (n, buf, cd))
              | Some e \<Rightarrow>
                  if e = EILSEQ then
                    (if data = [] then Some (Inl Panic)
                     else iconv_loop ic invalid (ensureCap cap (length buf + 4)) cd (n + 1) (appendRune buf invalid) (drop 1 data))
                  else if e = EINVAL then Some (Inr (n, buf, cd))
                  else if e = E2BIG then iconv_loop ic invalid (ensureCap cap (cap + 4)) cd n buf data
                  else Some (Inl Panic))"

text \<open>\<open>Translate\<close> ignores \<open>eof\<close>. The capacity that is left from earlier calls may depend on anything.\<close>

definition iconv_Translate :: "'c conversion \<Rightarrow> int \<Rightarrow> ('c \<Rightarrow> bytes \<Rightarrow> nat) \<Rightarrow> 'c \<Rightarrow> bool \<Rightarrow> bytes \<Rightarrow> (nat \<times> bytes \<times> 'c) res option" where
  "iconv_Translate ic invalid cap cd eof data = iconv_loop ic invalid (cap cd data) cd 0 [] data"

section \<open>The factory\<close>

record 'c iconvTranslator =
  itCd :: 'c
  itConv :: "'c conversion"
  itInvalid :: int

text \<open>\<open>iconv_open\<close> gives a conversion or an error; \<open>EINVAL\<close> means that it does not know one of the names.\<close>

definition iconv_Translator :: "(string \<Rightarrow> string \<Rightarrow> errno + ('c \<times> 'c conversion)) \<Rightarrow> string \<Rightarrow> string \<Rightarrow> int \<Rightarrow> string + 'c iconvTranslator" where
  "iconv_Translator iconv_open toCharset fromCharset invalid =
     (case iconv_open toCharset fromCharset of
        Inl e \<Rightarrow> Inl (if e = EINVAL then ''iconv: conversion not supported''
                      else case e of OtherErrno t \<Rightarrow> t | EILSEQ \<Rightarrow> ''EILSEQ'' | E2BIG \<Rightarrow> ''E2BIG'' | EINVAL \<Rightarrow> [])
      | Inr (cd, ic) \<Rightarrow> Inr \<lparr>itCd = cd, itConv = ic, itInvalid = invalid\<rparr>)"

definition iconv_TranslatorFrom where
  "iconv_TranslatorFrom iconv_open name = iconv_Translator iconv_open ''UTF-8'' name 0xFFFD"

definition iconv_TranslatorTo where
  "iconv_TranslatorTo iconv_open name = iconv_Translator iconv_open name ''UTF-8'' 0x3F"

text \<open>\<open>strings.Map\<close> over a name in ASCII.\<close>

definition canonicalChar :: "char \<Rightarrow> char" where
  "canonicalChar c = (if 97 \<le> (of_char c :: nat) \<and> (of_char c :: nat) \<le> 122 then char_of (of_char c - 32 :: nat) else c)"

definition canonicalName :: "string \<Rightarrow> string" where
  "canonicalName s = map canonicalChar s"

definition aliasData :: "string list list" where
  "aliasData = [
     [''437'', ''cp437'', ''ibm437'', ''cspc8codepage437''],
     [''850'', ''cp850'', ''ibm850'', ''cspc850multilingual''],
     [''852'', ''cp852'', ''ibm852'', ''cspcp852''],
     [''855'', ''cp855'', ''ibm855'', ''csibm855''],
     [''857'', ''cp857'', ''ibm857'', ''csibm857''],
     [''860'', ''cp860'', ''ibm860'', ''csibm860''],
     [''861'', ''cp-is'', ''cp861'', ''ibm861'', ''csibm861''],
     [''862'', ''cp862'', ''ibm862'', ''cspc862latinhebrew''],
     [''863'', ''cp863'', ''ibm863'', ''csibm863''],
     [''865'', ''cp865'', ''ibm865'', ''csibm865''],
     [''866'', ''cp866'', ''ibm866'', ''csibm866''],
     [''869'', ''cp-gr'', ''cp869'', ''ibm869'', ''csibm869''],
     [''ansi-x3.4-1968'', ''ansi-x3.4-1986'', ''ascii'', ''cp367'', ''ibm367'', ''iso-ir-6'', ''iso646-us'', ''iso-646.irv:1991'', ''us'', ''us-ascii'', ''csascii''],
     [''arabic'', ''asmo-708'', ''ecma-114'', ''iso-8859-6'', ''iso-ir-127'', ''iso8859-6'', ''iso-8859-6'', ''iso-8859-6:1987'', ''csisolatinarabic''],
     [''armscii-8''],
     [''atari'', ''atarist''],
     [''big5-2003''],
     [''big-5'', ''big-five'', ''big5'', ''bigfive'', ''cn-big5'', ''csbig5''],
     [''big5-hkscs:1999''],
     [''big5-hkscs:2001''],
     [''big5-hkscs'', ''big5-hkscs:2004'', ''big5hkscs''],
     [''c99''],
     [''chinese'', ''gb-2312-80'', ''iso-ir-58'', ''csiso58gb231280''],
     [''cn'', ''gb-1988-80'', ''iso-ir-57'', ''iso646-cn'', ''csiso57gb1988''],
     [''cn-gb'', ''euc-cn'', ''euccn'', ''gb2312'', ''csgb2312''],
     [''cn-gb-isoir165'', ''iso-ir-165''],
     [''cp1046''],
     [''cp1124''],
     [''cp1125''],
     [''cp1129''],
     [''cp1131''],
     [''cp1133'', ''ibm-cp1133''],
     [''cp1161'', ''ibm-1161'', ''ibm1161'', ''csibm1161''],
     [''cp1162'', ''ibm-1162'', ''ibm1162'', ''csibm1162''],
     [''cp1163'', ''ibm-1163'', ''ibm1163'', ''csibm1163''],
     [''cp1250'', ''ms-ee'', ''windows-1250''],
     [''cp1251'', ''ms-cyrl'', ''windows-1251''],
     [''cp1252'', ''ms-ansi'', ''windows-1252''],
     [''cp1253'', ''ms-greek'', ''windows-1253''],
     [''cp1254'', ''ms-turk'', ''windows-1254''],
     [''cp1255'', ''ms-hebr'', ''windows-1255''],
     [''cp1256'', ''ms-arab'', ''windows-1256''],
     [''cp1257'', ''winbaltrim'', ''windows-1257''],
     [''cp1258'', ''windows-1258''],
     [''cp1361'', ''johab''],
     [''cp154'', ''cyrillic-asian'', ''pt154'', ''ptcp154'', ''csptcp154''],
     [''cp737''],
     [''cp775'', ''ibm775'', ''cspc775baltic''],
     [''cp819'', ''ibm819'', ''iso-8859-1'', ''iso-ir-100'', ''iso8859-1'', ''iso-8859-1'', ''iso-8859-1:1987'', ''l1'', ''latin1'', ''csisolatin1''],
     [''cp853''],
     [''cp856''],
     [''cp858''],
     [''cp864'', ''ibm864'', ''csibm864''],
     [''cp874'', ''windows-874''],
     [''cp922''],
     [''cp932''],
     [''cp936'', ''ms936'', ''windows-936''],
     [''cp943''],
     [''cp949'', ''uhc''],
     [''cp950''],
     [''cyrillic'', ''iso-8859-5'', ''iso-ir-144'', ''iso8859-5'', ''iso-8859-5'', ''iso-8859-5:1988'', ''csisolatincyrillic''],
     [''dec-hanyu''],
     [''dec-kanji''],
     [''ecma-118'', ''elot-928'', ''greek'', ''greek8'', ''iso-8859-7'', ''iso-ir-126'', ''iso8859-7'', ''iso-8859-7'', ''iso-8859-7:1987'', ''iso-8859-7:2003'', ''csisolatingreek''],
     [''euc-jis-2004'', ''euc-jisx0213''],
     [''euc-jp'', ''eucjp'', ''extended-unix-code-packed-format-for-japanese'', ''cseucpkdfmtjapanese''],
     [''euc-kr'', ''euckr'', ''cseuckr''],
     [''euc-tw'', ''euctw'', ''cseuctw''],
     [''gb18030''],
     [''gbk''],
     [''georgian-academy''],
     [''georgian-ps''],
     [''hebrew'', ''iso-8859-8'', ''iso-ir-138'', ''iso8859-8'', ''iso-8859-8'', ''iso-8859-8:1988'', ''csisolatinhebrew''],
     [''hp-roman8'', ''r8'', ''roman8'', ''cshproman8''],
     [''hz'', ''hz-gb-2312''],
     [''iso-10646-ucs-2'', ''ucs-2'', ''csunicode''],
     [''iso-10646-ucs-4'', ''ucs-4'', ''csucs4''],
     [''iso-2022-cn'', ''csiso2022cn''],
     [''iso-2022-cn-ext''],
     [''iso-2022-jp-1''],
     [''iso-2022-jp-2004'', ''iso-2022-jp-3''],
     [''iso-2022-jp-2'', ''csiso2022jp2''],
     [''iso-2022-jp'', ''csiso2022jp''],
     [''iso-2022-kr'', ''csiso2022kr''],
     [''iso-8859-10'', ''iso-ir-157'', ''iso8859-10'', ''iso-8859-10'', ''iso-8859-10:1992'', ''l6'', ''latin6'', ''csisolatin6''],
     [''iso-8859-11'', ''iso8859-11'', ''iso-8859-11''],
     [''iso-8859-13'', ''iso-ir-179'', ''iso8859-13'', ''iso-8859-13'', ''l7'', ''latin7''],
     [''iso-8859-14'', ''iso-celtic'', ''iso-ir-199'', ''iso8859-14'', ''iso-8859-14'', ''iso-8859-14:1998'', ''l8'', ''latin8''],
     [''iso-8859-15'', ''iso-ir-203'', ''iso8859-15'', ''iso-8859-15'', ''iso-8859-15:1998'', ''latin-9''],
     [''iso-8859-16'', ''iso-ir-226'', ''iso8859-16'', ''iso-8859-16'', ''iso-8859-16:2001'', ''l10'', ''latin10''],
     [''iso-8859-2'', ''iso-ir-101'', ''iso8859-2'', ''iso-8859-2'', ''iso-8859-2:1987'', ''l2'', ''latin2'', ''csisolatin2''],
     [''iso-8859-3'', ''iso-ir-109'', ''iso8859-3'', ''iso-8859-3'', ''iso-8859-3:1988'', ''l3'', ''latin3'', ''csisolatin3''],
     [''iso-8859-4'', ''iso-ir-110'', ''iso8859-4'', ''iso-8859-4'', ''iso-8859-4:1988'', ''l4'', ''latin4'', ''csisolatin4''],
     [''iso-8859-9'', ''iso-ir-148'', ''iso8859-9'', ''iso-8859-9'', ''iso-8859-9:1989'', ''l5'', ''latin5'', ''csisolatin5''],
     [''iso-ir-149'', ''korean'', ''ksc-5601'', ''ks-c-5601-1987'', ''ks-c-5601-1989'', ''csksc56011987''],
     [''iso-ir-14'', ''iso646-jp'', ''jis-c6220-1969-ro'', ''jp'', ''csiso14jisc6220ro''],
     [''iso-ir-159'', ''jis-x0212'', ''jis-x0212-1990'', ''jis-x0212.1990-0'', ''x0212'', ''csiso159jisx02121990''],
     [''iso-ir-166'', ''tis-620'', ''tis620'', ''tis620-0'', ''tis620.2529-1'', ''tis620.2533-0'', ''tis620.2533-1''],
     [''iso-ir-230'', ''tds565''],
     [''iso-ir-87'', ''jis0208'', ''jis-c6226-1983'', ''jis-x0208'', ''jis-x0208-1983'', ''jis-x0208-1990'', ''x0208'', ''csiso87jisx0208''],
     [''java''],
     [''jisx0201-1976'', ''jis-x0201'', ''x0201'', ''cshalfwidthkatakana''],
     [''koi8-r'', ''cskoi8r''],
     [''koi8-ru''],
     [''koi8-t''],
     [''koi8-u''],
     [''kz-1048'', ''rk1048'', ''strk1048-2002'', ''cskz1048''],
     [''macarabic''],
     [''maccentraleurope''],
     [''maccroatian''],
     [''maccyrillic''],
     [''macgreek''],
     [''machebrew''],
     [''maciceland''],
     [''mac'', ''macintosh'', ''macroman'', ''csmacintosh''],
     [''macromania''],
     [''macthai''],
     [''macturkish''],
     [''macukraine''],
     [''ms-kanji'', ''shift-jis'', ''shift-jis'', ''sjis'', ''csshiftjis''],
     [CHR 0x09 # ''MS-Windows'', ''Japanese'', ''(cp932)''],
     [''mulelao-1''],
     [''nextstep''],
     [''riscos-latin1''],
     [''shift-jis-2004'', ''shift-jisx0213''],
     [''tcvn'', ''tcvn-5712'', ''tcvn5712-1'', ''tcvn5712-1:1993''],
     [''ucs-2be'', ''unicode-1-1'', ''unicodebig'', ''csunicode11''],
     [''ucs-2-internal''],
     [''ucs-2le'', ''unicodelittle''],
     [''ucs-2-swapped''],
     [''ucs-4be''],
     [''ucs-4-internal''],
     [''ucs-4le''],
     [''ucs-4-swapped''],
     [''unicode-1-1-utf-7'', ''utf-7'', ''csunicode11utf7''],
     [''utf-16''],
     [''utf-16be''],
     [''utf-16le''],
     [''utf-32''],
     [''utf-32be''],
     [''utf-32le''],
     [''utf-8''],
     [''utf-8-mac'', ''utf8-mac''],
     [''viscii'', ''viscii1.1-1'', ''csviscii''],
     [''windows-31j'', ''cp932'']]"

text \<open>\<open>initAliases\<close>: a name of two groups belongs to the last one.\<close>

definition add_group :: "string list \<Rightarrow> (string \<rightharpoonup> string list) \<Rightarrow> (string \<rightharpoonup> string list)" where
  "add_group a m = fold (\<lambda>alias m. m(alias \<mapsto> a)) a m"

definition initAliases :: "string list list \<Rightarrow> (string \<rightharpoonup> string list)" where
  "initAliases groups = fold add_group groups Map.empty"

text \<open>The names in some order of \<open>range\<close>; \<open>aliases[0]\<close> is there because no group is empty.\<close>

definition iconv_Names :: "string list list \<Rightarrow> string list" where
  "iconv_Names groups =
     filter (\<lambda>name. case initAliases groups name of Some (a # _) \<Rightarrow> a = name | _ \<Rightarrow> False) (remdups (concat groups))"

definition iconv_Info :: "string list list \<Rightarrow> string \<Rightarrow> charset_info option" where
  "iconv_Info groups name =
     map_option (\<lambda>a. \<lparr>csName = name, csAliases = a, csDesc = [], csNoFrom = False, csNoTo = False\<rparr>) (initAliases groups name)"

end
