(* ===== verification/IconvLaws.thy ===== *)
theory IconvLaws
  imports IconvTranslator
begin

text \<open>
  The translator over \<open>iconv\<close> ends and translates as it should, for a library that converts one
  character after the other (\<open>iconv_run\<close>): it stops at the end, at an illegal sequence, at an
  incomplete one, or where the next character does not fit into the room it has. The
  specification \<open>iconv_spec\<close> knows neither buffers nor their sizes.
\<close>

section \<open>The library\<close>

datatype 'c istep = Converted nat bytes 'c | Illegal | Incomplete

type_synonym 'c steps = "'c \<Rightarrow> bytes \<Rightarrow> 'c istep"

text \<open>A character is at least one of the bytes, and more bytes behind it do not change it.\<close>

definition steps_ok :: "'c steps \<Rightarrow> bool" where
  "steps_ok step \<longleftrightarrow>
     (\<forall>cd d k out cd'. step cd d = Converted k out cd' \<longrightarrow> 0 < k \<and> k \<le> length d) \<and>
     (\<forall>cd d b. d \<noteq> [] \<longrightarrow> step cd d \<noteq> Incomplete \<longrightarrow> step cd (d @ b) = step cd d)"

function iconv_run :: "'c steps \<Rightarrow> 'c conversion" where
  "iconv_run step cd d room =
     (if d = [] then ((0, [], None), cd)
      else case step cd d of
             Illegal \<Rightarrow> ((0, [], Some EILSEQ), cd)
           | Incomplete \<Rightarrow> ((0, [], Some EINVAL), cd)
           | Converted k out cd' \<Rightarrow>
               if room < length out then ((0, [], Some E2BIG), cd)
               else let r = iconv_run step cd' (drop (max 1 k) d) (room - length out)
                    in ((max 1 k + fst (fst r), out @ fst (snd (fst r)), snd (snd (fst r))), snd r))"
  by pat_completeness auto
termination
  by (relation "measure (\<lambda>(step, cd, d, room). length d)") auto

function iconv_spec :: "'c steps \<Rightarrow> int \<Rightarrow> 'c \<Rightarrow> bytes \<Rightarrow> nat \<times> bytes \<times> 'c" where
  "iconv_spec step invalid cd d =
     (if d = [] then (0, [], cd)
      else case step cd d of
             Illegal \<Rightarrow> (case iconv_spec step invalid cd (drop 1 d) of (n, out, cd) \<Rightarrow> (1 + n, encodeRune invalid @ out, cd))
           | Incomplete \<Rightarrow> (0, [], cd)
           | Converted k out cd \<Rightarrow>
               (case iconv_spec step invalid cd (drop (max 1 k) d) of (n, out', cd) \<Rightarrow> (max 1 k + n, out @ out', cd)))"
  by pat_completeness auto
termination
  by (relation "measure (\<lambda>(step, invalid, cd, d). length d)") auto

declare iconv_run.simps [simp del] iconv_spec.simps [simp del]

lemma steps_okD:
  assumes "steps_ok step"
  shows "step cd d = Converted k out cd' \<Longrightarrow> 0 < k \<and> k \<le> length d"
    and "d \<noteq> [] \<Longrightarrow> step cd d \<noteq> Incomplete \<Longrightarrow> step cd (d @ b) = step cd d"
  using assms unfolding steps_ok_def by blast+

lemma steps_okD_max: "steps_ok step \<Longrightarrow> step cd d = Converted k out cd' \<Longrightarrow> max 1 k = k \<and> 0 < k \<and> k \<le> length d"
  using steps_okD(1) by fastforce

text \<open>What one call of the library has done, in terms of the specification.\<close>

fun call_ok :: "'c steps \<Rightarrow> int \<Rightarrow> 'c \<Rightarrow> bytes \<Rightarrow> nat \<Rightarrow> (nat \<times> bytes \<times> errno option) \<times> 'c \<Rightarrow> bool" where
  "call_ok step invalid cd d room ((k, out, err), cd') \<longleftrightarrow>
     k \<le> length d \<and> length out \<le> room \<and>
     (let (n, o', s) = iconv_spec step invalid cd' (drop k d)
      in iconv_spec step invalid cd d = (k + n, out @ o', s) \<and>
         (case err of
            None \<Rightarrow> drop k d = []
          | Some e \<Rightarrow>
              drop k d \<noteq> [] \<and>
              (e = EILSEQ \<and> step cd' (drop k d) = Illegal \<or> e = EINVAL \<and> step cd' (drop k d) = Incomplete \<or>
               e = E2BIG \<and> room < length out + length o')))"

lemma iconv_run_call: "steps_ok step \<Longrightarrow> call_ok step invalid cd d room (iconv_run step cd d room)"
proof (induction step cd d room rule: iconv_run.induct)
  case (1 step cd d room)
  show ?case
  proof (cases "d = []")
    case True
    then show ?thesis by (simp add: iconv_run.simps [of step cd "[]" room] iconv_spec.simps [of step invalid cd "[]"])
  next
    case d: False
    show ?thesis
    proof (cases "step cd d")
      case Illegal
      with d show ?thesis by (auto simp: iconv_run.simps [of step cd d room] split: prod.split)
    next
      case Incomplete
      with d show ?thesis by (auto simp: iconv_run.simps [of step cd d room] split: prod.split)
    next
      case (Converted k out cd1)
      note k = steps_okD_max [OF "1.prems" Converted]
      obtain n o1 s where s: "iconv_spec step invalid cd1 (drop k d) = (n, o1, s)" by (metis prod_cases3)
      then have sd: "iconv_spec step invalid cd d = (k + n, out @ o1, s)"
        using d Converted k by (simp add: iconv_spec.simps [of step invalid cd d])
      show ?thesis
      proof (cases "room < length out")
        case True
        with d Converted sd show ?thesis by (simp add: iconv_run.simps [of step cd d room])
      next
        case False
        obtain k2 o2 e2 cd2 where r: "iconv_run step cd1 (drop k d) (room - length out) = ((k2, o2, e2), cd2)"
          by (metis prod_cases3 surj_pair)
        have "call_ok step invalid cd1 (drop k d) (room - length out) ((k2, o2, e2), cd2)"
          using "1.IH" [OF d Converted False "1.prems"] k r by simp
        then show ?thesis using d Converted False k r s sd
          by (auto simp: iconv_run.simps [of step cd d room] Let_def add.commute split: prod.splits option.splits)
      qed
    qed
  qed
qed

section \<open>The loop\<close>

lemma ensureCap_ge: "c \<le> ensureCap c n"
  using grow_cap_enough [of c n] by (auto simp: ensureCap_def)

lemma iconv_loop_spec:
  assumes "steps_ok step" and "iconv_spec step invalid cd data = (m, o', s)"
  shows "iconv_loop (iconv_run step) invalid cap cd n buf data = Some (Inr (n + m, buf @ o', s))"
  using assms(2)
proof (induction "length buf + length o' - cap + length data" arbitrary: cap cd n buf data m o' rule: less_induct)
  case less
  show ?case
  proof (cases "data = []")
    case True
    with less.prems show ?thesis by (simp add: iconv_loop.simps iconv_spec.simps)
  next
    case data: False
    define cap1 where "cap1 = ensureCap cap (length buf + length data * 4)"
    have cap1: "cap \<le> cap1" "length buf \<le> cap1"
      using ensureCap_ge [of cap] ensureCap_enough [of "length buf + length data * 4" cap] by (simp_all add: cap1_def)
    obtain k out err cd1 where r: "iconv_run step cd data (cap1 - length buf) = ((k, out, err), cd1)"
      by (metis prod_cases3 surj_pair)
    obtain m1 o1 s1 where s1: "iconv_spec step invalid cd1 (drop k data) = (m1, o1, s1)" by (metis prod_cases3)
    from iconv_run_call [OF assms(1), of invalid cd data "cap1 - length buf"] r s1
    have c: "k \<le> length data" "iconv_spec step invalid cd data = (k + m1, out @ o1, s1)"
      "case err of None \<Rightarrow> drop k data = [] | Some e \<Rightarrow> drop k data \<noteq> [] \<and>
         (e = EILSEQ \<and> step cd1 (drop k data) = Illegal \<or> e = EINVAL \<and> step cd1 (drop k data) = Incomplete \<or>
          e = E2BIG \<and> cap1 - length buf < length out + length o1)" by auto
    have m: "m = k + m1" "o' = out @ o1" "s = s1" using c(2) less.prems by auto
    note loop = iconv_loop.simps [of "iconv_run step" invalid cap cd n buf data]
    show ?thesis
    proof (cases "err = None \<or> err = Some EINVAL")
      case True
      then have "m1 = 0 \<and> o1 = [] \<and> s1 = cd1"
        using c(3) s1 by (auto simp: iconv_spec.simps [of step invalid cd1 "drop k data"])
      with True m data r show ?thesis by (auto simp: loop Let_def simp flip: cap1_def)
    next
      case False
      then consider (illegal) "err = Some EILSEQ" "step cd1 (drop k data) = Illegal" "drop k data \<noteq> []"
        | (big) "err = Some E2BIG" "cap1 - length buf < length out + length o1"
        using c(3) by (cases err) auto
      then show ?thesis
      proof cases
        case illegal
        obtain m2 o2 s2 where s2: "iconv_spec step invalid cd1 (drop 1 (drop k data)) = (m2, o2, s2)" by (metis prod_cases3)
        then have m1: "m1 = 1 + m2" "o1 = encodeRune invalid @ o2" "s1 = s2"
          using illegal s1 by (auto simp: iconv_spec.simps [of step invalid cd1 "drop k data"])
        let ?cap = "ensureCap cap1 (length (buf @ out) + 4)"
        have "cap \<le> ?cap" using cap1(1) ensureCap_ge le_trans by blast
        then have "length (appendRune (buf @ out) invalid) + length o2 - ?cap + length (drop 1 (drop k data)) <
            length buf + length o' - cap + length data"
          using illegal(3) m m1 by (simp add: appendRune_def)
        from less.hyps [OF this, of cd1 m2 "n + k + 1"] s2 m m1
        have "iconv_loop (iconv_run step) invalid ?cap cd1 (n + k + 1) (appendRune (buf @ out) invalid) (drop 1 (drop k data)) =
            Some (Inr (n + m, buf @ o', s))" by (simp add: appendRune_def)
        with illegal data r show ?thesis by (simp add: loop Let_def flip: cap1_def)
      next
        case big
        let ?cap = "ensureCap cap1 (cap1 + 4)"
        have "cap1 + 4 \<le> ?cap" by (rule ensureCap_enough)
        then have "length (buf @ out) + length o1 - ?cap + length (drop k data) < length buf + length o' - cap + length data"
          using big(2) cap1 m c(1) by simp
        from less.hyps [OF this, of cd1 m1 "n + k"] s1 m
        have "iconv_loop (iconv_run step) invalid ?cap cd1 (n + k) (buf @ out) (drop k data) = Some (Inr (n + m, buf @ o', s))"
          by simp
        with big data r show ?thesis by (simp add: loop Let_def flip: cap1_def)
      qed
    qed
  qed
qed

section \<open>A translator for readers and writers\<close>

definition iconv_tr :: "'c conversion \<Rightarrow> int \<Rightarrow> ('c \<Rightarrow> bytes \<Rightarrow> nat) \<Rightarrow> 'c \<Rightarrow> bool \<Rightarrow> bytes \<Rightarrow> (nat \<times> bytes \<times> 'c) res" where
  "iconv_tr ic invalid cap cd eof data =
     (case iconv_Translate ic invalid cap cd eof data of Some r \<Rightarrow> r | None \<Rightarrow> Inl Panic)"

lemma iconv_tr_spec: "steps_ok step \<Longrightarrow> iconv_tr (iconv_run step) invalid cap cd eof d = Inr (iconv_spec step invalid cd d)"
  using iconv_loop_spec [of step invalid cd d _ _ _ "cap cd d" 0 "[]"]
  by (cases "iconv_spec step invalid cd d") (simp add: iconv_tr_def iconv_Translate_def)

lemma iconv_spec_stop: "d = [] \<or> step cd d = Incomplete \<Longrightarrow> iconv_spec step invalid cd d = (0, [], cd)"
  by (subst iconv_spec.simps) auto

lemma iconv_spec_length:
  "steps_ok step \<Longrightarrow> iconv_spec step invalid cd d = (n, out, s) \<Longrightarrow> n \<le> length d \<and> (n = 0 \<longrightarrow> out = [])"
proof (induction step invalid cd d arbitrary: n out s rule: iconv_spec.induct)
  case (1 step invalid cd d)
  show ?case
  proof (cases "d = [] \<or> step cd d = Incomplete")
    case True
    with "1.prems" iconv_spec_stop [of d step cd invalid] show ?thesis by simp
  next
    case False
    then show ?thesis
    proof (cases "step cd d")
      case Illegal
      obtain n1 o1 s1 where r: "iconv_spec step invalid cd (drop 1 d) = (n1, o1, s1)" by (metis prod_cases3)
      have "n = 1 + n1" using "1.prems"(2) False Illegal r by (auto simp: iconv_spec.simps [of step invalid cd d])
      with "1.IH"(2) [OF _ Illegal "1.prems"(1) r] False show ?thesis by (cases d) auto
    next
      case (Converted k out1 cd1)
      note k = steps_okD_max [OF "1.prems"(1) Converted]
      obtain n1 o1 s1 where r: "iconv_spec step invalid cd1 (drop (max 1 k) d) = (n1, o1, s1)" by (metis prod_cases3)
      from "1.IH"(1) [OF _ Converted "1.prems"(1) r] False "1.prems"(2) r Converted k show ?thesis
        by (auto simp: iconv_spec.simps [of step invalid cd d])
    qed simp
  qed
qed

lemma iconv_spec_resume:
  "steps_ok step \<Longrightarrow> iconv_spec step invalid cd d = (n, out, s1) \<Longrightarrow>
     iconv_spec step invalid s1 (drop n d @ b) = (m, out2, s2) \<Longrightarrow>
     iconv_spec step invalid cd (d @ b) = (n + m, out @ out2, s2)"
proof (induction step invalid cd d arbitrary: n out rule: iconv_spec.induct)
  case (1 step invalid cd d)
  show ?case
  proof (cases "d = [] \<or> step cd d = Incomplete")
    case True
    with "1.prems" iconv_spec_stop [of d step cd invalid] show ?thesis by simp
  next
    case False
    then have st: "step cd (d @ b) = step cd d" using steps_okD(2) [OF "1.prems"(1)] by blast
    show ?thesis
    proof (cases "step cd d")
      case Illegal
      obtain n1 o1 s where r: "iconv_spec step invalid cd (drop 1 d) = (n1, o1, s)" by (metis prod_cases3)
      have e: "n = 1 + n1" "out = encodeRune invalid @ o1" "s1 = s"
        using "1.prems"(2) False Illegal r by (auto simp: iconv_spec.simps [of step invalid cd d])
      have "drop n1 (drop 1 d) = drop n d" "drop 1 (d @ b) = drop 1 d @ b" using False e by (cases d; simp)+
      with "1.IH"(2) [OF _ Illegal "1.prems"(1), of n1 o1] False r e "1.prems"(3) st Illegal show ?thesis
        by (simp add: iconv_spec.simps [of step invalid cd "d @ b"])
    next
      case (Converted k out1 cd1)
      note k = steps_okD_max [OF "1.prems"(1) Converted]
      obtain n1 o1 s where r: "iconv_spec step invalid cd1 (drop (max 1 k) d) = (n1, o1, s)" by (metis prod_cases3)
      have e: "n = k + n1" "out = out1 @ o1" "s1 = s"
        using "1.prems"(2) False Converted r k by (auto simp: iconv_spec.simps [of step invalid cd d])
      have "drop n1 (drop k d) = drop n d" "drop k (d @ b) = drop k d @ b" using e k by (simp_all add: add.commute)
      with "1.IH"(1) [OF _ Converted "1.prems"(1), of n1 o1] False r e "1.prems"(3) st Converted k show ?thesis
        by (simp add: iconv_spec.simps [of step invalid cd "d @ b"])
    qed (use False in simp)
  qed
qed

lemma iconv_spec_final:
  "steps_ok step \<Longrightarrow> iconv_spec step invalid cd d = (n, out, s) \<Longrightarrow> iconv_spec step invalid s (drop n d) = (0, [], s)"
  using iconv_spec_resume [of step invalid cd d n out s "[]"]
  by (cases "iconv_spec step invalid s (drop n d)") auto

interpretation ic: streaming "\<lambda>cd. steps_ok step" "iconv_tr (iconv_run step) invalid cap" for step invalid cap
proof (unfold_locales, goal_cases)
  case (1 s eof d)
  obtain n out s' where "iconv_spec step invalid s d = (n, out, s')" by (metis prod_cases3)
  with iconv_spec_length [OF 1 this] show ?case using 1 by (simp add: iconv_tr_spec)
next
  case (2 s d n out s1 eof b m out2 s2)
  then show ?case using iconv_spec_resume [of step invalid s d n out s1 b m out2 s2] by (simp add: iconv_tr_spec)
next
  case (3 s d n out s1)
  then show ?case using iconv_spec_final [of step invalid s d n out s1] by (simp add: iconv_tr_spec)
qed

section \<open>Names\<close>

lemma add_group_lookup: "add_group a m name = (if name \<in> set a then Some a else m name)"
proof -
  have "fold (\<lambda>alias m. m(alias \<mapsto> a)) as m name = (if name \<in> set as then Some a else m name)" for as
    by (induction as arbitrary: m) auto
  then show ?thesis by (simp add: add_group_def)
qed

lemma initAliases_lookup: "initAliases groups name = find (\<lambda>a. name \<in> set a) (rev groups)"
  unfolding initAliases_def
  by (induction groups rule: rev_induct) (simp_all add: add_group_lookup)

end
