(* ===== verification/Iconv_Properties.thy ===== *)
theory Iconv_Properties
  imports IconvLaws
begin

text \<open>The properties of the binding to \<open>iconv\<close>.\<close>

text \<open>C33: The loop of \<open>Translate\<close> ends and its result depends on no buffer size. For a library that converts
  characters one after the other and stops only at the end, at an illegal or incomplete sequence or for lack
  of room: whatever the capacity of the buffer at the start, \<open>Translate\<close> returns the specified
  translation, with the replacement for every illegal byte, and consumes all up to an incomplete
  sequence at the end.\<close>

theorem iconv_translates:
  assumes "steps_ok step" and "\<forall>cd d room. ic cd d room = iconv_run step cd d room"
  shows "iconv_Translate ic invalid cap cd eof data = Some (Inr (iconv_spec step invalid cd data))"
proof -
  have "ic = iconv_run step" using assms(2) by (intro ext) simp
  with iconv_loop_spec [OF assms(1), of invalid cd data _ _ _ "cap cd data" 0 "[]"] show ?thesis
    by (cases "iconv_spec step invalid cd data") (simp add: iconv_Translate_def)
qed

text \<open>A library for the witness: ASCII, with an output of six bytes for every character, which is more than
  \<open>Translate\<close> makes room for at first.\<close>

definition wide_ascii :: "unit steps" where
  "wide_ascii cd d =
     (case d of [] \<Rightarrow> Incomplete | b # _ \<Rightarrow> if b < 128 then Converted 1 (replicate 6 b) () else Illegal)"

lemma wide_ascii_ok: "steps_ok wide_ascii"
  by (auto simp: steps_ok_def wide_ascii_def split: list.splits if_splits)

theorem iconv_translates_witness:
  "iconv_Translate (iconv_run wide_ascii) 63 (\<lambda>_ _. 0) () False [65, 200, 66] =
     Some (Inr (3, [65, 65, 65, 65, 65, 65, 63, 66, 66, 66, 66, 66, 66], ()))"
proof -
  have "iconv_spec wide_ascii 63 () [65, 200, 66] = (3, [65, 65, 65, 65, 65, 65, 63, 66, 66, 66, 66, 66, 66], ())"
    by code_simp
  with iconv_translates [OF wide_ascii_ok, of "iconv_run wide_ascii" 63 "\<lambda>_ _. 0" "()" False "[65, 200, 66]"]
  show ?thesis by simp
qed

text \<open>Readers over such a translator give the translation of the whole source, in whatever pieces it comes and
  is asked for; and so do writers.\<close>

theorem iconv_read_whole:
  assumes "steps_ok step" and "iconv_spec step invalid cd (source_bytes src) = (n, out, cd')" and "live src"
    and "list_all (\<lambda>k. 0 < k) ks" and "length out < length ks"
  shows "\<exists>r. reads (iconv_tr (iconv_run step) invalid cap) ks (NewTranslatingReader src cd) = Inr (out, Some EOF, r)"
proof -
  have "whole (iconv_tr (iconv_run step) invalid cap) cd (source_bytes src) = out"
    using assms(1,2) by (simp add: whole_def iconv_tr_spec)
  with ic.reader_whole [OF assms(1,3,4), of invalid cap cd] assms(5) show ?thesis by simp
qed

theorem iconv_write_whole:
  assumes "steps_ok step" and "iconv_spec step invalid cd (concat ds) = (n, out, cd')"
  shows "\<exists>w w'. writes (iconv_tr (iconv_run step) invalid cap) ds (new_writer cd) = Inr w \<and>
    writer_Close (Suc (Suc fuel)) (iconv_tr (iconv_run step) invalid cap) w = Some (Inr w') \<and> wOut w' = out"
proof -
  have "whole (iconv_tr (iconv_run step) invalid cap) cd (concat ds) = out"
    using assms by (simp add: whole_def iconv_tr_spec)
  with ic.writer_whole [OF assms(1), of invalid cap ds cd fuel] show ?thesis by simp
qed

text \<open>The table of names: a name is listed exactly if it comes first in the last group that has it. The
  set \<open>cp932\<close> has a group of its own and stands in that of \<open>windows-31j\<close> too, which comes later, so it is not listed.\<close>

theorem iconv_names:
  "name \<in> set (iconv_Names groups) \<longleftrightarrow> (\<exists>as. find (\<lambda>a. name \<in> set a) (rev groups) = Some (name # as))"
proof -
  have "find (\<lambda>a. name \<in> set a) (rev groups) = Some a \<Longrightarrow> \<exists>x\<in>set groups. name \<in> set x" for a
    using find_None_iff [of "\<lambda>a. name \<in> set a" "rev groups"] by auto
  then show ?thesis by (auto simp: iconv_Names_def initAliases_lookup split: option.splits list.splits)
qed

theorem iconv_cp932_not_listed:
  "[''cp932''] \<in> set aliasData \<and> ''cp932'' \<notin> set (iconv_Names aliasData) \<and>
   map_option csAliases (iconv_Info aliasData ''cp932'') = Some [''windows-31j'', ''cp932'']"
proof -
  have f: "find (\<lambda>a. ''cp932'' \<in> set a) (rev aliasData) = Some [''windows-31j'', ''cp932'']" by code_simp
  moreover have "list_ex (\<lambda>a. a = [''cp932'']) aliasData" by code_simp
  ultimately show ?thesis by (simp add: iconv_names iconv_Info_def initAliases_lookup list_ex_iff)
qed

end
