(* ===== verification/Logrus.thy ===== *)
theory Logrus
  imports Charset Connection "HOL-Library.Char_ord" "HOL-Library.List_Lexorder"
begin

text \<open>
  \<open>logrus\<close>: levels, hooks, entries, the text and the JSON formatter, and the methods of entries,
  of loggers and of the standard logger. A call returns how it ends (it returns, panics or
  exits the process), the entry and the state of the logger afterwards, with what was written
  to \<open>Out\<close> and to standard error.

  A map of fields is an association list with distinct keys, in the order \<open>range\<close> visits it. The
  parameters are what the package takes from outside: the terminal, the clock and the texts
  that \<open>time\<close>, \<open>fmt\<close> verbs and \<open>encoding/json\<close> make of values, the code points beyond ASCII that
  \<open>strconv\<close> holds printable, the writer behind \<open>Out\<close>. The mutex of a logger has no counterpart:
  calls run one after the other.
\<close>

section \<open>Values and texts\<close>

text \<open>The operands of a call: a string, an error with its text, an integer, anything else with the text \<open>%v\<close> prints for it.\<close>

datatype lvalue = LString string | LError string | LInt int | LValue string

type_synonym Fields = "(string \<times> lvalue) list"

definition value_text :: "lvalue \<Rightarrow> string" where
  "value_text v = (case v of LString s \<Rightarrow> s | LError s \<Rightarrow> s | LInt i \<Rightarrow> FormatInt i | LValue s \<Rightarrow> s)"

definition is_string :: "lvalue \<Rightarrow> bool" where
  "is_string v = (case v of LString _ \<Rightarrow> True | _ \<Rightarrow> False)"

text \<open>\<open>fmt.Sprint\<close>: a space between two operands when neither is a string; \<open>fmt.Sprintln\<close>: always.\<close>

fun Sprint :: "lvalue list \<Rightarrow> string" where
  "Sprint [] = []"
| "Sprint [v] = value_text v"
| "Sprint (v # w # vs) = value_text v @ (if is_string v \<or> is_string w then [] else '' '') @ Sprint (w # vs)"

fun Sprintln :: "lvalue list \<Rightarrow> string" where
  "Sprintln [] = [CHR 0x0A]"
| "Sprintln [v] = value_text v @ [CHR 0x0A]"
| "Sprintln (v # w # vs) = value_text v @ '' '' @ Sprintln (w # vs)"

definition sprintlnn :: "lvalue list \<Rightarrow> string" where
  "sprintlnn args = (let msg = Sprintln args in take (length msg - 1) msg)"

record log_env =
  lgTerminal :: bool
  lgWindows :: bool
  lgBase :: int
  lgTimeFormat :: "int \<Rightarrow> string \<Rightarrow> string"
  lgSprintf :: "string \<Rightarrow> lvalue list \<Rightarrow> string"
  lgMarshal :: "Fields \<Rightarrow> string + string"
  lgPrintable :: "nat \<Rightarrow> bool"

text \<open>\<open>strconv.Quote\<close> of Go 1.4.\<close>

fun hex_text :: "nat \<Rightarrow> nat \<Rightarrow> string" where
  "hex_text 0 n = []"
| "hex_text (Suc k) n = hex_text k (n div 16) @ [hex_digit (n mod 16)]"

definition IsPrint :: "log_env \<Rightarrow> nat \<Rightarrow> bool" where
  "IsPrint env r = (if r < 0x80 then 0x20 \<le> r \<and> r \<le> 0x7E else lgPrintable env r)"

definition quote_rune :: "log_env \<Rightarrow> nat \<Rightarrow> bytes \<Rightarrow> string" where
  "quote_rune env r enc =
     (if r = RuneError \<and> length enc = 1 then [CHR 0x5C, CHR ''x''] @ hex_text 2 (unat (hd enc))
      else if r = 0x22 \<or> r = 0x5C then [CHR 0x5C, char_of r]
      else if IsPrint env r then bytes_str enc
      else if r = 7 then [CHR 0x5C, CHR ''a''] else if r = 8 then [CHR 0x5C, CHR ''b'']
      else if r = 12 then [CHR 0x5C, CHR ''f''] else if r = 10 then [CHR 0x5C, CHR ''n'']
      else if r = 13 then [CHR 0x5C, CHR ''r''] else if r = 9 then [CHR 0x5C, CHR ''t'']
      else if r = 11 then [CHR 0x5C, CHR ''v'']
      else if r < 0x20 then [CHR 0x5C, CHR ''x''] @ hex_text 2 r
      else if r < 0x10000 then [CHR 0x5C, CHR ''u''] @ hex_text 4 r
      else [CHR 0x5C, CHR ''U''] @ hex_text 8 r)"

function quote_loop :: "log_env \<Rightarrow> bytes \<Rightarrow> string" where
  "quote_loop env p =
     (if p = [] then []
      else let (r, sz, _) = decodeRune p in quote_rune env r (take sz p) @ quote_loop env (drop sz p))"
  by pat_completeness auto
termination
proof (relation "measure (\<lambda>(env, p). length p)")
  fix env :: log_env and p :: bytes and x r y sz short
  assume "p \<noteq> []" and "x = decodeRune p" and "(r, y) = x" and "(sz, short) = y"
  then have "0 < sz" using decodeRune_width [of p] by (metis fst_conv snd_conv)
  with \<open>p \<noteq> []\<close> show "((env, drop sz p), (env, p)) \<in> measure (\<lambda>(env, p). length p)" by simp
qed simp

declare quote_loop.simps [simp del]

definition Quote :: "log_env \<Rightarrow> string \<Rightarrow> string" where
  "Quote env s = [CHR 0x22] @ quote_loop env (str_bytes s) @ [CHR 0x22]"

section \<open>Levels\<close>

type_synonym Level = "8 word"

abbreviation (input) PanicLevel :: Level where "PanicLevel \<equiv> 0"
abbreviation (input) FatalLevel :: Level where "FatalLevel \<equiv> 1"
abbreviation (input) ErrorLevel :: Level where "ErrorLevel \<equiv> 2"
abbreviation (input) WarnLevel :: Level where "WarnLevel \<equiv> 3"
abbreviation (input) InfoLevel :: Level where "InfoLevel \<equiv> 4"
abbreviation (input) DebugLevel :: Level where "DebugLevel \<equiv> 5"

definition Level_String :: "Level \<Rightarrow> string" where
  "Level_String level =
     (if level = DebugLevel then ''debug'' else if level = InfoLevel then ''info''
      else if level = WarnLevel then ''warning'' else if level = ErrorLevel then ''error''
      else if level = FatalLevel then ''fatal'' else if level = PanicLevel then ''panic'' else ''unknown'')"

definition ParseLevel :: "log_env \<Rightarrow> string \<Rightarrow> string + Level" where
  "ParseLevel env lvl =
     (if lvl = ''panic'' then Inr PanicLevel else if lvl = ''fatal'' then Inr FatalLevel
      else if lvl = ''error'' then Inr ErrorLevel else if lvl = ''warn'' \<or> lvl = ''warning'' then Inr WarnLevel
      else if lvl = ''info'' then Inr InfoLevel else if lvl = ''debug'' then Inr DebugLevel
      else Inl (''not a valid logrus Level: '' @ Quote env lvl))"

section \<open>Entries, hooks and formatters\<close>

record Entry =
  enData :: Fields
  enTime :: int
  enLevel :: Level
  enMessage :: string

text \<open>A hook may change the entry it is given.\<close>

record Hook =
  hkLevels :: "Level list"
  hkFire :: "Entry \<Rightarrow> Entry \<times> string option"

type_synonym LevelHooks = "Level \<Rightarrow> Hook list"

fun add_levels :: "Hook \<Rightarrow> Level list \<Rightarrow> LevelHooks \<Rightarrow> LevelHooks" where
  "add_levels hook [] hooks = hooks"
| "add_levels hook (l # ls) hooks = add_levels hook ls (hooks(l := hooks l @ [hook]))"

definition LevelHooks_Add :: "Hook \<Rightarrow> LevelHooks \<Rightarrow> LevelHooks" where
  "LevelHooks_Add hook hooks = add_levels hook (hkLevels hook) hooks"

fun fire_all :: "Hook list \<Rightarrow> Entry \<Rightarrow> Entry \<times> string option" where
  "fire_all [] e = (e, None)"
| "fire_all (h # hs) e = (case hkFire h e of (e, Some err) \<Rightarrow> (e, Some err) | (e, None) \<Rightarrow> fire_all hs e)"

definition LevelHooks_Fire :: "LevelHooks \<Rightarrow> Level \<Rightarrow> Entry \<Rightarrow> Entry \<times> string option" where
  "LevelHooks_Fire hooks level e = fire_all (hooks level) e"

definition clash :: "string \<Rightarrow> Fields \<Rightarrow> Fields" where
  "clash key data = (case map_of data key of None \<Rightarrow> data | Some v \<Rightarrow> AList.update (''fields.'' @ key) v data)"

definition prefixFieldClashes :: "Fields \<Rightarrow> Fields" where
  "prefixFieldClashes data = clash ''level'' (clash ''msg'' (clash ''time'' data))"

record TextFormatter =
  ForceColors :: bool
  DisableColors :: bool
  DisableTimestamp :: bool
  FullTimestamp :: bool
  TimestampFormat :: string
  DisableSorting :: bool

abbreviation (input) DefaultTimestampFormat :: string where
  "DefaultTimestampFormat \<equiv> ''2006-01-02T15:04:05Z07:00''"

definition quotable_char :: "nat \<Rightarrow> bool" where
  "quotable_char ch \<longleftrightarrow>
     97 \<le> ch \<and> ch \<le> 122 \<or> 65 \<le> ch \<and> ch \<le> 90 \<or> 48 \<le> ch \<and> ch \<le> 57 \<or> ch = 0x2D \<or> ch = 0x2E"

text \<open>Despite its name, true of a text that needs no quotes.\<close>

definition needsQuoting :: "string \<Rightarrow> bool" where
  "needsQuoting t = list_all quotable_char (string_runes (str_bytes t))"

definition field_text :: "log_env \<Rightarrow> string \<Rightarrow> string" where
  "field_text env t = (if needsQuoting t then t else Quote env t)"

definition appendKeyValue :: "log_env \<Rightarrow> string \<Rightarrow> lvalue \<Rightarrow> string" where
  "appendKeyValue env key v =
     key @ ''='' @ (case v of LString s \<Rightarrow> field_text env s | LError s \<Rightarrow> field_text env s | _ \<Rightarrow> value_text v) @ '' ''"

definition pad_zero :: "nat \<Rightarrow> int \<Rightarrow> string" where
  "pad_zero n i =
     (let d = decimal (nat \<bar>i\<bar>); sign = (if i < 0 then ''-'' else [])
      in sign @ replicate (n - length sign - length d) (CHR ''0'') @ d)"

definition pad_right :: "nat \<Rightarrow> string \<Rightarrow> string" where
  "pad_right n t = t @ replicate (n - length (string_runes (str_bytes t))) (CHR '' '')"

definition color :: "nat \<Rightarrow> string" where
  "color n = [CHR 0x1B, CHR ''[''] @ decimal n @ ''m''"

definition levelColor :: "Level \<Rightarrow> nat" where
  "levelColor l =
     (if l = DebugLevel then 37 else if l = WarnLevel then 33
      else if l = ErrorLevel \<or> l = FatalLevel \<or> l = PanicLevel then 31 else 34)"

text \<open>\<open>entry.Data[k]\<close> of a missing key is nil, which \<open>%v\<close> prints so.\<close>

definition field_value :: "Fields \<Rightarrow> string \<Rightarrow> lvalue" where
  "field_value data k = (case map_of data k of Some v \<Rightarrow> v | None \<Rightarrow> LValue ''<nil>'')"

definition miniTS :: "log_env \<Rightarrow> int \<Rightarrow> int" where
  "miniTS env now = (let d = now - lgBase env in if d < 0 then - ((- d) div 1000000000) else d div 1000000000)"

definition printColored :: "log_env \<Rightarrow> int \<Rightarrow> TextFormatter \<Rightarrow> Entry \<Rightarrow> string list \<Rightarrow> string" where
  "printColored env now f e keys =
     (let c = color (levelColor (enLevel e)); reset = color 0;
          levelText = take 4 (map upper_char (Level_String (enLevel e)));
          stamp = (if FullTimestamp f then lgTimeFormat env (enTime e) (TimestampFormat f) else pad_zero 4 (miniTS env now))
      in c @ levelText @ reset @ ''['' @ stamp @ ''] '' @ pad_right 44 (enMessage e) @ '' '' @
         concat (map (\<lambda>k. '' '' @ c @ k @ reset @ ''='' @ value_text (field_value (enData e) k)) keys))"

text \<open>The keys are collected before the clashes are prefixed.\<close>

definition TextFormatter_Format ::
    "log_env \<Rightarrow> int \<Rightarrow> TextFormatter \<Rightarrow> Entry \<Rightarrow> string \<times> Entry \<times> TextFormatter" where
  "TextFormatter_Format env now f e =
     (let keys = map fst (enData e);
          keys = (if DisableSorting f then keys else sort keys);
          e = e\<lparr>enData := prefixFieldClashes (enData e)\<rparr>;
          isColorTerminal = (lgTerminal env \<and> \<not> lgWindows env);
          isColored = ((ForceColors f \<or> isColorTerminal) \<and> \<not> DisableColors f);
          f = (if TimestampFormat f = [] then f\<lparr>TimestampFormat := DefaultTimestampFormat\<rparr> else f);
          b = (if isColored then printColored env now f e keys
               else (if DisableTimestamp f then []
                     else appendKeyValue env ''time'' (LString (lgTimeFormat env (enTime e) (TimestampFormat f)))) @
                    appendKeyValue env ''level'' (LString (Level_String (enLevel e))) @
                    appendKeyValue env ''msg'' (LString (enMessage e)) @
                    concat (map (\<lambda>key. appendKeyValue env key (field_value (enData e) key)) keys))
      in (b @ [CHR 0x0A], e, f))"

definition json_value :: "lvalue \<Rightarrow> lvalue" where
  "json_value v = (case v of LError s \<Rightarrow> LString s | _ \<Rightarrow> v)"

definition JSONFormatter_Format :: "log_env \<Rightarrow> string \<Rightarrow> Entry \<Rightarrow> string + string" where
  "JSONFormatter_Format env timestampFormat e =
     (let data = prefixFieldClashes (map (\<lambda>(k, v). (k, json_value v)) (enData e));
          timestampFormat = (if timestampFormat = [] then DefaultTimestampFormat else timestampFormat);
          data = AList.update ''time'' (LString (lgTimeFormat env (enTime e) timestampFormat)) data;
          data = AList.update ''msg'' (LString (enMessage e)) data;
          data = AList.update ''level'' (LString (Level_String (enLevel e))) data
      in case lgMarshal env data of
           Inl err \<Rightarrow> Inl (''Failed to marshal fields to JSON, '' @ err)
         | Inr serialized \<Rightarrow> Inr (serialized @ [CHR 0x0A]))"

datatype formatter = FText TextFormatter | FJSON string | FCustom "Entry \<Rightarrow> (string + string) \<times> Entry"

definition Format :: "log_env \<Rightarrow> int \<Rightarrow> formatter \<Rightarrow> Entry \<Rightarrow> (string + string) \<times> Entry \<times> formatter" where
  "Format env now f e =
     (case f of
        FText t \<Rightarrow> (case TextFormatter_Format env now t e of (b, e, t) \<Rightarrow> (Inr b, e, FText t))
      | FJSON ts \<Rightarrow> (JSONFormatter_Format env ts e, e, f)
      | FCustom g \<Rightarrow> (case g e of (r, e) \<Rightarrow> (r, e, f)))"

section \<open>Loggers\<close>

text \<open>\<open>Out\<close> answers a write with its error; \<open>lsWrites\<close> and \<open>lsErrors\<close> are the writes to it and to standard error.\<close>

record lstate =
  lsOut :: "string \<Rightarrow> string option"
  lsHooks :: LevelHooks
  lsFormatter :: formatter
  lsLevel :: Level
  lsWrites :: "string list"
  lsErrors :: "string list"

datatype outcome = Returned | Panicked | Exited

type_synonym lresult = "outcome \<times> Entry \<times> lstate"

definition new_TextFormatter :: TextFormatter where
  "new_TextFormatter = \<lparr>ForceColors = False, DisableColors = False, DisableTimestamp = False, FullTimestamp = False,
     TimestampFormat = [], DisableSorting = False\<rparr>"

definition New_logger :: "(string \<Rightarrow> string option) \<Rightarrow> lstate" where
  "New_logger stderr = \<lparr>lsOut = stderr, lsHooks = (\<lambda>_. []), lsFormatter = FText new_TextFormatter, lsLevel = InfoLevel,
     lsWrites = [], lsErrors = []\<rparr>"

definition NewEntry :: Entry where
  "NewEntry = \<lparr>enData = [], enTime = 0, enLevel = 0, enMessage = []\<rparr>"

fun put_fields :: "Fields \<Rightarrow> Fields \<Rightarrow> Fields" where
  "put_fields [] data = data"
| "put_fields ((k, v) # fs) data = put_fields fs (AList.update k v data)"

definition WithFields :: "Fields \<Rightarrow> Entry \<Rightarrow> Entry" where
  "WithFields fs e = NewEntry\<lparr>enData := put_fields fs (put_fields (enData e) [])\<rparr>"

definition WithField :: "string \<Rightarrow> lvalue \<Rightarrow> Entry \<Rightarrow> Entry" where
  "WithField key v e = WithFields [(key, v)] e"

definition report_error :: "string \<Rightarrow> string \<Rightarrow> lstate \<Rightarrow> lstate" where
  "report_error what err s = s\<lparr>lsErrors := lsErrors s @ [what @ err @ [CHR 0x0A]]\<rparr>"

definition Entry_Reader :: "log_env \<Rightarrow> int \<Rightarrow> Entry \<Rightarrow> lstate \<Rightarrow> (string \<times> string option) \<times> Entry \<times> lstate" where
  "Entry_Reader env now e s =
     (case Format env now (lsFormatter s) e of (r, e, f) \<Rightarrow>
        ((case r of Inr serialized \<Rightarrow> (serialized, None) | Inl err \<Rightarrow> ([], Some err)), e, s\<lparr>lsFormatter := f\<rparr>))"

definition Entry_String :: "log_env \<Rightarrow> int \<Rightarrow> Entry \<Rightarrow> lstate \<Rightarrow> (string + string) \<times> Entry \<times> lstate" where
  "Entry_String env now e s =
     (case Entry_Reader env now e s of ((reader, err), e, s) \<Rightarrow>
        (case err of Some err \<Rightarrow> Inl err | None \<Rightarrow> Inr reader, e, s))"

text \<open>\<open>io.Copy\<close> from a buffer: one write, none of an empty buffer.\<close>

definition copy_out :: "string \<Rightarrow> lstate \<Rightarrow> lstate" where
  "copy_out reader s =
     (if reader = [] then s
      else let s' = s\<lparr>lsWrites := lsWrites s @ [reader]\<rparr>
           in case lsOut s reader of None \<Rightarrow> s' | Some err \<Rightarrow> report_error ''Failed to write to log, '' err s')"

definition Entry_log :: "log_env \<Rightarrow> int \<Rightarrow> Level \<Rightarrow> string \<Rightarrow> Entry \<Rightarrow> lstate \<Rightarrow> lresult" where
  "Entry_log env now level msg e s =
     (let (e, err) = LevelHooks_Fire (lsHooks s) level (e\<lparr>enTime := now, enLevel := level, enMessage := msg\<rparr>);
          s = (case err of Some err \<Rightarrow> report_error ''Failed to fire hook: '' err s | None \<Rightarrow> s);
          ((reader, err), e, s) = Entry_Reader env now e s;
          s = (case err of Some err \<Rightarrow> report_error ''Failed to obtain reader, '' err s | None \<Rightarrow> s);
          s = copy_out reader s
      in (if level \<le> PanicLevel then Panicked else Returned, e, s))"

section \<open>The methods of an entry\<close>

text \<open>
  The methods come in three families, \<open>Info\<close>, \<open>Infof\<close> and \<open>Infoln\<close>, that differ in how the text is
  made of the operands.
\<close>

datatype meth = MDebug | MPrint | MInfo | MWarn | MWarning | MError | MFatal | MPanic

definition skip :: "Entry \<Rightarrow> lstate \<Rightarrow> lresult" where
  "skip e s = (Returned, e, s)"

definition guarded :: "Level \<Rightarrow> (Entry \<Rightarrow> lstate \<Rightarrow> lresult) \<Rightarrow> Entry \<Rightarrow> lstate \<Rightarrow> lresult" where
  "guarded level act e s = (if lsLevel s \<ge> level then act e s else skip e s)"

text \<open>What follows a call that may have panicked: \<open>os.Exit(1)\<close> or a panic of its own.\<close>

definition and_then :: "outcome \<Rightarrow> lresult \<Rightarrow> lresult" where
  "and_then o' r = (case r of (Returned, e, s) \<Rightarrow> (o', e, s) | _ \<Rightarrow> r)"

definition Entry_plain :: "log_env \<Rightarrow> int \<Rightarrow> meth \<Rightarrow> lvalue list \<Rightarrow> Entry \<Rightarrow> lstate \<Rightarrow> lresult" where
  "Entry_plain env now m args e s =
     (let at = (\<lambda>level. guarded level (Entry_log env now level (Sprint args)) e s)
      in case m of
           MDebug \<Rightarrow> at DebugLevel
         | MPrint \<Rightarrow> at InfoLevel
         | MInfo \<Rightarrow> at InfoLevel
         | MWarn \<Rightarrow> at WarnLevel
         | MWarning \<Rightarrow> at WarnLevel
         | MError \<Rightarrow> at ErrorLevel
         | MFatal \<Rightarrow> and_then Exited (at FatalLevel)
         | MPanic \<Rightarrow> and_then Panicked (at PanicLevel))"

text \<open>The bodies that \<open>...f\<close> and \<open>...ln\<close> share: the method of the first family under a guard, on the text.\<close>

definition Entry_text :: "log_env \<Rightarrow> int \<Rightarrow> meth \<Rightarrow> string \<Rightarrow> Entry \<Rightarrow> lstate \<Rightarrow> lresult" where
  "Entry_text env now m t e s =
     (let at = (\<lambda>level m. guarded level (Entry_plain env now m [LString t]) e s)
      in case m of
           MDebug \<Rightarrow> at DebugLevel MDebug
         | MPrint \<Rightarrow> at InfoLevel MInfo
         | MInfo \<Rightarrow> at InfoLevel MInfo
         | MWarn \<Rightarrow> at WarnLevel MWarn
         | MWarning \<Rightarrow> at WarnLevel MWarn
         | MError \<Rightarrow> at ErrorLevel MError
         | MFatal \<Rightarrow> and_then Exited (at FatalLevel MFatal)
         | MPanic \<Rightarrow> at PanicLevel MPanic)"

definition Entry_f :: "log_env \<Rightarrow> int \<Rightarrow> meth \<Rightarrow> string \<Rightarrow> lvalue list \<Rightarrow> Entry \<Rightarrow> lstate \<Rightarrow> lresult" where
  "Entry_f env now m format args e s = Entry_text env now m (lgSprintf env format args) e s"

definition Entry_ln :: "log_env \<Rightarrow> int \<Rightarrow> meth \<Rightarrow> lvalue list \<Rightarrow> Entry \<Rightarrow> lstate \<Rightarrow> lresult" where
  "Entry_ln env now m args e s = Entry_text env now m (sprintlnn args) e s"

section \<open>The methods of a logger\<close>

text \<open>Each guards the call on a new entry; \<open>Print\<close> has no guard, \<open>Fatal\<close> exits in any case.\<close>

definition on_new_entry :: "(meth \<Rightarrow> Entry \<Rightarrow> lstate \<Rightarrow> lresult) \<Rightarrow> meth \<Rightarrow> lstate \<Rightarrow> lresult" where
  "on_new_entry call m s =
     (case m of
        MDebug \<Rightarrow> guarded DebugLevel (call MDebug) NewEntry s
      | MPrint \<Rightarrow> call MPrint NewEntry s
      | MInfo \<Rightarrow> guarded InfoLevel (call MInfo) NewEntry s
      | MWarn \<Rightarrow> guarded WarnLevel (call MWarn) NewEntry s
      | MWarning \<Rightarrow> guarded WarnLevel (call MWarn) NewEntry s
      | MError \<Rightarrow> guarded ErrorLevel (call MError) NewEntry s
      | MFatal \<Rightarrow> and_then Exited (guarded FatalLevel (call MFatal) NewEntry s)
      | MPanic \<Rightarrow> guarded PanicLevel (call MPanic) NewEntry s)"

definition Logger_f :: "log_env \<Rightarrow> int \<Rightarrow> meth \<Rightarrow> string \<Rightarrow> lvalue list \<Rightarrow> lstate \<Rightarrow> lresult" where
  "Logger_f env now m format args s = on_new_entry (\<lambda>m. Entry_f env now m format args) m s"

text \<open>\<open>Logger.Print\<close> calls \<open>Info\<close> of the entry.\<close>

definition Logger_plain :: "log_env \<Rightarrow> int \<Rightarrow> meth \<Rightarrow> lvalue list \<Rightarrow> lstate \<Rightarrow> lresult" where
  "Logger_plain env now m args s =
     on_new_entry (\<lambda>m. Entry_plain env now (if m = MPrint then MInfo else m) args) m s"

definition Logger_ln :: "log_env \<Rightarrow> int \<Rightarrow> meth \<Rightarrow> lvalue list \<Rightarrow> lstate \<Rightarrow> lresult" where
  "Logger_ln env now m args s = on_new_entry (\<lambda>m. Entry_ln env now m args) m s"

definition Logger_WithFields :: "Fields \<Rightarrow> Entry" where
  "Logger_WithFields fs = WithFields fs NewEntry"

definition Logger_WithField :: "string \<Rightarrow> lvalue \<Rightarrow> Entry" where
  "Logger_WithField key v = WithField key v NewEntry"

section \<open>The standard logger\<close>

datatype lcall = CPlain meth "lvalue list" | CFormat meth string "lvalue list" | CLine meth "lvalue list"

definition std_call :: "log_env \<Rightarrow> int \<Rightarrow> lcall \<Rightarrow> lstate \<Rightarrow> lresult" where
  "std_call env now c s =
     (case c of CPlain m args \<Rightarrow> Logger_plain env now m args s
      | CFormat m format args \<Rightarrow> Logger_f env now m format args s
      | CLine m args \<Rightarrow> Logger_ln env now m args s)"

definition SetOutput :: "(string \<Rightarrow> string option) \<Rightarrow> lstate \<Rightarrow> lstate" where
  "SetOutput out s = s\<lparr>lsOut := out\<rparr>"

definition SetFormatter :: "formatter \<Rightarrow> lstate \<Rightarrow> lstate" where
  "SetFormatter f s = s\<lparr>lsFormatter := f\<rparr>"

definition SetLevel :: "Level \<Rightarrow> lstate \<Rightarrow> lstate" where
  "SetLevel level s = s\<lparr>lsLevel := level\<rparr>"

definition GetLevel :: "lstate \<Rightarrow> Level" where
  "GetLevel s = lsLevel s"

definition AddHook :: "Hook \<Rightarrow> lstate \<Rightarrow> lstate" where
  "AddHook hook s = s\<lparr>lsHooks := LevelHooks_Add hook (lsHooks s)\<rparr>"

text \<open>
  The goroutine behind \<open>Logger.Writer\<close>: one \<open>Print\<close> per line the scanner yields, until the pipe is
  closed or the scanner fails.
\<close>

fun scan_lines :: "log_env \<Rightarrow> (int \<times> string) list \<Rightarrow> lstate \<Rightarrow> lstate" where
  "scan_lines env [] s = s"
| "scan_lines env ((now, t) # ts) s = scan_lines env ts (snd (snd (Logger_plain env now MPrint [LString t] s)))"

definition writerScanner :: "log_env \<Rightarrow> (int \<times> string) list \<Rightarrow> int \<Rightarrow> string option \<Rightarrow> lstate \<Rightarrow> lstate" where
  "writerScanner env ts now err s =
     (let s = scan_lines env ts s
      in case err of
           None \<Rightarrow> s
         | Some e \<Rightarrow> snd (snd (Logger_f env now MError ''Error while reading from Writer: %s'' [LError e] s)))"

end
