(* ===== verification/Log_Properties.thy ===== *)
theory Log_Properties
  imports Logrus "HOL-Library.Multiset"
begin

text \<open>
  The properties of the logging package: how a call ends and what it writes, that a line of the
  text formatter is one line, and that it does not depend on the order in which Go visits a map.
\<close>

section \<open>Calls\<close>

definition call_meth :: "lcall \<Rightarrow> meth" where
  "call_meth c = (case c of CPlain m _ \<Rightarrow> m | CFormat m _ _ \<Rightarrow> m | CLine m _ \<Rightarrow> m)"

definition call_text :: "log_env \<Rightarrow> lcall \<Rightarrow> string" where
  "call_text env c =
     (case c of CPlain _ args \<Rightarrow> Sprint args | CFormat _ format args \<Rightarrow> lgSprintf env format args
      | CLine _ args \<Rightarrow> sprintlnn args)"

definition meth_level :: "meth \<Rightarrow> Level" where
  "meth_level m =
     (case m of MDebug \<Rightarrow> 5 | MPrint \<Rightarrow> 4 | MInfo \<Rightarrow> 4 | MWarn \<Rightarrow> 3 | MWarning \<Rightarrow> 3 | MError \<Rightarrow> 2 | MFatal \<Rightarrow> 1 | MPanic \<Rightarrow> 0)"

definition meth_outcome :: "meth \<Rightarrow> outcome" where
  "meth_outcome m = (case m of MFatal \<Rightarrow> Exited | MPanic \<Rightarrow> Panicked | _ \<Rightarrow> Returned)"

text \<open>What every method comes to: one guarded \<open>log\<close> of the text, and the way the method ends.\<close>

definition plain_call :: "log_env \<Rightarrow> int \<Rightarrow> meth \<Rightarrow> string \<Rightarrow> lstate \<Rightarrow> lresult" where
  "plain_call env now m t s =
     (if meth_level m \<le> lsLevel s
      then case Entry_log env now (meth_level m) t NewEntry s of (_, e, s) \<Rightarrow> (meth_outcome m, e, s)
      else (meth_outcome m, NewEntry, s))"

lemma Entry_log_outcome: "fst (Entry_log env now level t e s) = (if level = 0 then Panicked else Returned)"
  by (simp add: Entry_log_def Let_def split: prod.splits)

lemma Entry_log_cases:
  obtains e' s' where "Entry_log env now level t e s = (if level = 0 then Panicked else Returned, e', s')"
proof -
  obtain o' e' s' where r: "Entry_log env now level t e s = (o', e', s')" by (cases "Entry_log env now level t e s")
  with Entry_log_outcome [of env now level t e s] that show thesis by simp
qed

lemma std_call_eq: "std_call env now c s = plain_call env now (call_meth c) (call_text env c) s"
proof -
  have entry: "Entry_plain env now m args e s =
      (if meth_level m \<le> lsLevel s
       then case Entry_log env now (meth_level m) (Sprint args) e s of (_, e, s) \<Rightarrow> (meth_outcome m, e, s)
       else (meth_outcome m, e, s))" for m args e
    by (rule Entry_log_cases [of env now "meth_level m" "Sprint args" e s])
       (cases m; simp add: Entry_plain_def Let_def guarded_def skip_def and_then_def meth_level_def meth_outcome_def)
  have text_call: "Entry_text env now m t e s =
      (if meth_level m \<le> lsLevel s
       then case Entry_log env now (meth_level m) t e s of (_, e, s) \<Rightarrow> (meth_outcome m, e, s)
       else (meth_outcome m, e, s))" for m t e
    by (rule Entry_log_cases [of env now "meth_level m" t e s])
       (cases m; simp add: Entry_text_def entry Let_def guarded_def skip_def and_then_def meth_level_def meth_outcome_def
         value_text_def)
  show ?thesis
  proof (cases c)
    case (CPlain m args)
    obtain e' s' where "Entry_log env now (meth_level m) (Sprint args) NewEntry s =
        (if meth_level m = 0 then Panicked else Returned, e', s')" by (rule Entry_log_cases)
    with CPlain show ?thesis
      by (cases m) (simp_all add: std_call_def Logger_plain_def on_new_entry_def entry plain_call_def call_meth_def call_text_def
           guarded_def skip_def and_then_def meth_level_def meth_outcome_def)
  next
    case (CFormat m format args)
    obtain e' s' where "Entry_log env now (meth_level m) (lgSprintf env format args) NewEntry s =
        (if meth_level m = 0 then Panicked else Returned, e', s')" by (rule Entry_log_cases)
    with CFormat show ?thesis
      by (cases m) (simp_all add: std_call_def Logger_f_def Entry_f_def on_new_entry_def text_call plain_call_def call_meth_def
           call_text_def guarded_def skip_def and_then_def meth_level_def meth_outcome_def)
  next
    case (CLine m args)
    obtain e' s' where "Entry_log env now (meth_level m) (sprintlnn args) NewEntry s =
        (if meth_level m = 0 then Panicked else Returned, e', s')" by (rule Entry_log_cases)
    with CLine show ?thesis
      by (cases m) (simp_all add: std_call_def Logger_ln_def Entry_ln_def on_new_entry_def text_call plain_call_def call_meth_def
           call_text_def guarded_def skip_def and_then_def meth_level_def meth_outcome_def)
  qed
qed

lemma Entry_log_text:
  assumes "lsFormatter s = FText f" and "lsHooks s = (\<lambda>_. [])"
  shows "lsWrites (snd (snd (Entry_log env now level t e s))) = lsWrites s @
    [fst (TextFormatter_Format env now f (e\<lparr>enTime := now, enLevel := level, enMessage := t\<rparr>))]"
proof -
  let ?e = "e\<lparr>enTime := now, enLevel := level, enMessage := t\<rparr>"
  obtain b e' f' where b: "TextFormatter_Format env now f ?e = (b, e', f')"
    by (cases "TextFormatter_Format env now f ?e")
  then have "b \<noteq> []" by (auto simp: TextFormatter_Format_def Let_def)
  with b assms show ?thesis
    by (simp add: Entry_log_def LevelHooks_Fire_def Entry_Reader_def Format_def copy_out_def report_error_def Let_def
        split: option.splits)
qed

text \<open>C31: every method of the standard logger, in each of its three families, ends as it should: those of \<open>Fatal\<close> exit
  the process and those of \<open>Panic\<close> panic whatever the level, all others return. With the text formatter and no
  hooks it writes exactly one line, the formatted text of its operands, when the level of the logger admits the
  method, and nothing otherwise.\<close>

theorem log_calls:
  assumes "lsFormatter s = FText f" and "lsHooks s = (\<lambda>_. [])"
  shows "fst (std_call env now c s) = meth_outcome (call_meth c) \<and>
    lsWrites (snd (snd (std_call env now c s))) = lsWrites s @
      (if meth_level (call_meth c) \<le> lsLevel s
       then [fst (TextFormatter_Format env now f
              \<lparr>enData = [], enTime = now, enLevel = meth_level (call_meth c), enMessage = call_text env c\<rparr>)]
       else [])"
  using Entry_log_text [OF assms, of env now "meth_level (call_meth c)" "call_text env c" NewEntry]
  by (auto simp: std_call_eq plain_call_def NewEntry_def split: prod.splits)

definition sample_env :: log_env where
  "sample_env = \<lparr>lgTerminal = False, lgWindows = False, lgBase = 0, lgTimeFormat = (\<lambda>t f. ''now''),
     lgSprintf = (\<lambda>f args. f), lgMarshal = (\<lambda>d. Inr []), lgPrintable = (\<lambda>r. False)\<rparr>"

theorem log_calls_witness:
  "fst (std_call sample_env 0 (CPlain MFatal [LError ''No suitable device found'']) (New_logger (\<lambda>_. None))) = Exited \<and>
   lsWrites (snd (snd (std_call sample_env 0 (CPlain MDebug [LString ''x'']) (New_logger (\<lambda>_. None))))) = []"
  using log_calls [of "New_logger (\<lambda>_. None)" new_TextFormatter sample_env 0 "CPlain MFatal [LError ''No suitable device found'']"]
    log_calls [of "New_logger (\<lambda>_. None)" new_TextFormatter sample_env 0 "CPlain MDebug [LString ''x'']"]
  by (simp add: New_logger_def call_meth_def meth_level_def meth_outcome_def)

section \<open>A line is one line\<close>

definition one_line :: "string \<Rightarrow> bool" where
  "one_line t \<longleftrightarrow> CHR 0x0A \<notin> set t"

lemma one_line_append [simp]: "one_line (s @ t) \<longleftrightarrow> one_line s \<and> one_line t"
  by (auto simp: one_line_def)

lemma one_line_Nil [simp]: "one_line []"
  by (simp add: one_line_def)

lemma one_line_Cons [simp]: "one_line (c # t) \<longleftrightarrow> c \<noteq> CHR 0x0A \<and> one_line t"
  by (auto simp: one_line_def)

lemma one_line_concat: "one_line (concat ts) \<longleftrightarrow> (\<forall>t\<in>set ts. one_line t)"
  by (auto simp: one_line_def)

lemma one_line_bytes: "one_line (bytes_str bs) \<longleftrightarrow> 0x0A \<notin> set bs"
proof -
  have "char_of (unat b) = CHR 0x0A \<longleftrightarrow> b = 0x0A" for b :: byte
  proof -
    have "unat b < 256" using unsigned_less [of b, where 'a = nat] by simp
    then have u: "of_char (char_of (unat b) :: char) = unat b" by simp
    have "char_of (unat b) = CHR 0x0A \<longleftrightarrow> of_char (char_of (unat b) :: char) = (of_char (CHR 0x0A) :: nat)"
      by (simp only: of_char_eq_iff)
    then have "char_of (unat b) = CHR 0x0A \<longleftrightarrow> unat b = 10" unfolding u by simp
    then show ?thesis by (simp add: word_unat_eq_iff)
  qed
  then have "CHR 0x0A \<in> (\<lambda>b. char_of (unat b)) ` set bs \<longleftrightarrow> 0x0A \<in> set bs" unfolding image_iff by metis
  then show ?thesis by (simp add: one_line_def bytes_str_def)
qed

lemma one_line_hex: "one_line (hex_text k n)"
proof (induction k arbitrary: n)
  case (Suc k)
  have "hex_digit m \<noteq> CHR 0x0A" if "m < 16" for m
    using nth_mem [of m "''0123456789abcdef''"] that by (auto simp: hex_digit_def)
  with Suc show ?case by simp
qed simp

lemma newline_first:
  assumes "decodeRune p = (r, sz, short)" and "p \<noteq> []" and "0x0A \<in> set (take sz p)"
  shows "r = 10"
proof -
  have c: "cont b \<Longrightarrow> b \<noteq> 0x0A" for b by (auto simp: cont_def)
  have l: "\<not> b < 0x80 \<Longrightarrow> b \<noteq> 0x0A" for b :: byte by auto
  show ?thesis using assms
    by (auto simp: decodeRune_def Let_def take_Cons' dest: c l split: list.splits if_splits)
qed

lemma quote_rune_line:
  assumes "decodeRune p = (r, sz, short)" and "p \<noteq> []"
  shows "one_line (quote_rune env r (take sz p))"
proof -
  have "one_line (bytes_str (take sz p))" if "IsPrint env r"
    using that newline_first [OF assms] by (auto simp: one_line_bytes IsPrint_def)
  moreover have "(char_of (0x22 :: nat) :: char) \<noteq> CHR 0x0A" "(char_of (0x5C :: nat) :: char) \<noteq> CHR 0x0A" by code_simp+
  ultimately show ?thesis by (auto simp: quote_rune_def one_line_hex)
qed

lemma quote_loop_line: "one_line (quote_loop env p)"
proof (induction env p rule: quote_loop.induct)
  case (1 env p)
  show ?case
  proof (cases "p = []")
    case False
    obtain r sz short where d: "decodeRune p = (r, sz, short)" by (cases "decodeRune p")
    have "one_line (quote_loop env (drop sz p))" using "1.IH" [OF False d [symmetric] refl refl] .
    with False d quote_rune_line [OF d False] show ?thesis by (simp add: quote_loop.simps [of env p])
  qed (simp add: quote_loop.simps)
qed

text \<open>A line feed in a text is one of its runes.\<close>

lemma newline_rune: "0x0A \<in> set p \<Longrightarrow> 10 \<in> set (string_runes p)"
proof (induction p rule: string_runes.induct)
  case (1 p)
  obtain r sz short where d: "decodeRune p = (r, sz, short)" by (cases "decodeRune p")
  have ne: "p \<noteq> []" using "1.prems" by auto
  have s: "string_runes p = r # string_runes (drop sz p)" using ne d by (simp add: string_runes.simps [of p])
  show ?case
  proof (cases "0x0A \<in> set (take sz p)")
    case True
    then have "r = 10" by (rule newline_first [OF d ne])
    with s show ?thesis by simp
  next
    case False
    then have "0x0A \<in> set (drop sz p)" using "1.prems" by (metis Un_iff append_take_drop_id set_append)
    with "1.IH" [OF ne d [symmetric] refl refl] s show ?thesis by simp
  qed
qed

lemma field_text_line: "one_line (field_text env t)"
proof (cases "needsQuoting t")
  case True
  have "0x0A \<notin> set (str_bytes t)"
  proof
    assume "0x0A \<in> set (str_bytes t)"
    then have "10 \<in> set (string_runes (str_bytes t))" by (rule newline_rune)
    with True show False by (auto simp: needsQuoting_def list_all_iff quotable_char_def)
  qed
  with one_line_bytes [of "str_bytes t"] True show ?thesis by (simp add: field_text_def)
next
  case False
  then show ?thesis by (simp add: field_text_def Quote_def quote_loop_line)
qed

text \<open>What a value of a field must be for its text to stay on the line; strings and errors always are.\<close>

definition tame_value :: "lvalue \<Rightarrow> bool" where
  "tame_value v = (case v of LValue t \<Rightarrow> one_line t | _ \<Rightarrow> True)"

definition tame :: "Fields \<Rightarrow> bool" where
  "tame data = list_all (\<lambda>(k, v). one_line k \<and> tame_value v) data"

lemma one_line_decimal: "one_line (decimal n)"
proof (induction n rule: decimal.induct)
  case (1 n)
  have "char_of (48 + m) \<noteq> CHR 0x0A" if "m < 10" for m :: nat
  proof
    assume "char_of (48 + m) = CHR 0x0A"
    then have "of_char (char_of (48 + m) :: char) = (10 :: nat)" by simp
    with that show False by simp
  qed
  with 1 show ?case by (subst decimal.simps) auto
qed

lemma appendKeyValue_line: "one_line key \<Longrightarrow> tame_value v \<Longrightarrow> one_line (appendKeyValue env key v)"
  by (cases v)
     (auto simp: appendKeyValue_def tame_value_def field_text_line value_text_def FormatInt_def one_line_decimal)

lemma clash_ran: "ran (map_of (clash key data)) \<subseteq> ran (map_of data)"
  by (auto simp: clash_def update_conv' ran_def split: option.splits if_splits)

lemma field_value_tame: "tame data \<Longrightarrow> tame_value (field_value (prefixFieldClashes data) k)"
proof -
  assume t: "tame data"
  have "ran (map_of (prefixFieldClashes data)) \<subseteq> ran (map_of data)"
    unfolding prefixFieldClashes_def by (intro order_trans [OF clash_ran] clash_ran)
  moreover have "tame_value v" if "v \<in> ran (map_of data)" for v
    using that t by (auto simp: ran_def tame_def list_all_iff dest: map_of_SomeD)
  ultimately show ?thesis
    by (auto simp: field_value_def tame_value_def ran_def split: option.splits)
qed

text \<open>An entry cannot forge a line of the log: whatever the message and the string and error values of the fields
  contain, the text formatter without colours makes exactly one line of it, as long as the keys and the
  texts of other values have no line feed.\<close>

theorem log_one_line:
  assumes "tame (enData e)" and "DisableColors f \<or> \<not> ForceColors f \<and> \<not> lgTerminal env"
  shows "\<exists>t. fst (TextFormatter_Format env now f e) = t @ [CHR 0x0A] \<and> CHR 0x0A \<notin> set t"
proof -
  let ?keys = "if DisableSorting f then map fst (enData e) else sort (map fst (enData e))"
  let ?data = "prefixFieldClashes (enData e)"
  have "one_line k" if "k \<in> set ?keys" for k
    using that assms(1) by (auto simp: tame_def list_all_iff split: if_splits)
  then have "one_line (concat (map (\<lambda>key. appendKeyValue env key (field_value ?data key)) ?keys))"
    using field_value_tame [OF assms(1)] unfolding one_line_concat set_map by (blast intro: appendKeyValue_line)
  moreover have "one_line (appendKeyValue env k (LString t))" if "k \<in> {''time'', ''level'', ''msg''}" for k t
    using that by (intro appendKeyValue_line) (auto simp: tame_value_def)
  ultimately show ?thesis using assms(2)
    by (auto simp: TextFormatter_Format_def Let_def one_line_def [symmetric])
qed

theorem log_one_line_witness:
  "\<exists>t. fst (TextFormatter_Format sample_env 0 new_TextFormatter
       \<lparr>enData = [(''object'', LString [CHR ''a'', CHR 0x0A])], enTime = 0, enLevel = 4, enMessage = [CHR 0x0A, CHR ''x'']\<rparr>) =
     t @ [CHR 0x0A] \<and> CHR 0x0A \<notin> set t"
  by (rule log_one_line) (simp_all add: tame_def tame_value_def one_line_def new_TextFormatter_def sample_env_def)

section \<open>The order of a map\<close>

lemma map_of_clash: "map_of (clash key data) = (case map_of data key of None \<Rightarrow> map_of data | Some v \<Rightarrow> (map_of data)(''fields.'' @ key \<mapsto> v))"
  by (simp add: clash_def update_conv' split: option.splits)

lemma field_value_order: "map_of data = map_of data' \<Longrightarrow> field_value (prefixFieldClashes data) = field_value (prefixFieldClashes data')"
proof -
  have step: "map_of d = map_of d' \<Longrightarrow> map_of (clash key d) = map_of (clash key d')" for key d d'
    by (simp add: map_of_clash split: option.splits)
  assume "map_of data = map_of data'"
  then have "map_of (prefixFieldClashes data) = map_of (prefixFieldClashes data')"
    unfolding prefixFieldClashes_def by (intro step)
  then show ?thesis by (simp add: field_value_def fun_eq_iff)
qed

text \<open>With sorting enabled the text of an entry does not depend on the order in which \<open>range\<close> visits its fields.\<close>

theorem log_order_independent:
  assumes "mset (enData e) = mset data" and "distinct (map fst (enData e))" and "\<not> DisableSorting f"
  shows "fst (TextFormatter_Format env now f (e\<lparr>enData := data\<rparr>)) = fst (TextFormatter_Format env now f e)"
proof -
  have keys: "mset (map fst data) = mset (map fst (enData e))" using assms(1) by (metis mset_map)
  then have sorted: "sort (map fst data) = sort (map fst (enData e))"
    by (metis sorted_list_of_multiset_mset)
  have "distinct (map fst data)" using keys assms(2) by (metis mset_eq_imp_distinct_iff)
  moreover have "set data = set (enData e)" using assms(1) by (metis mset_eq_setD)
  ultimately have "map_of data = map_of (enData e)" using assms(2) by (simp add: map_of_inject_set)
  then have "field_value (prefixFieldClashes data) = field_value (prefixFieldClashes (enData e))"
    by (rule field_value_order)
  with sorted assms(3) show ?thesis by (simp add: TextFormatter_Format_def printColored_def Let_def)
qed

theorem log_order_independent_witness:
  "fst (TextFormatter_Format sample_env 0 new_TextFormatter
      \<lparr>enData = [(''b'', LInt 2), (''a'', LInt 1)], enTime = 0, enLevel = 4, enMessage = ''x''\<rparr>) =
   fst (TextFormatter_Format sample_env 0 new_TextFormatter
      \<lparr>enData = [(''a'', LInt 1), (''b'', LInt 2)], enTime = 0, enLevel = 4, enMessage = ''x''\<rparr>)"
  using log_order_independent [of "\<lparr>enData = [(''a'', LInt 1), (''b'', LInt 2)], enTime = 0, enLevel = 4, enMessage = ''x''\<rparr>"
      "[(''b'', LInt 2), (''a'', LInt 1)]" new_TextFormatter sample_env 0]
  by (simp add: new_TextFormatter_def)

text \<open>The keys are collected before clashing fields are copied to prefixed ones, so a field \<open>level\<close> is printed under its own name,
  beside the level of the entry, and not as \<open>fields.level\<close>.\<close>

theorem clash_not_prefixed:
  "fst (TextFormatter_Format sample_env 0 (new_TextFormatter\<lparr>DisableTimestamp := True\<rparr>)
     \<lparr>enData = [(''level'', LInt 1)], enTime = 0, enLevel = 4, enMessage = ''hello''\<rparr>) =
   ''level=info msg=hello level=1 '' @ [CHR 0x0A]"
  by code_simp

end
