(* ===== verification/LogHooks.thy ===== *)
theory LogHooks
  imports Logrus
begin

text \<open>
  The hooks that come with \<open>logrus\<close> (\<open>hooks/sentry\<close>, \<open>bugsnag\<close>, \<open>airbrake\<close>, \<open>syslog\<close>, \<open>papertrail\<close>) and
  the formatter for logstash. Each hook hands something to a service; the answers of
  the services, and the clients of them that are not in the repository, are parameters. \<open>entry.Data\<close> is a
  shared map: what a hook or the formatter does to it stays in the entry.
\<close>

section \<open>Sentry\<close>

datatype raven_severity = RDebug | RInfo | RWarning | RError | RFatal | RNone

definition severityMap :: "Level \<Rightarrow> raven_severity" where
  "severityMap l =
     (if l = DebugLevel then RDebug else if l = InfoLevel then RInfo else if l = WarnLevel then RWarning
      else if l = ErrorLevel then RError else if l = FatalLevel then RFatal else if l = PanicLevel then RFatal
      else RNone)"

definition getAndDel :: "Fields \<Rightarrow> string \<Rightarrow> (string \<times> bool) \<times> Fields" where
  "getAndDel d key =
     (case map_of d key of
        Some (LString val) \<Rightarrow> ((val, True), AList.delete key d)
      | _ \<Rightarrow> (([], False), d))"

record raven_packet =
  rpMessage :: string
  rpTimestamp :: int
  rpLevel :: raven_severity
  rpPlatform :: string
  rpLogger :: string
  rpServerName :: string
  rpInterfaces :: "string list"
  rpExtra :: Fields

text \<open>
  The service: the request behind a value that is a non-nil \<open>*http.Request\<close>, the answer to a packet within
  the timeout (\<open>None\<close> when there is none), the text of a duration; whether \<open>raven.NewClient\<close> takes the address.
\<close>

record raven =
  rvRequest :: "lvalue \<Rightarrow> string option"
  rvCapture :: "raven_packet \<Rightarrow> string option option"
  rvDuration :: "int \<Rightarrow> string"
  rvNewClient :: "string \<Rightarrow> string option"

definition getAndDelRequest :: "raven \<Rightarrow> Fields \<Rightarrow> string \<Rightarrow> string option \<times> Fields" where
  "getAndDelRequest rv d key =
     (case map_of d key of
        None \<Rightarrow> (None, d)
      | Some v \<Rightarrow> (case rvRequest rv v of None \<Rightarrow> (None, d) | Some req \<Rightarrow> (Some req, AList.delete key d)))"

record SentryHook =
  sTimeout :: int
  sLevels :: "Level list"

definition NewSentryHook :: "raven \<Rightarrow> string \<Rightarrow> Level list \<Rightarrow> string + SentryHook" where
  "NewSentryHook rv DSN levels =
     (case rvNewClient rv DSN of Some err \<Rightarrow> Inl err | None \<Rightarrow> Inr \<lparr>sTimeout = 100 * 10 ^ 6, sLevels = levels\<rparr>)"

text \<open>The packet that is captured and what is left of the entry: \<open>packet.Extra\<close> is the map of the entry itself.\<close>

definition sentry_packet :: "raven \<Rightarrow> Entry \<Rightarrow> raven_packet \<times> Entry" where
  "sentry_packet rv e =
     (let ((logger, ok1), d) = getAndDel (enData e) ''logger'';
          ((serverName, ok2), d) = getAndDel d ''server_name'';
          (req, d) = getAndDelRequest rv d ''http_request''
      in (\<lparr>rpMessage = enMessage e, rpTimestamp = enTime e, rpLevel = severityMap (enLevel e), rpPlatform = ''go'',
            rpLogger = (if ok1 then logger else []), rpServerName = (if ok2 then serverName else []),
            rpInterfaces = (case req of Some r \<Rightarrow> [r] | None \<Rightarrow> []), rpExtra = d\<rparr>,
          e\<lparr>enData := d\<rparr>))"

definition sentry_Fire :: "raven \<Rightarrow> SentryHook \<Rightarrow> Entry \<Rightarrow> Entry \<times> string option" where
  "sentry_Fire rv hook e =
     (case sentry_packet rv e of (packet, e) \<Rightarrow>
        (e, if sTimeout hook \<noteq> 0 then
              (case rvCapture rv packet of
                 Some err \<Rightarrow> err
               | None \<Rightarrow> Some (''no response from sentry server in '' @ rvDuration rv (sTimeout hook)))
            else None))"

definition sentry_Levels :: "SentryHook \<Rightarrow> Level list" where
  "sentry_Levels hook = sLevels hook"

definition sentry_hook :: "raven \<Rightarrow> SentryHook \<Rightarrow> Hook" where
  "sentry_hook rv hook = \<lparr>hkLevels = sentry_Levels hook, hkFire = sentry_Fire rv hook\<rparr>"

section \<open>Bugsnag and Airbrake\<close>

text \<open>Both send the error of the field \<open>error\<close>, or one made of the message. \<open>notify\<close> is the service.\<close>

definition notifyErr :: "Entry \<Rightarrow> string" where
  "notifyErr e = (case map_of (enData e) ''error'' of Some (LError err) \<Rightarrow> err | _ \<Rightarrow> enMessage e)"

definition ErrBugsnagUnconfigured :: string where
  "ErrBugsnagUnconfigured = ''bugsnag must be configured before installing this logrus hook''"

definition NewBugsnagHook :: "string \<Rightarrow> string option" where
  "NewBugsnagHook apiKey = (if apiKey = [] then Some ErrBugsnagUnconfigured else None)"

definition ErrBugsnagSendFailed :: "string \<Rightarrow> string" where
  "ErrBugsnagSendFailed err = ''failed to send error to Bugsnag: '' @ err"

definition bugsnag_Fire :: "(string \<Rightarrow> string option) \<Rightarrow> Entry \<Rightarrow> Entry \<times> string option" where
  "bugsnag_Fire notify e = (e, map_option ErrBugsnagSendFailed (notify (notifyErr e)))"

definition bugsnag_Levels :: "Level list" where
  "bugsnag_Levels = [ErrorLevel, FatalLevel, PanicLevel]"

definition bugsnag_hook :: "(string \<Rightarrow> string option) \<Rightarrow> Hook" where
  "bugsnag_hook notify = \<lparr>hkLevels = bugsnag_Levels, hkFire = bugsnag_Fire notify\<rparr>"

record airbrakeHook =
  abAPIKey :: string
  abEndpoint :: string
  abEnvironment :: string

definition NewHook :: "string \<Rightarrow> string \<Rightarrow> string \<Rightarrow> airbrakeHook" where
  "NewHook endpoint apiKey env = \<lparr>abAPIKey = apiKey, abEndpoint = endpoint, abEnvironment = env\<rparr>"

text \<open>The package variables of the client are set before every call; they are an argument of it.\<close>

definition airbrake_Fire :: "(airbrakeHook \<Rightarrow> string \<Rightarrow> string option) \<Rightarrow> airbrakeHook \<Rightarrow> Entry \<Rightarrow> Entry \<times> string option" where
  "airbrake_Fire notify hook e =
     (e, map_option (\<lambda>err. ''Failed to send error to Airbrake: '' @ err) (notify hook (notifyErr e)))"

definition airbrake_Levels :: "Level list" where
  "airbrake_Levels = [ErrorLevel, FatalLevel, PanicLevel]"

definition airbrake_hook :: "(airbrakeHook \<Rightarrow> string \<Rightarrow> string option) \<Rightarrow> airbrakeHook \<Rightarrow> Hook" where
  "airbrake_hook notify hook = \<lparr>hkLevels = airbrake_Levels, hkFire = airbrake_Fire notify hook\<rparr>"

section \<open>Syslog and Papertrail\<close>

text \<open>
  Both send the text that the formatter of the logger makes of the entry. \<open>Writer\<close> is the connection
  to the daemon. What they print to standard error is left out.
\<close>

datatype severity = SCrit | SErr | SWarning | SInfo | SDebug

definition syslog_severity :: "Level \<Rightarrow> severity option" where
  "syslog_severity level =
     (if level = PanicLevel then Some SCrit else if level = FatalLevel then Some SCrit
      else if level = ErrorLevel then Some SErr else if level = WarnLevel then Some SWarning
      else if level = InfoLevel then Some SInfo else if level = DebugLevel then Some SDebug else None)"

definition syslog_Fire ::
    "log_env \<Rightarrow> int \<Rightarrow> lstate \<Rightarrow> (severity \<Rightarrow> string \<Rightarrow> string option) \<Rightarrow> Entry \<Rightarrow> Entry \<times> string option" where
  "syslog_Fire env now s Writer e =
     (case Entry_String env now e s of
        (Inl err, e, _) \<Rightarrow> (e, Some err)
      | (Inr line, e, _) \<Rightarrow> (e, case syslog_severity (enLevel e) of Some sev \<Rightarrow> Writer sev line | None \<Rightarrow> None))"

definition all_levels :: "Level list" where
  "all_levels = [PanicLevel, FatalLevel, ErrorLevel, WarnLevel, InfoLevel, DebugLevel]"

definition syslog_hook :: "log_env \<Rightarrow> int \<Rightarrow> lstate \<Rightarrow> (severity \<Rightarrow> string \<Rightarrow> string option) \<Rightarrow> Hook" where
  "syslog_hook env now s Writer = \<lparr>hkLevels = all_levels, hkFire = syslog_Fire env now s Writer\<rparr>"

definition papertrail_payload :: "log_env \<Rightarrow> int \<Rightarrow> string \<Rightarrow> string \<Rightarrow> string" where
  "papertrail_payload env now appName msg =
     ''<22> '' @ lgTimeFormat env now ''Jan 2 15:04:05'' @ '' '' @ appName @ '': '' @ msg"

definition papertrail_Fire ::
    "log_env \<Rightarrow> int \<Rightarrow> lstate \<Rightarrow> string \<Rightarrow> (bytes \<Rightarrow> string option) \<Rightarrow> Entry \<Rightarrow> Entry \<times> string option" where
  "papertrail_Fire env now s appName UDPConn e =
     (case Entry_String env now e s of
        (r, e, _) \<Rightarrow>
          (e, UDPConn (str_bytes (papertrail_payload env now appName (case r of Inr msg \<Rightarrow> msg | Inl err \<Rightarrow> [])))))"

definition papertrail_hook :: "log_env \<Rightarrow> int \<Rightarrow> lstate \<Rightarrow> string \<Rightarrow> (bytes \<Rightarrow> string option) \<Rightarrow> Hook" where
  "papertrail_hook env now s appName UDPConn = \<lparr>hkLevels = all_levels, hkFire = papertrail_Fire env now s appName UDPConn\<rparr>"

text \<open>The constructors return a hook also when dialling failed, then without a connection.\<close>

record SyslogHook =
  syWriter :: "(severity \<Rightarrow> string \<Rightarrow> string option) option"
  SyslogNetwork :: string
  SyslogRaddr :: string

definition NewSyslogHook ::
    "(string \<Rightarrow> string \<Rightarrow> int \<Rightarrow> string \<Rightarrow> string + (severity \<Rightarrow> string \<Rightarrow> string option)) \<Rightarrow>
     string \<Rightarrow> string \<Rightarrow> int \<Rightarrow> string \<Rightarrow> SyslogHook \<times> string option" where
  "NewSyslogHook Dial network raddr priority tag =
     (case Dial network raddr priority tag of
        Inl err \<Rightarrow> (\<lparr>syWriter = None, SyslogNetwork = network, SyslogRaddr = raddr\<rparr>, Some err)
      | Inr w \<Rightarrow> (\<lparr>syWriter = Some w, SyslogNetwork = network, SyslogRaddr = raddr\<rparr>, None))"

record PapertrailHook =
  ptHost :: string
  ptPort :: int
  ptAppName :: string
  ptUDPConn :: "(bytes \<Rightarrow> string option) option"

definition NewPapertrailHook ::
    "(string \<Rightarrow> string \<Rightarrow> string + (bytes \<Rightarrow> string option)) \<Rightarrow> string \<Rightarrow> int \<Rightarrow> string \<Rightarrow> PapertrailHook \<times> string option" where
  "NewPapertrailHook Dial host port appName =
     (case Dial ''udp'' (host @ '':'' @ FormatInt port) of
        Inl err \<Rightarrow> (\<lparr>ptHost = host, ptPort = port, ptAppName = appName, ptUDPConn = None\<rparr>, Some err)
      | Inr c \<Rightarrow> (\<lparr>ptHost = host, ptPort = port, ptAppName = appName, ptUDPConn = Some c\<rparr>, None))"

section \<open>Logstash\<close>

record LogstashFormatter =
  lsfType :: string
  lsfTimestampFormat :: string

text \<open>A field of the format, after a field of the same name was copied.\<close>

definition set_clashing :: "string \<Rightarrow> lvalue \<Rightarrow> Fields \<Rightarrow> Fields" where
  "set_clashing key v data = AList.update key v (clash key data)"

definition logstash_data :: "log_env \<Rightarrow> LogstashFormatter \<Rightarrow> Entry \<Rightarrow> Fields" where
  "logstash_data env f e =
     (let ts = (if lsfTimestampFormat f = [] then DefaultTimestampFormat else lsfTimestampFormat f);
          data = AList.update ''@version'' (LInt 1) (enData e);
          data = AList.update ''@timestamp'' (LString (lgTimeFormat env (enTime e) ts)) data;
          data = set_clashing ''message'' (LString (enMessage e)) data;
          data = set_clashing ''level'' (LString (Level_String (enLevel e))) data
      in if lsfType f \<noteq> [] then set_clashing ''type'' (LString (lsfType f)) data else data)"

definition logstash_Format :: "log_env \<Rightarrow> LogstashFormatter \<Rightarrow> Entry \<Rightarrow> (string + string) \<times> Entry" where
  "logstash_Format env f e =
     (let e = e\<lparr>enData := logstash_data env f e\<rparr>
      in (case lgMarshal env (enData e) of
            Inl err \<Rightarrow> Inl (''Failed to marshal fields to JSON, '' @ err)
          | Inr serialized \<Rightarrow> Inr (serialized @ [CHR 0x0A]), e))"

definition logstash :: "log_env \<Rightarrow> LogstashFormatter \<Rightarrow> formatter" where
  "logstash env f = FCustom (logstash_Format env f)"

section \<open>What the hooks and the formatter do\<close>

text \<open>Hooks fire in the order in which they were added, each for its own levels.\<close>

lemma add_levels_eq:
  "distinct ls \<Longrightarrow> add_levels h ls hooks l = hooks l @ (if l \<in> set ls then [h] else [])"
  by (induction ls arbitrary: hooks) auto

theorem hooks_added:
  "list_all (\<lambda>h. distinct (hkLevels h)) hs \<Longrightarrow>
     fold LevelHooks_Add hs hooks l = hooks l @ filter (\<lambda>h. l \<in> set (hkLevels h)) hs"
  by (induction hs arbitrary: hooks) (auto simp: LevelHooks_Add_def add_levels_eq)

text \<open>Errors and worse reach the trackers, everything reaches the two that carry lines.\<close>

theorem tracker_levels:
  "fold LevelHooks_Add [bugsnag_hook nb, airbrake_hook na ah, syslog_hook env now s w, papertrail_hook env now s app u]
     (\<lambda>_. []) l =
   (if l \<le> ErrorLevel then [bugsnag_hook nb, airbrake_hook na ah] else []) @
   (if l \<le> DebugLevel then [syslog_hook env now s w, papertrail_hook env now s app u] else [])"
proof -
  have levels: "l \<in> set bugsnag_Levels \<longleftrightarrow> l \<le> ErrorLevel" "l \<in> set airbrake_Levels \<longleftrightarrow> l \<le> ErrorLevel"
    "l \<in> set all_levels \<longleftrightarrow> l \<le> DebugLevel"
    by (auto simp: bugsnag_Levels_def airbrake_Levels_def all_levels_def word_le_nat_alt word_unat_eq_iff)
  show ?thesis
    by (subst hooks_added)
      (simp_all add: bugsnag_hook_def airbrake_hook_def syslog_hook_def papertrail_hook_def levels,
       simp_all add: bugsnag_Levels_def airbrake_Levels_def all_levels_def)
qed

text \<open>
  Sentry: nothing is lost. A field is in the packet as the logger, the server name or the request, or it is
  among the extra fields.
\<close>

definition special :: "raven \<Rightarrow> string \<Rightarrow> lvalue \<Rightarrow> bool" where
  "special rv k v \<longleftrightarrow> k \<in> {''logger'', ''server_name''} \<and> is_string v \<or> k = ''http_request'' \<and> rvRequest rv v \<noteq> None"

lemma map_of_getAndDel:
  "map_of (snd (getAndDel d key)) k =
     (case map_of d k of Some v \<Rightarrow> if k = key \<and> is_string v then None else Some v | None \<Rightarrow> None)"
  by (auto simp: getAndDel_def is_string_def delete_conv split: option.split lvalue.split)

lemma map_of_getAndDelRequest:
  "map_of (snd (getAndDelRequest rv d key)) k =
     (case map_of d k of Some v \<Rightarrow> if k = key \<and> rvRequest rv v \<noteq> None then None else Some v | None \<Rightarrow> None)"
  by (auto simp: getAndDelRequest_def delete_conv split: option.split)

lemma getAndDel_string:
  "map_of d key = Some v \<Longrightarrow> is_string v \<Longrightarrow> getAndDel d key = (x, d') \<Longrightarrow> v = LString (fst x) \<and> snd x"
  by (auto simp: getAndDel_def is_string_def split: lvalue.splits)

lemma getAndDelRequest_request:
  "map_of d key = Some v \<Longrightarrow> rvRequest rv v \<noteq> None \<Longrightarrow> getAndDelRequest rv d key = (x, d') \<Longrightarrow> x = rvRequest rv v"
  by (auto simp: getAndDelRequest_def)

lemma sentry_packet_fields:
  assumes "sentry_packet rv e = (p, e')"
  obtains x1 d1 x2 d2 x3 where "getAndDel (enData e) ''logger'' = (x1, d1)" and "getAndDel d1 ''server_name'' = (x2, d2)"
    and "getAndDelRequest rv d2 ''http_request'' = (x3, rpExtra p)" and "enData e' = rpExtra p"
    and "rpLogger p = (if snd x1 then fst x1 else [])" and "rpServerName p = (if snd x2 then fst x2 else [])"
    and "rpInterfaces p = (case x3 of Some r \<Rightarrow> [r] | None \<Rightarrow> [])"
proof -
  obtain x1 d1 where 1: "getAndDel (enData e) ''logger'' = (x1, d1)" by (metis surj_pair)
  obtain x2 d2 where 2: "getAndDel d1 ''server_name'' = (x2, d2)" by (metis surj_pair)
  obtain x3 d3 where 3: "getAndDelRequest rv d2 ''http_request'' = (x3, d3)" by (metis surj_pair)
  show ?thesis
    using assms that [OF 1 2] 3 unfolding sentry_packet_def 1 Let_def by (auto simp: 2 3 split_def)
qed

theorem sentry_keeps_fields:
  assumes "sentry_packet rv e = (p, e')" and "map_of (enData e) k = Some v"
  shows "if special rv k v
    then (k = ''logger'' \<longrightarrow> v = LString (rpLogger p)) \<and> (k = ''server_name'' \<longrightarrow> v = LString (rpServerName p)) \<and>
      (k = ''http_request'' \<longrightarrow> rpInterfaces p = [the (rvRequest rv v)]) \<and> map_of (enData e') k = None
    else map_of (rpExtra p) k = Some v \<and> map_of (enData e') k = Some v"
proof -
  obtain x1 d1 x2 d2 x3 where f: "getAndDel (enData e) ''logger'' = (x1, d1)" "getAndDel d1 ''server_name'' = (x2, d2)"
      "getAndDelRequest rv d2 ''http_request'' = (x3, rpExtra p)" "enData e' = rpExtra p"
      "rpLogger p = (if snd x1 then fst x1 else [])" "rpServerName p = (if snd x2 then fst x2 else [])"
      "rpInterfaces p = (case x3 of Some r \<Rightarrow> [r] | None \<Rightarrow> [])"
    by (rule sentry_packet_fields [OF assms(1)])
  have d1: "map_of d1 k = (if k = ''logger'' \<and> is_string v then None else Some v)"
    using map_of_getAndDel [of "enData e" "''logger''" k] f(1) assms(2) by simp
  have d2: "map_of d2 k = (if (k = ''logger'' \<or> k = ''server_name'') \<and> is_string v then None else Some v)"
    using map_of_getAndDel [of d1 "''server_name''" k] f(2) d1 by simp
  have d3: "map_of (rpExtra p) k = (if special rv k v then None else Some v)"
    using map_of_getAndDelRequest [of rv d2 "''http_request''" k] f(3)
    unfolding d2 special_def by (auto split: if_splits)
  consider "k = ''logger''" | "k = ''server_name''" | "k = ''http_request''"
    | "k \<notin> {''logger'', ''server_name'', ''http_request''}" by blast
  then show ?thesis
  proof cases
    case 1
    with d3 f(4,5) assms(2) getAndDel_string [of "enData e" k v x1 d1] f(1) show ?thesis by (simp add: special_def)
  next
    case 2
    with d1 d3 f(4,6) getAndDel_string [of d1 k v x2 d2] f(2) show ?thesis by (simp add: special_def)
  next
    case 3
    with d2 d3 f(4,7) getAndDelRequest_request [of d2 k v rv x3 "rpExtra p"] f(3) show ?thesis
      by (auto simp: special_def)
  next
    case 4
    with d3 f(4) show ?thesis by (simp add: special_def)
  qed
qed

text \<open>The data that logstash is sent.\<close>

lemma map_of_set_clashing:
  "map_of (set_clashing key v data) k =
     (if k = key then Some v else if k = ''fields.'' @ key \<and> map_of data key \<noteq> None then map_of data key else map_of data k)"
  by (auto simp: set_clashing_def clash_def update_conv' split: option.split)

lemma set_clashing_moves:
  "map_of data k = Some v \<Longrightarrow> k \<noteq> ''fields.'' @ key \<Longrightarrow>
     map_of (set_clashing key w data) (if k = key then ''fields.'' @ key else k) = Some v"
  by (auto simp: map_of_set_clashing)

lemma set_clashing_other:
  "k \<noteq> key \<Longrightarrow> k \<noteq> ''fields.'' @ key \<Longrightarrow> map_of (set_clashing key w data) k = map_of data k"
  by (simp add: map_of_set_clashing)

lemma logstash_user_field:
  assumes "map_of (enData e) k = Some v" and "k \<notin> {''@version'', ''@timestamp''}" and "\<And>t. k \<noteq> ''fields.'' @ t"
  shows "map_of (logstash_data env f e) k = Some v \<or> map_of (logstash_data env f e) (''fields.'' @ k) = Some v"
proof -
  define ts where "ts = lgTimeFormat env (enTime e) (if lsfTimestampFormat f = [] then DefaultTimestampFormat else lsfTimestampFormat f)"
  define d0 where "d0 = AList.update ''@timestamp'' (LString ts) (AList.update ''@version'' (LInt 1) (enData e))"
  define d1 where "d1 = set_clashing ''message'' (LString (enMessage e)) d0"
  define d2 where "d2 = set_clashing ''level'' (LString (Level_String (enLevel e))) d1"
  have d: "logstash_data env f e = (if lsfType f \<noteq> [] then set_clashing ''type'' (LString (lsfType f)) d2 else d2)"
    unfolding logstash_data_def d2_def d1_def d0_def ts_def Let_def by (rule refl)
  have a0: "map_of d0 k = Some v" using assms(1,2) by (simp add: d0_def update_conv')
  note a1 = set_clashing_moves [OF a0 assms(3) [of "''message''"], of "LString (enMessage e)", folded d1_def]
  consider (msg) "k = ''message''" | (lvl) "k = ''level''" | (ty) "k = ''type''" | (other) "k \<noteq> ''message''" "k \<noteq> ''level''" "k \<noteq> ''type''" by blast
  then show ?thesis
  proof cases
    case msg
    then have "map_of d2 (''fields.'' @ k) = Some v" using a1 by (simp add: d2_def map_of_set_clashing)
    with msg show ?thesis by (simp add: d map_of_set_clashing)
  next
    case lvl
    then have "map_of d2 (''fields.'' @ k) = Some v" using a1 by (simp add: d2_def map_of_set_clashing)
    with lvl show ?thesis by (simp add: d map_of_set_clashing)
  next
    case ty
    then have "map_of d2 k = Some v" using a1 by (simp add: d2_def map_of_set_clashing)
    with ty show ?thesis by (simp add: d map_of_set_clashing)
  next
    case other
    then have "map_of d1 k = Some v" using a1 by simp
    then have "map_of d2 k = Some v" unfolding d2_def
      using set_clashing_other [OF other(2) assms(3) [of "''level''"]] by simp
    then have "map_of (set_clashing ''type'' w d2) k = Some v" for w
      using set_clashing_other [OF other(3) assms(3) [of "''type''"]] by simp
    with \<open>map_of d2 k = Some v\<close> show ?thesis by (simp only: d split: if_split) simp
  qed
qed

theorem logstash_fields:
  assumes "d = map_of (logstash_data env f e)"
  shows "d ''@version'' = Some (LInt 1) \<and> d ''message'' = Some (LString (enMessage e)) \<and>
    d ''level'' = Some (LString (Level_String (enLevel e))) \<and>
    (lsfType f \<noteq> [] \<longrightarrow> d ''type'' = Some (LString (lsfType f))) \<and>
    (\<forall>k v. map_of (enData e) k = Some v \<longrightarrow> k \<notin> {''@version'', ''@timestamp''} \<longrightarrow> (\<forall>t. k \<noteq> ''fields.'' @ t) \<longrightarrow>
      d k = Some v \<or> d (''fields.'' @ k) = Some v)"
proof (intro conjI)
  show "d ''@version'' = Some (LInt 1)" "d ''message'' = Some (LString (enMessage e))"
    "d ''level'' = Some (LString (Level_String (enLevel e)))"
    "lsfType f \<noteq> [] \<longrightarrow> d ''type'' = Some (LString (lsfType f))"
    unfolding assms logstash_data_def Let_def by (simp_all add: map_of_set_clashing update_conv')
qed (use logstash_user_field [of e _ _ env f] assms in blast)

text \<open>
  The formatter leaves its own fields in the entry, so an entry that is logged a second time, or that a
  hook has formatted before, carries the message of the first time as a field of the user.
\<close>

theorem logstash_twice:
  "map_of (logstash_data env f ((snd (logstash_Format env f e))\<lparr>enMessage := m\<rparr>)) ''fields.message'' =
     Some (LString (enMessage e))"
  by (simp add: logstash_Format_def Let_def logstash_data_def map_of_set_clashing update_conv')

end
