(* ===== verification/Spec2Isabelle.thy ===== *)
theory Spec2Isabelle
  imports Wire_Properties Definition_Properties Bridge_Properties System_Properties Hid_Properties Ws_Properties Autobahn_Properties Chat_Properties
    Filewatch_Properties Lib_Properties Charset_Properties
    Iconv_Properties Log_Properties LogHooks
begin

text \<open>
  rotonde-uavtalk bridges a flight controller that speaks UAVTalk over USB HID and the rotonde
  message bus. \<open>src/uavtalk/\<close> loads the descriptions of the controller's objects from XML files,
  gives each an id, encodes and decodes objects and packets, and runs the connection;
  \<open>src/main.go\<close> keeps the session with the controller and translates packets to rotonde events
  and rotonde actions to packets. The bus itself is reached through the packages vendored under
  \<open>src/Godeps/\<close>: \<open>gorilla/websocket\<close> carries its messages and \<open>mitchellh/mapstructure\<close> turns
  their decoded JSON into Go structures.

  \<^bold>\<open>Theories.\<close> In the order of the import graph:

  \<^item> \<open>Prelude\<close>: Go values, errors, slices with their capacity, strings, little-endian words; the
    locale \<open>fixed_codec\<close> of fixed-width values with its three interpretations.
  \<^item> \<open>Crc8\<close> (\<open>crc8.go\<close>): the table and \<open>computeCrc8\<close>; a bitwise reference; the locale
    \<open>checksum\<close>, interpreted on the CRC step, proves that one changed byte is always noticed.
  \<^item> \<open>GoFloat\<close>: the float64 conversions \<open>maptouavtalk.go\<close>, \<open>session.go\<close> and \<open>main.go\<close> use, on
    the IEEE-754 bits.
  \<^item> \<open>Definitions\<close> (\<open>definitions.go\<close>): the structs as records, \<open>*Definition\<close> as an index into
    \<open>AllDefinitions\<close>, the lookups (locale \<open>first_lookup\<close>, interpreted for ids and names), the
    processing of fields and clones, the order of fields, meta definitions.
  \<^item> \<open>Charset\<close> (\<open>go-charset\<close>) and \<open>UavObjectID\<close> (\<open>uavobjectid.go\<close>): the conversion to Latin-1 and
    the hash that gives an object its id.
  \<^item> \<open>MapToUavtalk\<close>, \<open>UavtalkToMap\<close> (the two files of that name) and \<open>UavtalkCodec\<close>: encoder,
    decoder and the locale \<open>wire_codec\<close> between them, interpreted for scalars and for fields.
  \<^item> \<open>Packet\<close> (\<open>uavtalk.go\<close>): \<open>NewPacket\<close>, \<open>toBinary\<close>, \<open>packetComplete\<close>, \<open>newPacketFromBinary\<close>, the
    length limit of \<open>Start\<close>.
  \<^item> \<open>Loading\<close> (\<open>uavtalk.go\<close>): \<open>newDefinition\<close>, \<open>newDefinitions\<close>, \<open>LoadDefinitions\<close>.
  \<^item> \<open>Connection\<close> (\<open>uavtalk.go\<close>, \<open>utils.go\<close>): the receive buffer and the frame loop of the reader, and
    the specification \<open>rx_spec\<close> on bytes that it refines.
  \<^item> \<open>Wchar\<close> (\<open>cgo.wchar\<close>) and \<open>Hid\<close> (\<open>go.hid\<close>): the conversions between Go strings and wide strings over
    \<open>iconv\<close>, and every function of the wrapper of hidapi.
  \<^item> \<open>Links\<close> (\<open>links.go\<close>): opening, writing and reading the USB device; the locale
    \<open>byte_link\<close>, interpreted on \<open>usbLink.Write\<close> and the payload of its reports.
  \<^item> \<open>Pipeline\<close> (\<open>uavtalk.go\<close>): \<open>start\<close> with its goroutines as an interleaving step relation
    \<open>conn_step\<close> over the two channels of \<open>main.go\<close>.
  \<^item> \<open>Session\<close> (\<open>session.go\<close>) and \<open>Bridge\<close> (\<open>main.go\<close>): the packets the bridge sends, the handlers
    with their shared variables as a state record, the step relations \<open>auth_step\<close> and
    \<open>setter_step\<close>, rotonde actions and definitions.
  \<^item> \<open>System\<close> (\<open>main\<close> and \<open>chanCast\<close> of \<open>main.go\<close>): reader, dispatch, handlers, fetch goroutines, action
    callback and writer over the two bounded channels as one step relation, its measure and invariant.
  \<^item> \<open>WsConn\<close> and \<open>WsReader\<close> (\<open>conn.go\<close> of \<open>gorilla/websocket\<close>): the connection as a record, writing
    frames and control frames, reading frames in the seven steps of \<open>advanceFrame\<close>, the message writer
    and reader. \<open>WsFrames\<close> relates both to the frame format \<open>frame_bytes\<close>; \<open>WsProtocol\<close> holds the
    locale \<open>message_channel\<close>, interpreted on \<open>WriteMessage\<close> and \<open>ReadMessage\<close>, and the operations of
    an application as steps. \<open>WsJson\<close> (\<open>json.go\<close>): the same locale on \<open>WriteJSON\<close> and \<open>ReadJSON\<close>.
    \<open>WsHandshake\<close> (\<open>server.go\<close>, \<open>client.go\<close>, \<open>util.go\<close>): upgrading and dialling. \<open>WsSides\<close>: reading and
    writing on one connection leave each other alone; \<open>WsPing\<close>: pings between messages do not disturb them.
  \<^item> The programs under \<open>examples/\<close> of \<open>gorilla/websocket\<close>. \<open>Utf8Dfa\<close>, \<open>Autobahn\<close> and \<open>AutobahnEcho\<close> (\<open>autobahn\<close>):
    the table-driven UTF-8 decoder against the code points it decodes, the four echo handlers on the
    model of the connection, and the locale \<open>echo_turns\<close>, interpreted on the copying handlers and on
    those that read whole messages. \<open>Chat\<close> (\<open>chat\<close>): the hub and the goroutines of all connections as
    step relations with their invariants. \<open>Filewatch\<close> and \<open>FilewatchLaws\<close> (\<open>filewatch\<close>): polling a file and
    sending its versions, against the specification \<open>watch_texts\<close>.
  \<^item> \<open>Mapstructure\<close> (the package of that name): types and values as \<open>reflect\<close> shows them, the decoder
    for every kind of target, hooks and collected errors; \<open>MapstructureSound\<close>: its soundness.
  \<^item> \<open>Translators\<close>, \<open>TranslatorLaws\<close>, \<open>CharsetIO\<close> and \<open>CharsetRegistry\<close> (\<open>go-charset\<close>): all translators
    as one datatype with one \<open>translate\<close>, the locale \<open>streaming\<close> of what readers and writers need of
    them, interpreted on \<open>translate\<close>, the reader and the writer, and the registry with its cache.
    \<open>IconvTranslator\<close> and \<open>IconvLaws\<close> (\<open>go-charset/charset/iconv\<close>): the translator over the C library, against
    a specification without buffers, and the same locale interpreted on it.
  \<^item> \<open>Logrus\<close> (\<open>logrus\<close>): entries, hooks, the text and the JSON formatter, the methods of the standard logger.
    \<open>LogHooks\<close>: the hooks for sentry, bugsnag, airbrake, syslog and papertrail and the logstash formatter.
  \<^item> \<open>Samples\<close>: concrete definitions and packets for the witnesses.
  \<^item> \<open>Wire_Properties\<close>, \<open>Definition_Properties\<close>, \<open>Bridge_Properties\<close>, \<open>System_Properties\<close>,
    \<open>Hid_Properties\<close>, \<open>Ws_Properties\<close>, \<open>Autobahn_Properties\<close>, \<open>Chat_Properties\<close>,
    \<open>Filewatch_Properties\<close>, \<open>Lib_Properties\<close>, \<open>Charset_Properties\<close>, \<open>Iconv_Properties\<close>,
    \<open>Log_Properties\<close> and this theory: the properties.

  \<^bold>\<open>Conventions.\<close> A result is \<open>error + value\<close>; \<open>Panic\<close> is a Go panic, \<open>Fatal\<close> is \<open>log.Fatal\<close>. A
  handler returns its new state and its effects in order. Integers of the wire are words; lengths and
  element counts, Go \<open>int\<close> in the sources, are unbounded integers, which the sizes of object
  definitions do not come near. Code that is not in the repository is a parameter: the record
  \<open>runtime\<close> (what the Go specification leaves open), \<open>fsys\<close> (directory, files, XML decoder),
  \<open>hidapi\<close> and \<open>iconv_lib\<close> (the C libraries), the calls \<open>handlers.go\<close> makes for a packet, the growth policy of \<open>append\<close>, the clock, \<open>ws_env\<close> (network, clock, random
  numbers and mutex of a WebSocket connection), \<open>hs_env\<close> and \<open>dial_env\<close> (\<open>net/http\<close>, \<open>crypto\<close>, \<open>net\<close>),
  \<open>ms_rt\<close> (decimal floats, Unicode case folding), \<open>json_lib\<close> (\<open>encoding/json\<close>), \<open>log_env\<close> (terminal, time and JSON texts), \<open>raven\<close> and the other services of
  the logging hooks, the polls of the file watcher.

  \<^bold>\<open>Loops and fuel.\<close> \<open>packetComplete\<close>, the frame loop and the translators are total functions with
  termination proofs. \<open>usbLink.Write\<close> can loop for ever on a device that accepts at most two bytes of
  every report, and the connect loop while no device appears: both have fuel, and \<open>usb_write_ends\<close>
  and \<open>connect_succeeds\<close> say how much is enough and when. The loops of the WebSocket reader and the
  decoder of \<open>mapstructure\<close> are total; only the work list of squashed structures may grow for ever
  (\<open>squash_never_returns\<close>) and has the fuel \<open>ms_fuel\<close>, of which one unit suffices for a structure
  without squashed fields (\<open>collectFields_simple\<close>). The loops of the echo handlers end because every turn
  shortens the input. The loop over \<open>iconv\<close> is a partial function: it ends for a library that asks for a
  larger buffer only when the next character needs one (\<open>iconv_translates\<close>).

  \<^bold>\<open>What the properties show.\<close> End to end, packets survive encoding, USB reports and decoding
  (\<open>usb_loopback\<close>); the reader's output depends on the byte stream alone, not on how it is read
  (\<open>reads_do_not_matter\<close>); frames are found behind junk and corrupted ones rejected; channels keep
  order under every interleaving; loaded tables are well formed and their ids unambiguous; the
  session fetches the whole object list; actions reach the objects they name; the process as a whole
  cannot deadlock, comes to rest when left alone with every received packet handled and every sent
  packet written (\<open>system_drains\<close>), and acknowledges and publishes what it receives. WebSocket messages
  survive fragmentation, masking and any cut of the stream, nothing follows a close frame, the
  handshake checks what it must and completes between the two ends; decoding into a Go variable
  respects its type and restores structures from maps; the echo server returns every message and refuses
  text that is not UTF-8, the chat server delivers what was said in order and its hub is never held up,
  the file watcher sends every version once; a call of the logger ends as its name says and
  writes one line. A last group proves
  misbehaviours of the code: panics on short frames and oversized reports, silent loss of wrongly
  typed values, the object counter that is never reset, the map shared between setters, the read
  limit that a negative length evades, the endless loop on squashed fields.

  \<^bold>\<open>Not modelled.\<close> The rotonde client, \<open>handlers.go\<close> and the XML decoder are not in the repository;
  sleeps are dropped, and the components leave out what they log. The handlers may run in any order in \<open>auth_step\<close>, since the dispatch
  is \<open>handlers.go\<close>'s. Goroutines that share one WebSocket connection are not interleaved: its
  operations run one after the other, with the answers of the mutex left to the environment. In
  \<open>Chat\<close> the hub and the pumps are interleaved, but what the network delivers and whether a write
  succeeds is left open there. Of the vendored packages, the generator of the data files of
  \<open>go-charset\<close>, the list of names of \<open>iconv\<close> on systems other than Linux, the home page of the chat server
  and the example programs of \<open>logrus\<close> are left out.
\<close>

section \<open>Receiving\<close>

text \<open>C2: what the reader goroutine produces depends only on the bytes it has read: for any way of cutting
  a byte stream into reads, valid or not, the events are those of the specification on the whole stream,
  and so are the bytes left in the buffer or the panic. Neither the stale bytes of the buffer nor the
  growth policy of \<open>append\<close> has an influence.\<close>

theorem reads_do_not_matter:
  "fst (rx_run grow m defs chunks rx_buffer) = fst (rx_spec m defs (concat chunks)) \<and>
   map_sum (\<lambda>e. e) vis (snd (rx_run grow m defs chunks rx_buffer)) = snd (rx_spec m defs (concat chunks))"
  using rx_run_spec [of m rx_buffer grow defs chunks] by (simp add: rx_buffer_def)

text \<open>C3: a stream of frames, with any bytes other than the sync byte between them, is received as the
  sequence of packets that were sent, however it is cut into reads.\<close>

theorem stream_received:
  assumes "list_all (\<lambda>(junk, p). 0x3c \<notin> set junk \<and> sendable m defs p) jps"
    and "concat chunks = concat (map (\<lambda>(junk, p). junk @ frame_of rt defs p) jps)"
  shows "fst (rx_run grow m defs chunks rx_buffer) = map (\<lambda>(junk, p). RxPacket (packet_dec rt defs p)) jps"
  using rx_spec_frames [OF assms(1), of rt "[]"] rx_run_chunks [of grow m defs chunks] assms(2)
  by (simp add: rx_spec_wait)

theorem stream_received_witness:
  "fst (rx_run (\<lambda>c n. n) 36 sample_defs
      [[0x00, 0x01] @ frame_of sample_rt sample_defs attitude_packet, frame_of sample_rt sample_defs waypoint_packet] rx_buffer) =
   map (\<lambda>(junk, p). RxPacket (packet_dec sample_rt sample_defs p)) [([0x00, 0x01 :: byte], attitude_packet), ([], waypoint_packet)]"
  by (rule stream_received) (use sample_sendable in simp_all)

section \<open>End to end\<close>

text \<open>C1: packets that are encoded by \<open>toBinary\<close>, written through \<open>usbLink.Write\<close>, read back report by report
  through \<open>usbLink.Read\<close> and passed to the reader arrive as the packets that were sent, in order and with
  nothing in between.\<close>

theorem usb_loopback:
  assumes "list_all (sendable m defs) ps" and "length buf = 64" and "length packet = 64"
    and "rs = usb_stream buf (map (frame_of rt defs) ps)"
  shows "\<exists>chunks. read_chunks replay_device l (length rs) packet rs = Inr chunks \<and>
    fst (rx_run grow m defs chunks rx_buffer) = map (\<lambda>p. RxPacket (packet_dec rt defs p)) ps"
proof -
  have chunks: "read_chunks replay_device l (length rs) packet rs = Inr (map report_payload rs)"
    using usb_stream_reports [OF assms(2)] assms(3,4) by (simp add: read_chunks_replay)
  have "list_all (\<lambda>(junk, p). 0x3c \<notin> set junk \<and> sendable m defs p) (map (Pair []) ps)"
    using assms(1) by (simp add: list_all_iff)
  from rx_spec_frames [OF this, of rt "[]"]
  have "fst (rx_spec m defs (concat (map (frame_of rt defs) ps))) = map (\<lambda>p. RxPacket (packet_dec rt defs p)) ps"
    by (simp add: rx_spec_wait comp_def)
  with chunks usb_stream_payload [OF assms(2)] assms(4) rx_run_chunks [of grow m defs "map report_payload rs"]
  show ?thesis by simp
qed

theorem usb_loopback_witness:
  "\<exists>chunks. read_chunks replay_device \<lparr>cc = 0, fixedLengthWriteBuffer = []\<rparr>
      (length (usb_stream (replicate 64 0) (map (frame_of sample_rt sample_defs) [attitude_packet, waypoint_packet])))
      (replicate 64 0) (usb_stream (replicate 64 0) (map (frame_of sample_rt sample_defs) [attitude_packet, waypoint_packet])) =
      Inr chunks \<and>
    fst (rx_run (\<lambda>c n. n) 36 sample_defs chunks rx_buffer) =
      map (\<lambda>p. RxPacket (packet_dec sample_rt sample_defs p)) [attitude_packet, waypoint_packet]"
  by (rule usb_loopback [OF _ _ _ refl]) (use sample_sendable in simp_all)

end
